(* ===== verification/Prelude.thy ===== *)
theory Prelude
  imports Main "HOL-Library.Word"
begin

text \<open>
  What the components share.

  Go strings and byte slices: \<open>bytes\<close> are lists of 8-bit words, a Go string is a HOL string
  (one character per byte). \<open>TrimSpace\<close>, \<open>ToLower\<close> and \<open>EqualFold\<close> are the functions of
  Go's package strings on ASCII text, which is the range of names the model speaks about.
  Indexing and slicing are partial: \<open>None\<close> is Go's run-time panic (a subslice bound above the
  length counts as a panic even where Go's capacity would allow it).

  Effects: an action takes a state and returns an error or a value and the next state.
  \<open>andThen\<close> is \<open>x, err := m(); if err != nil { return err }\<close>, \<open>attempt\<close> hands the error
  to the caller. \<open>keeps I m\<close> says that the action \<open>m\<close> preserves the invariant \<open>I\<close> on every
  path, error paths included; its rules are collected in \<open>keeps_rules\<close>, so that preservation
  is proved along the structure of the code.
\<close>

named_theorems keeps_rules
named_theorems frame_rules
named_theorems act_simps
named_theorems str_simps

section \<open>Bytes and strings\<close>

type_synonym bytes = "8 word list"

definition byte_of :: "char \<Rightarrow> 8 word" where
  "byte_of c = word_of_nat (of_char c)"

definition char_of_byte :: "8 word \<Rightarrow> char" where
  "char_of_byte b = char_of (unat b)"

definition bytes_of :: "string \<Rightarrow> bytes" where
  "bytes_of s = map byte_of s"

definition string_of :: "bytes \<Rightarrow> string" where
  "string_of bs = map char_of_byte bs"

lemma of_char_less_256: "of_char c < (256 :: nat)"
  by (metis nat_of_char_less_256)

lemma char_of_byte_of [simp]: "char_of_byte (byte_of c) = c"
  by (simp add: char_of_byte_def byte_of_def unat_of_nat of_char_less_256)

lemma byte_of_char_of [simp]: "byte_of (char_of_byte b) = b"
proof -
  have "unat b < 256"
    using unsigned_less [of b] by simp
  then show ?thesis
    by (simp add: char_of_byte_def byte_of_def)
qed

lemma string_of_bytes_of [simp]: "string_of (bytes_of s) = s"
  by (simp add: string_of_def bytes_of_def comp_def)

lemma bytes_of_string_of [simp]: "bytes_of (string_of bs) = bs"
  by (simp add: string_of_def bytes_of_def comp_def)

lemma length_bytes_of [simp]: "length (bytes_of s) = length s"
  by (simp add: bytes_of_def)

lemma length_string_of [simp]: "length (string_of bs) = length bs"
  by (simp add: string_of_def)

lemma bytes_of_inject [simp]: "bytes_of s = bytes_of t \<longleftrightarrow> s = t"
  by (metis string_of_bytes_of)

lemma byte_of_inject [simp]: "byte_of c = byte_of d \<longleftrightarrow> c = d"
  by (metis char_of_byte_of)

lemma byte_of_eq_0 [simp]: "byte_of c = 0 \<longleftrightarrow> c = CHR 0x00"
proof -
  have "byte_of CHR 0x00 = 0"
    by (simp add: byte_of_def)
  then show ?thesis
    by (metis byte_of_inject)
qed

definition is_space :: "char \<Rightarrow> bool" where
  "is_space c = (let n = (of_char c :: nat) in n = 32 \<or> (9 \<le> n \<and> n \<le> 13))"

definition TrimSpace :: "string \<Rightarrow> string" where
  "TrimSpace s = rev (dropWhile is_space (rev (dropWhile is_space s)))"

definition lower_char :: "char \<Rightarrow> char" where
  "lower_char c = (let n = (of_char c :: nat) in if 65 \<le> n \<and> n \<le> 90 then char_of (n + 32) else c)"

definition ToLower :: "string \<Rightarrow> string" where
  "ToLower s = map lower_char s"

definition EqualFold :: "string \<Rightarrow> string \<Rightarrow> bool" where
  "EqualFold s t = (ToLower s = ToLower t)"

definition HasPrefix :: "'a list \<Rightarrow> 'a list \<Rightarrow> bool" where
  "HasPrefix s p = (take (length p) s = p)"

fun Contains :: "'a list \<Rightarrow> 'a list \<Rightarrow> bool" where
  "Contains [] sub = (sub = [])"
| "Contains (x # xs) sub = (HasPrefix (x # xs) sub \<or> Contains xs sub)"

lemma lower_char_idem [simp]: "lower_char (lower_char c) = lower_char c"
  by (simp add: lower_char_def Let_def)

lemma ToLower_idem [simp]: "ToLower (ToLower s) = ToLower s"
  by (simp add: ToLower_def comp_def)

lemma EqualFold_refl [simp]: "EqualFold s s"
  by (simp add: EqualFold_def)

lemma EqualFold_sym: "EqualFold s t \<longleftrightarrow> EqualFold t s"
  by (auto simp: EqualFold_def)

lemma dropWhile_rev_stable:
  "s \<noteq> [] \<Longrightarrow> \<not> P (hd s) \<Longrightarrow> \<not> P (last s) \<Longrightarrow>
   rev (dropWhile P (rev (dropWhile P s))) = s"
proof -
  assume s: "s \<noteq> []" and hd: "\<not> P (hd s)" and la: "\<not> P (last s)"
  from s hd have "dropWhile P s = s"
    by (cases s) auto
  moreover from s la have "dropWhile P (rev s) = rev s"
    by (cases s rule: rev_cases) auto
  ultimately show ?thesis by simp
qed

lemma TrimSpace_hd: "TrimSpace s \<noteq> [] \<Longrightarrow> \<not> is_space (last (TrimSpace s))"
  unfolding TrimSpace_def
  by (metis hd_dropWhile last_rev rev_is_Nil_conv)

lemma TrimSpace_last: "TrimSpace s \<noteq> [] \<Longrightarrow> \<not> is_space (hd (TrimSpace s))"
proof -
  let ?t = "dropWhile is_space s"
  assume "TrimSpace s \<noteq> []"
  then have u: "dropWhile is_space (rev ?t) \<noteq> []"
    by (simp add: TrimSpace_def)
  have "rev ?t = takeWhile is_space (rev ?t) @ dropWhile is_space (rev ?t)"
    by simp
  then have "?t = TrimSpace s @ rev (takeWhile is_space (rev ?t))"
    unfolding TrimSpace_def by (metis rev_append rev_rev_ident)
  with \<open>TrimSpace s \<noteq> []\<close> have "hd ?t = hd (TrimSpace s)" and "?t \<noteq> []"
    by (metis hd_append2, metis append_is_Nil_conv)
  then show ?thesis
    using hd_dropWhile by metis
qed

lemma TrimSpace_idem [simp]: "TrimSpace (TrimSpace s) = TrimSpace s"
proof (cases "TrimSpace s = []")
  case True
  then show ?thesis by (simp only: True) (simp add: TrimSpace_def)
next
  case False
  then show ?thesis
    using dropWhile_rev_stable [OF False TrimSpace_last [OF False] TrimSpace_hd [OF False]]
    by (simp add: TrimSpace_def)
qed

lemma TrimSpace_Nil [simp]: "TrimSpace [] = []"
  by (simp add: TrimSpace_def)

section \<open>Errors and numbers in text\<close>

text \<open>
  Go errors the code compares or inspects: the sentinel errors by identity, the constraint
  errors of PostgreSQL by the constraint's name, all others by the text of \<open>Error()\<close>.
\<close>

datatype error =
    NoRows
  | ErrShareAccessManagedInGUI
  | ErrSharePasswordManagedInGUI
  | ErrShareNotOwner
  | UniqueViolation string
  | ForeignKeyViolation string string
  | CheckViolation string string
  | Err string

definition quoted :: "string \<Rightarrow> string" where
  "quoted s = CHR 0x22 # s @ [CHR 0x22]"

fun err_text :: "error \<Rightarrow> string" where
  "err_text NoRows = ''sql: no rows in result set''"
| "err_text ErrShareAccessManagedInGUI = ''share_access_managed_in_gui''"
| "err_text ErrSharePasswordManagedInGUI = ''share_password_managed_in_gui''"
| "err_text ErrShareNotOwner = ''share_not_owner''"
| "err_text (UniqueViolation c) =
     ''ERROR: duplicate key value violates unique constraint '' @ quoted c @ '' (SQLSTATE 23505)''"
| "err_text (ForeignKeyViolation t c) =
     ''ERROR: insert or update on table '' @ quoted t @ '' violates foreign key constraint '' @ quoted c
     @ '' (SQLSTATE 23503)''"
| "err_text (CheckViolation t c) =
     ''ERROR: new row for relation '' @ quoted t @ '' violates check constraint '' @ quoted c
     @ '' (SQLSTATE 23514)''"
| "err_text (Err s) = s"

fun digits_of :: "nat \<Rightarrow> string" where
  "digits_of n = (if n < 10 then [char_of (48 + n)] else digits_of (n div 10) @ [char_of (48 + n mod 10)])"

declare digits_of.simps [simp del]

definition itoa :: "int \<Rightarrow> string" where
  "itoa n = (if n < 0 then CHR ''-'' # digits_of (nat (- n)) else digits_of (nat n))"

section \<open>Partial list access\<close>

definition index :: "'a list \<Rightarrow> nat \<Rightarrow> 'a option" where
  "index xs i = (if i < length xs then Some (xs ! i) else None)"

definition subslice :: "'a list \<Rightarrow> nat \<Rightarrow> nat \<Rightarrow> 'a list option" where
  "subslice xs i j = (if i \<le> j \<and> j \<le> length xs then Some (take (j - i) (drop i xs)) else None)"

lemma index_Some [simp]: "i < length xs \<Longrightarrow> index xs i = Some (xs ! i)"
  by (simp add: index_def)

lemma subslice_Some [simp]: "i \<le> j \<Longrightarrow> j \<le> length xs \<Longrightarrow> subslice xs i j = Some (take (j - i) (drop i xs))"
  by (simp add: subslice_def)

text \<open>\<open>bytes.IndexByte\<close>: the first position of a byte.\<close>

fun IndexByte :: "'a list \<Rightarrow> 'a \<Rightarrow> nat option" where
  "IndexByte [] x = None"
| "IndexByte (y # ys) x = (if y = x then Some 0 else map_option Suc (IndexByte ys x))"

lemma IndexByte_append:
  "x \<notin> set ys \<Longrightarrow> IndexByte (ys @ x # zs) x = Some (length ys)"
  by (induction ys) auto

lemma IndexByte_less: "IndexByte ys x = Some n \<Longrightarrow> n < length ys"
  by (induction ys arbitrary: n) (auto split: if_splits)

definition xor_bytes :: "bytes \<Rightarrow> bytes \<Rightarrow> bytes" where
  "xor_bytes xs ys = map2 (xor) xs ys"

lemma xor_bytes_twice: "length xs \<le> length ks \<Longrightarrow> xor_bytes (xor_bytes xs ks) ks = xs"
  unfolding xor_bytes_def
  by (induction xs ks rule: list_induct2') (auto simp: xor.assoc)

lemma length_xor_bytes [simp]: "length (xor_bytes xs ys) = min (length xs) (length ys)"
  by (simp add: xor_bytes_def)

text \<open>Blocks of \<open>n\<close> elements, the last one possibly shorter.\<close>

fun chunks :: "nat \<Rightarrow> 'a list \<Rightarrow> 'a list list" where
  "chunks n [] = []"
| "chunks n (x # xs) = take n (x # xs) # chunks n (drop (n - 1) xs)"

section \<open>Keep the first occurrence\<close>

text \<open>
  The loop \<open>for x in xs { if bad(x) || seen[x] { continue }; seen[x] = true; out = append(out, x) }\<close>,
  which the store runs over ids and role names, with the set of keys seen so far.
\<close>

fun dedup_from :: "('a \<Rightarrow> bool) \<Rightarrow> 'a set \<Rightarrow> 'a list \<Rightarrow> 'a list" where
  "dedup_from bad seen [] = []"
| "dedup_from bad seen (x # xs) =
     (if bad x \<or> x \<in> seen then dedup_from bad seen xs
      else x # dedup_from bad (insert x seen) xs)"

definition dedup :: "('a \<Rightarrow> bool) \<Rightarrow> 'a list \<Rightarrow> 'a list" where
  "dedup bad xs = dedup_from bad {} xs"

lemma set_dedup_from: "set (dedup_from bad seen xs) = {x \<in> set xs. \<not> bad x \<and> x \<notin> seen}"
  by (induction bad seen xs rule: dedup_from.induct) auto

lemma distinct_dedup_from: "distinct (dedup_from bad seen xs)"
  by (induction bad seen xs rule: dedup_from.induct) (auto simp: set_dedup_from)

lemma set_dedup [simp]: "set (dedup bad xs) = {x \<in> set xs. \<not> bad x}"
  by (simp add: dedup_def set_dedup_from)

lemma distinct_dedup [simp]: "distinct (dedup bad xs)"
  by (simp add: dedup_def distinct_dedup_from)

lemma dedup_from_id:
  "distinct xs \<Longrightarrow> set xs \<inter> seen = {} \<Longrightarrow> \<forall>x \<in> set xs. \<not> bad x \<Longrightarrow> dedup_from bad seen xs = xs"
  by (induction bad seen xs rule: dedup_from.induct) auto

lemma dedup_dedup [simp]: "dedup bad (dedup bad xs) = dedup bad xs"
  unfolding dedup_def
  by (rule dedup_from_id) (auto simp: distinct_dedup_from set_dedup_from)

lemma dedup_Nil [simp]: "dedup bad [] = []"
  by (simp add: dedup_def)

section \<open>Rows found by a key\<close>

lemma filter_unique_key:
  "distinct (map k xs) \<Longrightarrow> x \<in> set xs \<Longrightarrow> filter (\<lambda>y. k y = k x) xs = [x]"
  by (induction xs) (auto simp: filter_empty_conv rev_image_eqI)

lemma filter_ConsD: "filter P xs = y # ys \<Longrightarrow> y \<in> set xs \<and> P y"
proof -
  assume "filter P xs = y # ys"
  then have "y \<in> set (filter P xs)" by simp
  then show ?thesis by simp
qed

lemma filter_singleD:
  assumes "filter P xs = [x]" and "y \<in> set xs" and "P y"
  shows "y = x"
proof -
  have "y \<in> set (filter P xs)" using assms(2,3) by simp
  then show ?thesis unfolding assms(1) by simp
qed

lemma unique_key_eq: "distinct (map k xs) \<Longrightarrow> x \<in> set xs \<Longrightarrow> y \<in> set xs \<Longrightarrow> k x = k y \<Longrightarrow> x = y"
  by (metis distinct_map inj_onD)

section \<open>Actions\<close>

type_synonym ('s, 'a) action = "'s \<Rightarrow> (error + 'a) \<times> 's"

definition ret :: "'a \<Rightarrow> ('s, 'a) action" where
  "ret x s = (Inr x, s)"

definition fail :: "error \<Rightarrow> ('s, 'a) action" where
  "fail e s = (Inl e, s)"

definition andThen :: "('s, 'a) action \<Rightarrow> ('a \<Rightarrow> ('s, 'b) action) \<Rightarrow> ('s, 'b) action" where
  "andThen m f s = (case m s of (Inl e, s') \<Rightarrow> (Inl e, s') | (Inr x, s') \<Rightarrow> f x s')"

definition attempt :: "('s, 'a) action \<Rightarrow> (error + 'a \<Rightarrow> ('s, 'b) action) \<Rightarrow> ('s, 'b) action" where
  "attempt m f s = (case m s of (r, s') \<Rightarrow> f r s')"

definition ignore :: "('s, 'a) action \<Rightarrow> ('s, unit) action" where
  "ignore m = attempt m (\<lambda>_. ret ())"

fun for_each :: "('a \<Rightarrow> ('s, unit) action) \<Rightarrow> 'a list \<Rightarrow> ('s, unit) action" where
  "for_each f [] = ret ()"
| "for_each f (x # xs) = andThen (f x) (\<lambda>_. for_each f xs)"

text \<open>A loop that appends what each iteration yields (\<open>None\<close> is \<open>continue\<close>).\<close>

fun collect_each :: "('a \<Rightarrow> ('s, 'b option) action) \<Rightarrow> 'a list \<Rightarrow> ('s, 'b list) action" where
  "collect_each f [] = ret []"
| "collect_each f (x # xs) =
     andThen (f x) (\<lambda>y. andThen (collect_each f xs)
       (\<lambda>ys. ret (case y of None \<Rightarrow> ys | Some v \<Rightarrow> v # ys)))"

lemma ret_apply [simp, act_simps]: "ret x s = (Inr x, s)"
  by (simp add: ret_def)

lemma fail_apply [simp, act_simps]: "fail e s = (Inl e, s)"
  by (simp add: fail_def)

lemma andThen_Inr [simp, act_simps]: "m s = (Inr x, s') \<Longrightarrow> andThen m f s = f x s'"
  by (simp add: andThen_def)

lemma andThen_Inl [simp, act_simps]: "m s = (Inl e, s') \<Longrightarrow> andThen m f s = (Inl e, s')"
  by (simp add: andThen_def)

lemma attempt_apply [act_simps]: "m s = (r, s') \<Longrightarrow> attempt m f s = f r s'"
  by (simp add: attempt_def)

lemma ignore_apply [simp]: "ignore m s = (Inr (), snd (m s))"
  by (simp add: ignore_def attempt_def split: prod.splits)

lemma andThen_InrE:
  assumes "andThen m f s = (Inr y, s'')"
  obtains x s' where "m s = (Inr x, s')" and "f x s' = (Inr y, s'')"
  using assms by (auto simp: andThen_def split: prod.splits sum.splits)

lemma for_each_append:
  "for_each f (xs @ ys) = andThen (for_each f xs) (\<lambda>_. for_each f ys)"
  by (induction xs) (auto simp: fun_eq_iff andThen_def split: prod.splits sum.splits)

text \<open>Preservation of an invariant, on success and on every error path.\<close>

definition keeps :: "('s \<Rightarrow> bool) \<Rightarrow> ('s, 'a) action \<Rightarrow> bool" where
  "keeps I m = (\<forall>s. I s \<longrightarrow> I (snd (m s)))"

lemma keepsI: "(\<And>s. I s \<Longrightarrow> I (snd (m s))) \<Longrightarrow> keeps I m"
  by (simp add: keeps_def)

lemma keepsD: "keeps I m \<Longrightarrow> I s \<Longrightarrow> I (snd (m s))"
  by (simp add: keeps_def)

lemma keeps_result: "keeps I m \<Longrightarrow> I s \<Longrightarrow> m s = (r, s') \<Longrightarrow> I s'"
  by (metis keepsD snd_conv)

lemma keeps_ret [keeps_rules]: "keeps I (ret x)"
  by (simp add: keeps_def)

lemma keeps_fail [keeps_rules]: "keeps I (fail e)"
  by (simp add: keeps_def)

lemma keeps_andThen [keeps_rules]:
  "keeps I m \<Longrightarrow> (\<And>x. keeps I (f x)) \<Longrightarrow> keeps I (andThen m f)"
  by (fastforce simp: keeps_def andThen_def split: prod.splits sum.splits)

lemma keeps_attempt [keeps_rules]:
  "keeps I m \<Longrightarrow> (\<And>r. keeps I (f r)) \<Longrightarrow> keeps I (attempt m f)"
  by (fastforce simp: keeps_def attempt_def split: prod.splits)

lemma keeps_ignore [keeps_rules]: "keeps I m \<Longrightarrow> keeps I (ignore m)"
  by (simp add: keeps_def)

lemma keeps_if [keeps_rules]: "(b \<Longrightarrow> keeps I m) \<Longrightarrow> (\<not> b \<Longrightarrow> keeps I n) \<Longrightarrow> keeps I (if b then m else n)"
  by simp

lemma keeps_option [keeps_rules]:
  "(x = None \<Longrightarrow> keeps I m) \<Longrightarrow> (\<And>y. x = Some y \<Longrightarrow> keeps I (f y)) \<Longrightarrow> keeps I (case x of None \<Rightarrow> m | Some y \<Rightarrow> f y)"
  by (cases x) auto

lemma keeps_sum [keeps_rules]:
  "(\<And>e. x = Inl e \<Longrightarrow> keeps I (f e)) \<Longrightarrow> (\<And>y. x = Inr y \<Longrightarrow> keeps I (g y)) \<Longrightarrow> keeps I (case x of Inl e \<Rightarrow> f e | Inr y \<Rightarrow> g y)"
  by (cases x) auto

lemma keeps_prod [keeps_rules]:
  "(\<And>a b. x = (a, b) \<Longrightarrow> keeps I (f a b)) \<Longrightarrow> keeps I (case x of (a, b) \<Rightarrow> f a b)"
  by (cases x) auto

lemma keeps_for_each [keeps_rules]: "(\<And>x. keeps I (f x)) \<Longrightarrow> keeps I (for_each f xs)"
  by (induction xs) (auto intro: keeps_rules)

lemma keeps_collect_each [keeps_rules]: "(\<And>x. keeps I (f x)) \<Longrightarrow> keeps I (collect_each f xs)"
  by (induction xs) (auto intro!: keeps_rules)

lemma keeps_conj: "keeps I m \<Longrightarrow> keeps J m \<Longrightarrow> keeps (\<lambda>s. I s \<and> J s) m"
  by (simp add: keeps_def)

text \<open>An action leaves a part of the state alone.\<close>

definition frame :: "('s \<Rightarrow> 'b) \<Rightarrow> ('s, 'a) action \<Rightarrow> bool" where
  "frame f m = (\<forall>s. f (snd (m s)) = f s)"

lemma frameI: "(\<And>s. f (snd (m s)) = f s) \<Longrightarrow> frame f m"
  by (simp add: frame_def)

lemma frameD: "frame f m \<Longrightarrow> f (snd (m s)) = f s"
  by (simp add: frame_def)

lemma frame_result: "frame f m \<Longrightarrow> m s = (r, s') \<Longrightarrow> f s' = f s"
  by (metis frameD snd_conv)

lemma frame_keeps: "frame f m \<Longrightarrow> keeps (\<lambda>s. P (f s)) m"
  by (simp add: frame_def keeps_def)

lemma frame_ret [frame_rules]: "frame f (ret x)"
  by (simp add: frame_def)

lemma frame_fail [frame_rules]: "frame f (fail e)"
  by (simp add: frame_def)

lemma frame_andThen [frame_rules]: "frame f m \<Longrightarrow> (\<And>x. frame f (g x)) \<Longrightarrow> frame f (andThen m g)"
proof (rule frameI)
  fix s assume m: "frame f m" and g: "\<And>x. frame f (g x)"
  obtain r s' where r: "m s = (r, s')" by (cases "m s")
  show "f (snd (andThen m g s)) = f s"
    using frame_result [OF m r] frameD [OF g] r by (cases r) (simp_all add: andThen_def)
qed

lemma frame_attempt [frame_rules]: "frame f m \<Longrightarrow> (\<And>r. frame f (g r)) \<Longrightarrow> frame f (attempt m g)"
proof (rule frameI)
  fix s assume m: "frame f m" and g: "\<And>r. frame f (g r)"
  obtain r s' where r: "m s = (r, s')" by (cases "m s")
  show "f (snd (attempt m g s)) = f s"
    using frame_result [OF m r] frameD [OF g] r by (simp add: attempt_def)
qed

lemma frame_ignore [frame_rules]: "frame f m \<Longrightarrow> frame f (ignore m)"
  by (simp add: frame_def)

lemma frame_if [frame_rules]: "(b \<Longrightarrow> frame f m) \<Longrightarrow> (\<not> b \<Longrightarrow> frame f n) \<Longrightarrow> frame f (if b then m else n)"
  by simp

lemma frame_option [frame_rules]:
  "(x = None \<Longrightarrow> frame f m) \<Longrightarrow> (\<And>y. x = Some y \<Longrightarrow> frame f (g y)) \<Longrightarrow> frame f (case x of None \<Rightarrow> m | Some y \<Rightarrow> g y)"
  by (cases x) auto

lemma frame_sum [frame_rules]:
  "(\<And>e. x = Inl e \<Longrightarrow> frame f (g e)) \<Longrightarrow> (\<And>y. x = Inr y \<Longrightarrow> frame f (h y)) \<Longrightarrow> frame f (case x of Inl e \<Rightarrow> g e | Inr y \<Rightarrow> h y)"
  by (cases x) auto

lemma frame_prod [frame_rules]:
  "(\<And>a b. x = (a, b) \<Longrightarrow> frame f (g a b)) \<Longrightarrow> frame f (case x of (a, b) \<Rightarrow> g a b)"
  by (cases x) auto

lemma frame_for_each [frame_rules]: "(\<And>x. frame f (g x)) \<Longrightarrow> frame f (for_each g xs)"
  by (induction xs) (auto intro: frame_rules)

lemma frame_collect_each [frame_rules]: "(\<And>x. frame f (g x)) \<Longrightarrow> frame f (collect_each g xs)"
  by (induction xs) (auto intro!: frame_rules)

end
