(* ===== verification/SoeProtocol.thy ===== *)
theory SoeProtocol
  imports Prelude "HOL-Library.Monad_Syntax"
begin

text \<open>
  The EverQuest login transport of internal/eqlogin: \<open>soe.go\<close> (transport opcodes, the session
  response, the walk over combined datagrams) and \<open>crc.go\<close> (the SOE checksum).

  Everything a remote peer controls is read through the partial accesses of \<open>Prelude\<close>, so a
  function that could index out of range would return \<open>None\<close>. The lemmas show that none does,
  that the walk finds exactly the application opcodes a datagram carries, that the table-driven
  checksum is the bit-serial CRC-32, and that stripping undoes appending.
\<close>

unbundle bit_operations_syntax

section \<open>Opcodes and integers on the wire\<close>

definition be16 :: "8 word \<Rightarrow> 8 word \<Rightarrow> 16 word" where
  "be16 a b = word_of_nat (unat a * 256 + unat b)"

definition le16 :: "8 word \<Rightarrow> 8 word \<Rightarrow> 16 word" where
  "le16 a b = be16 b a"

definition be32 :: "8 word \<Rightarrow> 8 word \<Rightarrow> 8 word \<Rightarrow> 8 word \<Rightarrow> 32 word" where
  "be32 a b c d = word_of_nat (((unat a * 256 + unat b) * 256 + unat c) * 256 + unat d)"

definition le32 :: "8 word \<Rightarrow> 8 word \<Rightarrow> 8 word \<Rightarrow> 8 word \<Rightarrow> 32 word" where
  "le32 a b c d = be32 d c b a"

definition OpSessionRequest :: "16 word" where "OpSessionRequest = 0x0001"
definition OpSessionResponse :: "16 word" where "OpSessionResponse = 0x0002"
definition OpCombined :: "16 word" where "OpCombined = 0x0003"
definition OpDisconnect :: "16 word" where "OpDisconnect = 0x0005"
definition OpPacket :: "16 word" where "OpPacket = 0x0009"
definition OpFragment :: "16 word" where "OpFragment = 0x000D"
definition AppChatMessage :: "16 word" where "AppChatMessage = 0x0016"
definition AppServerListResponse :: "16 word" where "AppServerListResponse = 0x0018"

lemmas opcode_defs = OpSessionRequest_def OpSessionResponse_def OpCombined_def OpDisconnect_def
  OpPacket_def OpFragment_def AppChatMessage_def AppServerListResponse_def

record SessionResponse =
  ConnectCode :: "32 word"
  EncodeKey :: "32 word"
  CRCBytes :: "8 word"
  EncodePass1 :: "8 word"
  EncodePass2 :: "8 word"
  MaxPacketSize :: "32 word"

definition TransportOpcode :: "bytes \<Rightarrow> 16 word" where
  "TransportOpcode data = (case data of a # b # _ \<Rightarrow> be16 a b | _ \<Rightarrow> 0)"

text \<open>
  Outer option: a run-time panic; inner option: Go's second result \<open>false\<close>.
\<close>

definition ParseSessionResponse :: "bytes \<Rightarrow> SessionResponse option option" where
  "ParseSessionResponse data =
     (if length data < 17 then Some None
      else if TransportOpcode data \<noteq> OpSessionResponse then Some None
      else do {
        c0 \<leftarrow> index data 2; c1 \<leftarrow> index data 3; c2 \<leftarrow> index data 4; c3 \<leftarrow> index data 5;
        k0 \<leftarrow> index data 6; k1 \<leftarrow> index data 7; k2 \<leftarrow> index data 8; k3 \<leftarrow> index data 9;
        crc \<leftarrow> index data 10; p1 \<leftarrow> index data 11; p2 \<leftarrow> index data 12;
        m0 \<leftarrow> index data 13; m1 \<leftarrow> index data 14; m2 \<leftarrow> index data 15; m3 \<leftarrow> index data 16;
        Some (Some \<lparr>ConnectCode = be32 c0 c1 c2 c3, EncodeKey = be32 k0 k1 k2 k3,
          CRCBytes = crc, EncodePass1 = p1, EncodePass2 = p2,
          MaxPacketSize = le32 m0 m1 m2 m3\<rparr>)
      })"

definition PacketUsesCRC :: "bytes \<Rightarrow> bool" where
  "PacketUsesCRC data =
     (let op = TransportOpcode data in op \<noteq> OpSessionRequest \<and> op \<noteq> OpSessionResponse)"

section \<open>The walk over application opcodes\<close>

text \<open>
  \<open>walkAppOpcodes\<close> is the Go function, \<open>walkCombined\<close> its loop over the length-prefixed
  subpackets from index \<open>i\<close>; the callback is a predicate on the opcode.
\<close>

function walkAppOpcodes :: "(16 word \<Rightarrow> bool) \<Rightarrow> bytes \<Rightarrow> bool option"
  and walkCombined :: "(16 word \<Rightarrow> bool) \<Rightarrow> bytes \<Rightarrow> nat \<Rightarrow> bool option" where
  "walkAppOpcodes fn pkt =
     (if TransportOpcode pkt = OpPacket then
        (if 6 \<le> length pkt then do {
           a \<leftarrow> index pkt 4; b \<leftarrow> index pkt 5; Some (fn (le16 a b))
         } else Some False)
      else if TransportOpcode pkt = OpCombined then walkCombined fn pkt 2
      else Some False)"
| "walkCombined fn pkt i =
     (if i < length pkt then
        Option.bind (index pkt i) (\<lambda>b.
          let n = unat b in
          if n = 0 \<or> Suc i + n > length pkt then Some False
          else Option.bind (subslice pkt (Suc i) (Suc i + n)) (\<lambda>sub.
            Option.bind (walkAppOpcodes fn sub) (\<lambda>found.
              if found then Some True else walkCombined fn pkt (Suc i + n))))
      else Some False)"
  by pat_completeness auto
termination
  by (relation "measures [\<lambda>x. case x of Inl (fn, pkt) \<Rightarrow> length pkt | Inr (fn, pkt, i) \<Rightarrow> length pkt,
        \<lambda>x. case x of Inl (fn, pkt) \<Rightarrow> Suc (length pkt) | Inr (fn, pkt, i) \<Rightarrow> length pkt - i]")
     (auto simp: subslice_def index_def split: if_splits)

declare walkAppOpcodes.simps [simp del] walkCombined.simps [simp del]

text \<open>
  What the walk is meant to find: a combined datagram is a chain of length-prefixed
  subpackets, read up to the first one that is empty or runs past the end; a datagram carries
  an application opcode when it is an \<open>OpPacket\<close> with one, or a combined datagram with a
  subpacket that carries it.
\<close>

fun subpackets :: "bytes \<Rightarrow> bytes list" where
  "subpackets [] = []"
| "subpackets (n # rest) =
     (if unat n = 0 \<or> length rest < unat n then []
      else take (unat n) rest # subpackets (drop (unat n) rest))"

inductive carries_app :: "bytes \<Rightarrow> 16 word \<Rightarrow> bool" where
  packet: "TransportOpcode pkt = OpPacket \<Longrightarrow> 6 \<le> length pkt \<Longrightarrow>
     carries_app pkt (le16 (pkt ! 4) (pkt ! 5))"
| combined: "TransportOpcode pkt = OpCombined \<Longrightarrow> sub \<in> set (subpackets (drop 2 pkt)) \<Longrightarrow>
     carries_app sub op \<Longrightarrow> carries_app pkt op"

inductive_simps carries_app_simps: "carries_app pkt op"

lemma OpPacket_neq_Combined [simp]: "OpPacket \<noteq> OpCombined" "OpCombined \<noteq> OpPacket"
  by (simp_all add: opcode_defs)

lemma walk_finds:
  "walkAppOpcodes fn pkt = Some (\<exists>op. carries_app pkt op \<and> fn op)"
  "walkCombined fn pkt i =
     Some (\<exists>sub \<in> set (subpackets (drop i pkt)). \<exists>op. carries_app sub op \<and> fn op)"
proof (induction fn pkt and fn pkt i rule: walkAppOpcodes_walkCombined.induct)
  case (1 fn pkt)
  show ?case
  proof (cases "TransportOpcode pkt = OpCombined")
    case True
    with "1.IH" have "walkAppOpcodes fn pkt =
        Some (\<exists>sub \<in> set (subpackets (drop 2 pkt)). \<exists>op. carries_app sub op \<and> fn op)"
      by (simp add: walkAppOpcodes.simps)
    with True show ?thesis
      by (subst carries_app_simps) auto
  next
    case False
    then show ?thesis
      by (subst carries_app_simps) (auto simp: walkAppOpcodes.simps)
  qed
next
  case (2 fn pkt i)
  show ?case
  proof (cases "i < length pkt")
    case False
    then show ?thesis by (simp add: walkCombined.simps)
  next
    case True
    let ?n = "unat (pkt ! i)"
    have d: "drop i pkt = pkt ! i # drop (Suc i) pkt"
      using True by (simp add: Cons_nth_drop_Suc)
    show ?thesis
    proof (cases "?n = 0 \<or> Suc i + ?n > length pkt")
      case stop: True
      with True have "subpackets (drop i pkt) = []"
        by (auto simp: d)
      with True stop show ?thesis
        by (simp add: walkCombined.simps Let_def)
    next
      case go: False
      with True have s: "subpackets (drop i pkt) =
          take ?n (drop (Suc i) pkt) # subpackets (drop (Suc i + ?n) pkt)"
        by (auto simp: d add.commute)
      from True go have sl: "subslice pkt (Suc i) (Suc i + ?n) = Some (take ?n (drop (Suc i) pkt))"
        by (simp add: subslice_def)
      from True go "2.IH"(1) [OF True _ refl _ sl] "2.IH"(2) [OF True _ refl _ sl]
      show ?thesis
        by (subst walkCombined.simps) (auto simp: Let_def s sl)
    qed
  qed
qed

section \<open>Verdicts on a downlink datagram\<close>

definition lower_byte :: "8 word \<Rightarrow> 8 word" where
  "lower_byte b = (if 65 \<le> b \<and> b \<le> 90 then b + 32 else b)"

definition LooksLikeLoginFailure :: "bytes \<Rightarrow> bool option" where
  "LooksLikeLoginFailure pkt =
     (if length pkt < 2 then Some False
      else if TransportOpcode pkt = OpDisconnect then Some True
      else let lower = map lower_byte pkt in
        if Contains lower (bytes_of ''invalid username'') \<or> Contains lower (bytes_of ''invalid password'')
        then Some True
        else walkAppOpcodes (\<lambda>app. app = AppChatMessage) pkt)"

definition LooksLikeLoginSuccess :: "bytes \<Rightarrow> bool option" where
  "LooksLikeLoginSuccess pkt =
     (if TransportOpcode pkt = OpFragment then Some True
      else walkAppOpcodes (\<lambda>app. app = AppServerListResponse) pkt)"

lemma LooksLikeLoginSuccess_iff:
  "LooksLikeLoginSuccess pkt =
     Some (TransportOpcode pkt = OpFragment \<or> carries_app pkt AppServerListResponse)"
  by (simp add: LooksLikeLoginSuccess_def walk_finds)

lemma LooksLikeLoginFailure_total: "LooksLikeLoginFailure pkt \<noteq> None"
  by (auto simp: LooksLikeLoginFailure_def walk_finds Let_def)

lemma ParseSessionResponse_total: "ParseSessionResponse data \<noteq> None"
  by (simp add: ParseSessionResponse_def)

section \<open>The checksum\<close>

definition crc_bit :: "32 word \<Rightarrow> 32 word" where
  "crc_bit crc = (if crc AND 1 \<noteq> 0 then (drop_bit 1 crc) XOR 0xEDB88320 else drop_bit 1 crc)"

definition crcTable :: "32 word list" where
  "crcTable = map (\<lambda>i. (crc_bit ^^ 8) (word_of_nat i)) [0..<256]"

definition le_bytes :: "32 word \<Rightarrow> bytes" where
  "le_bytes key = [ucast key, ucast (drop_bit 8 key), ucast (drop_bit 16 key), ucast (drop_bit 24 key)]"

definition crc_step :: "32 word \<Rightarrow> 8 word \<Rightarrow> 32 word" where
  "crc_step crc b =
     (let idx = (crc XOR ucast b) AND 0xFF
      in crcTable ! unat idx XOR drop_bit 8 crc)"

definition SOECRC32 :: "bytes \<Rightarrow> 32 word \<Rightarrow> 32 word" where
  "SOECRC32 data key = NOT (foldl crc_step 0xFFFFFFFF (le_bytes key @ data))"

definition AppendCRC :: "bytes \<Rightarrow> 32 word \<Rightarrow> 8 word \<Rightarrow> bytes" where
  "AppendCRC packet key crcBytes =
     (if crcBytes = 0 then packet
      else let crc = SOECRC32 packet key in
        if crcBytes = 2 then packet @ [ucast (drop_bit 8 crc), ucast crc]
        else packet @ [ucast (drop_bit 24 crc), ucast (drop_bit 16 crc),
                       ucast (drop_bit 8 crc), ucast crc])"

definition StripCRC :: "bytes \<Rightarrow> 8 word \<Rightarrow> bytes" where
  "StripCRC packet crcBytes =
     (if crcBytes = 0 \<or> length packet < unat crcBytes then packet
      else take (length packet - unat crcBytes) packet)"

text \<open>
  The reference: shift the register one bit at a time, with no table.
\<close>

definition crc_serial :: "32 word \<Rightarrow> 8 word \<Rightarrow> 32 word" where
  "crc_serial crc b = (crc_bit ^^ 8) (crc XOR ucast b)"

lemma crc_bit_xor: "crc_bit (x XOR y) = crc_bit x XOR crc_bit y"
proof -
  have o: "(z AND 1 = 0) = even z" for z :: "32 word"
    by (simp add: and_one_eq odd_iff_mod_2_eq_one even_iff_mod_2_eq_zero)
  have e: "even (x XOR y) = (even x = even y)"
    by (metis (full_types) bit_0 bit_xor_iff)
  show ?thesis
    by (cases "even x"; cases "even y")
      (simp_all add: crc_bit_def o e drop_bit_xor xor.assoc xor.commute xor.left_commute)
qed

lemma crc_bits_xor: "(crc_bit ^^ n) (x XOR y) = (crc_bit ^^ n) x XOR (crc_bit ^^ n) y"
  by (induction n arbitrary: x y) (simp_all add: crc_bit_xor)

lemma crc_bits_shift:
  "take_bit n y = 0 \<Longrightarrow> (crc_bit ^^ n) y = drop_bit n y"
proof (induction n arbitrary: y)
  case 0
  then show ?case by simp
next
  case (Suc n)
  from Suc.prems have ev: "even y"
    by (metis bit_0 bit_take_bit_iff bit_0_eq bot_apply bot_bool_def zero_less_Suc)
  then have b: "crc_bit y = drop_bit 1 y"
    by (simp add: crc_bit_def and_one_eq even_iff_mod_2_eq_zero)
  from Suc.prems have "take_bit n (drop_bit 1 y) = 0"
    by (metis drop_bit_of_0 drop_bit_take_bit plus_1_eq_Suc add_diff_cancel_left')
  then have "(crc_bit ^^ n) (drop_bit 1 y) = drop_bit n (drop_bit 1 y)"
    by (rule Suc.IH)
  then show ?case
    by (simp add: funpow_swap1 b)
qed

lemma crcTable_nth [simp]: "i < 256 \<Longrightarrow> crcTable ! i = (crc_bit ^^ 8) (word_of_nat i)"
  by (simp add: crcTable_def)

lemma take_bit_8_mask: "x AND 0xFF = take_bit 8 (x :: 32 word)"
  by (simp add: take_bit_eq_mask mask_eq_exp_minus_1)

lemma crcTable_take: "crcTable ! unat (take_bit 8 z) = (crc_bit ^^ 8) (take_bit 8 z)" for z :: "32 word"
proof -
  have "take_bit 8 (unat z) < 256"
    using take_bit_nat_less_exp [of 8 "unat z"] by simp
  then have "unat (take_bit 8 z) < 256"
    by (simp add: unsigned_take_bit_eq)
  then show ?thesis by simp
qed

lemma crc_step_serial: "crc_step crc b = crc_serial crc b"
proof -
  let ?x = "crc XOR ucast b :: 32 word"
  let ?lo = "take_bit 8 ?x" and ?hi = "push_bit 8 (drop_bit 8 crc)"
  have split: "?x = ?lo XOR ?hi"
  proof (rule bit_word_eqI)
    fix n
    assume "n < LENGTH(32)"
    then show "bit ?x n = bit (?lo XOR ?hi) n"
      by (cases "n < 8") (auto simp: bit_simps dest: bit_imp_le_length)
  qed
  have up_down: "drop_bit 8 (push_bit 8 (drop_bit 8 x)) = drop_bit 8 x" for x :: "32 word"
    by (rule bit_word_eqI) (auto simp: bit_simps dest: bit_imp_le_length)
  have hi: "(crc_bit ^^ 8) ?hi = drop_bit 8 crc"
    by (subst crc_bits_shift) (simp_all add: up_down take_bit_push_bit)
  have "crcTable ! unat ?lo = (crc_bit ^^ 8) ?lo"
    by (rule crcTable_take)
  then have "crc_step crc b = (crc_bit ^^ 8) ?lo XOR (crc_bit ^^ 8) ?hi"
    by (simp only: crc_step_def Let_def take_bit_8_mask hi)
  also have "\<dots> = (crc_bit ^^ 8) ?x"
    by (simp only: crc_bits_xor [symmetric] split [symmetric])
  finally show ?thesis by (simp add: crc_serial_def)
qed

lemma StripCRC_AppendCRC:
  assumes "n \<in> {0, 2, 4}"
  shows "StripCRC (AppendCRC packet key n) n = packet"
  using assms by (auto simp: StripCRC_def AppendCRC_def Let_def)

lemma AppendCRC_prefix: "\<exists>tail. AppendCRC packet key n = packet @ tail"
  by (auto simp: AppendCRC_def Let_def)

lemma TransportOpcode_append: "2 \<le> length p \<Longrightarrow> TransportOpcode (p @ q) = TransportOpcode p"
  by (auto simp: TransportOpcode_def numeral_2_eq_2 Suc_le_length_iff)

section \<open>Properties\<close>

text \<open>
  The walk over a datagram never panics, always ends, and answers yes exactly when the
  datagram carries, at some nesting depth, an application opcode the callback accepts.
\<close>

theorem walk_exact:
  "walkAppOpcodes fn pkt = Some (\<exists>op. carries_app pkt op \<and> fn op)"
  by (rule walk_finds)

text \<open>
  C9: the table-driven SOE checksum is the bit-serial CRC-32 over the little-endian key
  followed by the data.
\<close>

theorem SOECRC32_serial:
  "SOECRC32 data key = NOT (foldl crc_serial 0xFFFFFFFF (le_bytes key @ data))"
proof -
  have "crc_step = crc_serial"
    by (simp add: fun_eq_iff crc_step_serial)
  then show ?thesis by (simp add: SOECRC32_def)
qed

text \<open>
  No datagram makes the readers of downlink traffic panic: the session-response parser and
  both verdict functions return on every byte string, and a datagram is a login success exactly
  when it is a fragment or carries a server list.
\<close>

theorem downlink_readers_total:
  "ParseSessionResponse pkt \<noteq> None \<and> LooksLikeLoginFailure pkt \<noteq> None
   \<and> LooksLikeLoginSuccess pkt =
       Some (TransportOpcode pkt = OpFragment \<or> carries_app pkt AppServerListResponse)"
  using ParseSessionResponse_total LooksLikeLoginFailure_total LooksLikeLoginSuccess_iff by blast

end

