(* ===== verification/Des.thy ===== *)
theory Des
  imports Prelude
begin

text \<open>
  The part of Go's standard library under internal/crypto/deswire.go: the DES block cipher of
  package crypto/des (FIPS 46-3) on 8-byte blocks and the CBC mode of package crypto/cipher.

  A cipher is an interface, \<open>block_cipher\<close>: what its decryption promises about its encryption.
  The facts about CBC are proved once from that contract; DES provides it for every key
  schedule, because a Feistel network run with the reversed subkeys undoes itself and the
  initial and final permutations are inverse to each other.
\<close>

section \<open>Bits of a block\<close>

definition bits_of_byte :: "8 word \<Rightarrow> bool list" where
  "bits_of_byte b = rev (map (bit b) [0..<8])"

definition byte_of_bits :: "bool list \<Rightarrow> 8 word" where
  "byte_of_bits xs = horner_sum of_bool 2 (rev xs)"

definition bits_of_block :: "bytes \<Rightarrow> bool list" where
  "bits_of_block bs = concat (map bits_of_byte bs)"

definition block_of_bits :: "bool list \<Rightarrow> bytes" where
  "block_of_bits xs = map byte_of_bits (chunks 8 xs)"

definition permute :: "nat list \<Rightarrow> 'a list \<Rightarrow> 'a list" where
  "permute t xs = map (\<lambda>i. xs ! (i - 1)) t"

definition xor_bits :: "bool list \<Rightarrow> bool list \<Rightarrow> bool list" where
  "xor_bits xs ys = map2 (\<noteq>) xs ys"

section \<open>The tables of the standard\<close>

definition des_IP :: "nat list" where
  "des_IP = [58, 50, 42, 34, 26, 18, 10, 2, 60, 52, 44, 36, 28, 20, 12, 4, 62, 54, 46, 38, 30, 22, 14, 6, 64, 56, 48, 40, 32, 24, 16, 8,
     57, 49, 41, 33, 25, 17, 9, 1, 59, 51, 43, 35, 27, 19, 11, 3, 61, 53, 45, 37, 29, 21, 13, 5, 63, 55, 47, 39, 31, 23, 15, 7]"

definition des_FP :: "nat list" where
  "des_FP = [40, 8, 48, 16, 56, 24, 64, 32, 39, 7, 47, 15, 55, 23, 63, 31, 38, 6, 46, 14, 54, 22, 62, 30, 37, 5, 45, 13, 53, 21, 61, 29,
     36, 4, 44, 12, 52, 20, 60, 28, 35, 3, 43, 11, 51, 19, 59, 27, 34, 2, 42, 10, 50, 18, 58, 26, 33, 1, 41, 9, 49, 17, 57, 25]"

definition des_E :: "nat list" where
  "des_E = [32, 1, 2, 3, 4, 5, 4, 5, 6, 7, 8, 9, 8, 9, 10, 11, 12, 13, 12, 13, 14, 15, 16, 17,
     16, 17, 18, 19, 20, 21, 20, 21, 22, 23, 24, 25, 24, 25, 26, 27, 28, 29, 28, 29, 30, 31, 32, 1]"

definition des_P :: "nat list" where
  "des_P = [16, 7, 20, 21, 29, 12, 28, 17, 1, 15, 23, 26, 5, 18, 31, 10, 2, 8, 24, 14, 32, 27, 3, 9, 19, 13, 30, 6, 22, 11, 4, 25]"

definition des_PC1 :: "nat list" where
  "des_PC1 = [57, 49, 41, 33, 25, 17, 9, 1, 58, 50, 42, 34, 26, 18, 10, 2, 59, 51, 43, 35, 27, 19, 11, 3, 60, 52, 44, 36,
     63, 55, 47, 39, 31, 23, 15, 7, 62, 54, 46, 38, 30, 22, 14, 6, 61, 53, 45, 37, 29, 21, 13, 5, 28, 20, 12, 4]"

definition des_PC2 :: "nat list" where
  "des_PC2 = [14, 17, 11, 24, 1, 5, 3, 28, 15, 6, 21, 10, 23, 19, 12, 4, 26, 8, 16, 7, 27, 20, 13, 2,
     41, 52, 31, 37, 47, 55, 30, 40, 51, 45, 33, 48, 44, 49, 39, 56, 34, 53, 46, 42, 50, 36, 29, 32]"

definition des_shifts :: "nat list" where
  "des_shifts = [1, 1, 2, 2, 2, 2, 2, 2, 1, 2, 2, 2, 2, 2, 2, 1]"

definition des_S :: "nat list list" where
  "des_S =
    [[14, 4, 13, 1, 2, 15, 11, 8, 3, 10, 6, 12, 5, 9, 0, 7,
      0, 15, 7, 4, 14, 2, 13, 1, 10, 6, 12, 11, 9, 5, 3, 8,
      4, 1, 14, 8, 13, 6, 2, 11, 15, 12, 9, 7, 3, 10, 5, 0,
      15, 12, 8, 2, 4, 9, 1, 7, 5, 11, 3, 14, 10, 0, 6, 13],
     [15, 1, 8, 14, 6, 11, 3, 4, 9, 7, 2, 13, 12, 0, 5, 10,
      3, 13, 4, 7, 15, 2, 8, 14, 12, 0, 1, 10, 6, 9, 11, 5,
      0, 14, 7, 11, 10, 4, 13, 1, 5, 8, 12, 6, 9, 3, 2, 15,
      13, 8, 10, 1, 3, 15, 4, 2, 11, 6, 7, 12, 0, 5, 14, 9],
     [10, 0, 9, 14, 6, 3, 15, 5, 1, 13, 12, 7, 11, 4, 2, 8,
      13, 7, 0, 9, 3, 4, 6, 10, 2, 8, 5, 14, 12, 11, 15, 1,
      13, 6, 4, 9, 8, 15, 3, 0, 11, 1, 2, 12, 5, 10, 14, 7,
      1, 10, 13, 0, 6, 9, 8, 7, 4, 15, 14, 3, 11, 5, 2, 12],
     [7, 13, 14, 3, 0, 6, 9, 10, 1, 2, 8, 5, 11, 12, 4, 15,
      13, 8, 11, 5, 6, 15, 0, 3, 4, 7, 2, 12, 1, 10, 14, 9,
      10, 6, 9, 0, 12, 11, 7, 13, 15, 1, 3, 14, 5, 2, 8, 4,
      3, 15, 0, 6, 10, 1, 13, 8, 9, 4, 5, 11, 12, 7, 2, 14],
     [2, 12, 4, 1, 7, 10, 11, 6, 8, 5, 3, 15, 13, 0, 14, 9,
      14, 11, 2, 12, 4, 7, 13, 1, 5, 0, 15, 10, 3, 9, 8, 6,
      4, 2, 1, 11, 10, 13, 7, 8, 15, 9, 12, 5, 6, 3, 0, 14,
      11, 8, 12, 7, 1, 14, 2, 13, 6, 15, 0, 9, 10, 4, 5, 3],
     [12, 1, 10, 15, 9, 2, 6, 8, 0, 13, 3, 4, 14, 7, 5, 11,
      10, 15, 4, 2, 7, 12, 9, 5, 6, 1, 13, 14, 0, 11, 3, 8,
      9, 14, 15, 5, 2, 8, 12, 3, 7, 0, 4, 10, 1, 13, 11, 6,
      4, 3, 2, 12, 9, 5, 15, 10, 11, 14, 1, 7, 6, 0, 8, 13],
     [4, 11, 2, 14, 15, 0, 8, 13, 3, 12, 9, 7, 5, 10, 6, 1,
      13, 0, 11, 7, 4, 9, 1, 10, 14, 3, 5, 12, 2, 15, 8, 6,
      1, 4, 11, 13, 12, 3, 7, 14, 10, 15, 6, 8, 0, 5, 9, 2,
      6, 11, 13, 8, 1, 4, 10, 7, 9, 5, 0, 15, 14, 2, 3, 12],
     [13, 2, 8, 4, 6, 15, 11, 1, 10, 9, 3, 14, 5, 0, 12, 7,
      1, 15, 13, 8, 10, 3, 7, 4, 12, 5, 6, 11, 0, 14, 9, 2,
      7, 11, 4, 1, 9, 12, 14, 2, 0, 6, 10, 13, 15, 3, 5, 8,
      2, 1, 14, 7, 4, 10, 8, 13, 15, 12, 9, 0, 3, 5, 6, 11]]"

section \<open>Key schedule and rounds\<close>

fun des_schedule :: "nat list \<Rightarrow> bool list \<Rightarrow> bool list \<Rightarrow> bool list list" where
  "des_schedule [] c d = []"
| "des_schedule (n # ns) c d =
     (let c' = rotate n c; d' = rotate n d in permute des_PC2 (c' @ d') # des_schedule ns c' d')"

definition des_subkeys :: "bytes \<Rightarrow> bool list list" where
  "des_subkeys key =
     (let cd = permute des_PC1 (bits_of_block key)
      in des_schedule des_shifts (take 28 cd) (drop 28 cd))"

definition nibble_bits :: "nat \<Rightarrow> bool list" where
  "nibble_bits n = [odd (n div 8), odd (n div 4), odd (n div 2), odd n]"

definition des_sbox :: "nat list \<Rightarrow> bool list \<Rightarrow> bool list" where
  "des_sbox box six =
     nibble_bits (box ! (32 * of_bool (six ! 0) + 16 * of_bool (six ! 5) + 8 * of_bool (six ! 1)
       + 4 * of_bool (six ! 2) + 2 * of_bool (six ! 3) + of_bool (six ! 4)))"

definition des_f :: "bool list \<Rightarrow> bool list \<Rightarrow> bool list" where
  "des_f r k = permute des_P (concat (map2 des_sbox des_S (chunks 6 (xor_bits (permute des_E r) k))))"

definition feistel_step :: "bool list \<times> bool list \<Rightarrow> bool list \<Rightarrow> bool list \<times> bool list" where
  "feistel_step lr k = (snd lr, xor_bits (fst lr) (des_f (snd lr) k))"

definition des_block :: "bool list list \<Rightarrow> bytes \<Rightarrow> bytes" where
  "des_block ks b =
     (let x = permute des_IP (bits_of_block b);
          lr = foldl feistel_step (take 32 x, drop 32 x) ks
      in block_of_bits (permute des_FP (snd lr @ fst lr)))"

definition des_unblock :: "bool list list \<Rightarrow> bytes \<Rightarrow> bytes" where
  "des_unblock ks b = des_block (rev ks) b"

section \<open>CBC over any block cipher\<close>

fun cbc_encrypt :: "(bytes \<Rightarrow> bytes) \<Rightarrow> bytes \<Rightarrow> bytes list \<Rightarrow> bytes" where
  "cbc_encrypt enc iv [] = []"
| "cbc_encrypt enc iv (b # bs) = (let c = enc (xor_bytes iv b) in c @ cbc_encrypt enc c bs)"

fun cbc_decrypt :: "(bytes \<Rightarrow> bytes) \<Rightarrow> bytes \<Rightarrow> bytes list \<Rightarrow> bytes" where
  "cbc_decrypt dec iv [] = []"
| "cbc_decrypt dec iv (c # cs) = xor_bytes iv (dec c) @ cbc_decrypt dec c cs"

lemma xor_bytes_cancel: "length xs = length ys \<Longrightarrow> xor_bytes xs (xor_bytes xs ys) = ys"
  by (induction xs ys rule: list_induct2) (simp_all add: xor_bytes_def flip: xor.assoc)

lemma chunks_append:
  "0 < n \<Longrightarrow> length b = n \<Longrightarrow> chunks n (b @ rest) = b # chunks n rest"
  by (cases b) auto

lemma length_concat_const: "\<forall>b \<in> set bs. length b = n \<Longrightarrow> length (concat bs) = n * length bs"
  by (induction bs) auto

lemma chunks_concat:
  "0 < n \<Longrightarrow> \<forall>b \<in> set bs. length b = n \<Longrightarrow> chunks n (concat bs) = bs"
  by (induction bs) (auto simp: chunks_append)

lemma concat_chunks: "0 < n \<Longrightarrow> concat (chunks n xs) = xs"
proof (induction n xs rule: chunks.induct)
  case (2 n x xs)
  then show ?case by (cases n) simp_all
qed simp

lemma chunks_length:
  "0 < n \<Longrightarrow> n dvd length xs \<Longrightarrow> \<forall>b \<in> set (chunks n xs). length b = n"
proof (induction n xs rule: chunks.induct)
  case (2 n x xs)
  from "2.prems" have le: "n \<le> length (x # xs)"
    by (auto dest: dvd_imp_le)
  have "length (drop (n - 1) xs) = length (x # xs) - n"
    using "2.prems"(1) by simp
  then have "n dvd length (drop (n - 1) xs)"
    using dvd_diff_nat [OF "2.prems"(2) dvd_refl] by simp
  then have "\<forall>b \<in> set (chunks n (drop (n - 1) xs)). length b = n"
    using "2.IH" "2.prems"(1) by blast
  moreover have "length (take n (x # xs)) = n"
    using le by simp
  ultimately show ?case by (simp only: chunks.simps list.set) blast
qed simp

text \<open>The contract of a cipher on 8-byte blocks, and what CBC makes of it.\<close>

locale block_cipher =
  fixes enc :: "bytes \<Rightarrow> bytes"
    and dec :: "bytes \<Rightarrow> bytes"
  assumes length_enc: "length b = 8 \<Longrightarrow> length (enc b) = 8"
    and dec_enc: "length b = 8 \<Longrightarrow> dec (enc b) = b"
begin

lemma length_cbc_encrypt:
  "length iv = 8 \<Longrightarrow> \<forall>b \<in> set bs. length b = 8 \<Longrightarrow> length (cbc_encrypt enc iv bs) = 8 * length bs"
  by (induction bs arbitrary: iv) (simp_all add: Let_def length_enc)

lemma cbc_roundtrip:
  "length iv = 8 \<Longrightarrow> \<forall>b \<in> set bs. length b = 8 \<Longrightarrow>
   cbc_decrypt dec iv (chunks 8 (cbc_encrypt enc iv bs)) = concat bs"
  by (induction bs arbitrary: iv)
    (simp_all add: Let_def chunks_append length_enc dec_enc xor_bytes_cancel)

end

section \<open>DES satisfies the contract\<close>

lemma byte_of_bits_of_byte [simp]: "byte_of_bits (bits_of_byte b) = b"
  by (simp only: byte_of_bits_def bits_of_byte_def rev_rev_ident horner_sum_bit_eq_take_bit)
    (simp add: take_bit_word_eq_self)

lemma length_bits_of_byte [simp]: "length (bits_of_byte b) = 8"
  by (simp add: bits_of_byte_def)

lemma length_bits_of_block [simp]: "length (bits_of_block b) = 8 * length b"
  unfolding bits_of_block_def
  by (subst length_concat_const [of _ 8]) auto

lemma block_of_bits_of_block [simp]: "block_of_bits (bits_of_block b) = b"
  by (simp add: block_of_bits_def bits_of_block_def chunks_concat comp_def)

lemma bits_of_byte_of_bits:
  assumes "length xs = 8"
  shows "bits_of_byte (byte_of_bits xs) = xs"
proof -
  have "map (bit (byte_of_bits xs)) [0..<8] = rev xs"
    using assms by (intro nth_equalityI)
      (simp_all add: byte_of_bits_def bit_horner_sum_bit_word_iff)
  then show ?thesis by (simp add: bits_of_byte_def)
qed

lemma length_chunks: "0 < n \<Longrightarrow> n dvd length xs \<Longrightarrow> n * length (chunks n xs) = length xs"
  using length_concat_const [OF chunks_length, of n xs] by (simp add: concat_chunks)

lemma bits_of_block_of_bits:
  assumes "8 dvd length xs"
  shows "bits_of_block (block_of_bits xs) = xs"
proof -
  have "\<forall>b \<in> set (chunks 8 xs). length b = 8"
    using assms by (simp add: chunks_length)
  then have "map (\<lambda>x. bits_of_byte (byte_of_bits x)) (chunks 8 xs) = chunks 8 xs"
    by (simp add: map_idI bits_of_byte_of_bits)
  then show ?thesis
    by (simp add: bits_of_block_def block_of_bits_def comp_def concat_chunks)
qed

lemma length_permute [simp]: "length (permute t xs) = length t"
  by (simp add: permute_def)

lemma permute_compose:
  assumes "\<forall>i \<in> set t. i - 1 < length u"
  shows "permute t (permute u xs) = permute (permute t u) xs"
  using assms by (simp add: permute_def)

lemma des_tables:
  "length des_IP = 64" "length des_FP = 64" "length des_P = 32"
  "permute des_IP des_FP = [1..<65]" "permute des_FP des_IP = [1..<65]"
  "\<forall>i \<in> set des_IP. i - 1 < 64" "\<forall>i \<in> set des_FP. i - 1 < 64"
  by (simp_all add: des_IP_def des_FP_def des_P_def permute_def upt_rec)

lemma permute_id: "length xs = 64 \<Longrightarrow> permute [1..<65] xs = xs"
proof -
  assume "length xs = 64"
  then have "permute (map Suc [0..<64]) xs = xs"
    using map_nth [of xs] by (simp add: permute_def comp_def)
  then show ?thesis by (simp only: map_Suc_upt) simp
qed

lemma IP_FP: "length xs = 64 \<Longrightarrow> permute des_IP (permute des_FP xs) = xs"
  using permute_compose [of des_IP des_FP xs] des_tables permute_id [of xs] by simp

lemma FP_IP: "length xs = 64 \<Longrightarrow> permute des_FP (permute des_IP xs) = xs"
  using permute_compose [of des_FP des_IP xs] des_tables permute_id [of xs] by simp

lemma length_xor_bits [simp]: "length (xor_bits xs ys) = min (length xs) (length ys)"
  by (simp add: xor_bits_def)

lemma xor_bits_cancel: "length xs = length ys \<Longrightarrow> xor_bits (xor_bits xs ys) ys = xs"
  by (induction xs ys rule: list_induct2) (auto simp: xor_bits_def)

lemma length_des_f [simp]: "length (des_f r k) = 32"
  by (simp add: des_f_def des_tables)

lemma feistel_lengths:
  "length (fst lr) = 32 \<Longrightarrow> length (snd lr) = 32 \<Longrightarrow>
   length (fst (foldl feistel_step lr ks)) = 32 \<and> length (snd (foldl feistel_step lr ks)) = 32"
  by (induction ks arbitrary: lr) (simp_all add: feistel_step_def)

lemma feistel_step_undo:
  "length (fst lr) = 32 \<Longrightarrow> feistel_step (prod.swap (feistel_step lr k)) k = prod.swap lr"
  by (simp add: feistel_step_def xor_bits_cancel prod.swap_def)

text \<open>Running the rounds again on the swapped halves, subkeys reversed, undoes them.\<close>

lemma feistel_undo:
  "length (fst lr) = 32 \<Longrightarrow> length (snd lr) = 32 \<Longrightarrow>
   foldl feistel_step (prod.swap (foldl feistel_step lr ks)) (rev ks) = prod.swap lr"
proof (induction ks arbitrary: lr)
  case Nil
  then show ?case by simp
next
  case (Cons k ks)
  let ?lr = "feistel_step lr k"
  have "foldl feistel_step (prod.swap (foldl feistel_step ?lr ks)) (rev ks) = prod.swap ?lr"
    by (rule Cons.IH) (simp_all add: feistel_step_def Cons.prems)
  then show ?case
    using Cons.prems by (simp add: feistel_step_undo)
qed

lemma des_block_bits:
  fixes ks :: "bool list list"
  assumes "length b = 8"
  defines "x \<equiv> permute des_IP (bits_of_block b)"
  defines "lr \<equiv> foldl feistel_step (take 32 x, drop 32 x) ks"
  shows "length (fst lr) = 32" "length (snd lr) = 32"
    and "permute des_IP (bits_of_block (des_block ks b)) = snd lr @ fst lr"
proof -
  show l: "length (fst lr) = 32" "length (snd lr) = 32"
    using feistel_lengths [of "(take 32 x, drop 32 x)" ks]
    by (simp_all add: lr_def x_def des_tables)
  show "permute des_IP (bits_of_block (des_block ks b)) = snd lr @ fst lr"
    using l by (simp add: des_block_def Let_def bits_of_block_of_bits des_tables IP_FP
        flip: x_def lr_def)
qed

lemma length_des_block:
  assumes "length b = 8"
  shows "length (des_block ks b) = 8"
proof -
  have "length (bits_of_block (des_block ks b)) = 64"
    by (simp add: des_block_def Let_def bits_of_block_of_bits des_tables del: length_bits_of_block)
  then show ?thesis by simp
qed

lemma des_unblock_block:
  assumes "length b = 8"
  shows "des_unblock ks (des_block ks b) = b"
proof -
  let ?x = "permute des_IP (bits_of_block b)"
  let ?lr = "foldl feistel_step (take 32 ?x, drop 32 ?x) ks"
  have "foldl feistel_step (prod.swap ?lr) (rev ks) = prod.swap (take 32 ?x, drop 32 ?x)"
    by (rule feistel_undo) (simp_all add: des_tables)
  moreover have "(snd ?lr, fst ?lr) = prod.swap ?lr"
    by (simp add: prod.swap_def)
  ultimately show ?thesis
    using des_block_bits [OF assms, of ks] assms
    by (simp add: des_unblock_def des_block_def [of "rev ks"] Let_def FP_IP)
qed

interpretation des: block_cipher "des_block ks" "des_unblock ks" for ks
  by unfold_locales (simp_all add: length_des_block des_unblock_block)

end
