(* ===== verification/LoginPacket.thy ===== *)
theory LoginPacket
  imports SoeProtocol Des
begin

text \<open>
  internal/crypto/deswire.go (credential packing with DES-CBC under the fixed zero key) and
  internal/eqlogin/login_packet.go (the Combined login datagram: parse, splice, CRC handling).

  A parsed packet is the record \<open>LoginPacket\<close>. Results are \<open>None\<close> for a run-time panic and
  \<open>Some r\<close> otherwise, with \<open>r\<close> an option or a sum for Go's \<open>ok\<close> and \<open>error\<close> results. The
  lemmas show that no input makes the parser panic, that a parsed packet can be rewritten
  exactly when the credentials fit the one-byte length field, and that the login server,
  parsing the rewritten packet, reads the credentials that were spliced in.
\<close>

section \<open>deswire.go\<close>

definition desKey :: bytes where "desKey = replicate 8 0"
definition desIV :: bytes where "desIV = replicate 8 0"

text \<open>\<open>des.NewCipher\<close>: a key of 8 bytes, or an error.\<close>

definition NewCipher :: "bytes \<Rightarrow> error + bool list list" where
  "NewCipher key = (if length key \<noteq> 8 then Inl (Err ''crypto/des: invalid key size'')
                    else Inr (des_subkeys key))"

definition zeroPad :: "bytes \<Rightarrow> nat \<Rightarrow> bytes" where
  "zeroPad b blockSize =
     (if length b mod blockSize = 0 then b
      else b @ replicate (blockSize - length b mod blockSize) 0)"

definition EncryptDES :: "bytes \<Rightarrow> error + bytes" where
  "EncryptDES plain =
     (case NewCipher desKey of
        Inl e \<Rightarrow> Inl e
      | Inr ks \<Rightarrow> Inr (cbc_encrypt (des_block ks) desIV (chunks 8 (zeroPad plain 8))))"

definition DecryptDES :: "bytes \<Rightarrow> error + bytes" where
  "DecryptDES ct =
     (if length ct = 0 \<or> length ct mod 8 \<noteq> 0
      then Inl (Err (''invalid DES ciphertext length '' @ itoa (int (length ct))))
      else case NewCipher desKey of
        Inl e \<Rightarrow> Inl e
      | Inr ks \<Rightarrow> Inr (cbc_decrypt (des_unblock ks) desIV (chunks 8 ct)))"

definition PackCredentials :: "string \<Rightarrow> string \<Rightarrow> error + bytes" where
  "PackCredentials username password =
     EncryptDES (bytes_of username @ [0] @ bytes_of password @ [0])"

definition hex_val :: "char \<Rightarrow> nat" where
  "hex_val c = (let n = of_char c in if n < 58 then n - 48 else n - 87)"

fun hex_decode :: "string \<Rightarrow> bytes" where
  "hex_decode (a # b # cs) = word_of_nat (16 * hex_val a + hex_val b) # hex_decode cs"
| "hex_decode _ = []"

definition GoldenUserPassCipher :: string where
  "GoldenUserPassCipher = ''575ab3e46810e874f75cb31595902052''"

definition GoldenCipherBytes :: bytes where
  "GoldenCipherBytes = hex_decode GoldenUserPassCipher"

section \<open>login\_packet.go\<close>

definition loginBaseSize :: nat where "loginBaseSize = 10"
definition ackEnd :: nat where "ackEnd = 7"
definition loginSubHeader :: nat where "loginSubHeader = 6"
definition loginEncOffset :: nat where "loginEncOffset = loginSubHeader + loginBaseSize"

lemmas login_consts = loginBaseSize_def ackEnd_def loginSubHeader_def loginEncOffset_def

record LoginPacket =
  Buf :: bytes
  Username :: string
  Password :: string
  sub2Offset :: nat
  sub2Len :: nat
  encOffset :: nat

definition decryptCredentials :: "bytes \<Rightarrow> (string \<times> string) option option" where
  "decryptCredentials encrypted =
     (case DecryptDES encrypted of
        Inl e \<Rightarrow> Some None
      | Inr pt \<Rightarrow> do {
          (userBytes, rest) \<leftarrow>
            (case IndexByte pt 0 of
               Some firstNul \<Rightarrow> do {
                 u \<leftarrow> subslice pt 0 firstNul;
                 r \<leftarrow> subslice pt (firstNul + 1) (length pt);
                 Some (u, r)
               }
             | None \<Rightarrow> Some (pt, []));
          passBytes \<leftarrow>
            (case IndexByte rest 0 of
               Some secondNul \<Rightarrow> subslice rest 0 secondNul
             | None \<Rightarrow> Some rest);
          Some (Some (string_of userBytes, string_of passBytes))
        })"

definition ParseLoginPacket :: "bytes \<Rightarrow> LoginPacket option option" where
  "ParseLoginPacket buf =
     (if length buf < 30 \<or> \<not> HasPrefix buf [0x00, 0x03, 0x04, 0x00, 0x15] then Some None
      else do {
        len \<leftarrow> index buf ackEnd;
        let subLen = unat len;
        let sub2Start = ackEnd + 1;
        if sub2Start + subLen > length buf \<or> subLen < loginSubHeader then Some None
        else do {
          sub2 \<leftarrow> subslice buf sub2Start (sub2Start + subLen);
          h0 \<leftarrow> index sub2 0; h1 \<leftarrow> index sub2 1;
          if be16 h0 h1 \<noteq> OpPacket then Some None
          else if length sub2 < 6 then Some None
          else do {
            a \<leftarrow> index sub2 4; b \<leftarrow> index sub2 5;
            if le16 a b \<noteq> 0x0002 then Some None
            else if length sub2 \<le> loginEncOffset then Some None
            else do {
              encrypted \<leftarrow> subslice sub2 loginEncOffset (length sub2);
              creds \<leftarrow> decryptCredentials encrypted;
              (case creds of
                 None \<Rightarrow> Some None
               | Some (user, pass) \<Rightarrow> Some (Some
                   \<lparr>Buf = buf, Username = user, Password = pass,
                    sub2Offset = sub2Start, sub2Len = subLen, encOffset = loginEncOffset\<rparr>))
            }
          }
        }
      })"

definition SpliceEncryptedCredentials :: "LoginPacket \<Rightarrow> bytes \<Rightarrow> (error + bytes) option" where
  "SpliceEncryptedCredentials lp encrypted =
     (let newSubLen = encOffset lp + length encrypted in
      if newSubLen > 0xFF
      then Some (Inl (Err (''login subpacket too large ('' @ itoa (int newSubLen) @ '')'')))
      else do {
        pre \<leftarrow> subslice (Buf lp) 0 (sub2Offset lp + encOffset lp);
        post \<leftarrow> subslice (Buf lp) (sub2Offset lp + sub2Len lp) (length (Buf lp));
        let out = pre @ encrypted @ post;
        if sub2Offset lp = 0 then None
        else do {
          old \<leftarrow> index out (sub2Offset lp - 1);
          Some (Inr (out[sub2Offset lp - 1 := word_of_nat newSubLen]))
        }
      })"

definition RewriteCredentials :: "LoginPacket \<Rightarrow> string \<Rightarrow> string \<Rightarrow> (error + bytes) option" where
  "RewriteCredentials lp username password =
     (case PackCredentials username password of
        Inl e \<Rightarrow> Some (Inl e)
      | Inr ct \<Rightarrow> SpliceEncryptedCredentials lp ct)"

definition StripForParse :: "bytes \<Rightarrow> 8 word \<Rightarrow> bytes" where
  "StripForParse pkt crcBytes =
     (if crcBytes = 0 \<or> \<not> PacketUsesCRC pkt then pkt else StripCRC pkt crcBytes)"

definition RestoreCRC :: "bytes \<Rightarrow> 32 word \<Rightarrow> 8 word \<Rightarrow> bytes" where
  "RestoreCRC pkt crcKey crcBytes =
     (if crcBytes = 0 \<or> \<not> PacketUsesCRC pkt then pkt else AppendCRC pkt crcKey crcBytes)"

section \<open>Encryption round trip\<close>

lemma NewCipher_desKey [simp]: "NewCipher desKey = Inr (des_subkeys desKey)"
  by (simp add: NewCipher_def desKey_def)

lemma length_desIV [simp]: "length desIV = 8"
  by (simp add: desIV_def)

lemma pad_blocks: "r < 8 \<Longrightarrow> (8 * q + r + 7) div 8 = (if r = 0 then q else Suc q)" for q r :: nat
  by (intro div_nat_eqI) auto

lemma length_zeroPad: "length (zeroPad b 8) = 8 * ((length b + 7) div 8)"
proof -
  obtain q r where n: "length b = 8 * q + r" and r: "r < 8"
    by (metis mod_less_divisor mult_div_mod_eq zero_less_numeral)
  with pad_blocks [OF r, of q] show ?thesis
    by (auto simp: zeroPad_def)
qed

lemma zeroPad_prefix: "\<exists>n. zeroPad b k = b @ replicate n 0"
  by (auto simp: zeroPad_def intro: exI [of _ 0])

lemma zeroPad_blocks: "\<forall>c \<in> set (chunks 8 (zeroPad b 8)). length c = 8"
  by (intro chunks_length) (simp_all add: length_zeroPad)

lemma EncryptDES_Inr:
  "EncryptDES plain = Inr (cbc_encrypt (des_block (des_subkeys desKey)) desIV (chunks 8 (zeroPad plain 8)))"
  by (simp add: EncryptDES_def)

lemma EncryptDES_length:
  "EncryptDES plain = Inr ct \<Longrightarrow> length ct = 8 * ((length plain + 7) div 8)"
  using des.length_cbc_encrypt [of desIV "chunks 8 (zeroPad plain 8)" "des_subkeys desKey"]
    length_chunks [of 8 "zeroPad plain 8"]
  by (auto simp: EncryptDES_Inr zeroPad_blocks length_zeroPad)

lemma DecryptDES_EncryptDES:
  assumes "EncryptDES plain = Inr ct" and "plain \<noteq> []"
  shows "DecryptDES ct = Inr (zeroPad plain 8)"
proof -
  have "0 < (length plain + 7) div 8"
    using assms(2) by (cases plain) auto
  then have "length ct \<noteq> 0" "length ct mod 8 = 0"
    using EncryptDES_length [OF assms(1)] by auto
  moreover have "cbc_decrypt (des_unblock (des_subkeys desKey)) desIV (chunks 8 ct) = zeroPad plain 8"
    using assms(1) des.cbc_roundtrip [OF length_desIV zeroPad_blocks]
    by (auto simp: EncryptDES_Inr concat_chunks)
  ultimately show ?thesis by (simp add: DecryptDES_def)
qed

lemma PackCredentials_length:
  assumes "PackCredentials u p = Inr ct"
  shows "length ct = 8 * ((length u + length p + 9) div 8)"
  using EncryptDES_length [OF assms [unfolded PackCredentials_def]] by (simp add: add.commute add.left_commute)

lemma PackCredentials_total: "\<exists>ct. PackCredentials u p = Inr ct"
  by (simp add: PackCredentials_def EncryptDES_Inr)

section \<open>Credentials\<close>

lemma decryptCredentials_total: "decryptCredentials ct \<noteq> None"
proof (cases "DecryptDES ct")
  case (Inl e)
  then show ?thesis by (simp add: decryptCredentials_def)
next
  case (Inr pt)
  then show ?thesis
    by (auto simp: decryptCredentials_def subslice_def dest: IndexByte_less split: option.splits)
qed

definition no_nul :: "string \<Rightarrow> bool" where
  "no_nul s = (CHR 0x00 \<notin> set s)"

lemma zero_notin_bytes_of: "no_nul s \<Longrightarrow> 0 \<notin> set (bytes_of s)"
  by (force simp: no_nul_def bytes_of_def)

lemma decryptCredentials_packed:
  assumes ct: "PackCredentials u p = Inr ct" and "no_nul u" "no_nul p"
  shows "decryptCredentials ct = Some (Some (u, p))"
proof -
  let ?plain = "bytes_of u @ [0] @ bytes_of p @ [0]"
  obtain n where pad: "zeroPad ?plain 8 = ?plain @ replicate n 0"
    using zeroPad_prefix by blast
  have "DecryptDES ct = Inr (bytes_of u @ 0 # bytes_of p @ 0 # replicate n 0)"
    using DecryptDES_EncryptDES [OF ct [unfolded PackCredentials_def]] pad by simp
  then show ?thesis
    using assms(2,3)
    by (simp add: decryptCredentials_def subslice_def IndexByte_append zero_notin_bytes_of)
qed

section \<open>What the parser accepts\<close>

definition login_shape :: "bytes \<Rightarrow> bool" where
  "login_shape buf =
     (30 \<le> length buf \<and> take 5 buf = [0x00, 0x03, 0x04, 0x00, 0x15]
      \<and> 8 + unat (buf ! 7) \<le> length buf \<and> 16 < unat (buf ! 7)
      \<and> be16 (buf ! 8) (buf ! 9) = OpPacket \<and> le16 (buf ! 12) (buf ! 13) = 0x0002)"

definition login_cipher :: "bytes \<Rightarrow> bytes" where
  "login_cipher buf = take (unat (buf ! 7) - 16) (drop 24 buf)"

definition packet_of :: "bytes \<Rightarrow> string \<Rightarrow> string \<Rightarrow> LoginPacket" where
  "packet_of buf u p = \<lparr>Buf = buf, Username = u, Password = p, sub2Offset = 8,
     sub2Len = unat (buf ! 7), encOffset = 16\<rparr>"

lemma ParseLoginPacket_eq:
  "ParseLoginPacket buf =
     (if login_shape buf
      then map_option (map_option (\<lambda>(u, p). packet_of buf u p)) (decryptCredentials (login_cipher buf))
      else Some None)"
proof -
  let ?n = "unat (buf ! 7)"
  have pre: "HasPrefix buf [0x00, 0x03, 0x04, 0x00, 0x15] \<longleftrightarrow> take 5 buf = [0x00, 0x03, 0x04, 0x00, 0x15]"
    by (simp add: HasPrefix_def eval_nat_numeral)
  have sl: "subslice (take ?n (drop 8 buf)) 16 ?n = Some (login_cipher buf)"
    if "8 + ?n \<le> length buf" "16 < ?n"
    using that by (simp add: subslice_def login_cipher_def drop_take)
  obtain creds where creds: "decryptCredentials (login_cipher buf) = Some creds"
    using decryptCredentials_total [of "login_cipher buf"] by blast
  consider "length buf < 30 \<or> \<not> HasPrefix buf [0x00, 0x03, 0x04, 0x00, 0x15]"
    | "30 \<le> length buf" "HasPrefix buf [0x00, 0x03, 0x04, 0x00, 0x15]"
      "8 + ?n > length buf \<or> ?n < 6"
    | "30 \<le> length buf" "HasPrefix buf [0x00, 0x03, 0x04, 0x00, 0x15]"
      "8 + ?n \<le> length buf" "6 \<le> ?n"
    by linarith
  then show ?thesis
  proof cases
    case 1
    then show ?thesis
      by (auto simp: ParseLoginPacket_def login_shape_def pre)
  next
    case 2
    then show ?thesis
      by (auto simp: ParseLoginPacket_def login_shape_def login_consts)
  next
    case 3
    then have s0: "subslice buf 8 (8 + ?n) = Some (take ?n (drop 8 buf))"
      and len: "length (take ?n (drop 8 buf)) = ?n"
      by simp_all
    from 3 sl show ?thesis
      by (auto simp: ParseLoginPacket_def login_shape_def login_consts pre packet_of_def Let_def min_def creds s0 len
          simp del: subslice_Some length_take split: option.splits)
  qed
qed

lemma ParseLoginPacket_total: "ParseLoginPacket buf \<noteq> None"
  using decryptCredentials_total [of "login_cipher buf"] by (auto simp: ParseLoginPacket_eq)

lemma ParseLoginPacket_SomeE:
  assumes "ParseLoginPacket buf = Some (Some lp)"
  obtains u p where "login_shape buf" "lp = packet_of buf u p"
  using assms by (auto simp: ParseLoginPacket_eq split: if_splits)

section \<open>Splicing\<close>

definition spliced :: "bytes \<Rightarrow> bytes \<Rightarrow> bytes" where
  "spliced buf ct =
     (take 24 buf @ ct @ drop (8 + unat (buf ! 7)) buf)[7 := word_of_nat (16 + length ct)]"

lemma SpliceEncryptedCredentials_eq:
  assumes "login_shape buf"
  shows "SpliceEncryptedCredentials (packet_of buf u p) ct =
     Some (if 16 + length ct > 255
           then Inl (Err (''login subpacket too large ('' @ itoa (int (16 + length ct)) @ '')''))
           else Inr (spliced buf ct))"
  using assms
  by (auto simp: SpliceEncryptedCredentials_def packet_of_def login_shape_def Let_def spliced_def index_def)

lemma spliced_shape:
  assumes "login_shape buf" and ct: "8 \<le> length ct" "16 + length ct \<le> 255"
  shows "login_shape (spliced buf ct)" and "unat (spliced buf ct ! 7) = 16 + length ct"
    and "login_cipher (spliced buf ct) = ct"
proof -
  let ?out = "take 24 buf @ ct @ drop (8 + unat (buf ! 7)) buf"
  have l: "24 \<le> length buf" "8 + unat (buf ! 7) \<le> length buf"
    using assms(1) by (auto simp: login_shape_def)
  have len: "length ?out = 24 + length ct + (length buf - 8 - unat (buf ! 7))"
    using l by simp
  have nth: "spliced buf ct ! i = buf ! i" if "i < 24" "i \<noteq> 7" for i
    using that l by (simp add: spliced_def nth_append)
  have v7: "spliced buf ct ! 7 = word_of_nat (16 + length ct)"
    using l by (simp add: spliced_def)
  then show n: "unat (spliced buf ct ! 7) = 16 + length ct"
    using ct(2) by (simp only: v7 unat_of_nat) simp
  have t5: "take 5 (spliced buf ct) = take 5 buf"
    using l by (simp add: spliced_def)
  have d24: "drop 24 (spliced buf ct) = ct @ drop (8 + unat (buf ! 7)) buf"
    using l by (simp add: spliced_def)
  then show "login_cipher (spliced buf ct) = ct"
    by (simp only: login_cipher_def n) simp
  have "length (spliced buf ct) = length ?out"
    by (simp add: spliced_def)
  then show "login_shape (spliced buf ct)"
    using assms(1) ct l by (auto simp: login_shape_def n t5 nth len)
qed

lemma spliced_frame:
  assumes "login_shape buf"
  shows "take 7 (spliced buf ct) = take 7 buf"
    and "take 16 (drop 8 (spliced buf ct)) = take 16 (drop 8 buf)"
    and "drop (24 + length ct) (spliced buf ct) = drop (8 + unat (buf ! 7)) buf"
proof -
  have l: "24 \<le> length buf" "8 + unat (buf ! 7) \<le> length buf"
    using assms by (auto simp: login_shape_def)
  show "take 7 (spliced buf ct) = take 7 buf"
    using l by (simp add: spliced_def)
  show "take 16 (drop 8 (spliced buf ct)) = take 16 (drop 8 buf)"
    using l by (simp add: spliced_def take_drop)
  show "drop (24 + length ct) (spliced buf ct) = drop (8 + unat (buf ! 7)) buf"
    using l by (simp add: spliced_def)
qed

lemma pad_bound: "16 + 8 * ((n + 9) div 8) > (255 :: nat) \<longleftrightarrow> 230 < n"
proof -
  have "30 \<le> (n + 9) div 8 \<longleftrightarrow> 230 < n"
    by (simp add: less_eq_div_iff_mult_less_eq) linarith
  then show ?thesis by linarith
qed

lemma RewriteCredentials_parsed:
  assumes "ParseLoginPacket buf = Some (Some lp)" and "PackCredentials u p = Inr ct"
  shows "RewriteCredentials lp u p =
     Some (if 230 < length u + length p
           then Inl (Err (''login subpacket too large ('' @ itoa (int (16 + length ct)) @ '')''))
           else Inr (spliced buf ct))"
proof -
  have "16 + length ct > 255 \<longleftrightarrow> 230 < length u + length p"
    using PackCredentials_length [OF assms(2)] pad_bound [of "length u + length p"] by simp
  moreover obtain u' p' where "login_shape buf" "lp = packet_of buf u' p'"
    using assms(1) by (rule ParseLoginPacket_SomeE)
  ultimately show ?thesis
    using assms(2) by (simp add: RewriteCredentials_def SpliceEncryptedCredentials_eq)
qed

lemma parse_spliced:
  assumes "login_shape buf" and ct: "PackCredentials u p = Inr ct"
    and "no_nul u" "no_nul p" and fits: "length u + length p \<le> 230"
  shows "ParseLoginPacket (spliced buf ct) = Some (Some (packet_of (spliced buf ct) u p))"
proof -
  have "8 \<le> length ct" "16 + length ct \<le> 255"
    using PackCredentials_length [OF ct] fits pad_bound [of "length u + length p"] by auto
  then show ?thesis
    using spliced_shape [OF assms(1)] decryptCredentials_packed [OF ct assms(3,4)]
    by (simp add: ParseLoginPacket_eq)
qed

section \<open>Properties\<close>

text \<open>
  C7: splicing delivers the vault credentials. For every login datagram the daemon accepts and
  every user name and password without a NUL that fit the subpacket, rewriting succeeds, and a
  parser of the same format (the login server) reads exactly these credentials from the result;
  the bytes around the ciphertext and its length field are those of the client's datagram.
\<close>

theorem login_server_reads_spliced_credentials:
  assumes "ParseLoginPacket buf = Some (Some lp)"
    and "no_nul u" and "no_nul p" and "length u + length p \<le> 230"
  shows "\<exists>out lp'. RewriteCredentials lp u p = Some (Inr out)
    \<and> ParseLoginPacket out = Some (Some lp') \<and> Username lp' = u \<and> Password lp' = p
    \<and> take 7 out = take 7 buf \<and> take 16 (drop 8 out) = take 16 (drop 8 buf)
    \<and> drop (sub2Offset lp' + sub2Len lp') out = drop (sub2Offset lp + sub2Len lp) buf"
proof -
  obtain u' p' where shape: "login_shape buf" and lp: "lp = packet_of buf u' p'"
    using assms(1) by (rule ParseLoginPacket_SomeE)
  obtain ct where ct: "PackCredentials u p = Inr ct"
    using PackCredentials_total by blast
  let ?out = "spliced buf ct"
  have len: "8 \<le> length ct" "16 + length ct \<le> 255"
    using PackCredentials_length [OF ct] assms(4) pad_bound [of "length u + length p"] by auto
  have "unat (?out ! 7) = 16 + length ct"
    by (rule spliced_shape(2) [OF shape len])
  then have "drop (8 + unat (?out ! 7)) ?out = drop (8 + unat (buf ! 7)) buf"
    using spliced_frame(3) [OF shape, of ct] by simp
  moreover have "sub2Offset lp + sub2Len lp = 8 + unat (buf ! 7)"
    by (simp add: lp packet_of_def)
  ultimately show ?thesis
    using RewriteCredentials_parsed [OF assms(1) ct] parse_spliced [OF shape ct assms(2-4)]
      spliced_frame(1,2) [OF shape] assms(4)
    by (intro exI [of _ ?out] exI [of _ "packet_of ?out u p"]) (auto simp: packet_of_def)
qed

definition sample_login :: bytes where
  "sample_login = [0, 3, 4, 0, 0x15, 0, 0, 32, 0, 9, 0, 0, 2, 0] @ replicate 10 0 @ GoldenCipherBytes"

lemma golden_vector: "PackCredentials ''user'' ''pass'' = Inr GoldenCipherBytes"
  by code_simp

lemma sample_login_parses:
  "ParseLoginPacket sample_login = Some (Some (packet_of sample_login ''user'' ''pass''))"
proof -
  have "login_shape sample_login" by code_simp
  moreover have "login_cipher sample_login = GoldenCipherBytes" by code_simp
  moreover have "decryptCredentials GoldenCipherBytes = Some (Some (''user'', ''pass''))"
    by (rule decryptCredentials_packed [OF golden_vector]) (simp_all add: no_nul_def)
  ultimately show ?thesis by (simp add: ParseLoginPacket_eq)
qed

theorem login_server_reads_spliced_credentials_witness:
  "\<exists>out lp'. RewriteCredentials (packet_of sample_login ''user'' ''pass'') ''vault'' ''s3cret'' = Some (Inr out)
    \<and> ParseLoginPacket out = Some (Some lp') \<and> Username lp' = ''vault'' \<and> Password lp' = ''s3cret''"
proof -
  have "no_nul ''vault''" "no_nul ''s3cret''" "length ''vault'' + length ''s3cret'' \<le> 230"
    by (simp_all add: no_nul_def)
  from login_server_reads_spliced_credentials [OF sample_login_parses this]
  show ?thesis by blast
qed

text \<open>
  C8: the bound of the splice. For a parsed datagram, rewriting never panics, and it fails
  exactly when user name and password together exceed 230 bytes; the error is the one-byte
  length field of the subpacket.
\<close>

theorem splice_fails_iff_too_long:
  assumes "ParseLoginPacket buf = Some (Some lp)"
  shows "RewriteCredentials lp u p \<noteq> None
    \<and> ((\<exists>e. RewriteCredentials lp u p = Some (Inl e)) \<longleftrightarrow> 230 < length u + length p)"
proof -
  obtain ct where "PackCredentials u p = Inr ct"
    using PackCredentials_total by blast
  from RewriteCredentials_parsed [OF assms this] show ?thesis by simp
qed

theorem splice_fails_iff_too_long_witness:
  "(\<exists>e. RewriteCredentials (packet_of sample_login ''user'' ''pass'') (replicate 200 CHR ''u'')
      (replicate 31 CHR ''p'') = Some (Inl e))"
  using splice_fails_iff_too_long [OF sample_login_parses, of "replicate 200 CHR ''u''" "replicate 31 CHR ''p''"]
  by simp

text \<open>
  No datagram from a client makes the login parser panic, and a datagram that parses keeps
  its bytes and names a ciphertext region that lies inside it.
\<close>

theorem login_parser_safe:
  "\<exists>r. ParseLoginPacket buf = Some r \<and>
     (case r of None \<Rightarrow> True
      | Some lp \<Rightarrow> Buf lp = buf \<and> encOffset lp < sub2Len lp
          \<and> sub2Offset lp + sub2Len lp \<le> length buf)"
proof -
  obtain r where r: "ParseLoginPacket buf = Some r"
    using ParseLoginPacket_total by blast
  moreover have "Buf lp = buf \<and> encOffset lp < sub2Len lp \<and> sub2Offset lp + sub2Len lp \<le> length buf"
    if some: "r = Some lp" for lp
  proof -
    obtain u p where "login_shape buf" "lp = packet_of buf u p"
      by (rule ParseLoginPacket_SomeE [OF r [unfolded some]])
    then show ?thesis
      by (simp add: packet_of_def login_shape_def)
  qed
  ultimately show ?thesis by (auto split: option.split)
qed

text \<open>
  A checksum that was restored is stripped again: for the checksum widths of the protocol
  (none, two or four bytes) and any datagram with a transport opcode, stripping the restored
  datagram gives back the body.
\<close>

theorem strip_restore_crc:
  assumes "n \<in> {0, 2, 4}" and "2 \<le> length body"
  shows "StripForParse (RestoreCRC body key n) n = body"
proof -
  obtain tail where "AppendCRC body key n = body @ tail"
    using AppendCRC_prefix by blast
  then have "PacketUsesCRC (AppendCRC body key n) = PacketUsesCRC body"
    using TransportOpcode_append [OF assms(2)] by (simp add: PacketUsesCRC_def)
  then show ?thesis
    using StripCRC_AppendCRC [OF assms(1)] by (auto simp: StripForParse_def RestoreCRC_def)
qed

theorem strip_restore_crc_witness:
  "StripForParse (RestoreCRC [0, 9, 1, 2] 0xABCD 2) 2 = [0, 9, 1, 2]"
  by (rule strip_restore_crc) simp_all

text \<open>With any other width the four appended bytes are not the bytes stripped.\<close>

lemma strip_restore_width_1:
  "StripForParse (RestoreCRC [0, 9] key 1) 1 \<noteq> [0, 9]"
  by (simp add: StripForParse_def RestoreCRC_def AppendCRC_def StripCRC_def Let_def PacketUsesCRC_def
      TransportOpcode_def be16_def opcode_defs)

end

