(* ===== verification/Presence.thy ===== *)
theory Presence
  imports Prelude "HOL-Library.AList" "HOL-Library.Multiset"
begin

text \<open>
  internal/presence/presence.go: which account is being played, by whom, since when.

  The Go map from account ids to entries is an association list with distinct keys; a \<open>range\<close>
  over it visits the list in order (Go's order is unspecified, so results are stated as sets).
  \<open>now\<close> is the clock reading of the call. \<open>live now t\<close> is the abstract state: the entries whose
  time to live has not run out. The operations are specified against it in the locale
  \<open>presence_contract\<close>, which the hub's lemmas use.
\<close>

record entry =
  AccountID :: int
  CharacterName :: string
  EntryUserID :: int
  LastSeen :: int

record Tracker =
  ttl :: int
  entries :: "(int \<times> entry) list"

definition New :: "int \<Rightarrow> Tracker" where
  "New d = \<lparr>ttl = d, entries = []\<rparr>"

definition Touch :: "int \<Rightarrow> int \<Rightarrow> string \<Rightarrow> int \<Rightarrow> Tracker \<Rightarrow> Tracker" where
  "Touch now accountID character userID t =
     t\<lparr>entries := AList.update accountID
        \<lparr>AccountID = accountID, CharacterName = character, EntryUserID = userID, LastSeen = now\<rparr>
        (entries t)\<rparr>"

definition Clear :: "int \<Rightarrow> Tracker \<Rightarrow> Tracker" where
  "Clear accountID t = t\<lparr>entries := AList.delete accountID (entries t)\<rparr>"

definition expireLocked :: "int \<Rightarrow> Tracker \<Rightarrow> Tracker" where
  "expireLocked now t = t\<lparr>entries := filter (\<lambda>(id, e). \<not> now - LastSeen e \<ge> ttl t) (entries t)\<rparr>"

definition ClearUserExcept :: "int \<Rightarrow> int \<Rightarrow> int \<Rightarrow> Tracker \<Rightarrow> nat \<times> Tracker" where
  "ClearUserExcept now userID keepAccountID t =
     (let t = expireLocked now t;
          gone = (\<lambda>(id, e). EntryUserID e = userID \<and> id \<noteq> keepAccountID)
      in (length (filter gone (entries t)), t\<lparr>entries := filter (\<lambda>x. \<not> gone x) (entries t)\<rparr>))"

definition IsBusy :: "int \<Rightarrow> int \<Rightarrow> Tracker \<Rightarrow> bool \<times> Tracker" where
  "IsBusy now accountID t =
     (let t = expireLocked now t in
      ((case map_of (entries t) accountID of
          None \<Rightarrow> False
        | Some e \<Rightarrow> now - LastSeen e < ttl t), t))"

definition Online :: "int \<Rightarrow> Tracker \<Rightarrow> (int \<times> string) list \<times> Tracker" where
  "Online now t =
     (let t = expireLocked now t in
      (map (\<lambda>(id, e). (AccountID e, CharacterName e)) (entries t), t))"

definition Snapshot :: "int \<Rightarrow> Tracker \<Rightarrow> entry list \<times> Tracker" where
  "Snapshot now t =
     (let t = expireLocked now t in (sort_key AccountID (map snd (entries t)), t))"

definition Count :: "int \<Rightarrow> Tracker \<Rightarrow> nat \<times> Tracker" where
  "Count now t = (let t = expireLocked now t in (length (entries t), t))"

section \<open>Well-formed trackers and their live entries\<close>

definition wf_tracker :: "Tracker \<Rightarrow> bool" where
  "wf_tracker t =
     (distinct (map fst (entries t)) \<and> (\<forall>a e. map_of (entries t) a = Some e \<longrightarrow> AccountID e = a))"

definition live :: "int \<Rightarrow> Tracker \<Rightarrow> int \<rightharpoonup> entry" where
  "live now t a =
     (case map_of (entries t) a of
        None \<Rightarrow> None
      | Some e \<Rightarrow> if now - LastSeen e < ttl t then Some e else None)"

definition Busy :: "int \<Rightarrow> int \<Rightarrow> Tracker \<Rightarrow> bool" where
  "Busy now a t = fst (IsBusy now a t)"

lemmas tracker_ops = Touch_def Clear_def expireLocked_def ClearUserExcept_def IsBusy_def
  Online_def Snapshot_def Count_def Let_def

lemma map_of_filter_distinct:
  "distinct (map fst xs) \<Longrightarrow>
   map_of (filter P xs) a = (case map_of xs a of None \<Rightarrow> None | Some e \<Rightarrow> if P (a, e) then Some e else None)"
proof (induction xs)
  case Nil
  then show ?case by simp
next
  case (Cons x xs)
  obtain k v where x: "x = (k, v)" by (cases x)
  from Cons.prems x have "k \<notin> fst ` set xs" by simp
  then have "map_of xs k = None" by (simp add: map_of_eq_None_iff)
  then show ?case
    using Cons x by (cases "a = k") (simp_all split: option.splits)
qed

lemma distinct_filter_keys: "distinct (map fst xs) \<Longrightarrow> distinct (map fst (filter P xs))"
  by (induction xs) auto

lemma wf_New [simp]: "wf_tracker (New d)"
  by (simp add: wf_tracker_def New_def)

lemma wf_Touch [simp]: "wf_tracker t \<Longrightarrow> wf_tracker (Touch now a c u t)"
  by (auto simp: wf_tracker_def Touch_def AList.distinct_update AList.update_conv')

lemma wf_Clear [simp]: "wf_tracker t \<Longrightarrow> wf_tracker (Clear a t)"
  by (auto simp: wf_tracker_def Clear_def AList.distinct_delete AList.delete_conv')

lemma wf_filter:
  "wf_tracker t \<Longrightarrow> wf_tracker (t\<lparr>entries := filter P (entries t)\<rparr>)"
  by (auto simp: wf_tracker_def distinct_filter_keys map_of_filter_distinct split: option.splits if_splits)

lemma wf_expire [simp]: "wf_tracker t \<Longrightarrow> wf_tracker (expireLocked now t)"
  unfolding expireLocked_def by (rule wf_filter)

lemma wf_ClearUserExcept [simp]: "wf_tracker t \<Longrightarrow> wf_tracker (snd (ClearUserExcept now u k t))"
  by (simp add: ClearUserExcept_def Let_def wf_filter)

lemma ttl_ops [simp]:
  "ttl (Touch now a c u t) = ttl t" "ttl (Clear a t) = ttl t" "ttl (expireLocked now t) = ttl t"
  "ttl (snd (ClearUserExcept now u k t)) = ttl t"
  by (simp_all add: tracker_ops)

lemma live_expire [simp]: "wf_tracker t \<Longrightarrow> live now (expireLocked now t) = live now t"
  by (auto simp: fun_eq_iff live_def expireLocked_def wf_tracker_def map_of_filter_distinct split: option.splits)

lemma map_of_expire:
  "wf_tracker t \<Longrightarrow> map_of (entries (expireLocked now t)) = live now t"
  by (auto simp: fun_eq_iff live_def expireLocked_def wf_tracker_def map_of_filter_distinct split: option.splits)

lemma live_Touch:
  "0 < ttl t \<Longrightarrow> live now (Touch now a c u t) =
     (live now t)(a \<mapsto> \<lparr>AccountID = a, CharacterName = c, EntryUserID = u, LastSeen = now\<rparr>)"
  by (auto simp: fun_eq_iff live_def Touch_def AList.update_conv' split: option.splits)

lemma live_Clear: "live now (Clear a t) = (live now t)(a := None)"
  by (auto simp: fun_eq_iff live_def Clear_def AList.delete_conv' split: option.splits)

lemma live_ClearUserExcept:
  "wf_tracker t \<Longrightarrow> live now (snd (ClearUserExcept now u k t)) b =
     (case live now t b of
        None \<Rightarrow> None
      | Some e \<Rightarrow> if EntryUserID e = u \<and> b \<noteq> k then None else Some e)"
proof -
  assume wf: "wf_tracker t"
  let ?P = "\<lambda>x. \<not> (case x of (i, e) \<Rightarrow> EntryUserID e = u \<and> i \<noteq> k)"
  have "distinct (map fst (entries (expireLocked now t)))"
    using wf_expire [OF wf, of now] by (simp add: wf_tracker_def)
  then have "map_of (filter ?P (entries (expireLocked now t))) b =
      (case live now t b of None \<Rightarrow> None | Some e \<Rightarrow> if ?P (b, e) then Some e else None)"
    by (simp add: map_of_filter_distinct map_of_expire [OF wf])
  moreover have "entries (snd (ClearUserExcept now u k t)) = filter ?P (entries (expireLocked now t))"
    by (simp add: ClearUserExcept_def Let_def)
  ultimately show ?thesis
    by (auto simp: live_def [of now "snd (ClearUserExcept now u k t)"] split: option.splits)
      (auto simp: live_def split: option.splits if_splits)
qed

lemma Busy_iff_live: "wf_tracker t \<Longrightarrow> Busy now a t \<longleftrightarrow> live now t a \<noteq> None"
  by (simp add: Busy_def IsBusy_def Let_def map_of_expire live_def split: option.splits)

lemma IsBusy_frame:
  "wf_tracker t \<Longrightarrow> live now (snd (IsBusy now a t)) = live now t"
  "wf_tracker t \<Longrightarrow> wf_tracker (snd (IsBusy now a t))"
  "ttl (snd (IsBusy now a t)) = ttl t"
  by (simp_all add: IsBusy_def Let_def)

section \<open>The contract the hub relies on\<close>

text \<open>
  \<open>view\<close> is what a tracker shows: who is on an account. The laws are those of a map, plus the
  conditional removal; \<open>busy\<close> reads the view. A heartbeat is the hub's pair of calls.
\<close>

locale presence_contract =
  fixes ok :: "'t \<Rightarrow> bool"
    and view :: "'t \<Rightarrow> int \<Rightarrow> int option"
    and touch :: "int \<Rightarrow> string \<Rightarrow> int \<Rightarrow> 't \<Rightarrow> 't"
    and clear :: "int \<Rightarrow> 't \<Rightarrow> 't"
    and clear_user :: "int \<Rightarrow> int \<Rightarrow> 't \<Rightarrow> 't"
    and busy :: "int \<Rightarrow> 't \<Rightarrow> bool"
  assumes view_touch: "ok t \<Longrightarrow> view (touch a c u t) = (view t)(a \<mapsto> u)"
    and view_clear: "ok t \<Longrightarrow> view (clear a t) = (view t)(a := None)"
    and view_clear_user: "ok t \<Longrightarrow> view (clear_user u k t) b =
          (if view t b = Some u \<and> b \<noteq> k then None else view t b)"
    and busy_view: "ok t \<Longrightarrow> busy a t \<longleftrightarrow> view t a \<noteq> None"
    and ok_touch: "ok t \<Longrightarrow> ok (touch a c u t)"
    and ok_clear: "ok t \<Longrightarrow> ok (clear a t)"
    and ok_clear_user: "ok t \<Longrightarrow> ok (clear_user u k t)"
begin

lemma heartbeat_view:
  assumes "ok t"
  shows "view (touch a c u (clear_user u a t)) b =
    (if b = a then Some u else if view t b = Some u then None else view t b)"
  using assms by (simp add: view_touch view_clear_user ok_clear_user)

lemma heartbeat_single_box:
  "ok t \<Longrightarrow> view (touch a c u (clear_user u a t)) b = Some u \<longleftrightarrow> b = a"
  by (auto simp: heartbeat_view)

lemma heartbeat_others:
  "ok t \<Longrightarrow> b \<noteq> a \<Longrightarrow> view t b \<noteq> Some u \<Longrightarrow>
   view (touch a c u (clear_user u a t)) b = view t b"
  by (simp add: heartbeat_view)

lemma heartbeat_busy: "ok t \<Longrightarrow> busy a (touch a c u (clear_user u a t))"
  by (simp add: busy_view heartbeat_view ok_touch ok_clear_user)

lemma offline_not_busy: "ok t \<Longrightarrow> \<not> busy a (clear a t)"
  by (simp add: busy_view view_clear ok_clear)

end

definition player :: "int \<Rightarrow> Tracker \<Rightarrow> int \<Rightarrow> int option" where
  "player now t a = map_option EntryUserID (live now t a)"

interpretation pres: presence_contract
  "\<lambda>t. wf_tracker t \<and> 0 < ttl t" "player now" "Touch now" Clear
  "\<lambda>u k t. snd (ClearUserExcept now u k t)" "\<lambda>a t. Busy now a t" for now
  by unfold_locales
    (auto simp: player_def live_Touch live_Clear live_ClearUserExcept Busy_iff_live fun_eq_iff
      split: option.splits)

section \<open>Snapshots\<close>

lemma entries_expire_distinct:
  "wf_tracker t \<Longrightarrow> distinct (map fst (entries (expireLocked now t)))"
  using wf_expire [of t now] unfolding wf_tracker_def by blast

lemma wf_entries:
  "wf_tracker t \<Longrightarrow> (a, e) \<in> set (entries t) \<longleftrightarrow> map_of (entries t) a = Some e"
  by (simp add: wf_tracker_def)

lemma wf_AccountIDs: "wf_tracker t \<Longrightarrow> map (AccountID \<circ> snd) (entries t) = map fst (entries t)"
  by (auto simp: wf_tracker_def)

lemma Snapshot_sorted: "sorted (map AccountID (fst (Snapshot now t)))"
  by (simp add: Snapshot_def Let_def)

lemma Snapshot_distinct: "wf_tracker t \<Longrightarrow> distinct (map AccountID (fst (Snapshot now t)))"
proof -
  assume "wf_tracker t"
  then have "distinct (map AccountID (map snd (entries (expireLocked now t))))"
    unfolding map_map using wf_AccountIDs [OF wf_expire] entries_expire_distinct by metis
  moreover have "mset (map AccountID (fst (Snapshot now t)))
      = mset (map AccountID (map snd (entries (expireLocked now t))))"
    by (simp add: Snapshot_def Let_def multiset.map_comp)
  ultimately show ?thesis
    using mset_eq_imp_distinct_iff by blast
qed

lemma Snapshot_live: "wf_tracker t \<Longrightarrow> set (fst (Snapshot now t)) = ran (live now t)"
  using entries_expire_distinct [of t now]
  by (simp add: Snapshot_def Let_def ran_distinct flip: map_of_expire)

section \<open>Properties\<close>

text \<open>
  C10: a user plays on one account at a time. After a heartbeat of user \<open>u\<close> for account \<open>a\<close>
  (the hub clears the user's other rows and touches this one) the account is busy and it is the
  only account on which \<open>u\<close> is online. The account shows \<open>u\<close> with the character sent and the present
  time, whoever was there before; of the other accounts the live rows of \<open>u\<close> are gone, and every live
  row of another user is as it was, character and time included.
\<close>

theorem heartbeat_one_account_per_user:
  fixes now a u :: int and c :: string and t :: Tracker
  assumes "wf_tracker t" and "0 < ttl t"
  defines "t' \<equiv> Touch now a c u (snd (ClearUserExcept now u a t))"
  shows "Busy now a t' \<and> (\<forall>b. player now t' b = Some u \<longleftrightarrow> b = a)
    \<and> live now t' a = Some \<lparr>AccountID = a, CharacterName = c, EntryUserID = u, LastSeen = now\<rparr>
    \<and> (\<forall>b. b \<noteq> a \<longrightarrow> live now t' b = (case live now t b of None \<Rightarrow> None | Some e \<Rightarrow> if EntryUserID e = u then None else Some e))"
proof -
  have "live now t' = (live now (snd (ClearUserExcept now u a t)))(a \<mapsto> \<lparr>AccountID = a, CharacterName = c, EntryUserID = u, LastSeen = now\<rparr>)"
    unfolding t'_def using assms(2) by (intro live_Touch) simp
  moreover have "Busy now a t' \<and> (\<forall>b. player now t' b = Some u \<longleftrightarrow> b = a)"
    unfolding t'_def using assms(1,2) pres.heartbeat_busy pres.heartbeat_single_box by blast
  ultimately show ?thesis using assms(1) by (simp add: live_ClearUserExcept split: option.splits)
qed

theorem heartbeat_one_account_per_user_witness:
  "let t = Touch 0 3 ''Ogre'' 8 (Touch 0 1 ''Elf'' 7 (New 90)); t' = Touch 5 2 ''Orc'' 7 (snd (ClearUserExcept 5 7 2 t)) in
   Busy 5 2 t' \<and> player 5 t' 1 \<noteq> Some 7
   \<and> live 5 t' 3 = Some \<lparr>AccountID = 3, CharacterName = ''Ogre'', EntryUserID = 8, LastSeen = 0\<rparr>"
proof -
  let ?t = "Touch 0 3 ''Ogre'' 8 (Touch 0 1 ''Elf'' 7 (New 90))"
  have t: "wf_tracker ?t" "0 < ttl ?t" by (simp, simp add: New_def)
  have "live 5 ?t 3 = Some \<lparr>AccountID = 3, CharacterName = ''Ogre'', EntryUserID = 8, LastSeen = 0\<rparr>"
    by (simp add: live_def Touch_def New_def)
  with heartbeat_one_account_per_user [OF t, of 5 2 "''Orc''" 7] show ?thesis by (simp add: Let_def)
qed

text \<open>
  Presence expires. An account touched at time \<open>s\<close> and not touched or cleared since is busy
  at time \<open>now\<close> exactly while less than the time to live has passed.
\<close>

theorem busy_until_ttl:
  assumes "wf_tracker t"
  shows "Busy now a (Touch s a c u t) \<longleftrightarrow> now - s < ttl t"
  using assms by (simp add: Busy_iff_live) (simp add: live_def Touch_def AList.update_conv')

theorem busy_until_ttl_witness:
  "Busy 89 1 (Touch 0 1 ''Elf'' 7 (New 90)) \<and> \<not> Busy 90 1 (Touch 0 1 ''Elf'' 7 (New 90))"
  using busy_until_ttl [of "New 90" 89 1 0 "''Elf''" 7] busy_until_ttl [of "New 90" 90 1 0 "''Elf''" 7]
  by (simp add: New_def wf_tracker_def)

text \<open>
  A snapshot is the live map as a list: strictly ordered by account id, one row per account,
  holding exactly the entries whose time to live has not run out; the count is its length.
\<close>

theorem snapshot_is_live_map:
  assumes "wf_tracker t"
  shows "sorted (map AccountID (fst (Snapshot now t))) \<and> distinct (map AccountID (fst (Snapshot now t)))
    \<and> set (fst (Snapshot now t)) = ran (live now t)
    \<and> length (fst (Snapshot now t)) = fst (Count now t)"
  using Snapshot_sorted Snapshot_distinct [OF assms] Snapshot_live [OF assms]
  by (simp add: Snapshot_def Count_def Let_def)

theorem snapshot_is_live_map_witness:
  "map AccountID (fst (Snapshot 10 (Touch 9 1 ''A'' 3 (Touch 8 2 ''B'' 4 (New 90))))) = [1, 2]
   \<and> distinct (map AccountID (fst (Snapshot 10 (Touch 9 1 ''A'' 3 (Touch 8 2 ''B'' 4 (New 90))))))"
proof
  have "wf_tracker (Touch 9 1 ''A'' 3 (Touch 8 2 ''B'' 4 (New 90)))" by simp
  from snapshot_is_live_map [OF this, of 10]
  show "distinct (map AccountID (fst (Snapshot 10 (Touch 9 1 ''A'' 3 (Touch 8 2 ''B'' 4 (New 90))))))"
    by blast
  show "map AccountID (fst (Snapshot 10 (Touch 9 1 ''A'' 3 (Touch 8 2 ''B'' 4 (New 90))))) = [1, 2]"
    by (simp add: New_def Touch_def Snapshot_def expireLocked_def)
qed

end
