(* ===== verification/StdCrypto.thy ===== *)
theory StdCrypto
  imports Prelude
begin

unbundle bit_operations_syntax

text \<open>
  The part of Go's standard library under internal/crypto/aead.go and token.go: SHA-256 (FIPS
  180-4), HMAC (RFC 2104), AES-256 in the forward direction (FIPS 197) and Galois counter mode
  with a 12-byte nonce (SP 800-38D), on byte lists. Opening what was sealed under the same key,
  nonce and additional data gives back the plaintext; changing the tag is detected.
\<close>

section \<open>Bytes and wider words, big end first\<close>

definition be_word32 :: "bytes \<Rightarrow> 32 word" where
  "be_word32 bs = foldl (\<lambda>a b. push_bit 8 a OR ucast b) 0 bs"

definition be_bytes32 :: "32 word \<Rightarrow> bytes" where
  "be_bytes32 w = [ucast (drop_bit 24 w), ucast (drop_bit 16 w), ucast (drop_bit 8 w), ucast w]"

definition be_bytes64 :: "nat \<Rightarrow> bytes" where
  "be_bytes64 n = map (\<lambda>i. ucast (drop_bit (8 * i) (word_of_nat n :: 64 word))) (rev [0..<8])"

section \<open>SHA-256 and HMAC\<close>

text \<open>The round constants and the initial value, in decimal.\<close>

definition sha_K :: "32 word list" where
  "sha_K = [1116352408, 1899447441, 3049323471, 3921009573, 961987163, 1508970993,
     2453635748, 2870763221, 3624381080, 310598401, 607225278, 1426881987,
     1925078388, 2162078206, 2614888103, 3248222580, 3835390401, 4022224774,
     264347078, 604807628, 770255983, 1249150122, 1555081692, 1996064986,
     2554220882, 2821834349, 2952996808, 3210313671, 3336571891, 3584528711,
     113926993, 338241895, 666307205, 773529912, 1294757372, 1396182291,
     1695183700, 1986661051, 2177026350, 2456956037, 2730485921, 2820302411,
     3259730800, 3345764771, 3516065817, 3600352804, 4094571909, 275423344,
     430227734, 506948616, 659060556, 883997877, 958139571, 1322822218,
     1537002063, 1747873779, 1955562222, 2024104815, 2227730452, 2361852424,
     2428436474, 2756734187, 3204031479, 3329325298]"

definition sha_H0 :: "32 word list" where
  "sha_H0 = [1779033703, 3144134277, 1013904242, 2773480762, 1359893119, 2600822924,
     528734635, 1541459225]"

definition sha_pad :: "bytes \<Rightarrow> bytes" where
  "sha_pad m = m @ 0x80 # replicate ((55 + 64 - length m mod 64) mod 64) 0 @ be_bytes64 (8 * length m)"

definition sha_s0 :: "32 word \<Rightarrow> 32 word" where
  "sha_s0 x = word_rotr 7 x XOR word_rotr 18 x XOR drop_bit 3 x"

definition sha_s1 :: "32 word \<Rightarrow> 32 word" where
  "sha_s1 x = word_rotr 17 x XOR word_rotr 19 x XOR drop_bit 10 x"

definition sha_S0 :: "32 word \<Rightarrow> 32 word" where
  "sha_S0 x = word_rotr 2 x XOR word_rotr 13 x XOR word_rotr 22 x"

definition sha_S1 :: "32 word \<Rightarrow> 32 word" where
  "sha_S1 x = word_rotr 6 x XOR word_rotr 11 x XOR word_rotr 25 x"

text \<open>The message schedule, as the list of words so far in reverse.\<close>

fun sha_extend :: "nat \<Rightarrow> 32 word list \<Rightarrow> 32 word list" where
  "sha_extend 0 ws = rev ws"
| "sha_extend (Suc n) ws =
     sha_extend n ((sha_s1 (ws ! 1) + ws ! 6 + sha_s0 (ws ! 14) + ws ! 15) # ws)"

fun sha_round :: "32 word list \<Rightarrow> 32 word \<times> 32 word \<Rightarrow> 32 word list" where
  "sha_round [a, b, c, d, e, f, g, h] (k, w) =
     (let t1 = h + sha_S1 e + ((e AND f) XOR (NOT e AND g)) + k + w;
          t2 = sha_S0 a + ((a AND b) XOR (a AND c) XOR (b AND c))
      in [t1 + t2, a, b, c, d + t1, e, f, g])"
| "sha_round v kw = v"

definition sha_block :: "32 word list \<Rightarrow> bytes \<Rightarrow> 32 word list" where
  "sha_block h blk =
     (let ws = sha_extend 48 (rev (map be_word32 (chunks 4 blk)))
      in map2 (+) h (foldl sha_round h (zip sha_K ws)))"

definition sha256 :: "bytes \<Rightarrow> bytes" where
  "sha256 m = concat (map be_bytes32 (foldl sha_block sha_H0 (chunks 64 (sha_pad m))))"

definition hmac_sha256 :: "bytes \<Rightarrow> bytes \<Rightarrow> bytes" where
  "hmac_sha256 key m =
     (let k = (if 64 < length key then sha256 key else key);
          k = k @ replicate (64 - length k) 0
      in sha256 (map (\<lambda>b. b XOR 0x5c) k @ sha256 (map (\<lambda>b. b XOR 0x36) k @ m)))"

definition hex_digit :: "nat \<Rightarrow> char" where
  "hex_digit n = ''0123456789abcdef'' ! n"

definition hex_encode :: "bytes \<Rightarrow> string" where
  "hex_encode bs = concat (map (\<lambda>b. [hex_digit (unat b div 16), hex_digit (unat b mod 16)]) bs)"

text \<open>The test vector of the standard.\<close>

lemma sha256_abc:
  "hex_encode (sha256 (bytes_of ''abc''))
   = ''ba7816bf8f01cfea414140de5dae2223b00361a396177a9cb410ff61f20015ad''"
  by code_simp

section \<open>AES-256, forward\<close>

definition aes_sbox :: "8 word list" where
  "aes_sbox = [0x63, 0x7c, 0x77, 0x7b, 0xf2, 0x6b, 0x6f, 0xc5, 0x30, 0x01, 0x67, 0x2b, 0xfe, 0xd7, 0xab, 0x76,
     0xca, 0x82, 0xc9, 0x7d, 0xfa, 0x59, 0x47, 0xf0, 0xad, 0xd4, 0xa2, 0xaf, 0x9c, 0xa4, 0x72, 0xc0,
     0xb7, 0xfd, 0x93, 0x26, 0x36, 0x3f, 0xf7, 0xcc, 0x34, 0xa5, 0xe5, 0xf1, 0x71, 0xd8, 0x31, 0x15,
     0x04, 0xc7, 0x23, 0xc3, 0x18, 0x96, 0x05, 0x9a, 0x07, 0x12, 0x80, 0xe2, 0xeb, 0x27, 0xb2, 0x75,
     0x09, 0x83, 0x2c, 0x1a, 0x1b, 0x6e, 0x5a, 0xa0, 0x52, 0x3b, 0xd6, 0xb3, 0x29, 0xe3, 0x2f, 0x84,
     0x53, 0xd1, 0x00, 0xed, 0x20, 0xfc, 0xb1, 0x5b, 0x6a, 0xcb, 0xbe, 0x39, 0x4a, 0x4c, 0x58, 0xcf,
     0xd0, 0xef, 0xaa, 0xfb, 0x43, 0x4d, 0x33, 0x85, 0x45, 0xf9, 0x02, 0x7f, 0x50, 0x3c, 0x9f, 0xa8,
     0x51, 0xa3, 0x40, 0x8f, 0x92, 0x9d, 0x38, 0xf5, 0xbc, 0xb6, 0xda, 0x21, 0x10, 0xff, 0xf3, 0xd2,
     0xcd, 0x0c, 0x13, 0xec, 0x5f, 0x97, 0x44, 0x17, 0xc4, 0xa7, 0x7e, 0x3d, 0x64, 0x5d, 0x19, 0x73,
     0x60, 0x81, 0x4f, 0xdc, 0x22, 0x2a, 0x90, 0x88, 0x46, 0xee, 0xb8, 0x14, 0xde, 0x5e, 0x0b, 0xdb,
     0xe0, 0x32, 0x3a, 0x0a, 0x49, 0x06, 0x24, 0x5c, 0xc2, 0xd3, 0xac, 0x62, 0x91, 0x95, 0xe4, 0x79,
     0xe7, 0xc8, 0x37, 0x6d, 0x8d, 0xd5, 0x4e, 0xa9, 0x6c, 0x56, 0xf4, 0xea, 0x65, 0x7a, 0xae, 0x08,
     0xba, 0x78, 0x25, 0x2e, 0x1c, 0xa6, 0xb4, 0xc6, 0xe8, 0xdd, 0x74, 0x1f, 0x4b, 0xbd, 0x8b, 0x8a,
     0x70, 0x3e, 0xb5, 0x66, 0x48, 0x03, 0xf6, 0x0e, 0x61, 0x35, 0x57, 0xb9, 0x86, 0xc1, 0x1d, 0x9e,
     0xe1, 0xf8, 0x98, 0x11, 0x69, 0xd9, 0x8e, 0x94, 0x9b, 0x1e, 0x87, 0xe9, 0xce, 0x55, 0x28, 0xdf,
     0x8c, 0xa1, 0x89, 0x0d, 0xbf, 0xe6, 0x42, 0x68, 0x41, 0x99, 0x2d, 0x0f, 0xb0, 0x54, 0xbb, 0x16]"

definition aes_sub :: "8 word \<Rightarrow> 8 word" where
  "aes_sub b = aes_sbox ! unat b"

definition aes_xtime :: "8 word \<Rightarrow> 8 word" where
  "aes_xtime b = (if bit b 7 then push_bit 1 b XOR 0x1b else push_bit 1 b)"

text \<open>The key schedule: the words so far in reverse, and the index of the next one.\<close>

fun aes_expand :: "nat \<Rightarrow> nat \<Rightarrow> 8 word \<Rightarrow> bytes list \<Rightarrow> bytes list" where
  "aes_expand 0 i rcon ws = rev ws"
| "aes_expand (Suc n) i rcon ws =
     (let t = hd ws;
          t = (if i mod 8 = 0 then xor_bytes (map aes_sub (rotate1 t)) [rcon, 0, 0, 0]
               else if i mod 8 = 4 then map aes_sub t else t)
      in aes_expand n (Suc i) (if i mod 8 = 0 then aes_xtime rcon else rcon) (xor_bytes (ws ! 7) t # ws))"

definition aes_round_keys :: "bytes \<Rightarrow> bytes list" where
  "aes_round_keys key = map concat (chunks 4 (aes_expand 52 8 1 (rev (chunks 4 key))))"

definition aes_shift_rows :: "bytes \<Rightarrow> bytes" where
  "aes_shift_rows s = map ((!) s) [0, 5, 10, 15, 4, 9, 14, 3, 8, 13, 2, 7, 12, 1, 6, 11]"

fun aes_mix_column :: "bytes \<Rightarrow> bytes" where
  "aes_mix_column [a, b, c, d] =
     [aes_xtime a XOR aes_xtime b XOR b XOR c XOR d, a XOR aes_xtime b XOR aes_xtime c XOR c XOR d,
      a XOR b XOR aes_xtime c XOR aes_xtime d XOR d, aes_xtime a XOR a XOR b XOR c XOR aes_xtime d]"
| "aes_mix_column s = s"

definition aes_round :: "bytes \<Rightarrow> bytes \<Rightarrow> bytes" where
  "aes_round s k = xor_bytes (concat (map aes_mix_column (chunks 4 (aes_shift_rows (map aes_sub s))))) k"

definition aes_block :: "bytes \<Rightarrow> bytes \<Rightarrow> bytes" where
  "aes_block key blk =
     (let ks = aes_round_keys key;
          s = foldl aes_round (xor_bytes blk (hd ks)) (butlast (tl ks))
      in xor_bytes (aes_shift_rows (map aes_sub s)) (last ks))"

section \<open>Galois counter mode\<close>

definition gcm_word :: "bytes \<Rightarrow> 128 word" where
  "gcm_word bs = foldl (\<lambda>a b. push_bit 8 a OR ucast b) 0 bs"

definition gcm_bytes :: "128 word \<Rightarrow> bytes" where
  "gcm_bytes w = map (\<lambda>i. ucast (drop_bit (8 * i) w)) (rev [0..<16])"

fun gcm_mult_from :: "nat \<Rightarrow> 128 word \<Rightarrow> 128 word \<Rightarrow> 128 word \<Rightarrow> 128 word" where
  "gcm_mult_from 0 x v z = z"
| "gcm_mult_from (Suc i) x v z =
     gcm_mult_from i x (if bit v 0 then drop_bit 1 v XOR push_bit 120 0xe1 else drop_bit 1 v)
       (if bit x i then z XOR v else z)"

definition gcm_mult :: "128 word \<Rightarrow> 128 word \<Rightarrow> 128 word" where
  "gcm_mult x y = gcm_mult_from 128 x y 0"

definition pad16 :: "bytes \<Rightarrow> bytes" where
  "pad16 bs = bs @ replicate ((16 - length bs mod 16) mod 16) 0"

definition ghash :: "128 word \<Rightarrow> bytes \<Rightarrow> 128 word" where
  "ghash h bs = foldl (\<lambda>y blk. gcm_mult (y XOR gcm_word blk) h) 0 (chunks 16 bs)"

definition gcm_counter :: "bytes \<Rightarrow> nat \<Rightarrow> bytes" where
  "gcm_counter nonce i = nonce @ be_bytes32 (word_of_nat i)"

definition gcm_stream :: "bytes \<Rightarrow> bytes \<Rightarrow> nat \<Rightarrow> bytes" where
  "gcm_stream key nonce n =
     concat (map (\<lambda>i. take 16 (aes_block key (gcm_counter nonce i) @ replicate 16 0)) [2..<n div 16 + 3])"

definition gcm_tag :: "bytes \<Rightarrow> bytes \<Rightarrow> bytes \<Rightarrow> bytes \<Rightarrow> bytes" where
  "gcm_tag key nonce ct aad =
     (let h = gcm_word (aes_block key (replicate 16 0));
          s = ghash h (pad16 aad @ pad16 ct @ be_bytes64 (8 * length aad) @ be_bytes64 (8 * length ct))
      in take 16 (xor_bytes (gcm_bytes s) (aes_block key (gcm_counter nonce 1)) @ replicate 16 0))"

definition gcm_nonce_size :: nat where
  "gcm_nonce_size = 12"

definition gcm_seal :: "bytes \<Rightarrow> bytes \<Rightarrow> bytes \<Rightarrow> bytes \<Rightarrow> bytes" where
  "gcm_seal key nonce pt aad =
     (let ct = xor_bytes pt (gcm_stream key nonce (length pt)) in ct @ gcm_tag key nonce ct aad)"

definition gcm_open :: "bytes \<Rightarrow> bytes \<Rightarrow> bytes \<Rightarrow> bytes \<Rightarrow> bytes option" where
  "gcm_open key nonce blob aad =
     (if length blob < 16 then None
      else let n = length blob - 16; ct = take n blob
           in if gcm_tag key nonce ct aad = drop n blob
              then Some (xor_bytes ct (gcm_stream key nonce n)) else None)"

lemma length_gcm_tag [simp]: "length (gcm_tag key nonce ct aad) = 16"
  by (simp add: gcm_tag_def Let_def)

lemma sum_list_const: "sum_list (map (\<lambda>i. (c :: nat)) xs) = length xs * c"
  by (induction xs) auto

lemma length_sha256: "length (sha256 m) = 32"
proof -
  have round: "length (sha_round v kw) = length v" for v kw
    by (cases "(v, kw)" rule: sha_round.cases) (simp_all add: Let_def)
  have "length (foldl sha_round v kws) = length v" for v kws
    by (induction kws arbitrary: v) (simp_all add: round)
  then have "length (foldl sha_block v bs) = length v" for v bs
    by (induction bs arbitrary: v) (simp_all add: sha_block_def Let_def)
  moreover have "length (be_bytes32 w) = 4" for w
    by (simp add: be_bytes32_def)
  ultimately show ?thesis
    by (simp add: sha256_def length_concat comp_def sum_list_const sha_H0_def)
qed

lemma length_gcm_stream: "n \<le> length (gcm_stream key nonce n)"
proof -
  have "n mod 16 < 16" by simp
  then have "n \<le> 16 + n div 16 * 16"
    using div_mult_mod_eq [of n 16] by simp
  moreover have "length (take 16 (xs @ replicate 16 0)) = 16" for xs :: bytes
    by simp
  ultimately show ?thesis
    by (simp add: gcm_stream_def length_concat comp_def sum_list_const del: length_take)
qed

text \<open>The two bounds of \<open>take 16\<close> and the padding in front of it only fix the lengths: a block
  of AES has sixteen bytes whenever its input and the key have the right size.\<close>

lemma gcm_open_seal [simp]: "gcm_open key nonce (gcm_seal key nonce pt aad) aad = Some pt"
  using length_gcm_stream [of "length pt" key nonce]
  by (simp add: gcm_open_def gcm_seal_def Let_def xor_bytes_twice min_def)

lemma gcm_open_authentic:
  "gcm_open key nonce blob aad = Some pt \<Longrightarrow> blob = gcm_seal key nonce pt aad"
proof -
  assume opened: "gcm_open key nonce blob aad = Some pt"
  define n where "n = length blob - 16"
  have len: "16 \<le> length blob" and tag: "gcm_tag key nonce (take n blob) aad = drop n blob"
    and pt: "pt = xor_bytes (take n blob) (gcm_stream key nonce n)"
    using opened by (auto simp: gcm_open_def Let_def n_def not_less split: if_splits)
  have "length pt = n" "xor_bytes pt (gcm_stream key nonce n) = take n blob"
    using length_gcm_stream [of n key nonce] len
    by (auto simp: pt xor_bytes_twice n_def)
  with tag show ?thesis
    by (simp add: gcm_seal_def Let_def)
qed

end
