(* ===== verification/StoreDb.thy ===== *)
theory StoreDb
  imports Prelude "HOL-Library.Char_ord" "HOL-Library.List_Lexorder" "HOL-Library.Product_Lexorder"
begin

text \<open>
  The world of internal/store: the tables of internal/db/migrations, the clock, the randomness
  and the faults of the database connection.

  A table is the list of its rows in insertion order, with the columns the code reads. JSON
  columns hold the decoded value. Every SQL statement is one action over the world, wrapped in
  \<open>stmt\<close>: it takes the next element of \<open>faults\<close>, and \<open>Some msg\<close> makes it fail without effect (a
  lost connection, a cancelled context); an empty list means no more faults. The constraints of
  the schema are checked by the inserting statements, with the errors of PostgreSQL; deletes
  cascade as the schema says. A query whose rows cannot all be read fails as a whole. Text is
  compared bytewise, \<open>lower\<close> is \<open>ToLower\<close> on ASCII. A failed insert uses up its serial number.
\<close>

section \<open>Rows\<close>

record User =
  ID :: int
  DiscordID :: string
  DisplayName :: string
  RoleIDs :: "string list"
  AccessRevoked :: bool

record token_row =
  t_id :: int
  t_user :: int
  t_hash :: string
  t_cipher :: bytes
  t_label :: string
  t_revoked_at :: "int option"
  t_last_used_at :: "int option"
  t_created_at :: int

record group_row =
  g_id :: int
  g_name :: string
  g_desc :: string
  g_web_role :: string
  g_cmds :: "string list"

record member_row =
  m_group :: int
  m_user :: "int option"
  m_role :: "string option"

record account_row =
  a_id :: int
  a_username_cipher :: bytes
  a_username_blind :: string
  a_password_cipher :: bytes
  a_notes_cipher :: "bytes option"
  a_disabled :: bool
  a_required_role :: string
  a_required_user :: "int option"
  a_restricted :: bool
  a_owner :: "int option"
  a_updated_at :: int

text \<open>A row of aliases, characters or account_tags.\<close>

record name_row =
  n_name :: string
  n_account :: int

record audit_row =
  l_id :: int
  l_user :: int
  l_account :: "int option"
  l_action :: string
  l_detail :: bytes
  l_created_at :: int

record world =
  users :: "User list"
  tokens :: "token_row list"
  groups :: "group_row list"
  members :: "member_row list"
  accounts :: "account_row list"
  links :: "(int \<times> int) list"
  aliases :: "name_row list"
  characters :: "name_row list"
  tags :: "name_row list"
  acc_roles :: "(int \<times> string) list"
  acc_users :: "(int \<times> int) list"
  shares :: "(int \<times> int) list"
  audit_log :: "audit_row list"
  disc_roles :: "(string \<times> string) list"
  next_user :: int
  next_token :: int
  next_group :: int
  next_account :: int
  next_audit :: int
  clock :: int
  entropy :: "nat \<Rightarrow> 8 word"
  faults :: "string option list"

type_synonym 'a db = "(world, 'a) action"

definition empty_world :: world where
  "empty_world = \<lparr>users = [], tokens = [], groups = [], members = [], accounts = [], links = [],
     aliases = [], characters = [], tags = [], acc_roles = [], acc_users = [], shares = [],
     audit_log = [], disc_roles = [], next_user = 1, next_token = 1, next_group = 1,
     next_account = 1, next_audit = 1, clock = 0, entropy = (\<lambda>_. 0), faults = []\<rparr>"

section \<open>Statements\<close>

definition stmt :: "'a db \<Rightarrow> 'a db" where
  "stmt m s =
     (case faults s of
        [] \<Rightarrow> m s
      | None # fs \<Rightarrow> m (s\<lparr>faults := fs\<rparr>)
      | Some e # fs \<Rightarrow> (Inl (Err e), s\<lparr>faults := fs\<rparr>))"

text \<open>\<open>QueryContext\<close> and its loop; \<open>QueryRowContext\<close> with \<open>Scan\<close>: the first row or \<open>NoRows\<close>.\<close>

definition query :: "(world \<Rightarrow> 'a) \<Rightarrow> 'a db" where
  "query f = stmt (\<lambda>s. (Inr (f s), s))"

definition query_row :: "(world \<Rightarrow> 'a list) \<Rightarrow> 'a db" where
  "query_row f = stmt (\<lambda>s. (case f s of [] \<Rightarrow> (Inl NoRows, s) | x # _ \<Rightarrow> (Inr x, s)))"

text \<open>
  \<open>ExecContext\<close>: UPDATE and DELETE on the rows that satisfy a condition, with the number of
  affected rows; INSERT of a row unless a constraint says otherwise.
\<close>

definition exec_update ::
  "(world \<Rightarrow> 'r list) \<Rightarrow> (('r list \<Rightarrow> 'r list) \<Rightarrow> world \<Rightarrow> world) \<Rightarrow> ('r \<Rightarrow> bool) \<Rightarrow> (world \<Rightarrow> 'r \<Rightarrow> 'r) \<Rightarrow> nat db"
where
  "exec_update get upd P f =
     stmt (\<lambda>s. (Inr (length (filter P (get s))), upd (\<lambda>_. map (\<lambda>r. if P r then f s r else r) (get s)) s))"

definition exec_delete ::
  "(world \<Rightarrow> 'r list) \<Rightarrow> (('r list \<Rightarrow> 'r list) \<Rightarrow> world \<Rightarrow> world) \<Rightarrow> ('r \<Rightarrow> bool) \<Rightarrow> nat db"
where
  "exec_delete get upd P =
     stmt (\<lambda>s. (Inr (length (filter P (get s))), upd (\<lambda>_. filter (\<lambda>r. \<not> P r) (get s)) s))"

definition exec_insert ::
  "(world \<Rightarrow> 'r list) \<Rightarrow> (('r list \<Rightarrow> 'r list) \<Rightarrow> world \<Rightarrow> world) \<Rightarrow> (world \<Rightarrow> error option) \<Rightarrow> (world \<Rightarrow> 'r) \<Rightarrow> unit db"
where
  "exec_insert get upd violated row =
     stmt (\<lambda>s. case violated s of Some e \<Rightarrow> (Inl e, s) | None \<Rightarrow> (Inr (), upd (\<lambda>_. get s @ [row s]) s))"

text \<open>\<open>INSERT ... ON CONFLICT DO NOTHING\<close>.\<close>

definition exec_insert_once ::
  "(world \<Rightarrow> 'r list) \<Rightarrow> (('r list \<Rightarrow> 'r list) \<Rightarrow> world \<Rightarrow> world) \<Rightarrow> (world \<Rightarrow> bool) \<Rightarrow> (world \<Rightarrow> error option) \<Rightarrow> 'r \<Rightarrow> unit db"
where
  "exec_insert_once get upd conflict violated row =
     stmt (\<lambda>s. if conflict s then (Inr (), s) else
            (case violated s of Some e \<Rightarrow> (Inl e, s) | None \<Rightarrow> (Inr (), upd (\<lambda>_. get s @ [row]) s)))"

text \<open>\<open>BeginTx\<close>, a body, \<open>Commit\<close>; the deferred \<open>Rollback\<close> undoes the body on any error.\<close>

definition in_tx :: "'a db \<Rightarrow> 'a db" where
  "in_tx body = andThen (stmt (ret ())) (\<lambda>_ s.
     case body s of
       (Inl e, s') \<Rightarrow> (Inl e, s\<lparr>faults := faults s'\<rparr>)
     | (Inr x, s') \<Rightarrow>
         (case stmt (ret ()) s' of
            (Inl e, s'') \<Rightarrow> (Inl e, s\<lparr>faults := faults s''\<rparr>)
          | (Inr _, s'') \<Rightarrow> (Inr x, s'')))"

text \<open>\<open>rand.Read\<close>: the next bytes of the random source. It does not fail (Go aborts instead).\<close>

definition rand_read :: "nat \<Rightarrow> bytes db" where
  "rand_read n s = (Inr (map (entropy s) [0..<n]), s\<lparr>entropy := (\<lambda>i. entropy s (i + n))\<rparr>)"

section \<open>Lookups\<close>

definition user_ids :: "world \<Rightarrow> int set" where
  "user_ids s = ID ` set (users s)"

definition account_ids :: "world \<Rightarrow> int set" where
  "account_ids s = a_id ` set (accounts s)"

definition group_ids :: "world \<Rightarrow> int set" where
  "group_ids s = g_id ` set (groups s)"

text \<open>\<open>EXISTS (SELECT 1 FROM users uu WHERE uu.id = $1 AND uu.role_ids_json::jsonb ? role)\<close>.\<close>

definition holds_role :: "world \<Rightarrow> int \<Rightarrow> string \<Rightarrow> bool" where
  "holds_role s uid role = (\<exists>u \<in> set (users s). ID u = uid \<and> role \<in> set (RoleIDs u))"

definition violates_fk :: "string \<Rightarrow> string \<Rightarrow> bool \<Rightarrow> error option" where
  "violates_fk table con present = (if present then None else Some (ForeignKeyViolation table con))"

fun first_violation :: "error option list \<Rightarrow> error option" where
  "first_violation [] = None"
| "first_violation (None # vs) = first_violation vs"
| "first_violation (Some e # vs) = Some e"

lemma first_violation_None [simp]: "first_violation vs = None \<longleftrightarrow> set vs \<subseteq> {None}"
  by (induction vs rule: first_violation.induct) auto

lemma violates_fk_None [simp]: "violates_fk t c p = None \<longleftrightarrow> p"
  by (simp add: violates_fk_def)

lemma violates_fk_True [simp]: "p \<Longrightarrow> violates_fk t c p = None"
  by simp

section \<open>Invariants through statements\<close>

text \<open>\<open>quiet I\<close>: the predicate does not look at the faults or the random source.\<close>

definition quiet :: "(world \<Rightarrow> bool) \<Rightarrow> bool" where
  "quiet I = (\<forall>s fs en. I (s\<lparr>faults := fs\<rparr>) = I s \<and> I (s\<lparr>entropy := en\<rparr>) = I s)"

lemma quietI [intro]:
  "(\<And>s fs. I (s\<lparr>faults := fs\<rparr>) = I s) \<Longrightarrow> (\<And>s en. I (s\<lparr>entropy := en\<rparr>) = I s) \<Longrightarrow> quiet I"
  by (simp add: quiet_def)

lemma quiet_simps [simp]:
  "quiet I \<Longrightarrow> I (s\<lparr>faults := fs\<rparr>) = I s"
  "quiet I \<Longrightarrow> I (s\<lparr>entropy := en\<rparr>) = I s"
  by (auto simp: quiet_def)

lemma keeps_stmt:
  "quiet I \<Longrightarrow> keeps I m \<Longrightarrow> keeps I (stmt m)"
  by (auto simp: keeps_def stmt_def split: list.splits option.splits)

lemma keeps_query [keeps_rules]: "quiet I \<Longrightarrow> keeps I (query f)"
  unfolding query_def by (rule keeps_stmt) (auto simp: keeps_def)

lemma keeps_query_row [keeps_rules]: "quiet I \<Longrightarrow> keeps I (query_row f)"
  unfolding query_row_def by (rule keeps_stmt) (auto simp: keeps_def split: list.splits)

lemma keeps_rand_read [keeps_rules]: "quiet I \<Longrightarrow> keeps I (rand_read n)"
  by (simp add: keeps_def rand_read_def)

lemma keeps_in_tx [keeps_rules]: "quiet I \<Longrightarrow> keeps I body \<Longrightarrow> keeps I (in_tx body)"
  unfolding in_tx_def
proof (rule keeps_andThen)
  assume q: "quiet I" and b: "keeps I body"
  show "keeps I (stmt (ret ()))"
    by (rule keeps_stmt [OF q keeps_ret])
  show "keeps I (\<lambda>s. case body s of (Inl e, s') \<Rightarrow> (Inl e, s\<lparr>faults := faults s'\<rparr>)
     | (Inr x, s') \<Rightarrow> (case stmt (ret ()) s' of (Inl e, s'') \<Rightarrow> (Inl e, s\<lparr>faults := faults s''\<rparr>)
          | (Inr _, s'') \<Rightarrow> (Inr x, s'')))"
    using q keepsD [OF b] keepsD [OF keeps_stmt [OF q keeps_ret [of I "()"]]]
    by (fastforce simp: keeps_def split: prod.splits sum.splits)
qed

lemma keeps_exec_update:
  "quiet I \<Longrightarrow> (\<And>s. I s \<Longrightarrow> I (upd (\<lambda>_. map (\<lambda>r. if P r then f s r else r) (get s)) s)) \<Longrightarrow>
   keeps I (exec_update get upd P f)"
  unfolding exec_update_def by (rule keeps_stmt) (auto simp: keeps_def)

lemma keeps_exec_delete:
  "quiet I \<Longrightarrow> (\<And>s. I s \<Longrightarrow> I (upd (\<lambda>_. filter (\<lambda>r. \<not> P r) (get s)) s)) \<Longrightarrow> keeps I (exec_delete get upd P)"
  unfolding exec_delete_def by (rule keeps_stmt) (auto simp: keeps_def)

lemma keeps_exec_insert:
  "quiet I \<Longrightarrow> (\<And>s. I s \<Longrightarrow> violated s = None \<Longrightarrow> I (upd (\<lambda>_. get s @ [row s]) s)) \<Longrightarrow>
   keeps I (exec_insert get upd violated row)"
  unfolding exec_insert_def by (rule keeps_stmt) (auto simp: keeps_def split: option.splits)

lemma keeps_exec_insert_once:
  "quiet I \<Longrightarrow>
   (\<And>s. I s \<Longrightarrow> \<not> conflict s \<Longrightarrow> violated s = None \<Longrightarrow> I (upd (\<lambda>_. get s @ [row]) s)) \<Longrightarrow>
   keeps I (exec_insert_once get upd conflict violated row)"
  unfolding exec_insert_once_def by (rule keeps_stmt) (auto simp: keeps_def split: option.splits)

text \<open>Likewise for parts of the world: \<open>unseen f\<close>, the part is none of faults and randomness.\<close>

definition unseen :: "(world \<Rightarrow> 'b) \<Rightarrow> bool" where
  "unseen f = (\<forall>s fs en. f (s\<lparr>faults := fs\<rparr>) = f s \<and> f (s\<lparr>entropy := en\<rparr>) = f s)"

lemma unseen_tables [simp, intro]:
  "unseen users" "unseen tokens" "unseen groups" "unseen members" "unseen accounts" "unseen links"
  "unseen aliases" "unseen characters" "unseen tags" "unseen acc_roles" "unseen acc_users"
  "unseen shares" "unseen audit_log" "unseen disc_roles"
  by (simp_all add: unseen_def)

lemma frame_stmt: "unseen f \<Longrightarrow> frame f m \<Longrightarrow> frame f (stmt m)"
  by (auto simp: frame_def stmt_def unseen_def split: list.splits option.splits)

lemma frame_query [frame_rules]: "unseen f \<Longrightarrow> frame f (query g)"
  unfolding query_def by (rule frame_stmt) (auto simp: frame_def)

lemma frame_query_row [frame_rules]: "unseen f \<Longrightarrow> frame f (query_row g)"
  unfolding query_row_def by (rule frame_stmt) (auto simp: frame_def split: list.splits)

lemma frame_rand_read [frame_rules]: "unseen f \<Longrightarrow> frame f (rand_read n)"
  by (simp add: frame_def rand_read_def unseen_def)

lemma frame_in_tx [frame_rules]: "unseen f \<Longrightarrow> frame f body \<Longrightarrow> frame f (in_tx body)"
  unfolding in_tx_def
proof (rule frame_andThen)
  assume q: "unseen f" and b: "frame f body"
  show "frame f (stmt (ret ()))"
    by (rule frame_stmt [OF q frame_ret])
  show "frame f (\<lambda>s. case body s of (Inl e, s') \<Rightarrow> (Inl e, s\<lparr>faults := faults s'\<rparr>)
     | (Inr x, s') \<Rightarrow> (case stmt (ret ()) s' of (Inl e, s'') \<Rightarrow> (Inl e, s\<lparr>faults := faults s''\<rparr>)
          | (Inr _, s'') \<Rightarrow> (Inr x, s'')))"
    using q frame_result [OF b] frame_result [OF frame_stmt [OF q frame_ret [of f "()"]]]
    by (fastforce simp: frame_def unseen_def split: prod.splits sum.splits)
qed

lemma frame_exec_update [frame_rules]:
  "unseen f \<Longrightarrow> (\<And>s h. f (upd h s) = f s) \<Longrightarrow> frame f (exec_update get upd P g)"
  unfolding exec_update_def by (rule frame_stmt) (auto simp: frame_def)

lemma frame_exec_delete [frame_rules]:
  "unseen f \<Longrightarrow> (\<And>s h. f (upd h s) = f s) \<Longrightarrow> frame f (exec_delete get upd P)"
  unfolding exec_delete_def by (rule frame_stmt) (auto simp: frame_def)

lemma frame_exec_insert [frame_rules]:
  "unseen f \<Longrightarrow> (\<And>s h. f (upd h s) = f s) \<Longrightarrow> frame f (exec_insert get upd violated row)"
  unfolding exec_insert_def by (rule frame_stmt) (auto simp: frame_def split: option.splits)

lemma frame_exec_insert_once [frame_rules]:
  "unseen f \<Longrightarrow> (\<And>s h. f (upd h s) = f s) \<Longrightarrow> frame f (exec_insert_once get upd conflict violated row)"
  unfolding exec_insert_once_def by (rule frame_stmt) (auto simp: frame_def split: option.splits)

text \<open>Without faults a statement is its body.\<close>

lemma stmt_no_faults [act_simps]: "faults s = [] \<Longrightarrow> stmt m s = m s"
  by (simp add: stmt_def)

lemma query_no_faults [act_simps]: "faults s = [] \<Longrightarrow> query f s = (Inr (f s), s)"
  by (simp add: query_def stmt_def)

lemma query_row_no_faults [act_simps]:
  "faults s = [] \<Longrightarrow> query_row f s = (case f s of [] \<Rightarrow> (Inl NoRows, s) | x # _ \<Rightarrow> (Inr x, s))"
  by (simp add: query_row_def stmt_def)

text \<open>A statement that succeeded was executed on the world it saw.\<close>

lemma stmt_InrD:
  assumes "stmt m s = (Inr x, s')"
  obtains fs where "m (s\<lparr>faults := fs\<rparr>) = (Inr x, s')"
proof (cases "faults s")
  case Nil
  then have same: "s\<lparr>faults := []\<rparr> = s"
    by (cases s) simp
  have "m s = (Inr x, s')"
    using assms Nil by (simp add: stmt_def)
  then show thesis
    by (intro that [of "[]"]) (simp only: same)
next
  case (Cons f fs)
  then show thesis
    using assms that [of fs] by (cases f) (auto simp: stmt_def)
qed

lemma query_InrD: "query f s = (Inr x, s') \<Longrightarrow> \<exists>fs. s' = s\<lparr>faults := fs\<rparr> \<and> x = f s'"
  unfolding query_def by (erule stmt_InrD) auto

lemma query_row_InrD:
  "query_row f s = (Inr x, s') \<Longrightarrow> \<exists>fs xs. s' = s\<lparr>faults := fs\<rparr> \<and> f s' = x # xs"
  unfolding query_row_def by (erule stmt_InrD) (auto split: list.splits)

lemma stmt_ret_frame:
  assumes "stmt (ret x) s = (r, s')"
  obtains fs where "s' = s\<lparr>faults := fs\<rparr>"
proof (cases "faults s")
  case Nil
  then have "s' = s"
    using assms by (simp add: stmt_def)
  moreover have "s = s\<lparr>faults := faults s\<rparr>"
    by simp
  ultimately show thesis
    using that by metis
next
  case (Cons f fs)
  then show thesis
    using assms that [of fs] by (cases f) (auto simp: stmt_def)
qed

text \<open>A transaction that fails leaves the tables as they were; one that commits did its body.\<close>

lemma in_tx_InlD:
  assumes "in_tx body s = (Inl e, s')"
  obtains fs where "s' = s\<lparr>faults := fs\<rparr>"
proof -
  obtain r s1 where b: "stmt (ret ()) s = (r, s1)" by (cases "stmt (ret ()) s") auto
  obtain fs where s1: "s1 = s\<lparr>faults := fs\<rparr>" by (rule stmt_ret_frame [OF b])
  have "\<exists>fs. s' = s\<lparr>faults := fs\<rparr>"
    using assms b s1 by (cases r) (auto simp: in_tx_def andThen_def split: prod.splits sum.splits)
  then show thesis using that by blast
qed

lemma in_tx_InrD:
  assumes "in_tx body s = (Inr x, s')"
  obtains f1 f2 s1 where "body (s\<lparr>faults := f1\<rparr>) = (Inr x, s1)" and "s' = s1\<lparr>faults := f2\<rparr>"
proof -
  obtain r s0 where b: "stmt (ret ()) s = (r, s0)" by (cases "stmt (ret ()) s") auto
  obtain f1 where s0: "s0 = s\<lparr>faults := f1\<rparr>" by (rule stmt_ret_frame [OF b])
  have "\<exists>s1 r'. body s0 = (Inr x, s1) \<and> stmt (ret ()) s1 = (Inr r', s')"
    using assms b by (cases r) (auto simp: in_tx_def andThen_def split: prod.splits sum.splits)
  then obtain s1 r' where "body s0 = (Inr x, s1)" and c: "stmt (ret ()) s1 = (Inr r', s')"
    by blast
  moreover obtain f2 where "s' = s1\<lparr>faults := f2\<rparr>" by (rule stmt_ret_frame [OF c])
  ultimately show thesis
    using that s0 by blast
qed

text \<open>A loop of inserts, a delete.\<close>

lemma for_each_inserts:
  assumes "\<And>s ys. get (upd (\<lambda>_. ys) s) = ys" and "\<And>s fs. get (s\<lparr>faults := fs\<rparr>) = get s"
  shows "for_each (\<lambda>x. exec_insert get upd (viol x) (\<lambda>_. row x)) xs s = (Inr (), s') \<Longrightarrow>
    get s' = get s @ map row xs"
proof (induction xs arbitrary: s)
  case (Cons x xs)
  from Cons.prems obtain s1 where i: "exec_insert get upd (viol x) (\<lambda>_. row x) s = (Inr (), s1)"
    and "for_each (\<lambda>x. exec_insert get upd (viol x) (\<lambda>_. row x)) xs s1 = (Inr (), s')"
    by (auto elim!: andThen_InrE)
  moreover have "get s1 = get s @ [row x]"
    using i unfolding exec_insert_def
    by (elim stmt_InrD) (auto simp: assms split: option.splits)
  ultimately show ?case
    using Cons.IH by simp
qed simp

lemma exec_delete_InrD:
  assumes "exec_delete get upd P s = (Inr n, s')"
  obtains fs where "s' = upd (\<lambda>_. filter (\<lambda>r. \<not> P r) (get (s\<lparr>faults := fs\<rparr>))) (s\<lparr>faults := fs\<rparr>)"
    and "n = length (filter P (get (s\<lparr>faults := fs\<rparr>)))"
  using assms unfolding exec_delete_def by (elim stmt_InrD) auto

section \<open>Well-formed worlds: the constraints of the schema\<close>

definition wf_users :: "User list \<Rightarrow> int \<Rightarrow> bool" where
  "wf_users us n = (distinct (map ID us) \<and> distinct (map DiscordID us) \<and> (\<forall>u \<in> set us. 0 < ID u \<and> ID u < n) \<and> 0 < n)"

definition wf_tokens :: "token_row list \<Rightarrow> int \<Rightarrow> int set \<Rightarrow> bool" where
  "wf_tokens ts n us = (distinct (map t_id ts) \<and> distinct (map t_hash ts)
     \<and> distinct (map t_user (filter (\<lambda>t. t_revoked_at t = None) ts))
     \<and> (\<forall>t \<in> set ts. t_user t \<in> us \<and> 0 < t_id t \<and> t_id t < n) \<and> 0 < n)"

definition wf_groups :: "group_row list \<Rightarrow> int \<Rightarrow> bool" where
  "wf_groups gs n = (distinct (map g_id gs) \<and> distinct (map g_name gs) \<and> (\<forall>g \<in> set gs. 0 < g_id g \<and> g_id g < n
     \<and> g_web_role g \<in> {[], ''admin'', ''readonly''}) \<and> 0 < n)"

definition wf_members :: "member_row list \<Rightarrow> int set \<Rightarrow> int set \<Rightarrow> bool" where
  "wf_members ms gs us = (distinct ms \<and> (\<forall>m \<in> set ms. m_group m \<in> gs
     \<and> (case m_user m of Some u \<Rightarrow> u \<in> us \<and> m_role m = None | None \<Rightarrow> m_role m \<noteq> None)))"

definition wf_accounts :: "account_row list \<Rightarrow> int \<Rightarrow> int set \<Rightarrow> bool" where
  "wf_accounts as n us = (distinct (map a_id as) \<and> distinct (map a_username_blind as)
     \<and> (\<forall>a \<in> set as. 0 < a_id a \<and> a_id a < n \<and> set_option (a_owner a) \<subseteq> us \<and> set_option (a_required_user a) \<subseteq> us)
     \<and> 0 < n)"

definition wf_pairs :: "('a \<times> 'b) list \<Rightarrow> 'a set \<Rightarrow> 'b set \<Rightarrow> bool" where
  "wf_pairs ps A B = (distinct ps \<and> set ps \<subseteq> A \<times> B)"

definition wf_names :: "name_row list \<Rightarrow> int set \<Rightarrow> bool" where
  "wf_names ns A = (distinct (map (\<lambda>n. ToLower (n_name n)) ns) \<and> n_account ` set ns \<subseteq> A)"

definition wf_tags :: "name_row list \<Rightarrow> int set \<Rightarrow> bool" where
  "wf_tags ns A = (distinct (map (\<lambda>n. (ToLower (n_name n), n_account n)) ns) \<and> n_account ` set ns \<subseteq> A)"

definition wf_world :: "world \<Rightarrow> bool" where
  "wf_world s \<longleftrightarrow>
     wf_users (users s) (next_user s) \<and> wf_tokens (tokens s) (next_token s) (user_ids s)
     \<and> wf_groups (groups s) (next_group s) \<and> wf_members (members s) (group_ids s) (user_ids s)
     \<and> wf_accounts (accounts s) (next_account s) (user_ids s)
     \<and> wf_pairs (links s) (group_ids s) (account_ids s)
     \<and> wf_names (aliases s) (account_ids s) \<and> wf_names (characters s) (account_ids s)
     \<and> wf_tags (tags s) (account_ids s) \<and> wf_pairs (acc_roles s) (account_ids s) UNIV
     \<and> wf_pairs (acc_users s) (account_ids s) (user_ids s)
     \<and> wf_pairs (shares s) (account_ids s) (user_ids s)"

lemmas id_sets = user_ids_def account_ids_def group_ids_def

lemma id_sets_frame [simp]:
  "user_ids (s\<lparr>faults := fs\<rparr>) = user_ids s" "user_ids (s\<lparr>entropy := en\<rparr>) = user_ids s"
  "account_ids (s\<lparr>faults := fs\<rparr>) = account_ids s" "account_ids (s\<lparr>entropy := en\<rparr>) = account_ids s"
  "group_ids (s\<lparr>faults := fs\<rparr>) = group_ids s" "group_ids (s\<lparr>entropy := en\<rparr>) = group_ids s"
  by (simp_all add: id_sets)

lemma quiet_wf_world [simp]: "quiet wf_world"
  by (rule quietI) (simp_all add: wf_world_def)

lemma wf_empty_world: "wf_world empty_world"
  by (simp add: wf_world_def empty_world_def wf_users_def wf_tokens_def wf_groups_def wf_members_def
      wf_accounts_def wf_pairs_def wf_names_def wf_tags_def)

text \<open>Updates that leave the keys alone, deletions, and larger sets of targets.\<close>

lemma map_update_key: "(\<And>r. k (f r) = k r) \<Longrightarrow> map k (map (\<lambda>r. if P r then f r else r) xs) = map k xs"
  by (induction xs) auto

lemma update_key_comp: "(\<And>r. k (f r) = k r) \<Longrightarrow> k \<circ> (\<lambda>r. if P r then f r else r) = k"
  by (simp add: fun_eq_iff)

lemma image_update_key: "(\<And>r. k (f r) = k r) \<Longrightarrow> k ` set (map (\<lambda>r. if P r then f r else r) xs) = k ` set xs"
  by (induction xs) auto

lemma distinct_map_filterI: "distinct (map k xs) \<Longrightarrow> distinct (map k (filter P xs))"
  by (induction xs) auto

lemma wf_tokens_mono: "wf_tokens ts n us \<Longrightarrow> us \<subseteq> vs \<Longrightarrow> wf_tokens ts n vs"
  by (auto simp: wf_tokens_def)

lemma wf_members_mono: "wf_members ms gs us \<Longrightarrow> gs \<subseteq> hs \<Longrightarrow> us \<subseteq> vs \<Longrightarrow> wf_members ms hs vs"
  unfolding wf_members_def by (auto split: option.splits)

lemma wf_accounts_mono: "wf_accounts as n us \<Longrightarrow> us \<subseteq> vs \<Longrightarrow> wf_accounts as n vs"
  by (fastforce simp: wf_accounts_def)

lemma wf_pairs_mono: "wf_pairs ps A B \<Longrightarrow> A \<subseteq> C \<Longrightarrow> B \<subseteq> D \<Longrightarrow> wf_pairs ps C D"
  by (auto simp: wf_pairs_def)

lemma wf_names_mono: "wf_names ns A \<Longrightarrow> A \<subseteq> B \<Longrightarrow> wf_names ns B"
  by (auto simp: wf_names_def)

lemma wf_tags_mono: "wf_tags ns A \<Longrightarrow> A \<subseteq> B \<Longrightarrow> wf_tags ns B"
  by (auto simp: wf_tags_def)

lemma wf_pairs_filter: "wf_pairs ps A B \<Longrightarrow> wf_pairs (filter P ps) A B"
  by (auto simp: wf_pairs_def)

lemma wf_pairs_filter_into:
  "wf_pairs ps A B \<Longrightarrow> (\<And>a b. (a, b) \<in> set ps \<Longrightarrow> P (a, b) \<Longrightarrow> a \<in> C \<and> b \<in> D) \<Longrightarrow> wf_pairs (filter P ps) C D"
  by (auto simp: wf_pairs_def)

lemma wf_names_filter_into:
  "wf_names ns A \<Longrightarrow> (\<And>n. n \<in> set ns \<Longrightarrow> P n \<Longrightarrow> n_account n \<in> B) \<Longrightarrow> wf_names (filter P ns) B"
  by (auto simp: wf_names_def distinct_map_filterI)

lemma wf_tags_filter_into:
  "wf_tags ns A \<Longrightarrow> (\<And>n. n \<in> set ns \<Longrightarrow> P n \<Longrightarrow> n_account n \<in> B) \<Longrightarrow> wf_tags (filter P ns) B"
  by (auto simp: wf_tags_def distinct_map_filterI)

lemma wf_members_filter_into:
  "wf_members ms gs us \<Longrightarrow> (\<And>m. m \<in> set ms \<Longrightarrow> P m \<Longrightarrow> m_group m \<in> hs) \<Longrightarrow> wf_members (filter P ms) hs us"
  by (auto simp: wf_members_def)

lemma wf_pairs_append:
  "wf_pairs ps A B \<Longrightarrow> (a, b) \<notin> set ps \<Longrightarrow> a \<in> A \<Longrightarrow> b \<in> B \<Longrightarrow> wf_pairs (ps @ [(a, b)]) A B"
  by (auto simp: wf_pairs_def)

lemma wf_members_append:
  "wf_members ms gs us \<Longrightarrow> m \<notin> set ms \<Longrightarrow> m_group m \<in> gs \<Longrightarrow>
   (case m_user m of Some u \<Rightarrow> u \<in> us \<and> m_role m = None | None \<Rightarrow> m_role m \<noteq> None) \<Longrightarrow> wf_members (ms @ [m]) gs us"
  by (auto simp: wf_members_def)

end
