(* ===== verification/Vault.thy ===== *)
theory Vault
  imports StoreDb StdCrypto
begin

text \<open>
  internal/crypto/aead.go and token.go over the primitives of \<open>StdCrypto\<close>: sealed values carry
  their random nonce in front; tokens are stored as digests, user names as keyed digests.
  An \<open>AEAD\<close> is its key (\<open>NewAEAD\<close> refuses any other length than 32 bytes).
\<close>

type_synonym AEAD = bytes

definition NewAEAD :: "bytes \<Rightarrow> error + AEAD" where
  "NewAEAD key = (if length key \<noteq> 32 then Inl (Err ''key must be 32 bytes'') else Inr key)"

definition Seal :: "AEAD \<Rightarrow> bytes \<Rightarrow> string \<Rightarrow> bytes db" where
  "Seal a plaintext aad =
     andThen (rand_read gcm_nonce_size) (\<lambda>nonce. ret (nonce @ gcm_seal a nonce plaintext (bytes_of aad)))"

definition Open :: "AEAD \<Rightarrow> bytes \<Rightarrow> string \<Rightarrow> error + bytes" where
  "Open a blob aad =
     (let ns = gcm_nonce_size in
      if length blob < ns then Inl (Err ''ciphertext too short'')
      else case gcm_open a (take ns blob) (drop ns blob) (bytes_of aad) of
             None \<Rightarrow> Inl (Err ''cipher: message authentication failed'')
           | Some pt \<Rightarrow> Inr pt)"

definition SealString :: "AEAD \<Rightarrow> string \<Rightarrow> string \<Rightarrow> bytes db" where
  "SealString a s aad = Seal a (bytes_of s) aad"

definition OpenString :: "AEAD \<Rightarrow> bytes \<Rightarrow> string \<Rightarrow> error + string" where
  "OpenString a blob aad = (case Open a blob aad of Inl e \<Rightarrow> Inl e | Inr b \<Rightarrow> Inr (string_of b))"

definition token_alphabet :: string where
  "token_alphabet = ''abcdefghijklmnopqrstuvwxyzABCDEFGHIJKLMNOPQRSTUVWXYZ0123456789''"

definition MustRandToken :: "nat \<Rightarrow> string db" where
  "MustRandToken n =
     andThen (rand_read n) (\<lambda>b. ret (map (\<lambda>x. token_alphabet ! (unat x mod length token_alphabet)) b))"

definition HashToken :: "string \<Rightarrow> string" where
  "HashToken raw = hex_encode (sha256 (bytes_of raw))"

definition BlindIndex :: "bytes \<Rightarrow> string \<Rightarrow> string" where
  "BlindIndex key normalized = hex_encode (hmac_sha256 key (bytes_of normalized))"

lemma length_BlindIndex: "length (BlindIndex key n) = 64"
  by (simp add: BlindIndex_def hex_encode_def hmac_sha256_def Let_def length_concat comp_def sum_list_const length_sha256)

text \<open>The store's connection aside: its cipher and the key of the blind index.\<close>

record Store =
  StoreAEAD :: AEAD
  StoreKey :: bytes

text \<open>A blob that opens to \<open>s\<close>.\<close>

definition seals :: "AEAD \<Rightarrow> string \<Rightarrow> string \<Rightarrow> bytes \<Rightarrow> bool" where
  "seals a aad s blob \<longleftrightarrow> OpenString a blob aad = Inr s"

lemma SealString_result:
  "SealString a s aad w =
     (Inr (map (entropy w) [0..<12] @ gcm_seal a (map (entropy w) [0..<12]) (bytes_of s) (bytes_of aad)),
      w\<lparr>entropy := (\<lambda>i. entropy w (i + 12))\<rparr>)"
  by (simp add: SealString_def Seal_def rand_read_def andThen_def gcm_nonce_size_def)

lemma seals_SealString: "SealString a s aad w = (Inr blob, w') \<Longrightarrow> seals a aad s blob"
  by (auto simp: SealString_result seals_def OpenString_def Open_def gcm_nonce_size_def)

lemma seals_not_Nil: "seals a aad s blob \<Longrightarrow> blob \<noteq> []"
  by (auto simp: seals_def OpenString_def Open_def gcm_nonce_size_def)

lemma SealString_cases:
  obtains blob en where "SealString a s aad w = (Inr blob, w\<lparr>entropy := en\<rparr>)" and "seals a aad s blob"
  using that [OF SealString_result seals_SealString [OF SealString_result]] .

lemma SealString_InrD:
  assumes "SealString a s aad w = (Inr blob, w')"
  obtains en where "w' = w\<lparr>entropy := en\<rparr>" and "seals a aad s blob"
  using assms seals_SealString [OF assms] that by (auto simp: SealString_result)

lemma MustRandToken_result:
  obtains raw en where "MustRandToken n w = (Inr raw, w\<lparr>entropy := en\<rparr>)" and "length raw = n"
proof -
  have "MustRandToken n w =
      (Inr (map (\<lambda>x. token_alphabet ! (unat x mod length token_alphabet)) (map (entropy w) [0..<n])),
       w\<lparr>entropy := (\<lambda>i. entropy w (i + n))\<rparr>)"
    by (simp only: MustRandToken_def rand_read_def andThen_def ret_def prod.case sum.case)
  then show thesis
    by (rule that) simp
qed

lemma MustRandToken_InrD:
  assumes "MustRandToken n w = (Inr raw, w')"
  obtains en where "w' = w\<lparr>entropy := en\<rparr>"
proof -
  obtain raw' en where "MustRandToken n w = (Inr raw', w\<lparr>entropy := en\<rparr>)"
    by (rule MustRandToken_result)
  with assms have "w' = w\<lparr>entropy := en\<rparr>" by simp
  then show thesis by (rule that)
qed

lemma keeps_SealString [keeps_rules]: "quiet I \<Longrightarrow> keeps I (SealString a s aad)"
  by (simp add: keeps_def SealString_result)

lemma keeps_MustRandToken [keeps_rules]: "quiet I \<Longrightarrow> keeps I (MustRandToken n)"
  by (simp add: keeps_def MustRandToken_def rand_read_def andThen_def)

text \<open>
  C25: sealing is undone by opening under the same purpose string, for every key and every random
  source; and opening accepts nothing else: whatever opens is the blob that sealing the opened
  plaintext under the same nonce and purpose produces.
\<close>

theorem seal_open_roundtrip:
  "(case SealString a s aad w of (Inr blob, _) \<Rightarrow> OpenString a blob aad = Inr s | (Inl _, _) \<Rightarrow> False)
   \<and> (\<forall>blob pt. Open a blob purpose = Inr pt \<longrightarrow>
        blob = take 12 blob @ gcm_seal a (take 12 blob) pt (bytes_of purpose))"
proof
  obtain blob en where "SealString a s aad w = (Inr blob, w\<lparr>entropy := en\<rparr>)" and "seals a aad s blob"
    by (rule SealString_cases)
  then show "case SealString a s aad w of (Inr blob, _) \<Rightarrow> OpenString a blob aad = Inr s | (Inl _, _) \<Rightarrow> False"
    by (simp add: seals_def)
  show "\<forall>blob pt. Open a blob purpose = Inr pt \<longrightarrow>
      blob = take 12 blob @ gcm_seal a (take 12 blob) pt (bytes_of purpose)"
    by (auto simp: Open_def Let_def gcm_nonce_size_def split: if_splits option.splits
        dest!: gcm_open_authentic) (metis append_take_drop_id)
qed

theorem seal_open_roundtrip_witness:
  "\<exists>blob w'. SealString (replicate 32 0) ''secret'' ''eq_accounts.password'' empty_world = (Inr blob, w')
     \<and> blob = take 12 blob @ gcm_seal (replicate 32 0) (take 12 blob) (bytes_of ''secret'') (bytes_of ''eq_accounts.password'')"
proof -
  obtain blob en where s: "SealString (replicate 32 0) ''secret'' ''eq_accounts.password'' empty_world
      = (Inr blob, empty_world\<lparr>entropy := en\<rparr>)"
    by (rule SealString_cases)
  have "OpenString (replicate 32 0) blob ''eq_accounts.password'' = Inr ''secret''"
    using seal_open_roundtrip [where a = "replicate 32 0" and s = "''secret''" and aad = "''eq_accounts.password''" and w = empty_world]
    by (simp add: s)
  then have "Open (replicate 32 0) blob ''eq_accounts.password'' = Inr (bytes_of ''secret'')"
    by (auto simp: OpenString_def split: sum.splits) (metis bytes_of_string_of)
  then show ?thesis
    using seal_open_roundtrip [where a = "replicate 32 0" and purpose = "''eq_accounts.password''"]
    by (simp add: s)
qed

end
