(* ===== verification/StoreUsers.thy ===== *)
theory StoreUsers
  imports Vault
begin

text \<open>
  internal/store/store.go, users and API tokens: \<open>UpsertUser\<close> to \<open>UserByToken\<close>.
\<close>

section \<open>Users\<close>

definition upsert_user :: "string \<Rightarrow> string \<Rightarrow> string list \<Rightarrow> User db" where
  "upsert_user discordID displayName roleIDs =
     stmt (\<lambda>s. let id = next_user s; s = s\<lparr>next_user := id + 1\<rparr>;
          new = \<lparr>ID = id, DiscordID = discordID, DisplayName = displayName, RoleIDs = roleIDs, AccessRevoked = False\<rparr>;
          merged = (\<lambda>u. u\<lparr>DisplayName := displayName, RoleIDs := (if roleIDs = [] then RoleIDs u else roleIDs)\<rparr>)
        in case filter (\<lambda>u. DiscordID u = discordID) (users s) of
             [] \<Rightarrow> (Inr new, s\<lparr>users := users s @ [new]\<rparr>)
           | u # _ \<Rightarrow> (Inr (merged u),
               s\<lparr>users := map (\<lambda>u. if DiscordID u = discordID then merged u else u) (users s)\<rparr>))"

definition UpsertUser :: "string \<Rightarrow> string \<Rightarrow> string list \<Rightarrow> User db" where
  "UpsertUser discordID displayName roleIDs = upsert_user discordID displayName roleIDs"

definition UserByDiscordID :: "string \<Rightarrow> User db" where
  "UserByDiscordID discordID = query_row (\<lambda>s. filter (\<lambda>u. DiscordID u = discordID) (users s))"

definition UserByID :: "int \<Rightarrow> User db" where
  "UserByID userID = query_row (\<lambda>s. filter (\<lambda>u. ID u = userID) (users s))"

definition SetUserRoles :: "int \<Rightarrow> string list \<Rightarrow> unit db" where
  "SetUserRoles userID roleIDs =
     (let out = dedup (\<lambda>r. r = []) (map TrimSpace roleIDs)
      in andThen (exec_update users users_update (\<lambda>u. ID u = userID) (\<lambda>_ u. u\<lparr>RoleIDs := out\<rparr>)) (\<lambda>_. ret ()))"

definition ListUsersForRoleSync :: "User list db" where
  "ListUsersForRoleSync = query (\<lambda>s. sort_key ID (filter (\<lambda>u. DiscordID u \<noteq> []) (users s)))"

definition active :: "token_row \<Rightarrow> bool" where
  "active t \<longleftrightarrow> t_revoked_at t = None"

definition revoke_tokens :: "(token_row \<Rightarrow> bool) \<Rightarrow> nat db" where
  "revoke_tokens P = exec_update tokens tokens_update (\<lambda>t. P t \<and> active t) (\<lambda>s t. t\<lparr>t_revoked_at := Some (clock s)\<rparr>)"

definition SetUserAccessRevoked :: "int \<Rightarrow> bool \<Rightarrow> unit db" where
  "SetUserAccessRevoked userID revoked =
     andThen (exec_update users users_update (\<lambda>u. ID u = userID) (\<lambda>_ u. u\<lparr>AccessRevoked := revoked\<rparr>))
       (\<lambda>n. if n = 0 then fail (Err ''user not found'')
            else if revoked then ignore (revoke_tokens (\<lambda>t. t_user t = userID))
            else ret ())"

section \<open>API tokens\<close>

definition insert_token :: "int \<Rightarrow> string \<Rightarrow> bytes \<Rightarrow> int db" where
  "insert_token userID hash cipher =
     stmt (\<lambda>s. let id = next_token s; s = s\<lparr>next_token := id + 1\<rparr> in
       case first_violation
         [if hash \<in> t_hash ` set (tokens s) then Some (UniqueViolation ''api_tokens_token_hash_key'') else None,
          if \<exists>t \<in> set (tokens s). t_user t = userID \<and> active t
            then Some (UniqueViolation ''api_tokens_one_active_per_user'') else None,
          violates_fk ''api_tokens'' ''api_tokens_user_id_fkey'' (userID \<in> user_ids s)] of
         Some e \<Rightarrow> (Inl e, s)
       | None \<Rightarrow> (Inr id, s\<lparr>tokens := tokens s @ [\<lparr>t_id = id, t_user = userID, t_hash = hash,
           t_cipher = cipher, t_label = [], t_revoked_at = None, t_last_used_at = None,
           t_created_at = clock s\<rparr>]\<rparr>))"

definition CreateToken :: "Store \<Rightarrow> int \<Rightarrow> (string \<times> int) db" where
  "CreateToken st userID =
     andThen (UserByID userID) (\<lambda>u.
     if AccessRevoked u then fail (Err ''access revoked by an admin; contact a guild admin'') else
     andThen (revoke_tokens (\<lambda>t. t_user t = userID)) (\<lambda>_.
     andThen (MustRandToken 40) (\<lambda>raw.
     andThen (SealString (StoreAEAD st) raw ''api_tokens.token'') (\<lambda>cipher.
     andThen (insert_token userID (HashToken raw) cipher) (\<lambda>id.
     ret (raw, id))))))"

definition RevokeToken :: "int \<Rightarrow> int \<Rightarrow> unit db" where
  "RevokeToken userID tokenID =
     andThen (if tokenID > 0 then revoke_tokens (\<lambda>t. t_id t = tokenID \<and> t_user t = userID)
              else revoke_tokens (\<lambda>t. t_user t = userID))
       (\<lambda>n. if n = 0 then fail (Err ''no active token found'') else ret ())"

record TokenRow =
  TokenID :: int
  Label :: string
  Raw :: string
  HasSecret :: bool
  Revoked :: bool
  CreatedAt :: int
  LastUsed :: "int option"

definition token_view :: "Store \<Rightarrow> token_row \<Rightarrow> TokenRow" where
  "token_view st t =
     (let secret = (if t_cipher t = [] then None
                    else case OpenString (StoreAEAD st) (t_cipher t) ''api_tokens.token'' of
                           Inl _ \<Rightarrow> None | Inr raw \<Rightarrow> Some raw)
      in \<lparr>TokenID = t_id t, Label = t_label t, Raw = (case secret of None \<Rightarrow> [] | Some raw \<Rightarrow> raw),
          HasSecret = (secret \<noteq> None), Revoked = (t_revoked_at t \<noteq> None),
          CreatedAt = t_created_at t, LastUsed = t_last_used_at t\<rparr>)"

definition ListTokens :: "Store \<Rightarrow> int \<Rightarrow> bool \<Rightarrow> TokenRow list db" where
  "ListTokens st userID includeRevoked =
     query (\<lambda>s. map (token_view st)
       (rev (sort_key t_id (filter (\<lambda>t. t_user t = userID \<and> (includeRevoked \<or> active t)) (tokens s)))))"

definition ActiveToken :: "Store \<Rightarrow> int \<Rightarrow> TokenRow option db" where
  "ActiveToken st userID =
     andThen (ListTokens st userID False) (\<lambda>rows. ret (case rows of [] \<Rightarrow> None | t # _ \<Rightarrow> Some t))"

definition UserByToken :: "string \<Rightarrow> (User \<times> int) db" where
  "UserByToken rawToken =
     andThen (query_row (\<lambda>s. map (\<lambda>t. (t_user t, t_id t))
        (filter (\<lambda>t. t_hash t = HashToken rawToken \<and> active t) (tokens s)))) (\<lambda>(userID, tokenID).
     andThen (UserByID userID) (\<lambda>u.
     if AccessRevoked u then fail (Err ''access revoked'')
     else andThen (ignore (exec_update tokens tokens_update (\<lambda>t. t_id t = tokenID)
            (\<lambda>s t. t\<lparr>t_last_used_at := Some (clock s)\<rparr>))) (\<lambda>_. ret (u, tokenID))))"

section \<open>The schema's constraints are kept\<close>

lemma user_ids_update_key:
  "(\<And>u. ID (f u) = ID u) \<Longrightarrow> user_ids (s\<lparr>users := map (\<lambda>u. if P u then f u else u) (users s)\<rparr>) = user_ids s"
  using image_update_key [of ID f P "users s"] by (simp add: user_ids_def del: list.set_map)

lemma wf_users_update_key:
  assumes "\<And>u. ID (f u) = ID u" and "\<And>u. DiscordID (f u) = DiscordID u"
  shows "wf_world s \<Longrightarrow> wf_world (s\<lparr>users := map (\<lambda>u. if P u then f u else u) (users s)\<rparr>)"
proof -
  assume wf: "wf_world s"
  have "wf_users (map (\<lambda>u. if P u then f u else u) (users s)) (next_user s)"
    using wf assms by (auto simp: wf_world_def wf_users_def update_key_comp)
  with wf show ?thesis
    unfolding wf_world_def user_ids_update_key [OF assms(1)]
    by (simp add: account_ids_def group_ids_def)
qed

lemma wf_tokens_update_key:
  assumes "\<And>t. t_id (f t) = t_id t" and "\<And>t. t_hash (f t) = t_hash t" and "\<And>t. t_user (f t) = t_user t"
    and "\<And>t. t_revoked_at (f t) = None \<longrightarrow> t_revoked_at t = None"
  shows "wf_tokens ts n us \<Longrightarrow> wf_tokens (map (\<lambda>t. if P t then f t else t) ts) n us"
proof -
  assume wf: "wf_tokens ts n us"
  let ?g = "\<lambda>t. if P t then f t else t"
  have "map t_user (filter (\<lambda>t. t_revoked_at t = None) (map ?g ts)) =
      map t_user (filter (\<lambda>t. t_revoked_at (?g t) = None) ts)"
    using assms(3) by (simp add: filter_map comp_def)
  also have "filter (\<lambda>t. t_revoked_at (?g t) = None) ts =
      filter (\<lambda>t. t_revoked_at (?g t) = None) (filter (\<lambda>t. t_revoked_at t = None) ts)"
    using assms(4) by (auto intro: filter_cong)
  finally have eq: "map t_user (filter (\<lambda>t. t_revoked_at t = None) (map ?g ts)) =
      map t_user (filter (\<lambda>t. t_revoked_at (?g t) = None) (filter (\<lambda>t. t_revoked_at t = None) ts))" .
  have "distinct (map t_user (filter (\<lambda>t. t_revoked_at t = None) (map ?g ts)))"
    unfolding eq by (rule distinct_map_filterI) (use wf in \<open>simp add: wf_tokens_def\<close>)
  with wf assms(1-3) show ?thesis
    by (auto simp: wf_tokens_def update_key_comp)
qed

lemma wf_world_tokens:
  "wf_world s \<Longrightarrow> wf_tokens ts n (user_ids s) \<Longrightarrow> wf_world (s\<lparr>tokens := ts, next_token := n\<rparr>)"
  by (simp add: wf_world_def id_sets)

lemma keeps_upsert_user [keeps_rules]: "keeps wf_world (upsert_user d n rs)"
  unfolding upsert_user_def
proof (rule keeps_stmt [OF quiet_wf_world], rule keepsI)
  fix s assume wf: "wf_world s"
  let ?s = "s\<lparr>next_user := next_user s + 1\<rparr>"
  have wf': "wf_world ?s"
    using wf by (fastforce simp: wf_world_def wf_users_def id_sets)
  let ?new = "\<lparr>ID = next_user s, DiscordID = d, DisplayName = n, RoleIDs = rs, AccessRevoked = False\<rparr>"
  have new: "wf_world (?s\<lparr>users := users s @ [?new]\<rparr>)" if "filter (\<lambda>u. DiscordID u = d) (users s) = []"
  proof -
    have sub: "ID ` set (users s) \<subseteq> insert (next_user s) (ID ` set (users s))"
      by auto
    have "wf_users (users s @ [?new]) (next_user s + 1)"
      using wf that by (fastforce simp: wf_world_def wf_users_def filter_empty_conv)
    with wf show ?thesis
      using sub by (auto simp: wf_world_def id_sets elim: wf_tokens_mono wf_members_mono wf_accounts_mono wf_pairs_mono)
  qed
  let ?m = "\<lambda>u. u\<lparr>DisplayName := n, RoleIDs := (if rs = [] then RoleIDs u else rs)\<rparr>"
  have "wf_world (?s\<lparr>users := map (\<lambda>u. if DiscordID u = d then ?m u else u) (users ?s)\<rparr>)"
    by (rule wf_users_update_key [OF _ _ wf']) simp_all
  with new show "wf_world (snd (let id = next_user s; s = s\<lparr>next_user := id + 1\<rparr>;
          new = \<lparr>ID = id, DiscordID = d, DisplayName = n, RoleIDs = rs, AccessRevoked = False\<rparr>;
          merged = (\<lambda>u. u\<lparr>DisplayName := n, RoleIDs := (if rs = [] then RoleIDs u else rs)\<rparr>)
        in case filter (\<lambda>u. DiscordID u = d) (users s) of
             [] \<Rightarrow> (Inr new, s\<lparr>users := users s @ [new]\<rparr>)
           | u # _ \<Rightarrow> (Inr (merged u),
               s\<lparr>users := map (\<lambda>u. if DiscordID u = d then merged u else u) (users s)\<rparr>)))"
    by (simp add: Let_def split: list.splits)
qed

lemma keeps_users_update [keeps_rules]:
  "(\<And>s u. ID (f s u) = ID u) \<Longrightarrow> (\<And>s u. DiscordID (f s u) = DiscordID u) \<Longrightarrow>
   keeps wf_world (exec_update users users_update P f)"
  by (rule keeps_exec_update [OF quiet_wf_world]) (rule wf_users_update_key)

lemma keeps_tokens_update [keeps_rules]:
  assumes "\<And>s t. t_id (f s t) = t_id t" "\<And>s t. t_hash (f s t) = t_hash t" "\<And>s t. t_user (f s t) = t_user t"
    and "\<And>s t. t_revoked_at (f s t) = None \<longrightarrow> t_revoked_at t = None"
  shows "keeps wf_world (exec_update tokens tokens_update P f)"
proof (rule keeps_exec_update [OF quiet_wf_world])
  fix s assume wf: "wf_world s"
  then have "wf_tokens (map (\<lambda>t. if P t then f s t else t) (tokens s)) (next_token s) (user_ids s)"
    using assms by (intro wf_tokens_update_key) (auto simp: wf_world_def)
  with wf show "wf_world (s\<lparr>tokens := map (\<lambda>t. if P t then f s t else t) (tokens s)\<rparr>)"
    by (simp add: wf_world_def id_sets)
qed

lemma keeps_revoke_tokens [keeps_rules]: "keeps wf_world (revoke_tokens P)"
  unfolding revoke_tokens_def by (rule keeps_tokens_update) simp_all

lemma keeps_insert_token [keeps_rules]: "keeps wf_world (insert_token u h c)"
  unfolding insert_token_def
proof (rule keeps_stmt [OF quiet_wf_world], rule keepsI)
  fix s assume wf: "wf_world s"
  show "wf_world (snd (let id = next_token s; s = s\<lparr>next_token := id + 1\<rparr> in
       case first_violation
         [if h \<in> t_hash ` set (tokens s) then Some (UniqueViolation ''api_tokens_token_hash_key'') else None,
          if \<exists>t \<in> set (tokens s). t_user t = u \<and> active t
            then Some (UniqueViolation ''api_tokens_one_active_per_user'') else None,
          violates_fk ''api_tokens'' ''api_tokens_user_id_fkey'' (u \<in> user_ids s)] of
         Some e \<Rightarrow> (Inl e, s)
       | None \<Rightarrow> (Inr id, s\<lparr>tokens := tokens s @ [\<lparr>t_id = id, t_user = u, t_hash = h,
           t_cipher = c, t_label = [], t_revoked_at = None, t_last_used_at = None,
           t_created_at = clock s\<rparr>]\<rparr>)))"
    using wf by (auto simp: Let_def wf_world_def wf_tokens_def id_sets active_def split: option.splits if_splits)
qed

lemmas wf_statement_rules = quiet_wf_world keeps_rules

lemma keeps_UpsertUser: "keeps wf_world (UpsertUser d n rs)"
  unfolding UpsertUser_def by (intro keeps_rules)

lemma keeps_SetUserRoles: "keeps wf_world (SetUserRoles u rs)"
  unfolding SetUserRoles_def Let_def by (intro keeps_rules) simp_all

lemma keeps_SetUserAccessRevoked: "keeps wf_world (SetUserAccessRevoked u r)"
  unfolding SetUserAccessRevoked_def by (intro keeps_rules) simp_all

lemma keeps_UserByID: "quiet I \<Longrightarrow> keeps I (UserByID u)"
  unfolding UserByID_def by (rule keeps_query_row)

lemma keeps_CreateToken: "keeps wf_world (CreateToken st u)"
  unfolding CreateToken_def by (intro wf_statement_rules keeps_UserByID)

lemma keeps_RevokeToken: "keeps wf_world (RevokeToken u t)"
  unfolding RevokeToken_def by (intro keeps_rules)

lemma keeps_UserByToken: "keeps wf_world (UserByToken raw)"
  unfolding UserByToken_def by (intro wf_statement_rules keeps_UserByID) simp_all

section \<open>Results\<close>

lemma UserByID_InrD:
  assumes "UserByID u s = (Inr x, s')"
  obtains fs where "s' = s\<lparr>faults := fs\<rparr>" and "x \<in> set (users s)" and "ID x = u"
proof -
  obtain fs xs where "s' = s\<lparr>faults := fs\<rparr>" and "filter (\<lambda>u'. ID u' = u) (users s') = x # xs"
    using query_row_InrD [OF assms [unfolded UserByID_def]] by auto
  note found = this
  then have "x \<in> set (filter (\<lambda>u'. ID u' = u) (users s'))"
    by (simp only: list.set_intros)
  with found(1) show thesis
    using that [of fs] by simp
qed

lemma UserByID_found:
  "wf_world s \<Longrightarrow> x \<in> set (users s) \<Longrightarrow> faults s = [] \<Longrightarrow> UserByID (ID x) s = (Inr x, s)"
  by (simp add: UserByID_def query_row_no_faults filter_unique_key wf_world_def wf_users_def)

lemma revoke_tokens_InrD:
  assumes "revoke_tokens P s = (Inr n, s')"
  obtains fs where "s' = s\<lparr>faults := fs, tokens :=
    map (\<lambda>t. if P t \<and> active t then t\<lparr>t_revoked_at := Some (clock s)\<rparr> else t) (tokens s)\<rparr>"
  using assms unfolding revoke_tokens_def exec_update_def
  by (elim stmt_InrD) (auto intro: that cong: if_cong)

lemma insert_token_InrD:
  assumes "insert_token u h c s = (Inr i, s')"
  obtains fs where "i = next_token s" and "h \<notin> t_hash ` set (tokens s)"
    and "\<not> (\<exists>t \<in> set (tokens s). t_user t = u \<and> active t)"
    and "s' = s\<lparr>faults := fs, next_token := next_token s + 1, tokens := tokens s @ [\<lparr>t_id = next_token s,
        t_user = u, t_hash = h, t_cipher = c, t_label = [], t_revoked_at = None, t_last_used_at = None,
        t_created_at = clock s\<rparr>]\<rparr>"
  using assms unfolding insert_token_def
  by (elim stmt_InrD) (auto simp: Let_def split: option.splits if_splits)

lemma CreateToken_InrD:
  assumes "CreateToken st uid s = (Inr (raw, tid), s')"
  obtains u fs en cipher where "u \<in> set (users s)" and "ID u = uid" and "\<not> AccessRevoked u"
    and "tid = next_token s" and "HashToken raw \<notin> t_hash ` set (tokens s)"
    and "seals (StoreAEAD st) ''api_tokens.token'' raw cipher"
    and "s' = s\<lparr>faults := fs, entropy := en, next_token := next_token s + 1,
      tokens := map (\<lambda>t. if t_user t = uid \<and> active t then t\<lparr>t_revoked_at := Some (clock s)\<rparr> else t) (tokens s)
        @ [\<lparr>t_id = next_token s, t_user = uid, t_hash = HashToken raw, t_cipher = cipher, t_label = [],
            t_revoked_at = None, t_last_used_at = None, t_created_at = clock s\<rparr>]\<rparr>"
proof -
  from assms [unfolded CreateToken_def] obtain u s1 where u: "UserByID uid s = (Inr u, s1)"
    and rest: "(if AccessRevoked u then fail (Err ''access revoked by an admin; contact a guild admin'') else
     andThen (revoke_tokens (\<lambda>t. t_user t = uid)) (\<lambda>_.
     andThen (MustRandToken 40) (\<lambda>raw.
     andThen (SealString (StoreAEAD st) raw ''api_tokens.token'') (\<lambda>cipher.
     andThen (insert_token uid (HashToken raw) cipher) (\<lambda>id.
     ret (raw, id)))))) s1 = (Inr (raw, tid), s')"
    by (rule andThen_InrE)
  from rest have nr: "\<not> AccessRevoked u"
    by (auto split: if_splits)
  from rest nr obtain n s2 s3 s4 cipher where rv: "revoke_tokens (\<lambda>t. t_user t = uid) s1 = (Inr n, s2)"
    and rt: "MustRandToken 40 s2 = (Inr raw, s3)"
    and se: "SealString (StoreAEAD st) raw ''api_tokens.token'' s3 = (Inr cipher, s4)"
    and ins: "insert_token uid (HashToken raw) cipher s4 = (Inr tid, s')"
    by (auto elim!: andThen_InrE)
  from u obtain f1 where s1: "s1 = s\<lparr>faults := f1\<rparr>" and "u \<in> set (users s)" and "ID u = uid"
    by (rule UserByID_InrD)
  from rv obtain f2 where s2: "s2 = s1\<lparr>faults := f2, tokens :=
      map (\<lambda>t. if t_user t = uid \<and> active t then t\<lparr>t_revoked_at := Some (clock s1)\<rparr> else t) (tokens s1)\<rparr>"
    by (rule revoke_tokens_InrD)
  from rt obtain e1 where s3: "s3 = s2\<lparr>entropy := e1\<rparr>"
    by (rule MustRandToken_InrD)
  from se obtain e2 where s4: "s4 = s3\<lparr>entropy := e2\<rparr>" and sealed: "seals (StoreAEAD st) ''api_tokens.token'' raw cipher"
    by (rule SealString_InrD)
  from ins obtain f3 where "tid = next_token s4" and "HashToken raw \<notin> t_hash ` set (tokens s4)"
    and s': "s' = s4\<lparr>faults := f3, next_token := next_token s4 + 1, tokens := tokens s4 @ [\<lparr>t_id = next_token s4,
        t_user = uid, t_hash = HashToken raw, t_cipher = cipher, t_label = [], t_revoked_at = None,
        t_last_used_at = None, t_created_at = clock s4\<rparr>]\<rparr>"
    by (rule insert_token_InrD)
  moreover have "t_hash ` set (tokens s4) = t_hash ` set (tokens s)"
    using image_update_key [of t_hash "\<lambda>t. t\<lparr>t_revoked_at := Some (clock s)\<rparr>" "\<lambda>t. t_user t = uid \<and> active t" "tokens s"]
    by (simp add: s4 s3 s2 s1 del: list.set_map)
  ultimately show thesis
    using that [OF \<open>u \<in> set (users s)\<close> \<open>ID u = uid\<close> nr _ _ sealed, where fs = f3 and en = e2]
    by (simp add: s4 s3 s2 s1 cong: if_cong)
qed

lemma users_revoke_tokens [simp]: "users (snd (revoke_tokens P s)) = users s"
  by (simp add: revoke_tokens_def exec_update_def stmt_def split: list.splits option.splits)

lemma SetUserAccessRevoked_users:
  assumes "SetUserAccessRevoked uid r s = (Inr (), s')"
  shows "users s' = map (\<lambda>u. if ID u = uid then u\<lparr>AccessRevoked := r\<rparr> else u) (users s)"
proof -
  from assms [unfolded SetUserAccessRevoked_def] obtain n s1
    where upd: "exec_update users users_update (\<lambda>u. ID u = uid) (\<lambda>_ u. u\<lparr>AccessRevoked := r\<rparr>) s = (Inr n, s1)"
      and rest: "(if n = 0 then fail (Err ''user not found'')
            else if r then ignore (revoke_tokens (\<lambda>t. t_user t = uid)) else ret ()) s1 = (Inr (), s')"
    by (rule andThen_InrE)
  from upd have "users s1 = map (\<lambda>u. if ID u = uid then u\<lparr>AccessRevoked := r\<rparr> else u) (users s)"
    unfolding exec_update_def by (elim stmt_InrD) auto
  moreover from rest have "users s' = users s1"
    by (auto split: if_splits)
  ultimately show ?thesis by simp
qed

lemma UserByToken_InrD:
  assumes "UserByToken raw s = (Inr (u, tid), s')"
  obtains t where "u \<in> set (users s)" and "\<not> AccessRevoked u" and "t \<in> set (tokens s)" and "active t"
    and "t_hash t = HashToken raw" and "t_user t = ID u" and "t_id t = tid"
proof -
  from assms [unfolded UserByToken_def] obtain uid tid' s1 where
    q: "query_row (\<lambda>s. map (\<lambda>t. (t_user t, t_id t))
        (filter (\<lambda>t. t_hash t = HashToken raw \<and> active t) (tokens s))) s = (Inr (uid, tid'), s1)"
    and rest: "andThen (UserByID uid) (\<lambda>u. if AccessRevoked u then fail (Err ''access revoked'')
     else andThen (ignore (exec_update tokens tokens_update (\<lambda>t. t_id t = tid')
            (\<lambda>s t. t\<lparr>t_last_used_at := Some (clock s)\<rparr>))) (\<lambda>_. ret (u, tid'))) s1 = (Inr (u, tid), s')"
    by (auto elim!: andThen_InrE)
  from query_row_InrD [OF q] obtain fs xs where s1: "s1 = s\<lparr>faults := fs\<rparr>"
    and hit: "map (\<lambda>t. (t_user t, t_id t))
        (filter (\<lambda>t. t_hash t = HashToken raw \<and> active t) (tokens s1)) = (uid, tid') # xs"
    by auto
  from hit have "(uid, tid') \<in> set (map (\<lambda>t. (t_user t, t_id t))
        (filter (\<lambda>t. t_hash t = HashToken raw \<and> active t) (tokens s1)))"
    by (simp only: list.set_intros)
  then obtain t where t: "t \<in> set (tokens s)" "active t" "t_hash t = HashToken raw" "t_user t = uid" "t_id t = tid'"
    by (auto simp: s1)
  from rest obtain s2 where "UserByID uid s1 = (Inr u, s2)" and "\<not> AccessRevoked u" and "tid' = tid"
    by (auto elim!: andThen_InrE split: if_splits)
  then show thesis
    using t that by (auto elim!: UserByID_InrD simp: s1)
qed

lemma revoked_none_active:
  "filter (\<lambda>t. t_user t = uid \<and> active t) (map (\<lambda>t. if t_user t = uid \<and> active t
      then t\<lparr>t_revoked_at := Some c\<rparr> else t) ts) = []"
  by (induction ts) (simp_all add: active_def)

lemma CreateToken_active:
  assumes "CreateToken st uid s = (Inr (raw, tid), s')"
  shows "filter (\<lambda>t. t_user t = uid \<and> active t) (tokens s') = [last (tokens s')]"
    and "t_id (last (tokens s')) = tid"
    and "filter (\<lambda>t. t_user t \<noteq> uid) (tokens s') = filter (\<lambda>t. t_user t \<noteq> uid) (tokens s)"
    and "filter (\<lambda>t. t_hash t = HashToken raw \<and> active t) (tokens s') = [last (tokens s')]"
    and "t_user (last (tokens s')) = uid" and "users s' = users s"
    and "seals (StoreAEAD st) ''api_tokens.token'' raw (t_cipher (last (tokens s')))"
proof -
  have fresh: "h \<notin> t_hash ` set ts \<Longrightarrow> filter (\<lambda>t. t_hash t = h \<and> active t) (map (\<lambda>t. if t_user t = uid \<and> active t
      then t\<lparr>t_revoked_at := Some c\<rparr> else t) ts) = []" for ts c h
    by (induction ts) (auto simp: active_def)
  have others: "filter (\<lambda>t. t_user t \<noteq> uid) (map (\<lambda>t. if t_user t = uid \<and> active t
      then t\<lparr>t_revoked_at := c\<rparr> else t) ts) = filter (\<lambda>t. t_user t \<noteq> uid) ts" for ts c
    by (induction ts) auto
  show "filter (\<lambda>t. t_user t = uid \<and> active t) (tokens s') = [last (tokens s')]"
    by (rule CreateToken_InrD [OF assms]) (simp add: revoked_none_active, simp add: active_def)
  show "t_id (last (tokens s')) = tid" and "t_user (last (tokens s')) = uid" and "users s' = users s"
    and "seals (StoreAEAD st) ''api_tokens.token'' raw (t_cipher (last (tokens s')))"
    by (rule CreateToken_InrD [OF assms], simp)+
  show "filter (\<lambda>t. t_user t \<noteq> uid) (tokens s') = filter (\<lambda>t. t_user t \<noteq> uid) (tokens s)"
    by (rule CreateToken_InrD [OF assms]) (simp add: others)
  show "filter (\<lambda>t. t_hash t = HashToken raw \<and> active t) (tokens s') = [last (tokens s')]"
    by (rule CreateToken_InrD [OF assms]) (simp add: fresh, simp add: active_def)
qed

text \<open>
  Creating a token signs the user in and everybody's old token of that user out. If
  \<open>CreateToken\<close> succeeds, then (with the database reachable) the returned token authenticates
  as that user under the returned id, it is the user's only active token, the portal shows
  exactly this secret as the active token, and the tokens of other users are untouched.
\<close>

theorem created_token_authenticates:
  assumes "wf_world s" and "CreateToken st uid s = (Inr (raw, tid), s')" and "faults s' = []"
  shows "(\<exists>u. fst (UserByToken raw s') = Inr (u, tid) \<and> ID u = uid)
    \<and> map t_id (filter (\<lambda>t. t_user t = uid \<and> active t) (tokens s')) = [tid]
    \<and> (\<exists>row. fst (ActiveToken st uid s') = Inr (Some row) \<and> Raw row = raw \<and> TokenID row = tid)
    \<and> filter (\<lambda>t. t_user t \<noteq> uid) (tokens s') = filter (\<lambda>t. t_user t \<noteq> uid) (tokens s)"
proof -
  note act = CreateToken_active [OF assms(2)]
  obtain u where u: "u \<in> set (users s)" "ID u = uid" "\<not> AccessRevoked u"
    by (rule CreateToken_InrD [OF assms(2)])
  have wf': "wf_world s'"
    using keeps_result [OF keeps_CreateToken assms(1,2)] .
  have "UserByID (ID u) s' = (Inr u, s')"
    using u act(6) by (intro UserByID_found wf' assms(3)) simp
  then have "fst (UserByToken raw s') = Inr (u, tid)"
    using u act(2,4,5) assms(3) by (simp add: UserByToken_def query_row_no_faults)
  moreover have "t_cipher (last (tokens s')) \<noteq> []"
    using seals_not_Nil [OF act(7)] .
  then have "Raw (token_view st (last (tokens s'))) = raw \<and> TokenID (token_view st (last (tokens s'))) = tid"
    using act(2,7) by (simp add: token_view_def seals_def)
  then have "\<exists>row. fst (ActiveToken st uid s') = Inr (Some row) \<and> Raw row = raw \<and> TokenID row = tid"
    using act(1) assms(3) by (simp add: ActiveToken_def ListTokens_def query_no_faults)
  ultimately show ?thesis
    using act(1,2,3) u(2) by auto
qed

definition sample_user :: User where
  "sample_user = \<lparr>ID = 1, DiscordID = ''77'', DisplayName = ''Ann'', RoleIDs = [''r1''], AccessRevoked = False\<rparr>"

definition sample_world :: world where
  "sample_world = empty_world\<lparr>users := [sample_user], next_user := 2\<rparr>"

definition sample_store :: Store where
  "sample_store = \<lparr>StoreAEAD = replicate 32 0, StoreKey = replicate 32 1\<rparr>"

lemma wf_sample_world [simp]: "wf_world sample_world"
  using wf_empty_world
  by (simp add: sample_world_def sample_user_def empty_world_def wf_world_def wf_users_def wf_tokens_def wf_members_def
      wf_accounts_def wf_pairs_def wf_names_def wf_tags_def id_sets wf_groups_def)

lemma insert_token_succeeds:
  "h \<notin> t_hash ` set (tokens s) \<Longrightarrow> \<not> (\<exists>t \<in> set (tokens s). t_user t = u \<and> active t) \<Longrightarrow> u \<in> user_ids s \<Longrightarrow>
   faults s = [] \<Longrightarrow> \<exists>s'. insert_token u h c s = (Inr (next_token s), s') \<and> faults s' = []"
  by (simp add: insert_token_def stmt_no_faults Let_def user_ids_def)

lemma CreateToken_succeeds:
  assumes "wf_world s" and "u \<in> set (users s)" and "\<not> AccessRevoked u" and "faults s = []"
    and "\<And>raw. HashToken raw \<notin> t_hash ` set (tokens s)"
  obtains raw tid s' where "CreateToken st (ID u) s = (Inr (raw, tid), s')" and "faults s' = []"
proof -
  let ?s1 = "s\<lparr>tokens := map (\<lambda>t. if t_user t = ID u \<and> active t then t\<lparr>t_revoked_at := Some (clock s)\<rparr> else t) (tokens s)\<rparr>"
  have rv: "revoke_tokens (\<lambda>t. t_user t = ID u) s = (Inr (length (filter (\<lambda>t. t_user t = ID u \<and> active t) (tokens s))), ?s1)"
    using assms(4) by (simp add: revoke_tokens_def exec_update_def stmt_no_faults)
  obtain raw en where rt: "MustRandToken 40 ?s1 = (Inr raw, ?s1\<lparr>entropy := en\<rparr>)"
    by (rule MustRandToken_result)
  let ?s2 = "?s1\<lparr>entropy := en\<rparr>"
  obtain cipher en' where se: "SealString (StoreAEAD st) raw ''api_tokens.token'' ?s2 = (Inr cipher, ?s2\<lparr>entropy := en'\<rparr>)"
    by (rule SealString_cases)
  let ?s3 = "?s2\<lparr>entropy := en'\<rparr>"
  have "HashToken raw \<notin> t_hash ` set (tokens ?s3)"
    using assms(5) [of raw] image_update_key [of t_hash "\<lambda>t. t\<lparr>t_revoked_at := Some (clock s)\<rparr>" "\<lambda>t. t_user t = ID u \<and> active t" "tokens s"]
    by (simp del: list.set_map)
  moreover have "\<not> (\<exists>t \<in> set (tokens ?s3). t_user t = ID u \<and> active t)"
    using revoked_none_active [of "ID u" "clock s" "tokens s"]
    by (simp add: filter_empty_conv del: if_image_distrib filter_map set_map)
  moreover have "ID u \<in> user_ids ?s3"
    using assms(2) by (simp add: user_ids_def)
  moreover have "faults ?s3 = []"
    using assms(4) by simp
  ultimately obtain s' where ins: "insert_token (ID u) (HashToken raw) cipher ?s3 = (Inr (next_token ?s3), s')" "faults s' = []"
    using insert_token_succeeds by blast
  have "CreateToken st (ID u) s = (Inr (raw, next_token ?s3), s')"
    unfolding CreateToken_def andThen_def
    by (simp only: UserByID_found [OF assms(1,2,4)] assms(3) rv rt se ins(1) if_False prod.case sum.case ret_def)
  then show thesis
    using ins(2) by (rule that)
qed

theorem created_token_authenticates_witness:
  "\<exists>raw tid s'. CreateToken sample_store 1 sample_world = (Inr (raw, tid), s')
     \<and> (\<exists>u. fst (UserByToken raw s') = Inr (u, tid) \<and> ID u = 1)"
proof -
  have u: "sample_user \<in> set (users sample_world)" "\<not> AccessRevoked sample_user" "faults sample_world = []"
      "\<And>raw. HashToken raw \<notin> t_hash ` set (tokens sample_world)"
    by (simp_all add: sample_world_def sample_user_def empty_world_def)
  obtain raw tid s' where ct: "CreateToken sample_store (ID sample_user) sample_world = (Inr (raw, tid), s')" "faults s' = []"
    by (rule CreateToken_succeeds [OF wf_sample_world u])
  then show ?thesis
    using created_token_authenticates [OF wf_sample_world ct] by (auto simp: sample_user_def)
qed

text \<open>
  C6: an admin's revocation locks the user out. Whenever a token authenticates, in any state and
  with any database faults, it is an active token of a stored user whose access is not revoked.
  After a successful \<open>SetUserAccessRevoked\<close> no token authenticates as that user and
  \<open>CreateToken\<close> refuses, even if the statement that kills the active tokens failed.
\<close>

theorem revocation_locks_out:
  "(fst (UserByToken raw s) = Inr (u, tid) \<longrightarrow>
      u \<in> set (users s) \<and> \<not> AccessRevoked u \<and>
      (\<exists>t \<in> set (tokens s). active t \<and> t_id t = tid \<and> t_user t = ID u \<and> t_hash t = HashToken raw))
   \<and> (fst (SetUserAccessRevoked uid True s) = Inr () \<longrightarrow>
      (\<forall>raw' v i. fst (UserByToken raw' (snd (SetUserAccessRevoked uid True s))) = Inr (v, i) \<longrightarrow> ID v \<noteq> uid)
      \<and> (\<forall>st. \<exists>e. fst (CreateToken st uid (snd (SetUserAccessRevoked uid True s))) = Inl e))"
proof (intro conjI impI)
  assume "fst (UserByToken raw s) = Inr (u, tid)"
  then obtain s' where *: "UserByToken raw s = (Inr (u, tid), s')"
    by (metis prod.collapse)
  then show "u \<in> set (users s)" and "\<not> AccessRevoked u"
    and "\<exists>t \<in> set (tokens s). active t \<and> t_id t = tid \<and> t_user t = ID u \<and> t_hash t = HashToken raw"
    by (auto elim!: UserByToken_InrD)
next
  assume ok: "fst (SetUserAccessRevoked uid True s) = Inr ()"
  let ?s = "snd (SetUserAccessRevoked uid True s)"
  have rv: "AccessRevoked v" if "v \<in> set (users ?s)" "ID v = uid" for v
  proof -
    have "SetUserAccessRevoked uid True s = (Inr (), ?s)"
      using ok by (metis prod.collapse)
    from SetUserAccessRevoked_users [OF this] that(1) obtain w
      where "v = (if ID w = uid then w\<lparr>AccessRevoked := True\<rparr> else w)"
      by (auto simp del: if_image_distrib)
    with that(2) show ?thesis
      by (simp split: if_splits)
  qed
  show "\<forall>raw' v i. fst (UserByToken raw' ?s) = Inr (v, i) \<longrightarrow> ID v \<noteq> uid"
    using rv by (metis UserByToken_InrD prod.collapse)
  show "\<forall>st. \<exists>e. fst (CreateToken st uid ?s) = Inl e"
  proof
    fix st
    show "\<exists>e. fst (CreateToken st uid ?s) = Inl e"
    proof (cases "fst (CreateToken st uid ?s)")
      case (Inr r)
      then have "CreateToken st uid ?s = (Inr (fst r, snd r), snd (CreateToken st uid ?s))"
        by (simp add: prod_eq_iff)
      then obtain v where "v \<in> set (users ?s)" "ID v = uid" "\<not> AccessRevoked v"
        by (rule CreateToken_InrD)
      with rv show ?thesis by blast
    qed simp
  qed
qed

theorem revocation_locks_out_witness:
  "fst (SetUserAccessRevoked 1 True sample_world) = Inr ()
   \<and> (\<exists>e. fst (CreateToken sample_store 1 (snd (SetUserAccessRevoked 1 True sample_world))) = Inl e)"
proof -
  have "fst (SetUserAccessRevoked 1 True sample_world) = Inr ()"
    by (simp add: SetUserAccessRevoked_def exec_update_def stmt_def andThen_def sample_world_def
        empty_world_def sample_user_def)
  with revocation_locks_out [where uid = 1 and s = sample_world] show ?thesis by blast
qed

end
