(* ===== verification/StoreGroups.thy ===== *)
theory StoreGroups
  imports StoreUsers
begin

text \<open>
  internal/store: access groups (store.go, \<open>CreateGroup\<close> to \<open>DeleteGroup\<close>) and the slash commands
  they grant (discord_commands.go).

  The built-in group Default is what a user without any other group gets. The lemmas about
  \<open>default_locked\<close> show that no operation can delete it, rename it away, make a second one or
  give it web access. Web roles are strings in the code; \<open>web_role\<close> is their abstract type with
  its order, and the role of a user is the maximum over the user's groups.
\<close>

section \<open>Slash commands\<close>

definition knownDiscordCommands :: "string list" where
  "knownDiscordCommands = [''sso'', ''whoami'']"

fun check_commands :: "string list \<Rightarrow> error + string list" where
  "check_commands [] = Inr []"
| "check_commands (c # cs) =
     (if c \<noteq> [] \<and> c \<notin> set knownDiscordCommands
      then Inl (Err (''discord_commands: unknown command '' @ quoted c @ '' (allowed: sso, whoami)''))
      else case check_commands cs of Inl e \<Rightarrow> Inl e | Inr ds \<Rightarrow> Inr (c # ds))"

definition NormalizeDiscordCommands :: "string list \<Rightarrow> error + string list" where
  "NormalizeDiscordCommands cmds =
     (case check_commands (map (\<lambda>c. ToLower (TrimSpace c)) cmds) of
        Inl e \<Rightarrow> Inl e
      | Inr cs \<Rightarrow> Inr (sort (dedup (\<lambda>c. c = []) cs)))"

section \<open>Web roles\<close>

definition NormalizeWebRole :: "string \<Rightarrow> error + string" where
  "NormalizeWebRole role =
     (let r = ToLower (TrimSpace role) in
      if r \<in> {[], ''none'', ''off'', ''disabled''} then Inr []
      else if r = ''admin'' then Inr ''admin''
      else if r \<in> {''readonly'', ''read_only'', ''read-only'', ''viewer''} then Inr ''readonly''
      else Inl (Err ''web_role must be empty, admin, or readonly''))"

section \<open>The Default group's constants\<close>

definition DefaultGroupName :: string where
  "DefaultGroupName = ''Default''"

definition DefaultGroupDiscordCommands :: "string list" where
  "DefaultGroupDiscordCommands = [''sso'', ''whoami'']"

definition defaultGroupDescription :: string where
  "defaultGroupDescription = ''System group '' @ [CHR 0xE2, CHR 0x80, CHR 0x94]
     @ '' auto-assigned when a user has no other group. Discord commands only (no web UI).''"

definition IsDefaultGroupName :: "string \<Rightarrow> bool" where
  "IsDefaultGroupName name = EqualFold (TrimSpace name) DefaultGroupName"

section \<open>Groups\<close>

definition FindGroupIDByName :: "string \<Rightarrow> int option db" where
  "FindGroupIDByName name =
     (let name = TrimSpace name in
      if name = [] then ret None
      else attempt (query_row (\<lambda>s. map g_id (filter (\<lambda>g. ToLower (g_name g) = ToLower name) (groups s))))
        (\<lambda>r. case r of Inr i \<Rightarrow> ret (Some i) | Inl e \<Rightarrow> if e = NoRows then ret None else fail e))"

definition insert_group :: "string \<Rightarrow> string \<Rightarrow> string \<Rightarrow> string list \<Rightarrow> int db" where
  "insert_group name desc webRole cmds =
     stmt (\<lambda>s. let i = next_group s; s = s\<lparr>next_group := i + 1\<rparr> in
       case first_violation
         [if webRole \<notin> {[], ''admin'', ''readonly''}
            then Some (CheckViolation ''account_groups'' ''account_groups_web_role_check'') else None,
          if name \<in> g_name ` set (groups s) then Some (UniqueViolation ''account_groups_name_key'') else None] of
         Some e \<Rightarrow> (Inl e, s)
       | None \<Rightarrow> (Inr i, s\<lparr>groups := groups s @
           [\<lparr>g_id = i, g_name = name, g_desc = desc, g_web_role = webRole, g_cmds = cmds\<rparr>]\<rparr>))"

definition CreateGroup :: "string \<Rightarrow> string \<Rightarrow> string \<Rightarrow> string list \<Rightarrow> int db" where
  "CreateGroup name desc webRole discordCommands =
     (let name = TrimSpace name in
      if name = [] then fail (Err ''name required'') else
      andThen (if IsDefaultGroupName name
               then andThen (FindGroupIDByName DefaultGroupName)
                 (\<lambda>r. if r \<noteq> None then fail (Err ''default group name is reserved'') else ret ())
               else ret ()) (\<lambda>_.
      case NormalizeWebRole webRole of Inl e \<Rightarrow> fail e | Inr role \<Rightarrow>
      (case NormalizeDiscordCommands discordCommands of Inl e \<Rightarrow> fail e | Inr cmds \<Rightarrow>
        insert_group name desc role cmds)))"

text \<open>\<open>UPDATE account_groups SET ... WHERE id = $1\<close>.\<close>

definition update_group :: "int \<Rightarrow> (group_row \<Rightarrow> group_row) \<Rightarrow> nat db" where
  "update_group gid f =
     stmt (\<lambda>s. if \<exists>g \<in> set (groups s). g_id g = gid \<and> g_web_role (f g) \<notin> {[], ''admin'', ''readonly''}
       then (Inl (CheckViolation ''account_groups'' ''account_groups_web_role_check''), s)
       else if \<exists>g \<in> set (groups s). g_id g = gid \<and>
             (\<exists>h \<in> set (groups s). g_id h \<noteq> gid \<and> g_name h = g_name (f g))
       then (Inl (UniqueViolation ''account_groups_name_key''), s)
       else (Inr (length (filter (\<lambda>g. g_id g = gid) (groups s))),
             s\<lparr>groups := map (\<lambda>g. if g_id g = gid then f g else g) (groups s)\<rparr>))"

text \<open>\<open>btrim(description) = ''\<close>: only blanks.\<close>

definition blank :: "string \<Rightarrow> bool" where
  "blank d = (\<forall>c \<in> set d. c = CHR '' '')"

definition syncDefaultGroupBasePerms :: "int \<Rightarrow> unit db" where
  "syncDefaultGroupBasePerms groupID =
     (case NormalizeDiscordCommands DefaultGroupDiscordCommands of Inl e \<Rightarrow> fail e | Inr cmds \<Rightarrow>
      andThen (update_group groupID (\<lambda>g. g\<lparr>g_name := DefaultGroupName, g_web_role := [], g_cmds := cmds,
        g_desc := (if blank (g_desc g) then defaultGroupDescription else g_desc g)\<rparr>)) (\<lambda>_. ret ()))"

definition EnsureDefaultGroup :: "int db" where
  "EnsureDefaultGroup =
     andThen (FindGroupIDByName DefaultGroupName) (\<lambda>r. case r of
       Some i \<Rightarrow> andThen (syncDefaultGroupBasePerms i) (\<lambda>_. ret i)
     | None \<Rightarrow> attempt (CreateGroup DefaultGroupName defaultGroupDescription [] DefaultGroupDiscordCommands)
         (\<lambda>r. case r of Inr i \<Rightarrow> ret i | Inl e \<Rightarrow>
           attempt (FindGroupIDByName DefaultGroupName) (\<lambda>r2. case r2 of
             Inr (Some i2) \<Rightarrow> andThen (ignore (syncDefaultGroupBasePerms i2)) (\<lambda>_. ret i2)
           | _ \<Rightarrow> fail e)))"

definition IsDefaultGroup :: "int \<Rightarrow> bool db" where
  "IsDefaultGroup groupID =
     (if groupID \<le> 0 then ret False
      else attempt (query_row (\<lambda>s. map g_name (filter (\<lambda>g. g_id g = groupID) (groups s))))
        (\<lambda>r. case r of Inr name \<Rightarrow> ret (IsDefaultGroupName name)
                     | Inl e \<Rightarrow> if e = NoRows then ret False else fail e))"

definition UpdateGroupMeta :: "int \<Rightarrow> string \<Rightarrow> string \<Rightarrow> string \<Rightarrow> string list \<Rightarrow> unit db" where
  "UpdateGroupMeta groupID name description webRole discordCommands =
     andThen (IsDefaultGroup groupID) (\<lambda>isDefault.
     andThen (if isDefault then ret (DefaultGroupName, [], DefaultGroupDiscordCommands)
              else let name = TrimSpace name in
                if name = [] then fail (Err ''name required'')
                else if IsDefaultGroupName name then fail (Err ''default group name is reserved'')
                else ret (name, webRole, discordCommands)) (\<lambda>(name, webRole, discordCommands).
     case NormalizeWebRole webRole of Inl e \<Rightarrow> fail e | Inr role \<Rightarrow>
     (case NormalizeDiscordCommands discordCommands of Inl e \<Rightarrow> fail e | Inr cmds \<Rightarrow>
      andThen (update_group groupID (\<lambda>g. g\<lparr>g_name := name, g_desc := TrimSpace description,
         g_web_role := role, g_cmds := cmds\<rparr>))
        (\<lambda>n. if n = 0 then fail (Err ''group not found'') else ret ()))))"

text \<open>\<open>DELETE FROM account_groups WHERE id = $1\<close>, cascading to members and links.\<close>

definition delete_group :: "int \<Rightarrow> nat db" where
  "delete_group gid =
     stmt (\<lambda>s. (Inr (length (filter (\<lambda>g. g_id g = gid) (groups s))),
       s\<lparr>groups := filter (\<lambda>g. g_id g \<noteq> gid) (groups s), members := filter (\<lambda>m. m_group m \<noteq> gid) (members s),
         links := filter (\<lambda>l. fst l \<noteq> gid) (links s)\<rparr>))"

definition DeleteGroup :: "int \<Rightarrow> unit db" where
  "DeleteGroup groupID =
     andThen (IsDefaultGroup groupID) (\<lambda>isDefault.
     if isDefault then fail (Err ''default group cannot be deleted'')
     else andThen (delete_group groupID) (\<lambda>n. if n = 0 then fail (Err ''group not found'') else ret ()))"

section \<open>Members and linked accounts\<close>

definition member_fk :: "int \<Rightarrow> int option \<Rightarrow> world \<Rightarrow> error option" where
  "member_fk gid user s = first_violation
     [violates_fk ''group_members'' ''group_members_group_id_fkey'' (gid \<in> group_ids s),
      violates_fk ''group_members'' ''group_members_user_id_fkey'' (set_option user \<subseteq> user_ids s)]"

definition user_member :: "int \<Rightarrow> int \<Rightarrow> member_row" where
  "user_member gid uid = \<lparr>m_group = gid, m_user = Some uid, m_role = None\<rparr>"

definition role_member :: "int \<Rightarrow> string \<Rightarrow> member_row" where
  "role_member gid role = \<lparr>m_group = gid, m_user = None, m_role = Some role\<rparr>"

definition has_user_member :: "int \<Rightarrow> int \<Rightarrow> world \<Rightarrow> bool" where
  "has_user_member gid uid s = (\<exists>m \<in> set (members s). m_group m = gid \<and> m_user m = Some uid)"

definition has_role_member :: "int \<Rightarrow> string \<Rightarrow> world \<Rightarrow> bool" where
  "has_role_member gid role s = (\<exists>m \<in> set (members s). m_group m = gid \<and> m_role m = Some role)"

definition AddGroupUser :: "int \<Rightarrow> int \<Rightarrow> unit db" where
  "AddGroupUser groupID userID =
     exec_insert_once members members_update (has_user_member groupID userID)
       (member_fk groupID (Some userID)) (user_member groupID userID)"

definition RemoveGroupUser :: "int \<Rightarrow> int \<Rightarrow> unit db" where
  "RemoveGroupUser groupID userID =
     andThen (exec_delete members members_update (\<lambda>m. m_group m = groupID \<and> m_user m = Some userID)) (\<lambda>_. ret ())"

definition AddGroupRole :: "int \<Rightarrow> string \<Rightarrow> unit db" where
  "AddGroupRole groupID roleID =
     (let roleID = TrimSpace roleID in
      if roleID = [] then fail (Err ''role required'')
      else exec_insert_once members members_update (has_role_member groupID roleID)
        (member_fk groupID None) (role_member groupID roleID))"

definition RemoveGroupRole :: "int \<Rightarrow> string \<Rightarrow> unit db" where
  "RemoveGroupRole groupID roleID =
     andThen (exec_delete members members_update (\<lambda>m. m_group m = groupID \<and> m_role m = Some (TrimSpace roleID)))
       (\<lambda>_. ret ())"

definition link_fk :: "int \<Rightarrow> int \<Rightarrow> world \<Rightarrow> error option" where
  "link_fk gid aid s = first_violation
     [violates_fk ''account_group_links'' ''account_group_links_group_id_fkey'' (gid \<in> group_ids s),
      violates_fk ''account_group_links'' ''account_group_links_eq_account_id_fkey'' (aid \<in> account_ids s)]"

definition LinkAccountGroup :: "int \<Rightarrow> int \<Rightarrow> unit db" where
  "LinkAccountGroup accountID groupID =
     exec_insert_once links links_update (\<lambda>s. (groupID, accountID) \<in> set (links s))
       (link_fk groupID accountID) (groupID, accountID)"

definition UnlinkAccountGroup :: "int \<Rightarrow> int \<Rightarrow> unit db" where
  "UnlinkAccountGroup accountID groupID =
     andThen (exec_delete links links_update (\<lambda>l. l = (groupID, accountID))) (\<lambda>_. ret ())"

text \<open>A strict INSERT, as the two transactions use it.\<close>

definition strict :: "string \<Rightarrow> (world \<Rightarrow> bool) \<Rightarrow> (world \<Rightarrow> error option) \<Rightarrow> world \<Rightarrow> error option" where
  "strict con conflict fk s = (if conflict s then Some (UniqueViolation con) else fk s)"

definition ReplaceGroupMembership :: "int \<Rightarrow> int list \<Rightarrow> string list \<Rightarrow> unit db" where
  "ReplaceGroupMembership groupID userIDs roleIDs =
     in_tx (andThen (exec_delete members members_update (\<lambda>m. m_group m = groupID)) (\<lambda>_.
       andThen (for_each (\<lambda>uid. exec_insert members members_update
           (strict ''group_members_user_uniq'' (has_user_member groupID uid) (member_fk groupID (Some uid)))
           (\<lambda>_. user_member groupID uid)) (dedup (\<lambda>uid. uid \<le> 0) userIDs)) (\<lambda>_.
       for_each (\<lambda>rid. exec_insert members members_update
           (strict ''group_members_role_uniq'' (has_role_member groupID rid) (member_fk groupID None))
           (\<lambda>_. role_member groupID rid)) (dedup (\<lambda>r. r = []) (map TrimSpace roleIDs)))))"

definition ReplaceGroupAccountLinks :: "int \<Rightarrow> int list \<Rightarrow> unit db" where
  "ReplaceGroupAccountLinks groupID accountIDs =
     in_tx (andThen (exec_delete links links_update (\<lambda>l. fst l = groupID)) (\<lambda>_.
       for_each (\<lambda>aid. exec_insert links links_update
           (strict ''account_group_links_pkey'' (\<lambda>s. (groupID, aid) \<in> set (links s)) (link_fk groupID aid))
           (\<lambda>_. (groupID, aid))) (dedup (\<lambda>aid. aid \<le> 0) accountIDs)))"

section \<open>Membership and what it grants\<close>

definition member_matches :: "world \<Rightarrow> int \<Rightarrow> member_row \<Rightarrow> bool" where
  "member_matches s uid m =
     (m_user m = Some uid \<or> (case m_role m of None \<Rightarrow> False | Some r \<Rightarrow> holds_role s uid r))"

definition in_group :: "world \<Rightarrow> int \<Rightarrow> int \<Rightarrow> bool" where
  "in_group s uid gid = (\<exists>m \<in> set (members s). m_group m = gid \<and> member_matches s uid m)"

record GroupSummary =
  sum_id :: int
  sum_name :: string
  sum_description :: string
  sum_web_role :: string

definition ListGroupsForUser :: "User \<Rightarrow> GroupSummary list db" where
  "ListGroupsForUser u =
     query (\<lambda>s. map (\<lambda>g. \<lparr>sum_id = g_id g, sum_name = g_name g, sum_description = g_desc g, sum_web_role = g_web_role g\<rparr>)
       (sort_key g_name (filter (\<lambda>g. in_group s (ID u) (g_id g)) (groups s))))"

text \<open>The loop of \<open>HighestWebRoleForUser\<close>; an unknown role normalizes to no role.\<close>

fun highest_role :: "string \<Rightarrow> string list \<Rightarrow> string" where
  "highest_role h [] = h"
| "highest_role h (r # rs) =
     (let role = (case NormalizeWebRole r of Inl _ \<Rightarrow> [] | Inr x \<Rightarrow> x) in
      if role = ''admin'' then ''admin''
      else highest_role (if role = ''readonly'' then ''readonly'' else h) rs)"

definition HighestWebRoleForUser :: "User \<Rightarrow> string db" where
  "HighestWebRoleForUser u =
     andThen (ListGroupsForUser u) (\<lambda>gs. ret (highest_role [] (map sum_web_role gs)))"

definition EnsureUserInDefaultGroupIfNone :: "User \<Rightarrow> unit db" where
  "EnsureUserInDefaultGroupIfNone u =
     (if ID u \<le> 0 then ret ()
      else andThen (ListGroupsForUser u) (\<lambda>gs.
        if gs \<noteq> [] then ret ()
        else andThen EnsureDefaultGroup (\<lambda>gid. AddGroupUser gid (ID u))))"

definition IsDiscordCommandRestricted :: "string \<Rightarrow> bool db" where
  "IsDiscordCommandRestricted cmdKey =
     (let cmdKey = ToLower (TrimSpace cmdKey) in
      if cmdKey \<notin> set knownDiscordCommands then fail (Err (''unknown discord command '' @ quoted cmdKey))
      else query (\<lambda>s. \<exists>g \<in> set (groups s). cmdKey \<in> set (g_cmds g)))"

definition UserCanUseDiscordCommand :: "User \<Rightarrow> string \<Rightarrow> bool db" where
  "UserCanUseDiscordCommand u cmdKey =
     andThen (IsDiscordCommandRestricted cmdKey) (\<lambda>restricted.
     if \<not> restricted then ret True
     else query (\<lambda>s. \<exists>g \<in> set (groups s). ToLower (TrimSpace cmdKey) \<in> set (g_cmds g) \<and> in_group s (ID u) (g_id g)))"

record GroupUser =
  gu_id :: int
  gu_discord_id :: string
  gu_display_name :: string

record GroupDetail =
  gd_id :: int
  gd_name :: string
  gd_description :: string
  gd_web_role :: string
  gd_discord_commands :: "string list"
  gd_is_default :: bool
  gd_users :: "GroupUser list"
  gd_user_ids :: "int list"
  gd_role_ids :: "string list"
  gd_account_ids :: "int list"

fun group_details :: "group_row list \<Rightarrow> error + GroupDetail list" where
  "group_details [] = Inr []"
| "group_details (g # gs) =
     (case NormalizeDiscordCommands (g_cmds g) of Inl e \<Rightarrow> Inl e | Inr cmds \<Rightarrow>
      (case group_details gs of Inl e \<Rightarrow> Inl e | Inr ds \<Rightarrow>
       Inr (\<lparr>gd_id = g_id g, gd_name = g_name g, gd_description = g_desc g, gd_web_role = g_web_role g,
         gd_discord_commands = cmds, gd_is_default = IsDefaultGroupName (g_name g),
         gd_users = [], gd_user_ids = [], gd_role_ids = [], gd_account_ids = []\<rparr> # ds)))"

text \<open>\<open>LEFT JOIN users\<close>, ordered by group, display name, user, role, missing values last.\<close>

definition member_user :: "world \<Rightarrow> member_row \<Rightarrow> User option" where
  "member_user s m = (case m_user m of None \<Rightarrow> None | Some i \<Rightarrow> find (\<lambda>u. ID u = i) (users s))"

definition members_joined :: "world \<Rightarrow> (member_row \<times> User option) list" where
  "members_joined s =
     sort_key (\<lambda>(m, u). (m_group m,
         (u = None, case u of None \<Rightarrow> [] | Some x \<Rightarrow> DisplayName x),
         (m_user m = None, case m_user m of None \<Rightarrow> 0 | Some i \<Rightarrow> i),
         (m_role m = None, case m_role m of None \<Rightarrow> [] | Some r \<Rightarrow> r)))
       (map (\<lambda>m. (m, member_user s m)) (members s))"

definition add_member :: "member_row \<times> User option \<Rightarrow> GroupDetail \<Rightarrow> GroupDetail" where
  "add_member mu d =
     (case mu of (m, u) \<Rightarrow>
      let d = (case m_user m of
                 Some i \<Rightarrow> if i > 0 then d\<lparr>gd_user_ids := gd_user_ids d @ [i],
                     gd_users := gd_users d @ [\<lparr>gu_id = i,
                       gu_discord_id = (case u of None \<Rightarrow> [] | Some x \<Rightarrow> DiscordID x),
                       gu_display_name = (case u of None \<Rightarrow> [] | Some x \<Rightarrow> DisplayName x)\<rparr>]\<rparr> else d
               | None \<Rightarrow> d)
      in case m_role m of Some r \<Rightarrow> if r \<noteq> [] then d\<lparr>gd_role_ids := gd_role_ids d @ [r]\<rparr> else d | None \<Rightarrow> d)"

definition ListGroupDetails :: "GroupDetail list db" where
  "ListGroupDetails =
     andThen (query (\<lambda>s. sort_key (\<lambda>g. (ToLower (g_name g), g_id g)) (groups s))) (\<lambda>rows.
     case group_details rows of Inl e \<Rightarrow> fail e | Inr ds \<Rightarrow>
     if ds = [] then ret [] else
     attempt (query members_joined) (\<lambda>r1.
       let ds = (case r1 of Inl _ \<Rightarrow> ds
         | Inr ms \<Rightarrow> map (\<lambda>d. fold add_member (filter (\<lambda>(m, u). m_group m = gd_id d) ms) d) ds)
       in attempt (query (\<lambda>s. sort (links s))) (\<lambda>r2.
         ret (case r2 of Inl _ \<Rightarrow> ds
           | Inr ls \<Rightarrow> map (\<lambda>d. d\<lparr>gd_account_ids := map snd (filter (\<lambda>l. fst l = gd_id d) ls)\<rparr>) ds))))"

definition ListGroups :: "GroupDetail list db" where
  "ListGroups = andThen ListGroupDetails (\<lambda>ds. ret (map (\<lambda>d. d\<lparr>gd_users := [], gd_user_ids := [],
     gd_role_ids := [], gd_account_ids := []\<rparr>) ds))"

lemma holds_role_frame [simp]: "holds_role (s\<lparr>faults := fs\<rparr>) = holds_role s"
  by (simp add: holds_role_def fun_eq_iff)

lemma member_matches_frame [simp]: "member_matches (s\<lparr>faults := fs\<rparr>) = member_matches s"
  by (simp add: member_matches_def fun_eq_iff split: option.splits)

lemma in_group_frame [simp]: "in_group (s\<lparr>faults := fs\<rparr>) = in_group s"
  by (simp add: in_group_def fun_eq_iff)

section \<open>The abstract order of web roles\<close>

datatype web_role = NoWeb | ReadOnly | AdminRole

fun rank :: "web_role \<Rightarrow> nat" where
  "rank NoWeb = 0"
| "rank ReadOnly = 1"
| "rank AdminRole = 2"

lemma rank_inject: "rank a = rank b \<Longrightarrow> a = b"
  by (cases a; cases b) simp_all

instantiation web_role :: linorder
begin

definition "a \<le> b \<longleftrightarrow> rank a \<le> rank b"
definition "a < b \<longleftrightarrow> rank a < rank b"

instance
  by standard (auto simp: less_eq_web_role_def less_web_role_def rank_inject)

end

definition abs_role :: "string \<Rightarrow> web_role" where
  "abs_role r =
     (case NormalizeWebRole r of Inl _ \<Rightarrow> NoWeb
      | Inr x \<Rightarrow> if x = ''admin'' then AdminRole else if x = ''readonly'' then ReadOnly else NoWeb)"

lemma NoWeb_least [simp]: "NoWeb \<le> r"
  by (simp add: less_eq_web_role_def)

lemma Admin_greatest [simp]: "r \<le> AdminRole"
  by (cases r) (simp_all add: less_eq_web_role_def)

lemma NormalizeWebRole_cases:
  "NormalizeWebRole r = Inr x \<Longrightarrow> x \<in> {[], ''admin'', ''readonly''}"
  by (auto simp: NormalizeWebRole_def Let_def split: if_splits)

lemma NormalizeWebRole_Nil [simp]: "NormalizeWebRole [] = Inr []"
  by (simp add: NormalizeWebRole_def ToLower_def)

lemma abs_role_Nil [simp]: "abs_role [] = NoWeb"
  by (simp add: abs_role_def)

lemma abs_role_readonly [simp]: "abs_role ''readonly'' = ReadOnly"
  by code_simp

lemma abs_role_admin [simp]: "abs_role ''admin'' = AdminRole"
  by code_simp

lemma highest_role_Max:
  "h \<in> {[], ''readonly''} \<Longrightarrow>
   abs_role (highest_role h rs) = Max (insert (abs_role h) (abs_role ` set rs))
   \<and> highest_role h rs \<in> {[], ''admin'', ''readonly''}"
proof (induction rs arbitrary: h)
  case Nil
  then show ?case by auto
next
  case (Cons r rs)
  consider (admin) "NormalizeWebRole r = Inr ''admin''" | (ro) "NormalizeWebRole r = Inr ''readonly''"
    | (none) "abs_role r = NoWeb" "(case NormalizeWebRole r of Inl _ \<Rightarrow> [] | Inr x \<Rightarrow> x) = []"
    using NormalizeWebRole_cases [of r] by (cases "NormalizeWebRole r") (auto simp: abs_role_def)
  then show ?case
  proof cases
    case admin
    then have "abs_role r = AdminRole" by (simp add: abs_role_def)
    then have "Max (insert (abs_role h) (abs_role ` set (r # rs))) = AdminRole"
      by (intro Max_eqI) auto
    with admin show ?thesis by simp
  next
    case ro
    then have "abs_role r = ReadOnly" by (simp add: abs_role_def)
    moreover have "Max (insert (abs_role h) (insert ReadOnly X)) = Max (insert ReadOnly X)" if "finite X" for X
      using Cons.prems that by (auto simp: max_absorb2 simp del: Max_insert) (simp add: max_absorb2)
    ultimately show ?thesis
      using ro Cons.IH [of "''readonly''"] by simp
  next
    case none
    have "Max (insert (abs_role h) (insert NoWeb X)) = Max (insert (abs_role h) X)" if "finite X" for X
      using that by (subst insert_commute) (simp add: max_def)
    with none show ?thesis
      using Cons.IH [OF Cons.prems] by simp
  qed
qed

section \<open>The schema's constraints are kept\<close>

lemma wf_world_groups:
  assumes "wf_world s" and "wf_groups gs (next_group s)" and "g_id ` set gs = group_ids s"
  shows "wf_world (s\<lparr>groups := gs\<rparr>)"
  using assms by (simp add: wf_world_def id_sets)

lemma keeps_insert_group [keeps_rules]: "keeps wf_world (insert_group n d w c)"
  unfolding insert_group_def
proof (rule keeps_stmt [OF quiet_wf_world], rule keepsI)
  fix s assume wf: "wf_world s"
  then have wf': "wf_world (s\<lparr>next_group := next_group s + 1\<rparr>)"
    by (fastforce simp: wf_world_def wf_groups_def id_sets)
  let ?g = "\<lparr>g_id = next_group s, g_name = n, g_desc = d, g_web_role = w, g_cmds = c\<rparr>"
  have "wf_world (s\<lparr>next_group := next_group s + 1, groups := groups s @ [?g]\<rparr>)"
    if "w \<in> {[], ''admin'', ''readonly''}" "n \<notin> g_name ` set (groups s)"
  proof -
    have "wf_groups (groups s @ [?g]) (next_group s + 1)"
      using wf that by (fastforce simp: wf_world_def wf_groups_def)
    moreover have "g_id ` set (groups s) \<subseteq> insert (next_group s) (g_id ` set (groups s))"
      by auto
    ultimately show ?thesis
      using wf by (auto simp: wf_world_def id_sets elim: wf_members_mono wf_pairs_mono)
  qed
  with wf' show "wf_world (snd (let i = next_group s; s = s\<lparr>next_group := i + 1\<rparr> in
       case first_violation
         [if w \<notin> {[], ''admin'', ''readonly''}
            then Some (CheckViolation ''account_groups'' ''account_groups_web_role_check'') else None,
          if n \<in> g_name ` set (groups s) then Some (UniqueViolation ''account_groups_name_key'') else None] of
         Some e \<Rightarrow> (Inl e, s)
       | None \<Rightarrow> (Inr i, s\<lparr>groups := groups s @
           [\<lparr>g_id = i, g_name = n, g_desc = d, g_web_role = w, g_cmds = c\<rparr>]\<rparr>)))"
    by (auto simp: Let_def split: option.splits)
qed

lemma wf_groups_update:
  assumes wf: "wf_groups gs n" and id: "\<And>g. g_id (f g) = g_id g"
    and role: "\<not> (\<exists>g \<in> set gs. g_id g = gid \<and> g_web_role (f g) \<notin> {[], ''admin'', ''readonly''})"
    and name: "\<not> (\<exists>g \<in> set gs. g_id g = gid \<and> (\<exists>h \<in> set gs. g_id h \<noteq> gid \<and> g_name h = g_name (f g)))"
  shows "wf_groups (map (\<lambda>g. if g_id g = gid then f g else g) gs) n"
proof -
  let ?u = "\<lambda>g. if g_id g = gid then f g else g"
  have nm: "g \<in> set gs \<Longrightarrow> h \<in> set gs \<Longrightarrow> g_id g = gid \<Longrightarrow> g_id h \<noteq> gid \<Longrightarrow> g_name h \<noteq> g_name (f g)" for g h
    using name by blast
  have "distinct (map g_name (map ?u gs))"
  proof (unfold distinct_map, intro conjI)
    show "distinct gs" using wf by (auto simp: wf_groups_def distinct_map)
    show "inj_on ?u (set gs)"
      using wf id by (auto simp: wf_groups_def distinct_map inj_on_def)
    show "inj_on g_name (set (map ?u gs))"
    proof (rule inj_onI)
      fix x y assume xy: "x \<in> set (map ?u gs)" "y \<in> set (map ?u gs)" "g_name x = g_name y"
      then obtain a b where ab: "x = ?u a" "a \<in> set gs" "y = ?u b" "b \<in> set gs"
        by (auto simp del: if_image_distrib)
      have "g_id a = g_id b"
        using ab xy(3) nm [of a b] nm [of b a] wf by (cases "g_id a = gid"; cases "g_id b = gid")
          (auto simp: wf_groups_def distinct_map dest: inj_onD)
      then have "a = b"
        using wf ab unique_key_eq [of g_id gs a b] by (simp add: wf_groups_def)
      with ab show "x = y" by simp
    qed
  qed
  then show ?thesis
    using wf id role by (auto simp: wf_groups_def update_key_comp)
qed

lemma keeps_update_group [keeps_rules]:
  assumes "\<And>g. g_id (f g) = g_id g"
  shows "keeps wf_world (update_group gid f)"
  unfolding update_group_def
proof (rule keeps_stmt [OF quiet_wf_world], rule keepsI)
  fix s assume wf: "wf_world s"
  then have "wf_groups (groups s) (next_group s)" by (simp add: wf_world_def)
  note upd = wf_groups_update [OF this, of f gid, OF assms]
  have ids: "g_id ` set (map (\<lambda>g. if g_id g = gid then f g else g) (groups s)) = group_ids s"
    using image_update_key [of g_id f] assms by (simp add: group_ids_def del: list.set_map)
  show "wf_world (snd (if \<exists>g \<in> set (groups s). g_id g = gid \<and> g_web_role (f g) \<notin> {[], ''admin'', ''readonly''}
       then (Inl (CheckViolation ''account_groups'' ''account_groups_web_role_check''), s)
       else if \<exists>g \<in> set (groups s). g_id g = gid \<and>
             (\<exists>h \<in> set (groups s). g_id h \<noteq> gid \<and> g_name h = g_name (f g))
       then (Inl (UniqueViolation ''account_groups_name_key''), s)
       else (Inr (length (filter (\<lambda>g. g_id g = gid) (groups s))),
             s\<lparr>groups := map (\<lambda>g. if g_id g = gid then f g else g) (groups s)\<rparr>)))"
    using wf wf_world_groups [OF wf upd ids] by (simp del: list.set_map)
qed

lemma keeps_delete_group [keeps_rules]: "keeps wf_world (delete_group gid)"
  unfolding delete_group_def
proof (rule keeps_stmt [OF quiet_wf_world], rule keepsI)
  fix s assume wf: "wf_world s"
  let ?gs = "g_id ` set (filter (\<lambda>g. g_id g \<noteq> gid) (groups s))"
  have "wf_groups (filter (\<lambda>g. g_id g \<noteq> gid) (groups s)) (next_group s)"
    using wf by (auto simp: wf_world_def wf_groups_def distinct_map_filterI)
  moreover have "wf_members (filter (\<lambda>m. m_group m \<noteq> gid) (members s)) ?gs (user_ids s)"
    using wf by (intro wf_members_filter_into [where gs = "group_ids s"])
      (auto simp: wf_world_def wf_members_def group_ids_def)
  moreover have "wf_pairs (filter (\<lambda>l. fst l \<noteq> gid) (links s)) ?gs (account_ids s)"
    using wf by (intro wf_pairs_filter_into [where A = "group_ids s" and B = "account_ids s"])
      (auto simp: wf_world_def wf_pairs_def group_ids_def)
  ultimately show "wf_world (snd (Inr (length (filter (\<lambda>g. g_id g = gid) (groups s))),
       s\<lparr>groups := filter (\<lambda>g. g_id g \<noteq> gid) (groups s), members := filter (\<lambda>m. m_group m \<noteq> gid) (members s),
         links := filter (\<lambda>l. fst l \<noteq> gid) (links s)\<rparr>))"
    using wf by (simp add: wf_world_def id_sets)
qed

lemma wf_world_members:
  "wf_world s \<Longrightarrow> wf_members ms (group_ids s) (user_ids s) \<Longrightarrow> wf_world (s\<lparr>members := ms\<rparr>)"
  by (simp add: wf_world_def id_sets)

lemma wf_world_links:
  "wf_world s \<Longrightarrow> wf_pairs ls (group_ids s) (account_ids s) \<Longrightarrow> wf_world (s\<lparr>links := ls\<rparr>)"
  by (simp add: wf_world_def id_sets)

lemma wf_user_member:
  "wf_world s \<Longrightarrow> \<not> has_user_member gid uid s \<Longrightarrow> member_fk gid (Some uid) s = None \<Longrightarrow>
   wf_world (s\<lparr>members := members s @ [user_member gid uid]\<rparr>)"
  by (rule wf_world_members, assumption, rule wf_members_append)
    (auto simp: wf_world_def has_user_member_def member_fk_def user_member_def)

lemma wf_role_member:
  "wf_world s \<Longrightarrow> \<not> has_role_member gid r s \<Longrightarrow> member_fk gid None s = None \<Longrightarrow>
   wf_world (s\<lparr>members := members s @ [role_member gid r]\<rparr>)"
  by (rule wf_world_members, assumption, rule wf_members_append)
    (auto simp: wf_world_def has_role_member_def member_fk_def role_member_def)

lemma wf_link:
  "wf_world s \<Longrightarrow> (gid, aid) \<notin> set (links s) \<Longrightarrow> link_fk gid aid s = None \<Longrightarrow>
   wf_world (s\<lparr>links := links s @ [(gid, aid)]\<rparr>)"
  by (rule wf_world_links, assumption, rule wf_pairs_append) (auto simp: wf_world_def link_fk_def)

lemma strict_None [simp]: "strict con c fk s = None \<longleftrightarrow> \<not> c s \<and> fk s = None"
  by (simp add: strict_def)

lemma keeps_delete_members [keeps_rules]: "keeps wf_world (exec_delete members members_update P)"
  by (rule keeps_exec_delete [OF quiet_wf_world], rule wf_world_members)
    (auto intro: wf_members_filter_into simp: wf_world_def wf_members_def)

lemma keeps_delete_links [keeps_rules]: "keeps wf_world (exec_delete links links_update P)"
  by (rule keeps_exec_delete [OF quiet_wf_world], rule wf_world_links)
    (auto intro: wf_pairs_filter simp: wf_world_def)

lemmas group_statement_wf = keeps_exec_insert [OF quiet_wf_world] keeps_exec_insert_once [OF quiet_wf_world]
  wf_user_member wf_role_member wf_link

lemma keeps_FindGroupIDByName: "quiet I \<Longrightarrow> keeps I (FindGroupIDByName n)"
  unfolding FindGroupIDByName_def Let_def by (intro keeps_rules)

lemma keeps_IsDefaultGroup: "quiet I \<Longrightarrow> keeps I (IsDefaultGroup g)"
  unfolding IsDefaultGroup_def by (intro keeps_rules)

lemmas group_reads = keeps_FindGroupIDByName [OF quiet_wf_world] keeps_IsDefaultGroup [OF quiet_wf_world]

lemma keeps_CreateGroup: "keeps wf_world (CreateGroup n d w c)"
  unfolding CreateGroup_def Let_def by (intro keeps_rules group_reads)

lemma keeps_syncDefault: "keeps wf_world (syncDefaultGroupBasePerms g)"
  unfolding syncDefaultGroupBasePerms_def by (intro keeps_rules) simp

lemma keeps_EnsureDefaultGroup: "keeps wf_world EnsureDefaultGroup"
  unfolding EnsureDefaultGroup_def
  by (intro keeps_rules group_reads keeps_CreateGroup keeps_syncDefault)

lemma keeps_UpdateGroupMeta: "keeps wf_world (UpdateGroupMeta g n d w c)"
  unfolding UpdateGroupMeta_def Let_def by (intro keeps_rules group_reads) simp

lemma keeps_DeleteGroup: "keeps wf_world (DeleteGroup g)"
  unfolding DeleteGroup_def by (intro keeps_rules group_reads)

lemma keeps_AddGroupUser: "keeps wf_world (AddGroupUser g u)"
  unfolding AddGroupUser_def by (intro group_statement_wf)

lemma keeps_AddGroupRole: "keeps wf_world (AddGroupRole g r)"
  unfolding AddGroupRole_def Let_def by (intro keeps_rules group_statement_wf)

lemma keeps_RemoveGroupUser: "keeps wf_world (RemoveGroupUser g u)"
  unfolding RemoveGroupUser_def by (intro keeps_rules)

lemma keeps_RemoveGroupRole: "keeps wf_world (RemoveGroupRole g r)"
  unfolding RemoveGroupRole_def by (intro keeps_rules)

lemma keeps_LinkAccountGroup: "keeps wf_world (LinkAccountGroup a g)"
  unfolding LinkAccountGroup_def by (intro group_statement_wf)

lemma keeps_UnlinkAccountGroup: "keeps wf_world (UnlinkAccountGroup a g)"
  unfolding UnlinkAccountGroup_def by (intro keeps_rules)

lemma keeps_ReplaceGroupMembership: "keeps wf_world (ReplaceGroupMembership g us rs)"
  unfolding ReplaceGroupMembership_def by (intro keeps_rules quiet_wf_world group_statement_wf) auto

lemma keeps_ReplaceGroupAccountLinks: "keeps wf_world (ReplaceGroupAccountLinks g as)"
  unfolding ReplaceGroupAccountLinks_def by (intro keeps_rules quiet_wf_world group_statement_wf) auto

lemma keeps_EnsureUserInDefaultGroupIfNone: "keeps wf_world (EnsureUserInDefaultGroupIfNone u)"
  unfolding EnsureUserInDefaultGroupIfNone_def ListGroupsForUser_def
  by (intro keeps_rules quiet_wf_world keeps_EnsureDefaultGroup keeps_AddGroupUser)

section \<open>The Default group\<close>

definition is_default :: "group_row \<Rightarrow> bool" where
  "is_default g = IsDefaultGroupName (g_name g)"

definition default_locked :: "world \<Rightarrow> bool" where
  "default_locked s \<longleftrightarrow>
     (\<exists>d. filter is_default (groups s) = [d] \<and> g_web_role d = [] \<and> g_cmds d = DefaultGroupDiscordCommands)
     \<and> (\<forall>g \<in> set (groups s). TrimSpace (g_name g) = g_name g)"

lemma quiet_default_locked [simp]: "quiet default_locked"
  by (rule quietI) (simp_all add: default_locked_def)

lemma keeps_default_frame: "frame groups m \<Longrightarrow> keeps default_locked m"
  unfolding default_locked_def by (rule frame_keeps)

lemma default_name_trim [simp]: "IsDefaultGroupName (TrimSpace n) = IsDefaultGroupName n"
  by (simp add: IsDefaultGroupName_def)

lemma TrimSpace_DefaultGroupName [simp]: "TrimSpace DefaultGroupName = DefaultGroupName"
  by code_simp

lemma IsDefaultGroupName_Default [simp]: "IsDefaultGroupName DefaultGroupName"
  by (simp add: IsDefaultGroupName_def)

lemma NormalizeDiscordCommands_default [simp]:
  "NormalizeDiscordCommands DefaultGroupDiscordCommands = Inr DefaultGroupDiscordCommands"
  by code_simp

lemma DefaultGroupName_not_Nil [simp]: "DefaultGroupName \<noteq> []"
  by (simp add: DefaultGroupName_def)

lemma FindGroupIDByName_None:
  "FindGroupIDByName n s = (Inr None, s') \<Longrightarrow> TrimSpace n \<noteq> [] \<Longrightarrow>
   \<not> (\<exists>g \<in> set (groups s). ToLower (g_name g) = ToLower (TrimSpace n))"
  by (auto simp: FindGroupIDByName_def Let_def attempt_def query_row_def stmt_def filter_empty_conv
      split: prod.splits sum.splits list.splits option.splits if_splits)

lemma FindGroupIDByName_Some:
  "FindGroupIDByName n s = (Inr (Some i), s') \<Longrightarrow>
   \<exists>g \<in> set (groups s). g_id g = i \<and> ToLower (g_name g) = ToLower (TrimSpace n)"
  by (auto simp: FindGroupIDByName_def Let_def attempt_def query_row_def stmt_def
      split: prod.splits sum.splits list.splits option.splits if_splits
      dest!: filter_ConsD)

lemma IsDefaultGroup_InrD:
  assumes "wf_world s" and "IsDefaultGroup gid s = (Inr b, s')"
  shows "(b \<longleftrightarrow> (\<exists>g \<in> set (groups s). g_id g = gid \<and> is_default g))" and "groups s' = groups s"
proof -
  have pos: "\<forall>g \<in> set (groups s). \<not> g_id g \<le> 0"
    using assms(1) by (auto simp: wf_world_def wf_groups_def)
  have uniq: "\<forall>g \<in> set (groups s). \<forall>h \<in> set (groups s). g_id g = g_id h \<longrightarrow> g = h"
    using assms(1) unique_key_eq by (metis wf_groups_def wf_world_def)
  have "frame groups (IsDefaultGroup gid)"
    unfolding IsDefaultGroup_def by (intro frame_rules unseen_tables)
  then show "groups s' = groups s"
    using assms(2) by (rule frame_result)
  show "b \<longleftrightarrow> (\<exists>g \<in> set (groups s). g_id g = gid \<and> is_default g)"
    using assms(2) pos uniq
    by (fastforce simp: IsDefaultGroup_def attempt_def query_row_def stmt_def is_default_def filter_empty_conv
        split: prod.splits sum.splits list.splits option.splits if_splits dest!: filter_ConsD)
qed

definition group_inv :: "world \<Rightarrow> bool" where
  "group_inv s \<longleftrightarrow> wf_world s \<and> default_locked s"

lemma quiet_group_inv [simp]: "quiet group_inv"
  by (rule quietI) (simp_all add: group_inv_def)

lemma keeps_group_inv: "keeps wf_world m \<Longrightarrow> frame groups m \<Longrightarrow> keeps group_inv m"
  unfolding group_inv_def by (rule keeps_conj [OF _ keeps_default_frame])

lemma group_inv_frame: "group_inv s \<Longrightarrow> wf_world s' \<Longrightarrow> groups s' = groups s \<Longrightarrow> group_inv s'"
  by (simp add: group_inv_def default_locked_def)

lemma default_found:
  assumes "default_locked s"
  shows "\<exists>g \<in> set (groups s). ToLower (g_name g) = ToLower (TrimSpace DefaultGroupName)"
proof -
  from assms obtain d where d: "filter is_default (groups s) = [d]"
    and trim: "\<forall>g \<in> set (groups s). TrimSpace (g_name g) = g_name g"
    by (auto simp: default_locked_def)
  from filter_ConsD [OF d] trim show ?thesis
    by (auto simp: is_default_def IsDefaultGroupName_def EqualFold_def)
qed

lemma default_locked_map:
  assumes "default_locked s" and "\<And>g. g \<in> set (groups s) \<Longrightarrow> is_default (u g) = is_default g"
    and "\<And>g. g \<in> set (groups s) \<Longrightarrow> is_default g \<Longrightarrow> g_web_role (u g) = [] \<and> g_cmds (u g) = DefaultGroupDiscordCommands"
    and "\<And>g. g \<in> set (groups s) \<Longrightarrow> TrimSpace (g_name (u g)) = g_name (u g)"
    and "groups s' = map u (groups s)"
  shows "default_locked s'"
proof -
  from assms(1) obtain d where d: "filter is_default (groups s) = [d]"
    by (auto simp: default_locked_def)
  have "filter is_default (groups s') = map u (filter is_default (groups s))"
    unfolding assms(5) filter_map by (rule arg_cong [of _ _ "map u"]) (use assms(2) in \<open>auto intro: filter_cong\<close>)
  with d filter_ConsD [OF d] assms(3-5) show ?thesis
    by (auto simp: default_locked_def)
qed

lemma update_group_groups:
  "groups (snd (update_group gid f s)) = groups s
   \<or> groups (snd (update_group gid f s)) = map (\<lambda>g. if g_id g = gid then f g else g) (groups s)"
  by (simp add: update_group_def stmt_def split: list.splits option.splits)

lemma update_default_row:
  assumes inv: "group_inv s" and d: "g \<in> set (groups s)" "g_id g = gid" "is_default g"
    and f: "\<And>h. g_name (f h) = DefaultGroupName \<and> g_web_role (f h) = [] \<and> g_cmds (f h) = DefaultGroupDiscordCommands"
    and key: "\<And>h. g_id (f h) = g_id h"
  shows "group_inv (snd (update_group gid f s))"
proof -
  have wf': "wf_world (snd (update_group gid f s))"
    using inv keepsD [OF keeps_update_group [OF key]] by (simp add: group_inv_def)
  have only: "h = g" if "h \<in> set (groups s)" "g_id h = gid" for h
    using inv that d unique_key_eq [of g_id "groups s" h g] by (simp add: group_inv_def wf_world_def wf_groups_def)
  have other: "h = g" if "h \<in> set (groups s)" "is_default h" for h
  proof -
    from inv obtain x where x: "filter is_default (groups s) = [x]"
      by (auto simp: group_inv_def default_locked_def)
    show ?thesis
      using filter_singleD [OF x that] filter_singleD [OF x d(1,3)] by simp
  qed
  have "default_locked s'" if "groups s' = map (\<lambda>h. if g_id h = gid then f h else h) (groups s)" for s'
  proof (rule default_locked_map [OF _ _ _ _ that])
    show "default_locked s" using inv by (simp add: group_inv_def)
    fix h assume h: "h \<in> set (groups s)"
    show "is_default (if g_id h = gid then f h else h) = is_default h"
      using only [OF h] d(3) f [of h] by (cases "g_id h = gid") (simp_all add: is_default_def)
    show "TrimSpace (g_name (if g_id h = gid then f h else h)) = g_name (if g_id h = gid then f h else h)"
      using inv h f [of h] by (cases "g_id h = gid") (simp_all add: group_inv_def default_locked_def)
    assume "is_default h"
    then have "g_id h = gid"
      using other [OF h] d(2) by simp
    then show "g_web_role (if g_id h = gid then f h else h) = [] \<and>
        g_cmds (if g_id h = gid then f h else h) = DefaultGroupDiscordCommands"
      using f [of h] by simp
  qed
  then show ?thesis
    using update_group_groups [of gid f s] wf' inv by (auto simp: group_inv_def default_locked_def)
qed

lemma update_other_row:
  assumes inv: "group_inv s" and nd: "\<not> (\<exists>g \<in> set (groups s). g_id g = gid \<and> is_default g)"
    and f: "\<And>h. \<not> IsDefaultGroupName (g_name (f h)) \<and> TrimSpace (g_name (f h)) = g_name (f h)"
    and key: "\<And>h. g_id (f h) = g_id h"
  shows "group_inv (snd (update_group gid f s))"
proof -
  have wf': "wf_world (snd (update_group gid f s))"
    using inv keepsD [OF keeps_update_group [OF key]] by (simp add: group_inv_def)
  have role: "g_web_role g = [] \<and> g_cmds g = DefaultGroupDiscordCommands" if "g \<in> set (groups s)" "is_default g" for g
  proof -
    from inv obtain x where x: "filter is_default (groups s) = [x]" "g_web_role x = []" "g_cmds x = DefaultGroupDiscordCommands"
      by (auto simp: group_inv_def default_locked_def)
    with filter_singleD [OF x(1) that] show ?thesis by simp
  qed
  have "default_locked s'" if "groups s' = map (\<lambda>h. if g_id h = gid then f h else h) (groups s)" for s'
    using inv nd f role
    by (intro default_locked_map [OF _ _ _ _ that]) (auto simp: group_inv_def is_default_def default_locked_def)
  then show ?thesis
    using update_group_groups [of gid f s] wf' inv by (auto simp: group_inv_def default_locked_def)
qed

lemma insert_other_row:
  "\<not> IsDefaultGroupName n \<Longrightarrow> TrimSpace n = n \<Longrightarrow> keeps group_inv (insert_group n d w c)"
  unfolding group_inv_def
  by (intro keeps_conj keeps_rules)
    (auto simp: insert_group_def keeps_def stmt_def default_locked_def is_default_def Let_def
      split: list.splits option.splits if_splits)

lemma frame_FindGroupIDByName: "frame groups (FindGroupIDByName n)"
  unfolding FindGroupIDByName_def Let_def by (intro frame_rules unseen_tables)

lemma CreateGroup_inv: "keeps group_inv (CreateGroup n d w c)"
proof (rule keepsI)
  fix s assume inv: "group_inv s"
  let ?n = "TrimSpace n"
  let ?rest = "case NormalizeWebRole w of Inl e \<Rightarrow> fail e | Inr role \<Rightarrow>
      (case NormalizeDiscordCommands c of Inl e \<Rightarrow> fail e | Inr cmds \<Rightarrow> insert_group ?n d role cmds)"
  show "group_inv (snd (CreateGroup n d w c s))"
  proof (cases "IsDefaultGroupName ?n")
    case False
    then have "keeps group_inv ?rest"
      by (intro keeps_rules insert_other_row) simp_all
    then show ?thesis
      using inv False by (auto simp: CreateGroup_def Let_def keepsD)
  next
    case True
    obtain r s1 where f: "FindGroupIDByName DefaultGroupName s = (r, s1)"
      by (cases "FindGroupIDByName DefaultGroupName s") auto
    have "group_inv s1"
      using inv keeps_result [OF group_reads(1) _ f] frame_result [OF frame_FindGroupIDByName f]
      by (auto simp: group_inv_def default_locked_def)
    moreover have "r \<noteq> Inr None"
      using FindGroupIDByName_None [of DefaultGroupName s s1] f default_found [of s] inv
      by (auto simp: group_inv_def)
    ultimately show ?thesis
      using True f inv by (cases r) (auto simp: CreateGroup_def Let_def andThen_def)
  qed
qed

lemma UpdateGroupMeta_inv: "keeps group_inv (UpdateGroupMeta gid n d w c)"
proof (rule keepsI)
  fix s assume inv: "group_inv s"
  obtain r s1 where b: "IsDefaultGroup gid s = (r, s1)"
    by (cases "IsDefaultGroup gid s") auto
  have g1: "groups s1 = groups s" if "r = Inr x" for x
    using IsDefaultGroup_InrD(2) inv b that by (auto simp: group_inv_def)
  have "group_inv s1"
    using keeps_result [OF keeps_IsDefaultGroup [OF quiet_group_inv] inv b] .
  note step = this
  show "group_inv (snd (UpdateGroupMeta gid n d w c s))"
  proof (cases r)
    case (Inl e)
    then show ?thesis using b step by (simp add: UpdateGroupMeta_def andThen_def)
  next
    case (Inr isd)
    have row: "isd \<longleftrightarrow> (\<exists>g \<in> set (groups s1). g_id g = gid \<and> is_default g)"
      using IsDefaultGroup_InrD(1) inv b Inr g1 by (auto simp: group_inv_def)
    have upd: "group_inv (snd (andThen (update_group gid f) (\<lambda>n. if n = 0 then fail e else ret ()) s1))"
      if "group_inv (snd (update_group gid f s1))" for f e
      using that by (auto simp: andThen_def split: prod.splits sum.splits)
    show ?thesis
    proof (cases isd)
      case True
      then obtain g where "g \<in> set (groups s1)" "g_id g = gid" "is_default g"
        using row by auto
      note upd [OF update_default_row [OF step this]]
      then show ?thesis
        using Inr True b by (simp add: UpdateGroupMeta_def)
    next
      case False
      then have no: "\<not> (\<exists>g \<in> set (groups s1). g_id g = gid \<and> is_default g)"
        using row by auto
      show ?thesis
        using Inr False b step upd [OF update_other_row [OF step no]]
        by (auto simp: UpdateGroupMeta_def Let_def split: sum.splits)
    qed
  qed
qed

lemma DeleteGroup_inv: "keeps group_inv (DeleteGroup gid)"
proof (rule keepsI)
  fix s assume inv: "group_inv s"
  obtain r s1 where b: "IsDefaultGroup gid s = (r, s1)"
    by (cases "IsDefaultGroup gid s") auto
  have step: "group_inv s1"
    using keeps_result [OF keeps_IsDefaultGroup [OF quiet_group_inv] inv b] .
  have "group_inv (snd (delete_group gid s1))" if "r = Inr False"
  proof -
    have "\<not> (\<exists>g \<in> set (groups s1). g_id g = gid \<and> is_default g)"
      using IsDefaultGroup_InrD [of s gid False s1] inv b that by (auto simp: group_inv_def)
    then have "filter is_default (filter (\<lambda>g. g_id g \<noteq> gid) (groups s1)) = filter is_default (groups s1)"
      by (auto intro!: filter_cong)
    moreover have "wf_world (snd (delete_group gid s1))"
      using step keepsD [OF keeps_delete_group] by (simp add: group_inv_def)
    ultimately show ?thesis
      using step by (auto simp: group_inv_def delete_group_def stmt_def default_locked_def
          split: list.splits option.splits)
  qed
  then show "group_inv (snd (DeleteGroup gid s))"
    using b step by (cases r) (auto simp: DeleteGroup_def andThen_def split: prod.splits sum.splits)
qed

lemma syncDefault_inv:
  assumes "group_inv s" and "FindGroupIDByName DefaultGroupName s0 = (Inr (Some i), s)"
  shows "group_inv (snd (syncDefaultGroupBasePerms i s))"
proof -
  have "groups s0 = groups s"
    using frame_result [OF frame_FindGroupIDByName assms(2)] by simp
  then obtain g where "g \<in> set (groups s)" "g_id g = i" "ToLower (g_name g) = ToLower DefaultGroupName"
    using FindGroupIDByName_Some [OF assms(2)] by auto
  moreover from this assms(1) have "is_default g"
    by (simp add: group_inv_def default_locked_def is_default_def IsDefaultGroupName_def EqualFold_def)
  ultimately have "group_inv (snd (update_group i (\<lambda>g. g\<lparr>g_name := DefaultGroupName, g_web_role := [],
      g_cmds := DefaultGroupDiscordCommands,
      g_desc := (if blank (g_desc g) then defaultGroupDescription else g_desc g)\<rparr>) s))"
    by (intro update_default_row [OF assms(1)]) simp_all
  then show ?thesis
    by (auto simp: syncDefaultGroupBasePerms_def andThen_def split: prod.splits sum.splits)
qed

lemma EnsureDefaultGroup_inv: "keeps group_inv EnsureDefaultGroup"
proof (rule keepsI)
  fix s assume inv: "group_inv s"
  obtain r s1 where f: "FindGroupIDByName DefaultGroupName s = (r, s1)"
    by (cases "FindGroupIDByName DefaultGroupName s") auto
  have step: "group_inv s1"
    using keeps_result [OF keeps_FindGroupIDByName [OF quiet_group_inv] inv f] .
  have "r \<noteq> Inr None"
    using FindGroupIDByName_None [of DefaultGroupName s s1] f default_found [of s] inv
    by (auto simp: group_inv_def)
  moreover have "group_inv (snd (andThen (syncDefaultGroupBasePerms i) (\<lambda>_. ret i) s1))" if "r = Inr (Some i)" for i
    using syncDefault_inv [OF step, of s i] f that by (auto simp: andThen_def split: prod.splits sum.splits)
  ultimately show "group_inv (snd (EnsureDefaultGroup s))"
    using f step by (cases r) (auto simp: EnsureDefaultGroup_def andThen_def split: option.splits)
qed

section \<open>Results\<close>

lemma check_commands_iff:
  "(\<exists>ds. check_commands cs = Inr ds) \<longleftrightarrow> set cs \<subseteq> insert [] (set knownDiscordCommands)"
  by (induction cs) (auto split: sum.splits)

lemma check_commands_Inr: "check_commands cs = Inr ds \<Longrightarrow> ds = cs"
  by (induction cs arbitrary: ds) (auto split: sum.splits if_splits)

lemma NormalizeDiscordCommands_Inr:
  "NormalizeDiscordCommands cmds = Inr out \<Longrightarrow>
   out = sort (dedup (\<lambda>c. c = []) (map (\<lambda>c. ToLower (TrimSpace c)) cmds))
   \<and> set (map (\<lambda>c. ToLower (TrimSpace c)) cmds) \<subseteq> insert [] (set knownDiscordCommands)"
  unfolding NormalizeDiscordCommands_def
  using check_commands_iff [of "map (\<lambda>c. ToLower (TrimSpace c)) cmds"]
  by (auto split: sum.splits dest: check_commands_Inr)

lemma known_fixed: "c \<in> set knownDiscordCommands \<Longrightarrow> ToLower (TrimSpace c) = c"
  by (auto simp: knownDiscordCommands_def) code_simp+

lemma dedup_id: "distinct xs \<Longrightarrow> \<forall>x \<in> set xs. \<not> bad x \<Longrightarrow> dedup bad xs = xs"
  unfolding dedup_def by (rule dedup_from_id) auto

lemma ListGroupsForUser_InrD:
  assumes "ListGroupsForUser u s = (Inr gs, s')"
  shows "set (map sum_web_role gs) = g_web_role ` {g \<in> set (groups s). in_group s (ID u) (g_id g)}"
    and "gs = [] \<longleftrightarrow> \<not> (\<exists>g \<in> set (groups s). in_group s (ID u) (g_id g))"
    and "\<exists>fs. s' = s\<lparr>faults := fs\<rparr>"
proof -
  from query_InrD [OF assms [unfolded ListGroupsForUser_def]] obtain fs where s': "s' = s\<lparr>faults := fs\<rparr>"
    and gs: "gs = map (\<lambda>g. \<lparr>sum_id = g_id g, sum_name = g_name g, sum_description = g_desc g, sum_web_role = g_web_role g\<rparr>)
       (sort_key g_name (filter (\<lambda>g. in_group s' (ID u) (g_id g)) (groups s')))"
    by auto
  have same: "in_group s' = in_group s"
    by (simp add: s')
  show "set (map sum_web_role gs) = g_web_role ` {g \<in> set (groups s). in_group s (ID u) (g_id g)}"
    by (simp add: gs same image_image) (simp add: s')
  have "set (sort_key g_name (filter (\<lambda>g. in_group s (ID u) (g_id g)) (groups s)))
      = {g \<in> set (groups s). in_group s (ID u) (g_id g)}" by auto
  then show "gs = [] \<longleftrightarrow> \<not> (\<exists>g \<in> set (groups s). in_group s (ID u) (g_id g))"
    unfolding gs same s' by (auto simp flip: set_empty)
  show "\<exists>fs. s' = s\<lparr>faults := fs\<rparr>" using s' by blast
qed

text \<open>
  A user's web role is the strongest one among the user's groups: whenever
  \<open>HighestWebRoleForUser\<close> returns, its result is one of the three role strings and stands for
  the maximum, in the order none, readonly, admin, of the roles of the groups the user belongs to
  directly or through a Discord role.
\<close>

theorem web_role_is_maximum:
  assumes "HighestWebRoleForUser u s = (Inr r, s')"
  shows "r \<in> {[], ''admin'', ''readonly''} \<and>
    abs_role r = Max (insert NoWeb ((\<lambda>g. abs_role (g_web_role g)) ` {g \<in> set (groups s). in_group s (ID u) (g_id g)}))"
proof -
  from assms obtain gs s1 where gs: "ListGroupsForUser u s = (Inr gs, s1)"
    and r: "r = highest_role [] (map sum_web_role gs)"
    by (auto simp: HighestWebRoleForUser_def elim!: andThen_InrE)
  have "abs_role ` set (map sum_web_role gs) = (\<lambda>g. abs_role (g_web_role g)) ` {g \<in> set (groups s). in_group s (ID u) (g_id g)}"
    unfolding ListGroupsForUser_InrD(1) [OF gs] by (simp add: image_image)
  then show ?thesis
    using highest_role_Max [of "[]" "map sum_web_role gs"] by (simp only: r abs_role_Nil) simp
qed

definition seeded_world :: world where
  "seeded_world = sample_world\<lparr>groups := [\<lparr>g_id = 1, g_name = DefaultGroupName, g_desc = defaultGroupDescription,
     g_web_role = [], g_cmds = DefaultGroupDiscordCommands\<rparr>], next_group := 2\<rparr>"

lemma wf_seeded_world: "wf_world seeded_world"
  using wf_sample_world
  by (simp add: seeded_world_def sample_world_def empty_world_def wf_world_def id_sets wf_groups_def
      wf_pairs_def wf_members_def)

lemma group_inv_seeded [simp]: "group_inv seeded_world"
  using wf_seeded_world
  by (simp add: group_inv_def default_locked_def) (simp add: seeded_world_def is_default_def)

theorem web_role_is_maximum_witness:
  "\<exists>s'. HighestWebRoleForUser sample_user (seeded_world\<lparr>members := [user_member 1 1],
      groups := [\<lparr>g_id = 1, g_name = ''Staff'', g_desc = [], g_web_role = ''admin'', g_cmds = []\<rparr>]\<rparr>) = (Inr ''admin'', s')
    \<and> abs_role ''admin'' = Max {NoWeb, AdminRole}"
proof -
  let ?s = "seeded_world\<lparr>members := [user_member 1 1],
      groups := [\<lparr>g_id = 1, g_name = ''Staff'', g_desc = [], g_web_role = ''admin'', g_cmds = []\<rparr>]\<rparr>"
  have adm: "NormalizeWebRole ''admin'' = Inr ''admin''" by code_simp
  have grp: "in_group ?s 1 1"
    by (simp add: in_group_def member_matches_def user_member_def)
  have id1: "ID sample_user = 1" by (simp add: sample_user_def)
  have "HighestWebRoleForUser sample_user ?s = (Inr ''admin'', ?s)"
    using adm grp
    by (simp add: HighestWebRoleForUser_def ListGroupsForUser_def id1)
      (simp add: seeded_world_def sample_world_def empty_world_def andThen_def query_no_faults)
  moreover from web_role_is_maximum [OF this] have "abs_role ''admin'' = Max {NoWeb, AdminRole}"
    using grp by (simp add: id1)
  ultimately show ?thesis by blast
qed

text \<open>
  Normalizing slash commands. The result is sorted, free of duplicates and consists of known
  commands; it holds exactly the non-empty trimmed, lower-cased inputs; normalizing it again
  changes nothing; and there is an error exactly when some non-empty input is not a known command.
\<close>

theorem normalized_commands:
  "case NormalizeDiscordCommands cmds of
     Inr out \<Rightarrow> sorted out \<and> distinct out \<and> set out \<subseteq> set knownDiscordCommands
       \<and> set out = set (map (\<lambda>c. ToLower (TrimSpace c)) cmds) - {[]}
       \<and> NormalizeDiscordCommands out = Inr out
   | Inl _ \<Rightarrow> \<exists>c \<in> set cmds. ToLower (TrimSpace c) \<noteq> [] \<and> ToLower (TrimSpace c) \<notin> set knownDiscordCommands"
proof (cases "NormalizeDiscordCommands cmds")
  case (Inl e)
  then have "\<not> set (map (\<lambda>c. ToLower (TrimSpace c)) cmds) \<subseteq> insert [] (set knownDiscordCommands)"
    using check_commands_iff [of "map (\<lambda>c. ToLower (TrimSpace c)) cmds"]
    by (auto simp: NormalizeDiscordCommands_def split: sum.splits)
  with Inl show ?thesis by auto
next
  case (Inr out)
  let ?in = "map (\<lambda>c. ToLower (TrimSpace c)) cmds"
  from NormalizeDiscordCommands_Inr [OF Inr] have out: "out = sort (dedup (\<lambda>c. c = []) ?in)"
    and sub: "set ?in \<subseteq> insert [] (set knownDiscordCommands)" by auto
  have so: "set out = set ?in - {[]}" unfolding out by auto
  have known: "set out \<subseteq> set knownDiscordCommands" using so sub by auto
  have fixed: "map (\<lambda>c. ToLower (TrimSpace c)) out = out"
    using known known_fixed by (auto intro!: map_idI)
  have chk: "check_commands out = Inr out"
    using check_commands_iff [of out] known check_commands_Inr by blast
  have "dedup (\<lambda>c. c = []) out = out"
    using so unfolding out by (intro dedup_id) auto
  then have "NormalizeDiscordCommands out = Inr out"
    unfolding NormalizeDiscordCommands_def fixed chk by (simp add: out sorted_sort_id)
  then show ?thesis
    using Inr so known by (simp add: out)
qed

theorem normalized_commands_witness:
  "NormalizeDiscordCommands ['' WhoAmI '', ''sso'', ''SSO''] = Inr [''sso'', ''whoami'']
   \<and> sorted [''sso'', ''whoami'']"
proof -
  have "NormalizeDiscordCommands ['' WhoAmI '', ''sso'', ''SSO''] = Inr [''sso'', ''whoami'']"
    by code_simp
  with normalized_commands [of "['' WhoAmI '', ''sso'', ''SSO'']"] show ?thesis by simp
qed

lemma exec_insert_once_InrD:
  assumes "exec_insert_once get upd conflict viol row s = (Inr (), s')"
  obtains fs where "s' = s\<lparr>faults := fs\<rparr> \<and> conflict (s\<lparr>faults := fs\<rparr>)
    \<or> s' = upd (\<lambda>_. get (s\<lparr>faults := fs\<rparr>) @ [row]) (s\<lparr>faults := fs\<rparr>)"
  using assms unfolding exec_insert_once_def
  by (elim stmt_InrD) (auto split: if_splits option.splits)

lemma AddGroupUser_InrD:
  assumes "AddGroupUser gid uid s = (Inr (), s')"
  shows "has_user_member gid uid s'" and "groups s' = groups s" and "users s' = users s"
    and "set (members s') \<subseteq> insert (user_member gid uid) (set (members s))"
proof -
  obtain fs where "s' = s\<lparr>faults := fs\<rparr> \<and> has_user_member gid uid (s\<lparr>faults := fs\<rparr>)
      \<or> s' = s\<lparr>faults := fs, members := members s @ [user_member gid uid]\<rparr>"
    by (rule exec_insert_once_InrD [OF assms [unfolded AddGroupUser_def]]) simp
  then show "has_user_member gid uid s'" and "groups s' = groups s" and "users s' = users s"
      and "set (members s') \<subseteq> insert (user_member gid uid) (set (members s))"
    by (auto simp: has_user_member_def user_member_def)
qed

lemma EnsureDefaultGroup_InrD:
  assumes inv: "group_inv s" and ok: "EnsureDefaultGroup s = (Inr gid, s')"
  shows "\<exists>d. filter is_default (groups s') = [d] \<and> g_id d = gid" and "users s' = users s" and "members s' = members s"
    and "\<And>g. g \<in> set (groups s') \<Longrightarrow> \<exists>h \<in> set (groups s). g_id h = g_id g"
proof -
  have frames: "frame users EnsureDefaultGroup" "frame members EnsureDefaultGroup"
    unfolding EnsureDefaultGroup_def FindGroupIDByName_def CreateGroup_def syncDefaultGroupBasePerms_def
      insert_group_def update_group_def Let_def
    by (intro frame_rules frame_stmt unseen_tables; simp add: frame_def split: option.splits)+
  show "users s' = users s" "members s' = members s"
    using frame_result [OF frames(1) ok] frame_result [OF frames(2) ok] .
  obtain r s1 where f: "FindGroupIDByName DefaultGroupName s = (r, s1)"
    by (cases "FindGroupIDByName DefaultGroupName s") auto
  have g1: "groups s1 = groups s"
    using frame_result [OF frame_FindGroupIDByName f] .
  have "r \<noteq> Inr None"
    using FindGroupIDByName_None [of DefaultGroupName s s1] f default_found [of s] inv
    by (auto simp: group_inv_def)
  then have r: "r = Inr (Some gid)" and sync: "syncDefaultGroupBasePerms gid s1 = (Inr (), s')"
    using ok f by (auto simp: EnsureDefaultGroup_def andThen_def split: sum.splits prod.splits option.splits)
  let ?f = "\<lambda>g. g\<lparr>g_name := DefaultGroupName, g_web_role := [], g_cmds := DefaultGroupDiscordCommands,
      g_desc := (if blank (g_desc g) then defaultGroupDescription else g_desc g)\<rparr>"
  from sync have gs: "groups s' = map (\<lambda>g. if g_id g = gid then ?f g else g) (groups s1)"
    by (auto simp: syncDefaultGroupBasePerms_def andThen_def update_group_def stmt_def
        split: prod.splits sum.splits list.splits option.splits if_splits)
  then show "\<And>g. g \<in> set (groups s') \<Longrightarrow> \<exists>h \<in> set (groups s). g_id h = g_id g"
    using g1 by (auto split: if_splits)
  from FindGroupIDByName_Some [OF f [unfolded r]] obtain d where d: "d \<in> set (groups s)" "g_id d = gid"
    by auto
  have "?f d \<in> set (groups s')"
    unfolding gs g1 set_map using d by (intro image_eqI [of _ _ d]) simp_all
  moreover have "is_default (?f d)"
    by (simp add: is_default_def)
  moreover have "group_inv s'"
    using keeps_result [OF EnsureDefaultGroup_inv inv ok] .
  then obtain x where x: "filter is_default (groups s') = [x]"
    by (auto simp: group_inv_def default_locked_def)
  ultimately have "?f d = x"
    using filter_singleD [OF x] by blast
  then have "g_id x = gid" using d(2) by auto
  then show "\<exists>d. filter is_default (groups s') = [d] \<and> g_id d = gid"
    using x by blast
qed

text \<open>
  Nobody is left without a group, and falling into Default grants no web access. In a world
  that satisfies the constraints and has its Default group, a successful
  \<open>EnsureUserInDefaultGroupIfNone\<close> leaves the user in at least one group; a user who had none is
  then in Default and in no other group, so the user's web role is empty and the user may run
  the two slash commands.
\<close>

theorem groupless_user_joins_default:
  assumes "group_inv s" and "0 < ID u" and "EnsureUserInDefaultGroupIfNone u s = (Inr (), s')"
  shows "(\<exists>g \<in> set (groups s'). in_group s' (ID u) (g_id g))
    \<and> ((\<forall>g \<in> set (groups s). \<not> in_group s (ID u) (g_id g)) \<longrightarrow>
         (\<forall>g \<in> set (groups s'). in_group s' (ID u) (g_id g) \<longrightarrow> is_default g)
         \<and> (\<forall>r s''. HighestWebRoleForUser u s' = (Inr r, s'') \<longrightarrow> r = []))"
proof -
  from assms(2,3) obtain gs s1 where l: "ListGroupsForUser u s = (Inr gs, s1)"
    and rest: "(if gs \<noteq> [] then ret () else andThen EnsureDefaultGroup (\<lambda>gid. AddGroupUser gid (ID u))) s1 = (Inr (), s')"
    by (auto simp: EnsureUserInDefaultGroupIfNone_def elim!: andThen_InrE)
  from ListGroupsForUser_InrD(3) [OF l] obtain fs where s1: "s1 = s\<lparr>faults := fs\<rparr>" by blast
  note nogroup = ListGroupsForUser_InrD(2) [OF l]
  show ?thesis
  proof (cases "gs = []")
    case False
    then have "s' = s1" using rest by simp
    with False nogroup show ?thesis by (auto simp: s1)
  next
    case True
    then obtain gid s2 where e: "EnsureDefaultGroup s1 = (Inr gid, s2)" and a: "AddGroupUser gid (ID u) s2 = (Inr (), s')"
      using rest by (auto elim!: andThen_InrE)
    have inv1: "group_inv s1" using assms(1) by (simp add: s1)
    have inv': "group_inv s'"
      using keeps_result [OF EnsureDefaultGroup_inv inv1 e] keeps_result [OF keeps_AddGroupUser _ a]
        AddGroupUser_InrD(2) [OF a] by (auto simp: group_inv_def default_locked_def)
    from EnsureDefaultGroup_InrD(1) [OF inv1 e] obtain d where d: "filter is_default (groups s2) = [d]" "g_id d = gid"
      by blast
    have gs': "groups s' = groups s2" using AddGroupUser_InrD(2) [OF a] .
    have d': "d \<in> set (groups s')" "is_default d"
      using filter_ConsD [OF d(1)] gs' by auto
    have mem: "in_group s' (ID u) gid"
      using AddGroupUser_InrD(1) [OF a] by (auto simp: has_user_member_def in_group_def member_matches_def)
    have only: "is_default g" if g: "g \<in> set (groups s')" "in_group s' (ID u) (g_id g)" for g
    proof -
      from g(2) obtain m where m: "m \<in> set (members s')" "m_group m = g_id g" "member_matches s' (ID u) m"
        by (auto simp: in_group_def)
      have hr: "holds_role s' = holds_role s"
        using AddGroupUser_InrD(3) [OF a] EnsureDefaultGroup_InrD(2) [OF inv1 e] by (simp add: holds_role_def fun_eq_iff s1)
      obtain h where h: "h \<in> set (groups s)" "g_id h = g_id g"
        using EnsureDefaultGroup_InrD(4) [OF inv1 e] g(1) gs' by (auto simp: s1)
      have "member_matches s' = member_matches s"
        using hr by (simp add: member_matches_def fun_eq_iff split: option.splits)
      then have "m \<notin> set (members s)"
        using m h True nogroup by (auto simp: in_group_def)
      then have "m = user_member gid (ID u)"
        using m(1) AddGroupUser_InrD(4) [OF a] EnsureDefaultGroup_InrD(3) [OF inv1 e] by (auto simp: s1)
      then have "g_id g = g_id d" using m(2) d(2) by (simp add: user_member_def)
      then have "g = d"
        using inv' g(1) d'(1) unique_key_eq [of g_id "groups s'" g d]
        by (simp add: group_inv_def wf_world_def wf_groups_def)
      then show ?thesis using d'(2) by simp
    qed
    have "r = []" if "HighestWebRoleForUser u s' = (Inr r, s'')" for r s''
    proof -
      obtain x where x: "filter is_default (groups s') = [x]" "g_web_role x = []"
        using inv' by (auto simp: group_inv_def default_locked_def)
      have "g_web_role g = []" if "g \<in> set (groups s')" "in_group s' (ID u) (g_id g)" for g
        using filter_singleD [OF x(1) that(1) only [OF that]] x(2) by simp
      moreover from that obtain gs2 s3 where l2: "ListGroupsForUser u s' = (Inr gs2, s3)"
        and r: "r = highest_role [] (map sum_web_role gs2)"
        by (auto simp: HighestWebRoleForUser_def elim!: andThen_InrE)
      ultimately have "set (map sum_web_role gs2) \<subseteq> {[]}"
        unfolding ListGroupsForUser_InrD(1) [OF l2] by auto
      then show ?thesis
        unfolding r by (induction gs2) auto
    qed
    with only mem d' d(2) show ?thesis by blast
  qed
qed

theorem groupless_user_joins_default_witness:
  "\<exists>s'. EnsureUserInDefaultGroupIfNone sample_user seeded_world = (Inr (), s')
     \<and> (\<exists>g \<in> set (groups s'). in_group s' 1 (g_id g))"
proof -
  have "fst (EnsureUserInDefaultGroupIfNone sample_user seeded_world) = Inr ()"
    by code_simp
  then obtain s' where run: "EnsureUserInDefaultGroupIfNone sample_user seeded_world = (Inr (), s')"
    by (metis prod.collapse)
  have id1: "ID sample_user = 1" by (simp add: sample_user_def)
  then have "0 < ID sample_user" by simp
  from groupless_user_joins_default [OF group_inv_seeded this run] run show ?thesis
    unfolding id1 by blast
qed

text \<open>
  C20: replacing a group's members is all or nothing. On success the rows of the group are exactly
  the distinct positive user ids and the distinct non-empty trimmed roles that were given, and
  every other row is as before; on any error, whichever statement fails, no table has changed.
\<close>

theorem group_membership_replaced_atomically:
  "case ReplaceGroupMembership gid us rs s of
     (Inr _, s') \<Rightarrow> members s' = filter (\<lambda>m. m_group m \<noteq> gid) (members s)
         @ map (user_member gid) (dedup (\<lambda>uid. uid \<le> 0) us)
         @ map (role_member gid) (dedup (\<lambda>r. r = []) (map TrimSpace rs))
   | (Inl _, s') \<Rightarrow> s' = s\<lparr>faults := faults s'\<rparr>"
proof (cases "ReplaceGroupMembership gid us rs s")
  case (Pair r s')
  show ?thesis
  proof (cases r)
    case (Inl e)
    with Pair show ?thesis
      by (auto simp: ReplaceGroupMembership_def elim!: in_tx_InlD)
  next
    case (Inr x)
    from Pair Inr obtain f1 f2 s1 s2 s3 n where
      d: "exec_delete members members_update (\<lambda>m. m_group m = gid) (s\<lparr>faults := f1\<rparr>) = (Inr n, s1)"
      and iu: "for_each (\<lambda>uid. exec_insert members members_update
           (strict ''group_members_user_uniq'' (has_user_member gid uid) (member_fk gid (Some uid)))
           (\<lambda>_. user_member gid uid)) (dedup (\<lambda>uid. uid \<le> 0) us) s1 = (Inr (), s2)"
      and ir: "for_each (\<lambda>rid. exec_insert members members_update
           (strict ''group_members_role_uniq'' (has_role_member gid rid) (member_fk gid None))
           (\<lambda>_. role_member gid rid)) (dedup (\<lambda>r. r = []) (map TrimSpace rs)) s2 = (Inr (), s3)"
      and s': "s' = s3\<lparr>faults := f2\<rparr>"
      unfolding ReplaceGroupMembership_def by (auto elim!: in_tx_InrD andThen_InrE)
    have "members s1 = filter (\<lambda>m. m_group m \<noteq> gid) (members s)"
      by (rule exec_delete_InrD [OF d]) simp
    moreover have "members s2 = members s1 @ map (user_member gid) (dedup (\<lambda>uid. uid \<le> 0) us)"
      by (rule for_each_inserts [OF _ _ iu]) simp_all
    moreover have "members s3 = members s2 @ map (role_member gid) (dedup (\<lambda>r. r = []) (map TrimSpace rs))"
      by (rule for_each_inserts [OF _ _ ir]) simp_all
    ultimately show ?thesis
      using Pair Inr s' by simp
  qed
qed

text \<open>
  While the Default group is in place, a slash command is never open to everybody: the check
  answers yes exactly for members of a group that grants the command (the fallback for commands
  no group lists does not apply), and it answers at all only for known commands.
\<close>

theorem commands_need_a_granting_group:
  assumes "group_inv s" and "UserCanUseDiscordCommand u c s = (Inr b, s')"
  shows "ToLower (TrimSpace c) \<in> set knownDiscordCommands
    \<and> (b \<longleftrightarrow> (\<exists>g \<in> set (groups s). ToLower (TrimSpace c) \<in> set (g_cmds g) \<and> in_group s (ID u) (g_id g)))"
proof -
  let ?k = "ToLower (TrimSpace c)"
  from assms(2) obtain r s1 where q1: "IsDiscordCommandRestricted c s = (Inr r, s1)"
    and q2: "(if \<not> r then ret True else query (\<lambda>s. \<exists>g \<in> set (groups s). ?k \<in> set (g_cmds g) \<and> in_group s (ID u) (g_id g))) s1 = (Inr b, s')"
    unfolding UserCanUseDiscordCommand_def by (rule andThen_InrE)
  from q1 have k: "?k \<in> set knownDiscordCommands"
    and q: "query (\<lambda>s. \<exists>g \<in> set (groups s). ?k \<in> set (g_cmds g)) s = (Inr r, s1)"
    by (auto simp: IsDiscordCommandRestricted_def Let_def split: if_splits)
  from query_InrD [OF q] obtain fs where s1: "s1 = s\<lparr>faults := fs\<rparr>" and r: "r \<longleftrightarrow> (\<exists>g \<in> set (groups s). ?k \<in> set (g_cmds g))"
    by auto
  obtain d where d: "filter is_default (groups s) = [d]" "g_cmds d = DefaultGroupDiscordCommands"
    using assms(1) by (auto simp: group_inv_def default_locked_def)
  have "?k \<in> set (g_cmds d)"
    using k d(2) by (simp add: knownDiscordCommands_def DefaultGroupDiscordCommands_def)
  with filter_ConsD [OF d(1)] r have r by blast
  with q2 have "query (\<lambda>s. \<exists>g \<in> set (groups s). ?k \<in> set (g_cmds g) \<and> in_group s (ID u) (g_id g)) s1 = (Inr b, s')"
    by simp
  from query_InrD [OF this] k show ?thesis by (auto simp: s1)
qed

theorem commands_need_a_granting_group_witness:
  "fst (UserCanUseDiscordCommand sample_user '' SSO'' seeded_world) = Inr False
   \<and> \<not> (\<exists>g \<in> set (groups seeded_world). ToLower (TrimSpace '' SSO'') \<in> set (g_cmds g) \<and> in_group seeded_world 1 (g_id g))"
proof -
  have run: "fst (UserCanUseDiscordCommand sample_user '' SSO'' seeded_world) = Inr False"
    by code_simp
  then obtain s' where "UserCanUseDiscordCommand sample_user '' SSO'' seeded_world = (Inr False, s')"
    by (metis prod.collapse)
  from commands_need_a_granting_group [OF group_inv_seeded this] run show ?thesis
    by (simp add: sample_user_def)
qed

end
