(* ===== verification/StoreAccounts.thy ===== *)
theory StoreAccounts
  imports StoreGroups
begin

text \<open>
  internal/store/store.go, EQ accounts: the vault (\<open>AddEQAccount\<close>, \<open>SetEQPassword\<close>,
  \<open>decryptCredentials\<close>, \<open>DeleteEQAccount\<close>), the access grants (\<open>Replace...\<close>) and the login names
  (aliases, tags, characters).

  Two interfaces are shared: \<open>unique_names\<close>, the contract of aliases and of characters, and
  \<open>grant_list\<close>, the contract of the three grant tables of an account. The second one is weaker
  than it should be: replacing is not one transaction, so an error leaves a prefix of the new
  list behind.
\<close>

section \<open>The vault\<close>

definition insert_account :: "bytes \<Rightarrow> string \<Rightarrow> bytes \<Rightarrow> bytes option \<Rightarrow> int db" where
  "insert_account uc blind pc nc =
     stmt (\<lambda>s. let i = next_account s; s = s\<lparr>next_account := i + 1\<rparr> in
       if blind \<in> a_username_blind ` set (accounts s)
       then (Inl (UniqueViolation ''eq_accounts_username_blind_key''), s)
       else (Inr i, s\<lparr>accounts := accounts s @ [\<lparr>a_id = i, a_username_cipher = uc, a_username_blind = blind,
          a_password_cipher = pc, a_notes_cipher = nc, a_disabled = False, a_required_role = [],
          a_required_user = None, a_restricted = False, a_owner = None, a_updated_at = clock s\<rparr>]\<rparr>))"

definition AddEQAccount :: "Store \<Rightarrow> string \<Rightarrow> string \<Rightarrow> string \<Rightarrow> int db" where
  "AddEQAccount st username password notes =
     (let norm = ToLower (TrimSpace username); blind = BlindIndex (StoreKey st) norm in
      andThen (SealString (StoreAEAD st) username ''eq_accounts.username'') (\<lambda>uc.
      andThen (SealString (StoreAEAD st) password ''eq_accounts.password'') (\<lambda>pc.
      andThen (if notes \<noteq> [] then andThen (SealString (StoreAEAD st) notes ''eq_accounts.notes'') (\<lambda>c. ret (Some c))
               else ret None) (\<lambda>nc.
      insert_account uc blind pc nc))))"

definition FindEQAccountIDByUsername :: "Store \<Rightarrow> string \<Rightarrow> int option db" where
  "FindEQAccountIDByUsername st username =
     (let norm = ToLower (TrimSpace username) in
      if norm = [] then ret None
      else attempt (query_row (\<lambda>s. map a_id (filter (\<lambda>a. a_username_blind a = BlindIndex (StoreKey st) norm) (accounts s))))
        (\<lambda>r. case r of Inr i \<Rightarrow> ret (Some i) | Inl e \<Rightarrow> if e = NoRows then ret None else fail e))"

text \<open>
  \<open>UPDATE eq_accounts SET ... , updated_at=now() WHERE id=$1\<close>; \<open>refs\<close> is the user a changed
  reference points to, if any.
\<close>

definition update_account :: "int \<Rightarrow> string \<Rightarrow> int option \<Rightarrow> (account_row \<Rightarrow> account_row) \<Rightarrow> nat db" where
  "update_account aid con refs f =
     stmt (\<lambda>s. if aid \<in> account_ids s \<and> \<not> set_option refs \<subseteq> user_ids s
       then (Inl (ForeignKeyViolation ''eq_accounts'' con), s)
       else (Inr (length (filter (\<lambda>a. a_id a = aid) (accounts s))),
         s\<lparr>accounts := map (\<lambda>a. if a_id a = aid then (f a)\<lparr>a_updated_at := clock s\<rparr> else a) (accounts s)\<rparr>))"

definition SetEQPassword :: "Store \<Rightarrow> int \<Rightarrow> string \<Rightarrow> unit db" where
  "SetEQPassword st accountID password =
     andThen (SealString (StoreAEAD st) password ''eq_accounts.password'') (\<lambda>pc.
     andThen (update_account accountID [] None (\<lambda>a. a\<lparr>a_password_cipher := pc\<rparr>)) (\<lambda>_. ret ()))"

definition SetEQDisabled :: "int \<Rightarrow> bool \<Rightarrow> unit db" where
  "SetEQDisabled accountID disabled =
     andThen (update_account accountID [] None (\<lambda>a. a\<lparr>a_disabled := disabled\<rparr>)) (\<lambda>_. ret ())"

definition decryptCredentials :: "Store \<Rightarrow> int \<Rightarrow> bool \<Rightarrow> (string \<times> string) db" where
  "decryptCredentials st accountID includeDisabled =
     andThen (query_row (\<lambda>s. map (\<lambda>a. (a_username_cipher a, a_password_cipher a))
        (filter (\<lambda>a. a_id a = accountID \<and> (includeDisabled \<or> \<not> a_disabled a)) (accounts s)))) (\<lambda>(uc, pc).
     case OpenString (StoreAEAD st) uc ''eq_accounts.username'' of Inl e \<Rightarrow> fail e | Inr username \<Rightarrow>
     (case OpenString (StoreAEAD st) pc ''eq_accounts.password'' of Inl e \<Rightarrow> fail e | Inr password \<Rightarrow>
      ret (username, password)))"

definition DecryptCredentials :: "Store \<Rightarrow> int \<Rightarrow> (string \<times> string) db" where
  "DecryptCredentials st accountID = decryptCredentials st accountID False"

definition DecryptCredentialsAny :: "Store \<Rightarrow> int \<Rightarrow> (string \<times> string) db" where
  "DecryptCredentialsAny st accountID = decryptCredentials st accountID True"

text \<open>\<open>DELETE FROM eq_accounts WHERE id = $1\<close>, cascading to everything that hangs on the account.\<close>

definition delete_account :: "int \<Rightarrow> nat db" where
  "delete_account aid =
     stmt (\<lambda>s. (Inr (length (filter (\<lambda>a. a_id a = aid) (accounts s))),
       s\<lparr>accounts := filter (\<lambda>a. a_id a \<noteq> aid) (accounts s), links := filter (\<lambda>l. snd l \<noteq> aid) (links s),
         aliases := filter (\<lambda>n. n_account n \<noteq> aid) (aliases s),
         characters := filter (\<lambda>n. n_account n \<noteq> aid) (characters s),
         tags := filter (\<lambda>n. n_account n \<noteq> aid) (tags s), acc_roles := filter (\<lambda>r. fst r \<noteq> aid) (acc_roles s),
         acc_users := filter (\<lambda>r. fst r \<noteq> aid) (acc_users s), shares := filter (\<lambda>r. fst r \<noteq> aid) (shares s)\<rparr>))"

definition DeleteEQAccount :: "int \<Rightarrow> unit db" where
  "DeleteEQAccount accountID =
     andThen (delete_account accountID) (\<lambda>n. if n = 0 then fail (Err ''account not found'') else ret ())"

section \<open>Access grants\<close>

definition account_fk :: "string \<Rightarrow> int \<Rightarrow> world \<Rightarrow> error option" where
  "account_fk table aid s = violates_fk table (table @ ''_eq_account_id_fkey'') (aid \<in> account_ids s)"

definition account_user_fk :: "string \<Rightarrow> int \<Rightarrow> int \<Rightarrow> world \<Rightarrow> error option" where
  "account_user_fk table aid uid s = first_violation
     [account_fk table aid s, violates_fk table (table @ ''_user_id_fkey'') (uid \<in> user_ids s)]"

definition ReplaceAccountRoles :: "int \<Rightarrow> string list \<Rightarrow> unit db" where
  "ReplaceAccountRoles accountID roleIDs =
     (let rids = dedup (\<lambda>r. r = []) (map TrimSpace roleIDs) in
      andThen (exec_delete acc_roles acc_roles_update (\<lambda>r. fst r = accountID)) (\<lambda>_.
      andThen (for_each (\<lambda>rid. exec_insert_once acc_roles acc_roles_update
          (\<lambda>s. (accountID, rid) \<in> set (acc_roles s)) (account_fk ''account_access_roles'' accountID) (accountID, rid)) rids) (\<lambda>_.
      andThen (update_account accountID [] None
          (\<lambda>a. a\<lparr>a_required_role := (case rids of [] \<Rightarrow> [] | r # _ \<Rightarrow> r)\<rparr>)) (\<lambda>_. ret ()))))"

definition ReplaceAccountUsers :: "int \<Rightarrow> int list \<Rightarrow> unit db" where
  "ReplaceAccountUsers accountID userIDs =
     (let uids = dedup (\<lambda>u. u \<le> 0) userIDs; first = (case uids of [] \<Rightarrow> None | u # _ \<Rightarrow> Some u) in
      andThen (exec_delete acc_users acc_users_update (\<lambda>r. fst r = accountID)) (\<lambda>_.
      andThen (for_each (\<lambda>uid. exec_insert_once acc_users acc_users_update
          (\<lambda>s. (accountID, uid) \<in> set (acc_users s)) (account_user_fk ''account_access_users'' accountID uid) (accountID, uid)) uids) (\<lambda>_.
      andThen (update_account accountID ''eq_accounts_required_user_id_fkey'' first
          (\<lambda>a. a\<lparr>a_required_user := first\<rparr>)) (\<lambda>_. ret ()))))"

definition ReplaceAccountGroups :: "int \<Rightarrow> int list \<Rightarrow> unit db" where
  "ReplaceAccountGroups accountID groupIDs =
     andThen (exec_delete links links_update (\<lambda>l. snd l = accountID)) (\<lambda>_.
     for_each (\<lambda>gid. exec_insert_once links links_update
         (\<lambda>s. (gid, accountID) \<in> set (links s)) (link_fk gid accountID) (gid, accountID)) (dedup (\<lambda>g. g \<le> 0) groupIDs))"

definition SetEQRequiredRole :: "int \<Rightarrow> string \<Rightarrow> unit db" where
  "SetEQRequiredRole accountID roleID =
     (let roleID = TrimSpace roleID in
      if roleID = [] then ReplaceAccountRoles accountID [] else ReplaceAccountRoles accountID [roleID])"

definition SetEQRequiredUser :: "int \<Rightarrow> int \<Rightarrow> unit db" where
  "SetEQRequiredUser accountID userID =
     (if userID \<le> 0 then ReplaceAccountUsers accountID [] else ReplaceAccountUsers accountID [userID])"

definition SetAccountAccess :: "int \<Rightarrow> string list \<Rightarrow> int list \<Rightarrow> int list \<Rightarrow> unit db" where
  "SetAccountAccess accountID roleIDs userIDs groupIDs =
     andThen (ReplaceAccountRoles accountID roleIDs) (\<lambda>_.
     andThen (ReplaceAccountUsers accountID userIDs) (\<lambda>_.
     ReplaceAccountGroups accountID groupIDs))"

section \<open>Login names\<close>

definition same_name :: "string \<Rightarrow> name_row \<Rightarrow> bool" where
  "same_name n r = (ToLower (n_name r) = ToLower n)"

definition AddAlias :: "string \<Rightarrow> int \<Rightarrow> unit db" where
  "AddAlias name accountID =
     (let name = TrimSpace name in
      if name = [] then fail (Err ''alias required'') else
      attempt (query_row (\<lambda>s. map n_account (filter (same_name name) (aliases s)))) (\<lambda>r. case r of
        Inr existing \<Rightarrow> if existing = accountID then ret () else fail (Err ''alias already used by another account'')
      | Inl e \<Rightarrow> if e \<noteq> NoRows then fail e else
          exec_insert aliases aliases_update
            (strict ''aliases_alias_lower_uniq'' (\<lambda>s. \<exists>n \<in> set (aliases s). same_name name n) (account_fk ''aliases'' accountID))
            (\<lambda>_. \<lparr>n_name = name, n_account = accountID\<rparr>)))"

definition RemoveAlias :: "string \<Rightarrow> int \<Rightarrow> unit db" where
  "RemoveAlias name accountID =
     (let name = TrimSpace name in
      if name = [] then fail (Err ''alias required'') else
      andThen (exec_delete aliases aliases_update (\<lambda>n. n_account n = accountID \<and> same_name name n)) (\<lambda>n.
        if n = 0 then fail (Err ''alias not found on account'') else ret ()))"

definition AddTag :: "string \<Rightarrow> int \<Rightarrow> unit db" where
  "AddTag name accountID =
     (let name = TrimSpace name in
      if name = [] then fail (Err ''tag required'') else
      andThen (query (\<lambda>s. length (filter (\<lambda>n. same_name name n \<and> n_account n = accountID) (tags s)))) (\<lambda>n.
      if n > 0 then ret () else
      exec_insert tags tags_update
        (strict ''account_tags_tag_account_uniq'' (\<lambda>s. \<exists>n \<in> set (tags s). same_name name n \<and> n_account n = accountID)
          (account_fk ''account_tags'' accountID))
        (\<lambda>_. \<lparr>n_name = name, n_account = accountID\<rparr>)))"

definition RemoveTag :: "string \<Rightarrow> int \<Rightarrow> unit db" where
  "RemoveTag name accountID =
     (let name = TrimSpace name in
      if name = [] then fail (Err ''tag required'') else
      andThen (exec_delete tags tags_update (\<lambda>n. n_account n = accountID \<and> same_name name n)) (\<lambda>n.
        if n = 0 then fail (Err ''tag not found on account'') else ret ()))"

definition AddCharacter :: "string \<Rightarrow> int \<Rightarrow> unit db" where
  "AddCharacter name accountID =
     (let name = TrimSpace name in
      if name = [] then fail (Err ''character name required'') else
      attempt (query_row (\<lambda>s. map n_account (filter (same_name name) (characters s)))) (\<lambda>r. case r of
        Inr existing \<Rightarrow> if existing = accountID then ret () else fail (Err ''character already used by another account'')
      | Inl e \<Rightarrow> if e \<noteq> NoRows then fail e else
          exec_insert characters characters_update
            (strict ''characters_name_lower'' (\<lambda>s. \<exists>n \<in> set (characters s). same_name name n) (account_fk ''characters'' accountID))
            (\<lambda>_. \<lparr>n_name = name, n_account = accountID\<rparr>)))"

definition RemoveCharacter :: "string \<Rightarrow> int \<Rightarrow> unit db" where
  "RemoveCharacter name accountID =
     (let name = TrimSpace name in
      if name = [] then fail (Err ''character name required'') else
      andThen (exec_delete characters characters_update (\<lambda>n. n_account n = accountID \<and> same_name name n)) (\<lambda>n.
        if n = 0 then fail (Err ''character not found on account'') else ret ()))"

definition AccountIDByCharacter :: "string \<Rightarrow> int db" where
  "AccountIDByCharacter name = query_row (\<lambda>s. map n_account (filter (same_name name) (characters s)))"

section \<open>The schema's constraints are kept\<close>

lemma wf_world_account_rows:
  assumes "wf_world s" and "wf_accounts as (next_account s) (user_ids s)" and "a_id ` set as = account_ids s"
  shows "wf_world (s\<lparr>accounts := as\<rparr>)"
  using assms by (simp add: wf_world_def id_sets)

lemma keeps_insert_account [keeps_rules]: "keeps wf_world (insert_account uc b pc nc)"
  unfolding insert_account_def
proof (rule keeps_stmt [OF quiet_wf_world], rule keepsI)
  fix s assume wf: "wf_world s"
  then have wf': "wf_world (s\<lparr>next_account := next_account s + 1\<rparr>)"
    by (fastforce simp: wf_world_def wf_accounts_def id_sets)
  let ?a = "\<lparr>a_id = next_account s, a_username_cipher = uc, a_username_blind = b,
          a_password_cipher = pc, a_notes_cipher = nc, a_disabled = False, a_required_role = [],
          a_required_user = None, a_restricted = False, a_owner = None, a_updated_at = clock s\<rparr>"
  have "wf_world (s\<lparr>next_account := next_account s + 1, accounts := accounts s @ [?a]\<rparr>)"
    if "b \<notin> a_username_blind ` set (accounts s)"
  proof -
    have "wf_accounts (accounts s @ [?a]) (next_account s + 1) (user_ids s)"
      using wf that by (fastforce simp: wf_world_def wf_accounts_def)
    moreover have "a_id ` set (accounts s) \<subseteq> insert (next_account s) (a_id ` set (accounts s))"
      by auto
    ultimately show ?thesis
      using wf by (auto simp: wf_world_def id_sets elim: wf_pairs_mono wf_names_mono wf_tags_mono)
  qed
  with wf' show "wf_world (snd (let i = next_account s; s = s\<lparr>next_account := i + 1\<rparr> in
       if b \<in> a_username_blind ` set (accounts s)
       then (Inl (UniqueViolation ''eq_accounts_username_blind_key''), s)
       else (Inr i, s\<lparr>accounts := accounts s @ [\<lparr>a_id = i, a_username_cipher = uc, a_username_blind = b,
          a_password_cipher = pc, a_notes_cipher = nc, a_disabled = False, a_required_role = [],
          a_required_user = None, a_restricted = False, a_owner = None, a_updated_at = clock s\<rparr>]\<rparr>)))"
    by (simp add: Let_def)
qed

lemma keeps_update_account [keeps_rules]:
  assumes key: "\<And>a. a_id (f a) = a_id a" "\<And>a. a_username_blind (f a) = a_username_blind a"
    and refs: "\<And>a. set_option (a_owner (f a)) \<subseteq> set_option (a_owner a) \<union> set_option refs"
      "\<And>a. set_option (a_required_user (f a)) \<subseteq> set_option (a_required_user a) \<union> set_option refs"
  shows "keeps wf_world (update_account aid con refs f)"
  unfolding update_account_def
proof (rule keeps_stmt [OF quiet_wf_world], rule keepsI)
  fix s assume wf: "wf_world s"
  let ?f = "\<lambda>a. (f a)\<lparr>a_updated_at := clock s\<rparr>"
  let ?as = "map (\<lambda>a. if a_id a = aid then ?f a else a) (accounts s)"
  have ids: "a_id ` set ?as = account_ids s"
    using image_update_key [of a_id ?f] key by (simp add: account_ids_def del: list.set_map)
  have "wf_accounts ?as (next_account s) (user_ids s)" if "aid \<in> account_ids s \<longrightarrow> set_option refs \<subseteq> user_ids s"
  proof -
    have rows: "0 < a_id a \<and> a_id a < next_account s \<and> set_option (a_owner a) \<subseteq> user_ids s
        \<and> set_option (a_required_user a) \<subseteq> user_ids s" if "a \<in> set (accounts s)" for a
      using wf that by (auto simp: wf_world_def wf_accounts_def)
    have "0 < a_id a \<and> a_id a < next_account s \<and> set_option (a_owner a) \<subseteq> user_ids s
        \<and> set_option (a_required_user a) \<subseteq> user_ids s" if a: "a \<in> set ?as" for a
    proof -
      from a obtain b where b: "b \<in> set (accounts s)" "a = (if a_id b = aid then ?f b else b)"
        by (auto simp del: if_image_distrib)
      show ?thesis
      proof (cases "a_id b = aid")
        case True
        then have "set_option refs \<subseteq> user_ids s"
          using \<open>aid \<in> account_ids s \<longrightarrow> _\<close> b(1) by (auto simp: account_ids_def)
        with True rows [OF b(1)] refs [of b] key(1) [of b] show ?thesis
          unfolding b(2) by auto
      qed (use rows [OF b(1)] b(2) in simp)
    qed
    with wf key show ?thesis
      by (simp add: wf_world_def wf_accounts_def update_key_comp del: set_map)
  qed
  then show "wf_world (snd (if aid \<in> account_ids s \<and> \<not> set_option refs \<subseteq> user_ids s
       then (Inl (ForeignKeyViolation ''eq_accounts'' con), s)
       else (Inr (length (filter (\<lambda>a. a_id a = aid) (accounts s))), s\<lparr>accounts := ?as\<rparr>)))"
    using wf wf_world_account_rows [OF wf _ ids] by (simp del: set_map)
qed

lemma keeps_delete_account [keeps_rules]: "keeps wf_world (delete_account aid)"
  unfolding delete_account_def
proof (rule keeps_stmt [OF quiet_wf_world], rule keepsI)
  fix s assume wf: "wf_world s"
  let ?as = "filter (\<lambda>a. a_id a \<noteq> aid) (accounts s)"
  let ?A = "a_id ` set ?as"
  have mem: "x \<in> account_ids s \<Longrightarrow> x \<noteq> aid \<Longrightarrow> x \<in> ?A" for x
    by (auto simp: account_ids_def)
  have "wf_accounts ?as (next_account s) (user_ids s)"
    using wf by (auto simp: wf_world_def wf_accounts_def distinct_map_filterI)
  moreover have "wf_pairs (filter (\<lambda>l. snd l \<noteq> aid) (links s)) (group_ids s) ?A"
    by (rule wf_pairs_filter_into [where A = "group_ids s" and B = "account_ids s"])
      (use wf mem in \<open>auto simp: wf_world_def wf_pairs_def\<close>)
  moreover have "wf_names (filter (\<lambda>n. n_account n \<noteq> aid) (aliases s)) ?A" "wf_names (filter (\<lambda>n. n_account n \<noteq> aid) (characters s)) ?A"
    by (rule wf_names_filter_into [where A = "account_ids s"];
        use wf mem in \<open>auto simp: wf_world_def wf_names_def\<close>)+
  moreover have "wf_tags (filter (\<lambda>n. n_account n \<noteq> aid) (tags s)) ?A"
    by (rule wf_tags_filter_into [where A = "account_ids s"])
      (use wf mem in \<open>auto simp: wf_world_def wf_tags_def\<close>)
  moreover have "wf_pairs (filter (\<lambda>r. fst r \<noteq> aid) (acc_roles s)) ?A UNIV"
    by (rule wf_pairs_filter_into [where A = "account_ids s" and B = UNIV])
      (use wf mem in \<open>auto simp: wf_world_def wf_pairs_def\<close>)
  moreover have "wf_pairs (filter (\<lambda>r. fst r \<noteq> aid) (acc_users s)) ?A (user_ids s)"
      "wf_pairs (filter (\<lambda>r. fst r \<noteq> aid) (shares s)) ?A (user_ids s)"
    by (rule wf_pairs_filter_into [where A = "account_ids s" and B = "user_ids s"];
        use wf mem in \<open>auto simp: wf_world_def wf_pairs_def\<close>)+
  ultimately show "wf_world (snd (Inr (length (filter (\<lambda>a. a_id a = aid) (accounts s))),
       s\<lparr>accounts := filter (\<lambda>a. a_id a \<noteq> aid) (accounts s), links := filter (\<lambda>l. snd l \<noteq> aid) (links s),
         aliases := filter (\<lambda>n. n_account n \<noteq> aid) (aliases s),
         characters := filter (\<lambda>n. n_account n \<noteq> aid) (characters s),
         tags := filter (\<lambda>n. n_account n \<noteq> aid) (tags s), acc_roles := filter (\<lambda>r. fst r \<noteq> aid) (acc_roles s),
         acc_users := filter (\<lambda>r. fst r \<noteq> aid) (acc_users s), shares := filter (\<lambda>r. fst r \<noteq> aid) (shares s)\<rparr>))"
    using wf by (simp add: wf_world_def id_sets)
qed

lemma keeps_delete_grants [keeps_rules]:
  "keeps wf_world (exec_delete acc_roles acc_roles_update P)"
  "keeps wf_world (exec_delete acc_users acc_users_update Q)"
  "keeps wf_world (exec_delete shares shares_update Q)"
  "keeps wf_world (exec_delete aliases aliases_update R)"
  "keeps wf_world (exec_delete characters characters_update R)"
  "keeps wf_world (exec_delete tags tags_update R)"
  by (rule keeps_exec_delete [OF quiet_wf_world];
      auto simp: wf_world_def id_sets wf_names_def wf_tags_def intro: wf_pairs_filter distinct_map_filterI)+

lemma wf_role_grant:
  "wf_world s \<Longrightarrow> (aid, r) \<notin> set (acc_roles s) \<Longrightarrow> account_fk t aid s = None \<Longrightarrow>
   wf_world (s\<lparr>acc_roles := acc_roles s @ [(aid, r)]\<rparr>)"
  by (auto simp: wf_world_def id_sets account_fk_def intro: wf_pairs_append)

lemma wf_user_grant:
  "wf_world s \<Longrightarrow> (aid, u) \<notin> set (acc_users s) \<Longrightarrow> account_user_fk t aid u s = None \<Longrightarrow>
   wf_world (s\<lparr>acc_users := acc_users s @ [(aid, u)]\<rparr>)"
  by (auto simp: wf_world_def id_sets account_user_fk_def account_fk_def intro: wf_pairs_append)

lemma wf_share:
  "wf_world s \<Longrightarrow> (aid, u) \<notin> set (shares s) \<Longrightarrow> account_user_fk t aid u s = None \<Longrightarrow>
   wf_world (s\<lparr>shares := shares s @ [(aid, u)]\<rparr>)"
  by (auto simp: wf_world_def id_sets account_user_fk_def account_fk_def intro: wf_pairs_append)

lemma wf_alias:
  "wf_world s \<Longrightarrow> \<not> (\<exists>r \<in> set (aliases s). same_name n r) \<Longrightarrow> account_fk t aid s = None \<Longrightarrow>
   wf_world (s\<lparr>aliases := aliases s @ [\<lparr>n_name = n, n_account = aid\<rparr>]\<rparr>)"
  by (auto simp: wf_world_def id_sets account_fk_def wf_names_def same_name_def)

lemma wf_character:
  "wf_world s \<Longrightarrow> \<not> (\<exists>r \<in> set (characters s). same_name n r) \<Longrightarrow> account_fk t aid s = None \<Longrightarrow>
   wf_world (s\<lparr>characters := characters s @ [\<lparr>n_name = n, n_account = aid\<rparr>]\<rparr>)"
  by (auto simp: wf_world_def id_sets account_fk_def wf_names_def same_name_def)

lemma wf_tag:
  "wf_world s \<Longrightarrow> \<not> (\<exists>r \<in> set (tags s). same_name n r \<and> n_account r = aid) \<Longrightarrow> account_fk t aid s = None \<Longrightarrow>
   wf_world (s\<lparr>tags := tags s @ [\<lparr>n_name = n, n_account = aid\<rparr>]\<rparr>)"
  by (auto simp: wf_world_def id_sets account_fk_def wf_tags_def same_name_def)

lemmas account_statement_wf = keeps_exec_insert [OF quiet_wf_world] keeps_exec_insert_once [OF quiet_wf_world]
  wf_role_grant wf_user_grant wf_share wf_alias wf_character wf_tag wf_link

lemma keeps_AddEQAccount: "keeps wf_world (AddEQAccount st u p n)"
  unfolding AddEQAccount_def Let_def by (intro keeps_rules quiet_wf_world)

lemma keeps_FindEQAccountIDByUsername: "quiet I \<Longrightarrow> keeps I (FindEQAccountIDByUsername st u)"
  unfolding FindEQAccountIDByUsername_def Let_def by (intro keeps_rules)

lemma keeps_SetEQPassword: "keeps wf_world (SetEQPassword st a p)"
  unfolding SetEQPassword_def by (intro keeps_rules quiet_wf_world) simp_all

lemma keeps_SetEQDisabled: "keeps wf_world (SetEQDisabled a d)"
  unfolding SetEQDisabled_def by (intro keeps_rules quiet_wf_world) simp_all

lemma keeps_DeleteEQAccount: "keeps wf_world (DeleteEQAccount a)"
  unfolding DeleteEQAccount_def by (intro keeps_rules)

lemma keeps_ReplaceAccountRoles: "keeps wf_world (ReplaceAccountRoles a rs)"
  unfolding ReplaceAccountRoles_def Let_def
  by (intro keeps_rules quiet_wf_world account_statement_wf) simp_all

lemma keeps_ReplaceAccountUsers: "keeps wf_world (ReplaceAccountUsers a us)"
  unfolding ReplaceAccountUsers_def Let_def
  by (intro keeps_rules quiet_wf_world account_statement_wf) simp_all

lemma keeps_ReplaceAccountGroups: "keeps wf_world (ReplaceAccountGroups a gs)"
  unfolding ReplaceAccountGroups_def by (intro keeps_rules quiet_wf_world account_statement_wf)

lemma keeps_SetEQRequiredRole: "keeps wf_world (SetEQRequiredRole a r)"
  unfolding SetEQRequiredRole_def Let_def by (intro keeps_rules keeps_ReplaceAccountRoles)

lemma keeps_SetEQRequiredUser: "keeps wf_world (SetEQRequiredUser a u)"
  unfolding SetEQRequiredUser_def by (intro keeps_rules keeps_ReplaceAccountUsers)

lemma keeps_SetAccountAccess: "keeps wf_world (SetAccountAccess a rs us gs)"
  unfolding SetAccountAccess_def
  by (intro keeps_rules keeps_ReplaceAccountRoles keeps_ReplaceAccountUsers keeps_ReplaceAccountGroups)

lemma keeps_AddAlias: "keeps wf_world (AddAlias n a)"
  unfolding AddAlias_def Let_def by (intro keeps_rules quiet_wf_world account_statement_wf) auto

lemma keeps_AddCharacter: "keeps wf_world (AddCharacter n a)"
  unfolding AddCharacter_def Let_def by (intro keeps_rules quiet_wf_world account_statement_wf) auto

lemma keeps_AddTag: "keeps wf_world (AddTag n a)"
  unfolding AddTag_def Let_def by (intro keeps_rules quiet_wf_world account_statement_wf) auto

lemma keeps_RemoveNames: "keeps wf_world (RemoveAlias n a)" "keeps wf_world (RemoveCharacter n a)" "keeps wf_world (RemoveTag n a)"
  unfolding RemoveAlias_def RemoveCharacter_def RemoveTag_def Let_def by (intro keeps_rules)+

section \<open>The contract of unique login names\<close>

definition name_owner :: "string \<Rightarrow> name_row list \<Rightarrow> int option" where
  "name_owner n rows = map_option n_account (find (same_name n) rows)"

definition names_unique :: "name_row list \<Rightarrow> bool" where
  "names_unique rows = distinct (map (\<lambda>r. ToLower (n_name r)) rows)"

lemma find_append_Some: "find P xs = Some x \<Longrightarrow> find P (xs @ ys) = Some x"
  by (induction xs) (auto split: if_splits)

lemma name_owner_unique:
  assumes "names_unique rows" and "r \<in> set rows" and "same_name n r"
  shows "name_owner n rows = Some (n_account r)"
proof -
  obtain x where x: "find (same_name n) rows = Some x"
    using assms(2,3) by (cases "find (same_name n) rows") (auto simp: find_None_iff)
  then have "x \<in> set rows" "same_name n x"
    by (auto simp: find_Some_iff)
  then have "x = r"
    using assms unique_key_eq [of "\<lambda>r. ToLower (n_name r)" rows x r]
    by (simp add: names_unique_def same_name_def)
  with x show ?thesis by (simp add: name_owner_def)
qed

text \<open>
  \<open>rows\<close> is the table, \<open>add\<close> and \<open>remove\<close> its two operations. An add that succeeds leaves the
  name with the account that asked for it; it never touches a row that is there. A remove takes
  away at most the rows of its own account.
\<close>

locale unique_names =
  fixes rows :: "world \<Rightarrow> name_row list"
    and add :: "string \<Rightarrow> int \<Rightarrow> unit db"
    and remove :: "string \<Rightarrow> int \<Rightarrow> unit db"
  assumes add_rows: "rows (snd (add n a s)) = rows s \<or>
      rows (snd (add n a s)) = rows s @ [\<lparr>n_name = TrimSpace n, n_account = a\<rparr>]
        \<and> \<not> (\<exists>r \<in> set (rows s). same_name (TrimSpace n) r)"
    and add_ok: "fst (add n a s) = Inr () \<Longrightarrow>
      \<exists>r \<in> set (rows (snd (add n a s))). same_name (TrimSpace n) r \<and> n_account r = a"
    and remove_rows: "\<exists>P. rows (snd (remove n a s)) = filter (\<lambda>r. \<not> (P r \<and> n_account r = a)) (rows s)"
begin

lemma unique_add: "names_unique (rows s) \<Longrightarrow> names_unique (rows (snd (add n a s)))"
  using add_rows [of n a s] by (fastforce simp: names_unique_def same_name_def)

lemma unique_remove: "names_unique (rows s) \<Longrightarrow> names_unique (rows (snd (remove n a s)))"
  using remove_rows [of n a s] by (auto simp: names_unique_def distinct_map_filterI)

lemma owner_add: "name_owner m (rows s) = Some b \<Longrightarrow> name_owner m (rows (snd (add n a s))) = Some b"
  using add_rows [of n a s] by (auto simp: name_owner_def find_append_Some)

lemma add_success: "names_unique (rows s) \<Longrightarrow> fst (add n a s) = Inr () \<Longrightarrow> name_owner (TrimSpace n) (rows (snd (add n a s))) = Some a"
  using add_ok [of n a s] name_owner_unique unique_add by metis

lemma add_taken: "names_unique (rows s) \<Longrightarrow> name_owner (TrimSpace n) (rows s) = Some b \<Longrightarrow> b \<noteq> a \<Longrightarrow> fst (add n a s) \<noteq> Inr ()"
  using add_success owner_add by fastforce

lemma owner_remove:
  assumes "names_unique (rows s)" and "name_owner m (rows s) = Some b" and "b \<noteq> a"
  shows "name_owner m (rows (snd (remove n a s))) = Some b"
proof -
  from assms(2) obtain r where "find (same_name m) (rows s) = Some r" "n_account r = b"
    by (auto simp: name_owner_def)
  then have "r \<in> set (rows s)" "same_name m r"
    by (auto simp: find_Some_iff)
  moreover from this have "r \<in> set (rows (snd (remove n a s)))"
    using remove_rows [of n a s] assms(3) \<open>n_account r = b\<close> by auto
  ultimately show ?thesis
    using name_owner_unique [OF unique_remove [OF assms(1)]] \<open>n_account r = b\<close> by blast
qed

lemma contract:
  assumes "names_unique (rows s)"
  shows "(name_owner m (rows s) = Some b \<longrightarrow> name_owner m (rows (snd (add n a s))) = Some b
      \<and> (b \<noteq> a \<longrightarrow> name_owner m (rows (snd (remove n a s))) = Some b)
      \<and> (m = TrimSpace n \<and> b \<noteq> a \<longrightarrow> fst (add n a s) \<noteq> Inr ()))
    \<and> (fst (add n a s) = Inr () \<longrightarrow> name_owner (TrimSpace n) (rows (snd (add n a s))) = Some a)"
  using owner_add owner_remove [OF assms] add_taken [OF assms] add_success [OF assms] by blast

end

lemma names_cases:
  assumes "attempt (query_row (\<lambda>s. map n_account (filter (same_name name) (get s)))) (\<lambda>r. case r of
        Inr existing \<Rightarrow> if existing = aid then ret () else fail e1
      | Inl e \<Rightarrow> if e \<noteq> NoRows then fail e else
          exec_insert get upd (strict con (\<lambda>s. \<exists>n \<in> set (get s). same_name name n) fk) (\<lambda>_. row)) s = (r, s')"
    and upd: "\<And>s ys. get (upd (\<lambda>_. ys) s) = ys" and fr: "\<And>s fs. get (s\<lparr>faults := fs\<rparr>) = get s"
  shows "get s' = get s \<and> (r = Inr () \<longrightarrow> (\<exists>x \<in> set (get s). same_name name x \<and> n_account x = aid))
    \<or> get s' = get s @ [row] \<and> \<not> (\<exists>x \<in> set (get s). same_name name x) \<and> r = Inr ()"
  using assms(1)
  by (auto simp: attempt_def query_row_def exec_insert_def stmt_def upd fr strict_def
      split: prod.splits sum.splits list.splits option.splits if_splits dest!: filter_ConsD)

lemma remove_cases:
  assumes "andThen (exec_delete get upd (\<lambda>x. n_account x = aid \<and> same_name name x)) (\<lambda>n. if n = 0 then fail e else ret ()) s = (r, s')"
    and upd: "\<And>s ys. get (upd (\<lambda>_. ys) s) = ys" and fr: "\<And>s fs. get (s\<lparr>faults := fs\<rparr>) = get s"
  shows "get s' = get s \<or> get s' = filter (\<lambda>x. \<not> (same_name name x \<and> n_account x = aid)) (get s)"
  using assms(1)
  by (auto simp: andThen_def exec_delete_def stmt_def upd fr conj_commute
      split: prod.splits sum.splits list.splits option.splits if_splits)

lemma add_names:
  "AddAlias n a s = (r, s') \<Longrightarrow>
     aliases s' = aliases s \<and> (r = Inr () \<longrightarrow> (\<exists>x \<in> set (aliases s). same_name (TrimSpace n) x \<and> n_account x = a))
     \<or> aliases s' = aliases s @ [\<lparr>n_name = TrimSpace n, n_account = a\<rparr>]
       \<and> \<not> (\<exists>x \<in> set (aliases s). same_name (TrimSpace n) x) \<and> r = Inr ()"
  "AddCharacter n a s = (r, s') \<Longrightarrow>
     characters s' = characters s \<and> (r = Inr () \<longrightarrow> (\<exists>x \<in> set (characters s). same_name (TrimSpace n) x \<and> n_account x = a))
     \<or> characters s' = characters s @ [\<lparr>n_name = TrimSpace n, n_account = a\<rparr>]
       \<and> \<not> (\<exists>x \<in> set (characters s). same_name (TrimSpace n) x) \<and> r = Inr ()"
  unfolding AddAlias_def AddCharacter_def Let_def
  by (auto split: if_splits dest!: names_cases [where get = aliases] names_cases [where get = characters])

lemma remove_shape:
  assumes "ys = xs \<or> ys = filter (\<lambda>x. \<not> (Q x \<and> n_account x = a)) xs"
  shows "\<exists>P. ys = filter (\<lambda>r. \<not> (P r \<and> n_account r = a)) xs"
  using assms
proof
  assume "ys = xs"
  then show ?thesis by (intro exI [of _ "\<lambda>_. False"]) simp
qed blast

lemma remove_names:
  "\<exists>P. aliases (snd (RemoveAlias n a s)) = filter (\<lambda>r. \<not> (P r \<and> n_account r = a)) (aliases s)"
  "\<exists>P. characters (snd (RemoveCharacter n a s)) = filter (\<lambda>r. \<not> (P r \<and> n_account r = a)) (characters s)"
proof -
  show "\<exists>P. aliases (snd (RemoveAlias n a s)) = filter (\<lambda>r. \<not> (P r \<and> n_account r = a)) (aliases s)"
  proof (rule remove_shape [where Q = "same_name (TrimSpace n)"], cases "TrimSpace n = []")
    case False
    show "aliases (snd (RemoveAlias n a s)) = aliases s \<or>
        aliases (snd (RemoveAlias n a s)) = filter (\<lambda>x. \<not> (same_name (TrimSpace n) x \<and> n_account x = a)) (aliases s)"
      unfolding RemoveAlias_def Let_def if_not_P [OF False]
      by (rule remove_cases [OF prod.collapse [symmetric]]) simp_all
  qed (simp add: RemoveAlias_def)
  show "\<exists>P. characters (snd (RemoveCharacter n a s)) = filter (\<lambda>r. \<not> (P r \<and> n_account r = a)) (characters s)"
  proof (rule remove_shape [where Q = "same_name (TrimSpace n)"], cases "TrimSpace n = []")
    case False
    show "characters (snd (RemoveCharacter n a s)) = characters s \<or>
        characters (snd (RemoveCharacter n a s)) = filter (\<lambda>x. \<not> (same_name (TrimSpace n) x \<and> n_account x = a)) (characters s)"
      unfolding RemoveCharacter_def Let_def if_not_P [OF False]
      by (rule remove_cases [OF prod.collapse [symmetric]]) simp_all
  qed (simp add: RemoveCharacter_def)
qed

interpretation by_alias: unique_names aliases AddAlias RemoveAlias
  by unfold_locales
    (use add_names(1) [OF prod.collapse [symmetric]] remove_names(1) in \<open>fastforce simp: same_name_def\<close>)+

interpretation by_character: unique_names characters AddCharacter RemoveCharacter
  by unfold_locales
    (use add_names(2) [OF prod.collapse [symmetric]] remove_names(2) in \<open>fastforce simp: same_name_def\<close>)+

text \<open>
  C18: login names are unique and never move by themselves. For aliases and for characters alike:
  once a name belongs to an account, adding any name and removing names of other accounts leave
  it there; a successful add makes the caller's account the owner; and asking for a name that
  another account has is refused. This holds with any database faults.
\<close>

theorem login_names_have_one_owner:
  assumes "wf_world s"
  shows "(name_owner m (aliases s) = Some b \<longrightarrow> name_owner m (aliases (snd (AddAlias n a s))) = Some b
      \<and> (b \<noteq> a \<longrightarrow> name_owner m (aliases (snd (RemoveAlias n a s))) = Some b)
      \<and> (m = TrimSpace n \<and> b \<noteq> a \<longrightarrow> fst (AddAlias n a s) \<noteq> Inr ()))
    \<and> (fst (AddAlias n a s) = Inr () \<longrightarrow> name_owner (TrimSpace n) (aliases (snd (AddAlias n a s))) = Some a)
    \<and> (name_owner m (characters s) = Some b \<longrightarrow> name_owner m (characters (snd (AddCharacter n a s))) = Some b
      \<and> (b \<noteq> a \<longrightarrow> name_owner m (characters (snd (RemoveCharacter n a s))) = Some b)
      \<and> (m = TrimSpace n \<and> b \<noteq> a \<longrightarrow> fst (AddCharacter n a s) \<noteq> Inr ()))
    \<and> (fst (AddCharacter n a s) = Inr () \<longrightarrow> name_owner (TrimSpace n) (characters (snd (AddCharacter n a s))) = Some a)"
proof -
  have "names_unique (aliases s)" "names_unique (characters s)"
    using assms by (simp_all add: names_unique_def wf_world_def wf_names_def)
  from by_alias.contract [OF this(1), where m = m and b = b and n = n and a = a]
    by_character.contract [OF this(2), where m = m and b = b and n = n and a = a] show ?thesis
    by argo
qed

theorem login_names_have_one_owner_witness:
  "let s = sample_world\<lparr>accounts := [\<lparr>a_id = 1, a_username_cipher = [], a_username_blind = ''b1'', a_password_cipher = [],
        a_notes_cipher = None, a_disabled = False, a_required_role = [], a_required_user = None, a_restricted = False,
        a_owner = None, a_updated_at = 0\<rparr>], next_account := 2, aliases := [\<lparr>n_name = ''Tank'', n_account = 1\<rparr>]\<rparr>
   in name_owner ''tank'' (aliases (snd (AddAlias '' tank'' 2 s))) = Some 1 \<and> fst (AddAlias ''tank'' 2 s) \<noteq> Inr ()"
proof -
  let ?s = "sample_world\<lparr>accounts := [\<lparr>a_id = 1, a_username_cipher = [], a_username_blind = ''b1'', a_password_cipher = [],
        a_notes_cipher = None, a_disabled = False, a_required_role = [], a_required_user = None, a_restricted = False,
        a_owner = None, a_updated_at = 0\<rparr>], next_account := 2, aliases := [\<lparr>n_name = ''Tank'', n_account = 1\<rparr>]\<rparr>"
  have wf: "wf_world ?s"
    using wf_sample_world
    by (simp add: sample_world_def empty_world_def wf_world_def id_sets wf_accounts_def wf_names_def wf_pairs_def wf_tags_def)
  have own: "name_owner ''tank'' (aliases ?s) = Some 1"
    by code_simp
  have "TrimSpace ''tank'' = ''tank''" by code_simp
  then show ?thesis
    using login_names_have_one_owner [OF wf, of "''tank''" 1 "'' tank''" 2]
      login_names_have_one_owner [OF wf, of "''tank''" 1 "''tank''" 2] own
    by (simp add: Let_def)
qed

section \<open>The contract of an account's grant list\<close>

text \<open>
  \<open>rows a s\<close> are the grants of account \<open>a\<close>. Replacing succeeds with exactly the cleaned list; when
  it fails, the old list is there in full or a prefix of the new one, possibly empty.
\<close>

locale grant_list =
  fixes rows :: "int \<Rightarrow> world \<Rightarrow> 'k list"
    and clean :: "'k list \<Rightarrow> 'k list"
    and replace :: "int \<Rightarrow> 'k list \<Rightarrow> unit db"
  assumes replaced: "fst (replace a xs s) = Inr () \<Longrightarrow> rows a (snd (replace a xs s)) = clean xs"
    and partial: "rows a (snd (replace a xs s)) = rows a s \<or> (\<exists>k. rows a (snd (replace a xs s)) = take k (clean xs))"
    and others: "b \<noteq> a \<Longrightarrow> rows b (snd (replace a xs s)) = rows b s"
begin

lemma never_mixed:
  "set (rows a (snd (replace a xs s))) \<subseteq> set (rows a s) \<or> set (rows a (snd (replace a xs s))) \<subseteq> set (clean xs)"
  using partial [of a xs s] by (auto dest: in_set_takeD)

lemma last_one_wins:
  "fst (replace a ys (snd (replace a xs s))) = Inr () \<Longrightarrow> rows a (snd (replace a ys (snd (replace a xs s)))) = clean ys"
  by (rule replaced)

lemma no_new_grant: "x \<in> set (rows b (snd (replace a xs s))) \<Longrightarrow> x \<in> set (rows b s) \<or> b = a \<and> x \<in> set (clean xs)"
  using never_mixed [of a xs s] others [of b a xs s] by (cases "b = a") auto

end

lemma for_each_insert_once:
  assumes upd: "\<And>s ys. get (upd (\<lambda>_. ys) s) = ys" and fr: "\<And>s fs. get (s\<lparr>faults := fs\<rparr>) = get s"
  shows "for_each (\<lambda>x. exec_insert_once get upd (\<lambda>s. row x \<in> set (get s)) (viol x) (row x)) xs s = (r, s') \<Longrightarrow>
    distinct (map row xs) \<Longrightarrow> row ` set xs \<inter> set (get s) = {} \<Longrightarrow>
    \<exists>k. get s' = get s @ map row (take k xs) \<and> (r = Inr () \<longrightarrow> length xs \<le> k)"
proof (induction xs arbitrary: s)
  case (Cons x xs)
  let ?ins = "exec_insert_once get upd (\<lambda>s. row x \<in> set (get s)) (viol x) (row x)"
  obtain q s1 where q: "?ins s = (q, s1)" by (cases "?ins s") auto
  have step: "(q = Inr () \<and> get s1 = get s @ [row x]) \<or> (\<exists>e. q = Inl e) \<and> get s1 = get s"
    using q Cons.prems(3)
    by (auto simp: exec_insert_once_def stmt_def upd fr split: list.splits option.splits if_splits)
  show ?case
  proof (cases q)
    case (Inl e)
    then show ?thesis
      using Cons.prems(1) q step by (intro exI [of _ 0]) (auto simp: andThen_def)
  next
    case (Inr u)
    then have "for_each (\<lambda>x. exec_insert_once get upd (\<lambda>s. row x \<in> set (get s)) (viol x) (row x)) xs s1 = (r, s')"
      using Cons.prems(1) q by (simp add: andThen_def)
    moreover have "row ` set xs \<inter> set (get s1) = {}"
      using Cons.prems(2,3) step Inr by auto
    moreover have "distinct (map row xs)"
      using Cons.prems(2) by simp
    ultimately have "\<exists>k. get s' = get s1 @ map row (take k xs) \<and> (r = Inr () \<longrightarrow> length xs \<le> k)"
      by (intro Cons.IH)
    then obtain k where k: "get s' = get s1 @ map row (take k xs)" "r = Inr () \<longrightarrow> length xs \<le> k"
      by blast
    have "get s1 = get s @ [row x]"
      using step Inr by blast
    with k show ?thesis
      by (intro exI [of _ "Suc k"]) simp
  qed
qed simp

lemma replace_rows:
  assumes upd: "\<And>s ys. get (upd (\<lambda>_. ys) s) = ys" and fr: "\<And>s fs. get (s\<lparr>faults := fs\<rparr>) = get s"
    and run: "andThen (exec_delete get upd P) (\<lambda>_.
      andThen (for_each (\<lambda>x. exec_insert_once get upd (\<lambda>s. row x \<in> set (get s)) (viol x) (row x)) xs) rest) s = (r, s')"
    and rest: "frame get (rest ())" and dis: "distinct (map row xs)" and P: "\<And>x. P (row x)"
  shows "get s' = get s \<or> (\<exists>k. get s' = filter (\<lambda>x. \<not> P x) (get s) @ map row (take k xs))"
    and "r = Inr y \<Longrightarrow> get s' = filter (\<lambda>x. \<not> P x) (get s) @ map row xs"
proof -
  let ?loop = "for_each (\<lambda>x. exec_insert_once get upd (\<lambda>s. row x \<in> set (get s)) (viol x) (row x)) xs"
  obtain q s1 where q: "exec_delete get upd P s = (q, s1)" by (cases "exec_delete get upd P s") auto
  have del: "(\<exists>n. q = Inr n) \<and> get s1 = filter (\<lambda>x. \<not> P x) (get s) \<or> (\<exists>e. q = Inl e) \<and> get s1 = get s"
    using q by (auto simp: exec_delete_def stmt_def upd fr split: list.splits option.splits)
  obtain t s2 where t: "?loop s1 = (t, s2)" by (cases "?loop s1") auto
  have ins: "\<exists>k. get s2 = get s1 @ map row (take k xs) \<and> (t = Inr () \<longrightarrow> length xs \<le> k)" if "q = Inr n" for n
    using that del P by (intro for_each_insert_once [OF upd fr t dis]) auto
  have last: "get (snd (rest () s2)) = get s2"
    using rest by (rule frameD)
  have "(\<exists>e. q = Inl e) \<and> get s' = get s \<and> (\<forall>y. r \<noteq> Inr y)
      \<or> (\<exists>k. get s' = filter (\<lambda>x. \<not> P x) (get s) @ map row (take k xs) \<and> (\<forall>y. r = Inr y \<longrightarrow> length xs \<le> k))"
  proof (cases q)
    case (Inl e)
    then show ?thesis using run q del by (auto simp: andThen_def)
  next
    case (Inr n)
    from ins [OF Inr] obtain k where "get s2 = get s1 @ map row (take k xs)" and kl: "t = Inr () \<longrightarrow> length xs \<le> k"
      by blast
    moreover have "get s1 = filter (\<lambda>x. \<not> P x) (get s)"
      using del Inr by blast
    ultimately have k: "get s2 = filter (\<lambda>x. \<not> P x) (get s) @ map row (take k xs)"
      by simp
    have res: "(r, s') = (case t of Inl e \<Rightarrow> (Inl e, s2) | Inr u \<Rightarrow> rest () s2)"
      using run q Inr t by (simp add: andThen_def split: sum.splits)
    have "get s' = get s2"
      using res last by (cases t) (simp_all add: prod_eq_iff)
    moreover have "\<forall>y. r = Inr y \<longrightarrow> t = Inr ()"
      using res by (cases t) auto
    ultimately show ?thesis
      using k kl by (intro disjI2 exI [of _ k]) simp
  qed
  then show "get s' = get s \<or> (\<exists>k. get s' = filter (\<lambda>x. \<not> P x) (get s) @ map row (take k xs))"
    and "r = Inr y \<Longrightarrow> get s' = filter (\<lambda>x. \<not> P x) (get s) @ map row xs"
    by auto
qed

definition role_grants :: "int \<Rightarrow> world \<Rightarrow> string list" where
  "role_grants a s = map snd (filter (\<lambda>r. fst r = a) (acc_roles s))"

definition user_grants :: "int \<Rightarrow> world \<Rightarrow> int list" where
  "user_grants a s = map snd (filter (\<lambda>r. fst r = a) (acc_users s))"

definition group_grants :: "int \<Rightarrow> world \<Rightarrow> int list" where
  "group_grants a s = map fst (filter (\<lambda>l. snd l = a) (links s))"

definition clean_roles :: "string list \<Rightarrow> string list" where
  "clean_roles rs = dedup (\<lambda>r. r = []) (map TrimSpace rs)"

definition clean_ids :: "int list \<Rightarrow> int list" where
  "clean_ids ids = dedup (\<lambda>i. i \<le> 0) ids"

lemma andThen_ret: "andThen m ret = m"
  by (auto simp: fun_eq_iff andThen_def split: prod.splits sum.splits)

lemma frame_update_account [frame_rules]:
  "unseen f \<Longrightarrow> (\<And>s h. f (accounts_update h s) = f s) \<Longrightarrow> frame f (update_account aid con refs g)"
  unfolding update_account_def by (rule frame_stmt) (auto simp: frame_def)

lemma map_take_id: "map snd (map (Pair a) xs) = xs" "map fst (map (\<lambda>g. (g, a)) ys) = ys"
  by (simp_all add: comp_def)

lemma other_rows: "b \<noteq> a \<Longrightarrow> filter (\<lambda>x. f x \<noteq> a \<and> f x = b) xs = filter (\<lambda>x. f x = b) xs"
  by (induction xs) auto

lemma filter_same: "filter P (filter (\<lambda>x. \<not> P x) xs) = []" "filter Q (map f ys) = map f (filter (Q \<circ> f) ys)"
  by (simp_all add: filter_map)

lemma roles_replaced:
  assumes "ReplaceAccountRoles a xs s = (r, s')"
  shows "acc_roles s' = acc_roles s \<or>
      (\<exists>k. acc_roles s' = filter (\<lambda>x. fst x \<noteq> a) (acc_roles s) @ map (Pair a) (take k (clean_roles xs)))"
    and "r = Inr y \<Longrightarrow> acc_roles s' = filter (\<lambda>x. fst x \<noteq> a) (acc_roles s) @ map (Pair a) (clean_roles xs)"
proof -
  note rows = replace_rows [where get = acc_roles and upd = acc_roles_update and row = "Pair a" and P = "\<lambda>r. fst r = a",
      OF _ _ assms [unfolded ReplaceAccountRoles_def Let_def, folded clean_roles_def]]
  show "acc_roles s' = acc_roles s \<or>
      (\<exists>k. acc_roles s' = filter (\<lambda>x. fst x \<noteq> a) (acc_roles s) @ map (Pair a) (take k (clean_roles xs)))"
    by (rule rows(1)) (auto intro!: frame_rules simp: clean_roles_def distinct_map inj_on_def)
  show "acc_roles s' = filter (\<lambda>x. fst x \<noteq> a) (acc_roles s) @ map (Pair a) (clean_roles xs)" if "r = Inr y"
    by (rule rows(2) [OF _ _ _ _ _ that]) (auto intro!: frame_rules simp: clean_roles_def distinct_map inj_on_def)
qed

lemma users_replaced:
  assumes "ReplaceAccountUsers a xs s = (r, s')"
  shows "acc_users s' = acc_users s \<or>
      (\<exists>k. acc_users s' = filter (\<lambda>x. fst x \<noteq> a) (acc_users s) @ map (Pair a) (take k (clean_ids xs)))"
    and "r = Inr y \<Longrightarrow> acc_users s' = filter (\<lambda>x. fst x \<noteq> a) (acc_users s) @ map (Pair a) (clean_ids xs)"
proof -
  note rows = replace_rows [where get = acc_users and upd = acc_users_update and row = "Pair a" and P = "\<lambda>r. fst r = a",
      OF _ _ assms [unfolded ReplaceAccountUsers_def Let_def, folded clean_ids_def]]
  show "acc_users s' = acc_users s \<or>
      (\<exists>k. acc_users s' = filter (\<lambda>x. fst x \<noteq> a) (acc_users s) @ map (Pair a) (take k (clean_ids xs)))"
    by (rule rows(1)) (auto intro!: frame_rules simp: clean_ids_def distinct_map inj_on_def)
  show "acc_users s' = filter (\<lambda>x. fst x \<noteq> a) (acc_users s) @ map (Pair a) (clean_ids xs)" if "r = Inr y"
    by (rule rows(2) [OF _ _ _ _ _ that]) (auto intro!: frame_rules simp: clean_ids_def distinct_map inj_on_def)
qed

lemma groups_replaced:
  assumes "ReplaceAccountGroups a xs s = (r, s')"
  shows "links s' = links s \<or>
      (\<exists>k. links s' = filter (\<lambda>x. snd x \<noteq> a) (links s) @ map (\<lambda>g. (g, a)) (take k (clean_ids xs)))"
    and "r = Inr y \<Longrightarrow> links s' = filter (\<lambda>x. snd x \<noteq> a) (links s) @ map (\<lambda>g. (g, a)) (clean_ids xs)"
proof -
  have "andThen (exec_delete links links_update (\<lambda>l. snd l = a)) (\<lambda>_.
     andThen (for_each (\<lambda>gid. exec_insert_once links links_update
         (\<lambda>s. (gid, a) \<in> set (links s)) (link_fk gid a) (gid, a)) (clean_ids xs)) ret) s = (r, s')"
    using assms by (simp add: ReplaceAccountGroups_def clean_ids_def andThen_ret)
  note rows = replace_rows [where get = links and upd = links_update and row = "\<lambda>g. (g, a)" and P = "\<lambda>r. snd r = a",
      OF _ _ this]
  show "links s' = links s \<or>
      (\<exists>k. links s' = filter (\<lambda>x. snd x \<noteq> a) (links s) @ map (\<lambda>g. (g, a)) (take k (clean_ids xs)))"
    by (rule rows(1)) (auto intro!: frame_rules simp: clean_ids_def distinct_map inj_on_def)
  show "links s' = filter (\<lambda>x. snd x \<noteq> a) (links s) @ map (\<lambda>g. (g, a)) (clean_ids xs)" if "r = Inr y"
    by (rule rows(2) [OF _ _ _ _ _ that]) (auto intro!: frame_rules simp: clean_ids_def distinct_map inj_on_def)
qed

interpretation roles: grant_list role_grants clean_roles ReplaceAccountRoles
proof
  fix a b xs s
  note run = prod.collapse [symmetric, of "ReplaceAccountRoles a xs s"]
  show "role_grants a (snd (ReplaceAccountRoles a xs s)) = clean_roles xs" if "fst (ReplaceAccountRoles a xs s) = Inr ()"
    using roles_replaced(2) [OF run that] by (simp add: role_grants_def filter_map comp_def)
  show "role_grants a (snd (ReplaceAccountRoles a xs s)) = role_grants a s
      \<or> (\<exists>k. role_grants a (snd (ReplaceAccountRoles a xs s)) = take k (clean_roles xs))"
    using roles_replaced(1) [OF run] by (auto simp: role_grants_def filter_map comp_def)
  show "role_grants b (snd (ReplaceAccountRoles a xs s)) = role_grants b s" if "b \<noteq> a"
    using roles_replaced(1) [OF run] that by (auto simp: role_grants_def other_rows filter_map comp_def)
qed

interpretation users: grant_list user_grants clean_ids ReplaceAccountUsers
proof
  fix a b xs s
  note run = prod.collapse [symmetric, of "ReplaceAccountUsers a xs s"]
  show "user_grants a (snd (ReplaceAccountUsers a xs s)) = clean_ids xs" if "fst (ReplaceAccountUsers a xs s) = Inr ()"
    using users_replaced(2) [OF run that] by (simp add: user_grants_def filter_map comp_def)
  show "user_grants a (snd (ReplaceAccountUsers a xs s)) = user_grants a s
      \<or> (\<exists>k. user_grants a (snd (ReplaceAccountUsers a xs s)) = take k (clean_ids xs))"
    using users_replaced(1) [OF run] by (auto simp: user_grants_def filter_map comp_def)
  show "user_grants b (snd (ReplaceAccountUsers a xs s)) = user_grants b s" if "b \<noteq> a"
    using users_replaced(1) [OF run] that by (auto simp: user_grants_def other_rows filter_map comp_def)
qed

interpretation grouped: grant_list group_grants clean_ids ReplaceAccountGroups
proof
  fix a b xs s
  note run = prod.collapse [symmetric, of "ReplaceAccountGroups a xs s"]
  show "group_grants a (snd (ReplaceAccountGroups a xs s)) = clean_ids xs" if "fst (ReplaceAccountGroups a xs s) = Inr ()"
    using groups_replaced(2) [OF run that] by (simp add: group_grants_def filter_map comp_def)
  show "group_grants a (snd (ReplaceAccountGroups a xs s)) = group_grants a s
      \<or> (\<exists>k. group_grants a (snd (ReplaceAccountGroups a xs s)) = take k (clean_ids xs))"
    using groups_replaced(1) [OF run] by (auto simp: group_grants_def filter_map comp_def)
  show "group_grants b (snd (ReplaceAccountGroups a xs s)) = group_grants b s" if "b \<noteq> a"
    using groups_replaced(1) [OF run] that by (auto simp: group_grants_def other_rows filter_map comp_def)
qed

lemma frame_Replace:
  "frame acc_users (ReplaceAccountRoles a rs)" "frame links (ReplaceAccountRoles a rs)"
  "frame acc_roles (ReplaceAccountUsers a us)" "frame links (ReplaceAccountUsers a us)"
  "frame acc_roles (ReplaceAccountGroups a gs)" "frame acc_users (ReplaceAccountGroups a gs)"
  unfolding ReplaceAccountRoles_def ReplaceAccountUsers_def ReplaceAccountGroups_def Let_def
  by (intro frame_rules unseen_tables; simp)+

text \<open>
  Setting the access of an account. On success its role, user and group grants are exactly the
  given lists, cleaned (trimmed, blanks and non-positive ids dropped, duplicates dropped, order
  kept). In every case, errors at any statement included, other accounts' grants are untouched
  and no grant appears that was neither there before nor asked for.
\<close>

theorem account_access_is_replaced:
  "(fst (SetAccountAccess a rs us gs s) = Inr () \<longrightarrow>
      role_grants a (snd (SetAccountAccess a rs us gs s)) = clean_roles rs
      \<and> user_grants a (snd (SetAccountAccess a rs us gs s)) = clean_ids us
      \<and> group_grants a (snd (SetAccountAccess a rs us gs s)) = clean_ids gs)
   \<and> (\<forall>b. b \<noteq> a \<longrightarrow>
      role_grants b (snd (SetAccountAccess a rs us gs s)) = role_grants b s
      \<and> user_grants b (snd (SetAccountAccess a rs us gs s)) = user_grants b s
      \<and> group_grants b (snd (SetAccountAccess a rs us gs s)) = group_grants b s)
   \<and> set (role_grants a (snd (SetAccountAccess a rs us gs s))) \<subseteq> set (role_grants a s) \<union> set (clean_roles rs)
   \<and> set (user_grants a (snd (SetAccountAccess a rs us gs s))) \<subseteq> set (user_grants a s) \<union> set (clean_ids us)
   \<and> set (group_grants a (snd (SetAccountAccess a rs us gs s))) \<subseteq> set (group_grants a s) \<union> set (clean_ids gs)"
proof -
  let ?s1 = "snd (ReplaceAccountRoles a rs s)"
  let ?s2 = "snd (ReplaceAccountUsers a us ?s1)"
  let ?s3 = "snd (ReplaceAccountGroups a gs ?s2)"
  have fr: "acc_users ?s1 = acc_users s" "links ?s1 = links s" "acc_roles ?s2 = acc_roles ?s1" "links ?s2 = links ?s1"
    "acc_roles ?s3 = acc_roles ?s2" "acc_users ?s3 = acc_users ?s2"
    by (rule frameD, rule frame_Replace)+
  have 1: "role_grants b ?s2 = role_grants b ?s1" "role_grants b ?s3 = role_grants b ?s1" "user_grants b ?s1 = user_grants b s"
    "user_grants b ?s3 = user_grants b ?s2" "group_grants b ?s1 = group_grants b s" "group_grants b ?s2 = group_grants b s" for b
    by (simp_all add: role_grants_def user_grants_def group_grants_def fr)
  consider "SetAccountAccess a rs us gs s = (fst (ReplaceAccountRoles a rs s), ?s1)" "fst (ReplaceAccountRoles a rs s) \<noteq> Inr ()"
    | "snd (SetAccountAccess a rs us gs s) = ?s2" "fst (SetAccountAccess a rs us gs s) \<noteq> Inr ()"
    | "SetAccountAccess a rs us gs s = (fst (ReplaceAccountGroups a gs ?s2), ?s3)" "fst (ReplaceAccountRoles a rs s) = Inr ()"
      "fst (ReplaceAccountUsers a us ?s1) = Inr ()"
    by (cases "ReplaceAccountRoles a rs s"; cases "fst (ReplaceAccountRoles a rs s)";
        cases "ReplaceAccountUsers a us ?s1"; cases "fst (ReplaceAccountUsers a us ?s1)")
      (auto simp: SetAccountAccess_def andThen_def)
  then show ?thesis
  proof cases
    case 1
    then show ?thesis
      using roles.others [of _ a rs s] roles.no_new_grant [of _ a a rs s] by (auto simp: \<open>\<And>b. user_grants b ?s1 = user_grants b s\<close> \<open>\<And>b. group_grants b ?s1 = group_grants b s\<close>)
  next
    case 2
    then show ?thesis
      using roles.others [of _ a rs s] roles.no_new_grant [of _ a a rs s]
        users.others [of _ a us ?s1] users.no_new_grant [of _ a a us ?s1]
      by (auto simp: \<open>\<And>b. role_grants b ?s2 = role_grants b ?s1\<close> \<open>\<And>b. user_grants b ?s1 = user_grants b s\<close> \<open>\<And>b. group_grants b ?s2 = group_grants b s\<close>)
  next
    case 3
    then show ?thesis
      using roles.others [of _ a rs s] roles.no_new_grant [of _ a a rs s]
        users.others [of _ a us ?s1] users.no_new_grant [of _ a a us ?s1]
        grouped.others [of _ a gs ?s2] grouped.no_new_grant [of _ a a gs ?s2]
        roles.replaced [of a rs s] users.replaced [of a us ?s1] grouped.replaced [of a gs ?s2]
      by (auto simp: \<open>\<And>b. role_grants b ?s3 = role_grants b ?s1\<close> \<open>\<And>b. user_grants b ?s3 = user_grants b ?s2\<close>
          \<open>\<And>b. user_grants b ?s1 = user_grants b s\<close> \<open>\<And>b. group_grants b ?s2 = group_grants b s\<close>)
  qed
qed

theorem account_access_is_replaced_witness:
  "fst (SetAccountAccess 1 ['' r1 '', [], ''r1''] [] [] (sample_world\<lparr>accounts := [\<lparr>a_id = 1, a_username_cipher = [],
      a_username_blind = ''b1'', a_password_cipher = [], a_notes_cipher = None, a_disabled = False, a_required_role = [],
      a_required_user = None, a_restricted = False, a_owner = None, a_updated_at = 0\<rparr>], next_account := 2\<rparr>)) = Inr ()
   \<and> role_grants 1 (snd (SetAccountAccess 1 ['' r1 '', [], ''r1''] [] [] (sample_world\<lparr>accounts := [\<lparr>a_id = 1, a_username_cipher = [],
      a_username_blind = ''b1'', a_password_cipher = [], a_notes_cipher = None, a_disabled = False, a_required_role = [],
      a_required_user = None, a_restricted = False, a_owner = None, a_updated_at = 0\<rparr>], next_account := 2\<rparr>))) = [''r1'']"
proof -
  let ?s = "sample_world\<lparr>accounts := [\<lparr>a_id = 1, a_username_cipher = [],
      a_username_blind = ''b1'', a_password_cipher = [], a_notes_cipher = None, a_disabled = False, a_required_role = [],
      a_required_user = None, a_restricted = False, a_owner = None, a_updated_at = 0\<rparr>], next_account := 2\<rparr>"
  have ok: "fst (SetAccountAccess 1 ['' r1 '', [], ''r1''] [] [] ?s) = Inr ()"
    by code_simp
  have "clean_roles ['' r1 '', [], ''r1''] = [''r1'']"
    by code_simp
  with ok account_access_is_replaced [of 1 "['' r1 '', [], ''r1'']" "[]" "[]" ?s] show ?thesis by simp
qed

section \<open>The vault keeps what it was given\<close>

lemma SealOption_InrD:
  assumes "(if n \<noteq> [] then andThen (SealString k n aad) (\<lambda>c. ret (Some c)) else ret None) s = (Inr nc, s')"
  obtains en where "s' = s\<lparr>entropy := en\<rparr>"
proof (cases "n = []")
  case True
  then have "s' = s\<lparr>entropy := entropy s\<rparr>" using assms by simp
  then show thesis by (rule that)
next
  case False
  then show thesis
    using assms that by (auto elim!: andThen_InrE SealString_InrD)
qed

lemma AddEQAccount_InrD:
  assumes "AddEQAccount st u p n s = (Inr i, s')"
  obtains uc pc nc fs en where "i = next_account s"
    and "BlindIndex (StoreKey st) (ToLower (TrimSpace u)) \<notin> a_username_blind ` set (accounts s)"
    and "seals (StoreAEAD st) ''eq_accounts.username'' u uc" and "seals (StoreAEAD st) ''eq_accounts.password'' p pc"
    and "s' = s\<lparr>entropy := en, faults := fs, next_account := next_account s + 1, accounts := accounts s @
      [\<lparr>a_id = next_account s, a_username_cipher = uc, a_username_blind = BlindIndex (StoreKey st) (ToLower (TrimSpace u)),
        a_password_cipher = pc, a_notes_cipher = nc, a_disabled = False, a_required_role = [],
        a_required_user = None, a_restricted = False, a_owner = None, a_updated_at = clock s\<rparr>]\<rparr>"
proof -
  from assms obtain uc s1 pc s2 nc s3 where
    e1: "SealString (StoreAEAD st) u ''eq_accounts.username'' s = (Inr uc, s1)"
    and e2: "SealString (StoreAEAD st) p ''eq_accounts.password'' s1 = (Inr pc, s2)"
    and e3: "(if n \<noteq> [] then andThen (SealString (StoreAEAD st) n ''eq_accounts.notes'') (\<lambda>c. ret (Some c)) else ret None) s2 = (Inr nc, s3)"
    and ins: "insert_account uc (BlindIndex (StoreKey st) (ToLower (TrimSpace u))) pc nc s3 = (Inr i, s')"
    unfolding AddEQAccount_def Let_def by (blast elim: andThen_InrE)
  obtain n1 where s1: "s1 = s\<lparr>entropy := n1\<rparr>" and k1: "seals (StoreAEAD st) ''eq_accounts.username'' u uc"
    by (rule SealString_InrD [OF e1])
  obtain n2 where s2: "s2 = s1\<lparr>entropy := n2\<rparr>" and k2: "seals (StoreAEAD st) ''eq_accounts.password'' p pc"
    by (rule SealString_InrD [OF e2])
  obtain n3 where s3: "s3 = s2\<lparr>entropy := n3\<rparr>" by (rule SealOption_InrD [OF e3])
  from ins obtain fs where "i = next_account s" "BlindIndex (StoreKey st) (ToLower (TrimSpace u)) \<notin> a_username_blind ` set (accounts s)"
    "s' = s\<lparr>entropy := n3, faults := fs, next_account := next_account s + 1, accounts := accounts s @
      [\<lparr>a_id = next_account s, a_username_cipher = uc, a_username_blind = BlindIndex (StoreKey st) (ToLower (TrimSpace u)),
        a_password_cipher = pc, a_notes_cipher = nc, a_disabled = False, a_required_role = [],
        a_required_user = None, a_restricted = False, a_owner = None, a_updated_at = clock s\<rparr>]\<rparr>"
    unfolding insert_account_def s3 s2 s1
    by (elim stmt_InrD) (auto simp: Let_def split: if_splits)
  then show thesis using that k1 k2 by blast
qed

lemma decrypt_found:
  assumes "wf_world s" and "a \<in> set (accounts s)" and "any \<or> \<not> a_disabled a" and "faults s = []"
    and "seals (StoreAEAD st) ''eq_accounts.username'' u (a_username_cipher a)"
    and "seals (StoreAEAD st) ''eq_accounts.password'' p (a_password_cipher a)"
  shows "decryptCredentials st (a_id a) any s = (Inr (u, p), s)"
proof -
  have "filter (\<lambda>b. a_id b = a_id a) (accounts s) = [a]"
    using assms(1,2) by (intro filter_unique_key) (simp_all add: wf_world_def wf_accounts_def)
  moreover have "filter (\<lambda>b. a_id b = a_id a \<and> (any \<or> \<not> a_disabled b)) (accounts s)
      = filter (\<lambda>b. any \<or> \<not> a_disabled b) (filter (\<lambda>b. a_id b = a_id a) (accounts s))"
    by (simp add: conj_commute)
  ultimately show ?thesis
    using assms(3-6) by (simp add: decryptCredentials_def query_row_no_faults seals_def)
qed

lemma decrypt_missing:
  "filter (\<lambda>b. a_id b = aid \<and> \<not> a_disabled b) (accounts s) = [] \<Longrightarrow> faults s = [] \<Longrightarrow>
   fst (DecryptCredentials st aid s) = Inl NoRows"
  by (simp add: DecryptCredentials_def decryptCredentials_def query_row_no_faults andThen_def)

lemma update_account_no_faults:
  "faults s = [] \<Longrightarrow> update_account aid con None f s =
     (Inr (length (filter (\<lambda>a. a_id a = aid) (accounts s))),
      s\<lparr>accounts := map (\<lambda>a. if a_id a = aid then (f a)\<lparr>a_updated_at := clock s\<rparr> else a) (accounts s)\<rparr>)"
  by (simp add: update_account_def stmt_no_faults)

text \<open>
  C19: the vault returns what was put in. After a successful \<open>AddEQAccount\<close> (and with the database
  reachable) the account decrypts to exactly the user name and password given, is found under every
  spelling of the user name that differs in case or surrounding blanks, and keeps its user name
  when the password is replaced; once disabled it decrypts only for the admin export.
\<close>

theorem vault_returns_credentials:
  assumes "wf_world s" and "AddEQAccount st u p n s = (Inr i, s')" and "faults s' = []"
  shows "fst (DecryptCredentials st i s') = Inr (u, p)
    \<and> (\<forall>v. ToLower (TrimSpace v) = ToLower (TrimSpace u) \<and> ToLower (TrimSpace v) \<noteq> [] \<longrightarrow>
         fst (FindEQAccountIDByUsername st v s') = Inr (Some i))
    \<and> fst (DecryptCredentials st i (snd (SetEQPassword st i q s'))) = Inr (u, q)
    \<and> fst (DecryptCredentials st i (snd (SetEQDisabled i True s'))) = Inl NoRows
    \<and> fst (DecryptCredentialsAny st i (snd (SetEQDisabled i True s'))) = Inr (u, p)"
proof -
  from assms(2) obtain uc pc nc fs en where i: "i = next_account s"
    and new: "BlindIndex (StoreKey st) (ToLower (TrimSpace u)) \<notin> a_username_blind ` set (accounts s)"
    and uc: "seals (StoreAEAD st) ''eq_accounts.username'' u uc" and pc: "seals (StoreAEAD st) ''eq_accounts.password'' p pc"
    and s': "s' = s\<lparr>entropy := en, faults := fs, next_account := next_account s + 1, accounts := accounts s @
      [\<lparr>a_id = next_account s, a_username_cipher = uc, a_username_blind = BlindIndex (StoreKey st) (ToLower (TrimSpace u)),
        a_password_cipher = pc, a_notes_cipher = nc, a_disabled = False, a_required_role = [],
        a_required_user = None, a_restricted = False, a_owner = None, a_updated_at = clock s\<rparr>]\<rparr>"
    by (rule AddEQAccount_InrD)
  have wf': "wf_world s'"
    using keeps_result [OF keeps_AddEQAccount assms(1,2)] .
  let ?a = "last (accounts s')"
  have a: "?a \<in> set (accounts s')" "a_id ?a = i" "a_username_cipher ?a = uc" "a_password_cipher ?a = pc"
    "\<not> a_disabled ?a" "a_username_blind ?a = BlindIndex (StoreKey st) (ToLower (TrimSpace u))"
    by (simp_all add: s' i)
  have old: "filter (\<lambda>b. a_id b = i) (accounts s) = []"
    using assms(1) i by (auto simp: wf_world_def wf_accounts_def filter_empty_conv)
  have blind: "filter (\<lambda>b. a_username_blind b = BlindIndex (StoreKey st) (ToLower (TrimSpace u))) (accounts s') = [?a]"
    using new by (force simp: s' filter_empty_conv)
  have "fst (FindEQAccountIDByUsername st v s') = Inr (Some i)"
    if "ToLower (TrimSpace v) = ToLower (TrimSpace u)" "ToLower (TrimSpace v) \<noteq> []" for v
    using that blind a(2) assms(3)
    by (simp add: FindEQAccountIDByUsername_def Let_def attempt_def query_row_no_faults)
  moreover have "fst (DecryptCredentials st i s') = Inr (u, p)"
    using decrypt_found [OF wf' a(1) _ assms(3), of False st u p] a uc pc by (simp add: DecryptCredentials_def)
  moreover have "fst (DecryptCredentials st i (snd (SetEQPassword st i q s'))) = Inr (u, q)"
  proof -
    obtain c en' where c: "SealString (StoreAEAD st) q ''eq_accounts.password'' s' = (Inr c, s'\<lparr>entropy := en'\<rparr>)"
      and kc: "seals (StoreAEAD st) ''eq_accounts.password'' q c"
      by (rule SealString_cases)
    let ?t = "snd (SetEQPassword st i q s')"
    have wft: "wf_world ?t"
      using keepsD [OF keeps_SetEQPassword wf'] .
    have t: "?t = s'\<lparr>entropy := en', accounts := map (\<lambda>a. if a_id a = i then a\<lparr>a_password_cipher := c, a_updated_at := clock s'\<rparr> else a) (accounts s')\<rparr>"
      using c assms(3) by (simp add: SetEQPassword_def update_account_no_faults)
    have "?a\<lparr>a_password_cipher := c, a_updated_at := clock s'\<rparr> \<in> set (accounts ?t)"
      unfolding t using a(1,2) by (simp del: if_image_distrib) (intro image_eqI [of _ _ ?a], simp_all)
    from decrypt_found [OF wft this, of False st u q] show ?thesis
      using a uc kc assms(3) by (simp add: DecryptCredentials_def) (simp add: t)
  qed
  moreover have "fst (DecryptCredentials st i (snd (SetEQDisabled i True s'))) = Inl NoRows
    \<and> fst (DecryptCredentialsAny st i (snd (SetEQDisabled i True s'))) = Inr (u, p)"
  proof -
    let ?t = "snd (SetEQDisabled i True s')"
    have wft: "wf_world ?t"
      using keepsD [OF keeps_SetEQDisabled wf'] .
    have t: "?t = s'\<lparr>accounts := map (\<lambda>a. if a_id a = i then a\<lparr>a_disabled := True, a_updated_at := clock s'\<rparr> else a) (accounts s')\<rparr>"
      using assms(3) by (simp add: SetEQDisabled_def update_account_no_faults)
    have "?a\<lparr>a_disabled := True, a_updated_at := clock s'\<rparr> \<in> set (accounts ?t)"
      unfolding t using a(1,2) by (simp del: if_image_distrib) (intro image_eqI [of _ _ ?a], simp_all)
    from decrypt_found [OF wft this, of True st u p] have "fst (DecryptCredentialsAny st i ?t) = Inr (u, p)"
      using a uc pc assms(3) by (simp add: DecryptCredentialsAny_def) (simp add: t)
    moreover have gone: "filter (\<lambda>b. a_id b = i \<and> \<not> a_disabled b) (map (\<lambda>a. if a_id a = i then a\<lparr>a_disabled := True, a_updated_at := c\<rparr> else a) xs) = []" for xs c
      by (induction xs) auto
    have rows: "accounts ?t = map (\<lambda>a. if a_id a = i then a\<lparr>a_disabled := True, a_updated_at := clock s'\<rparr> else a) (accounts s')"
      by (simp add: t)
    have "filter (\<lambda>b. a_id b = i \<and> \<not> a_disabled b) (accounts ?t) = []"
      unfolding rows by (rule gone)
    then have "fst (DecryptCredentials st i ?t) = Inl NoRows"
      by (rule decrypt_missing) (simp add: t assms(3))
    ultimately show ?thesis by simp
  qed
  ultimately show ?thesis by blast
qed

lemma AddEQAccount_succeeds:
  assumes "faults s = []" and "BlindIndex (StoreKey st) (ToLower (TrimSpace u)) \<notin> a_username_blind ` set (accounts s)"
  obtains i s' where "AddEQAccount st u p [] s = (Inr i, s')" and "faults s' = []"
proof -
  obtain uc e1 where e1: "SealString (StoreAEAD st) u ''eq_accounts.username'' s = (Inr uc, s\<lparr>entropy := e1\<rparr>)"
    by (rule SealString_cases)
  obtain pc e2 where e2: "SealString (StoreAEAD st) p ''eq_accounts.password'' (s\<lparr>entropy := e1\<rparr>)
      = (Inr pc, s\<lparr>entropy := e1\<rparr>\<lparr>entropy := e2\<rparr>)"
    by (rule SealString_cases)
  then have e2': "SealString (StoreAEAD st) p ''eq_accounts.password'' (s\<lparr>entropy := e1\<rparr>) = (Inr pc, s\<lparr>entropy := e2\<rparr>)"
    by simp
  have "\<exists>i s'. insert_account uc (BlindIndex (StoreKey st) (ToLower (TrimSpace u))) pc None (s\<lparr>entropy := e2\<rparr>) = (Inr i, s')
      \<and> faults s' = []"
    using assms by (simp add: insert_account_def stmt_no_faults Let_def)
  then obtain i s' where ins: "insert_account uc (BlindIndex (StoreKey st) (ToLower (TrimSpace u))) pc None (s\<lparr>entropy := e2\<rparr>) = (Inr i, s')"
    "faults s' = []" by blast
  have "AddEQAccount st u p [] s = (Inr i, s')"
    unfolding AddEQAccount_def Let_def by (simp add: andThen_def e1 e2' ins(1))
  then show thesis using ins(2) by (rule that)
qed

theorem vault_returns_credentials_witness:
  "\<exists>i s'. AddEQAccount sample_store ''Bob'' ''pw'' [] sample_world = (Inr i, s')
     \<and> fst (DecryptCredentials sample_store i s') = Inr (''Bob'', ''pw'')
     \<and> fst (FindEQAccountIDByUsername sample_store '' bOB'' s') = Inr (Some i)"
proof -
  have s: "faults sample_world = []"
      "BlindIndex (StoreKey sample_store) (ToLower (TrimSpace ''Bob'')) \<notin> a_username_blind ` set (accounts sample_world)"
    by (simp_all add: sample_world_def empty_world_def)
  obtain i s' where add: "AddEQAccount sample_store ''Bob'' ''pw'' [] sample_world = (Inr i, s')" "faults s' = []"
    by (rule AddEQAccount_succeeds [OF s])
  have "ToLower (TrimSpace '' bOB'') = ToLower (TrimSpace ''Bob'')" "ToLower (TrimSpace '' bOB'') \<noteq> []"
    by code_simp+
  with vault_returns_credentials [OF wf_sample_world add] add show ?thesis by blast
qed

text \<open>
  Deleting an account removes every trace of it. After a successful \<open>DeleteEQAccount\<close> the account
  is gone from all eight tables, its credentials do not decrypt any more, and the rows of all
  other accounts are as before.
\<close>

theorem deleted_account_leaves_nothing:
  assumes "wf_world s" and "DeleteEQAccount a s = (Inr (), s')"
  shows "a \<in> account_ids s \<and> account_ids s' = account_ids s - {a}
    \<and> role_grants a s' = [] \<and> user_grants a s' = [] \<and> group_grants a s' = []
    \<and> a \<notin> n_account ` (set (aliases s') \<union> set (characters s') \<union> set (tags s')) \<and> a \<notin> fst ` set (shares s')
    \<and> (\<forall>st any s'' r. decryptCredentials st a any s' = (r, s'') \<longrightarrow> (\<exists>e. r = Inl e))
    \<and> (\<forall>b. b \<noteq> a \<longrightarrow> role_grants b s' = role_grants b s \<and> user_grants b s' = user_grants b s
         \<and> group_grants b s' = group_grants b s)
    \<and> filter (\<lambda>x. a_id x \<noteq> a) (accounts s) = accounts s'"
proof -
  from assms(2) [unfolded DeleteEQAccount_def] obtain n where d: "delete_account a s = (Inr n, s')" and n: "n \<noteq> 0"
    by (auto elim!: andThen_InrE split: if_splits)
  from d obtain fs where s': "s' = s\<lparr>faults := fs, accounts := filter (\<lambda>x. a_id x \<noteq> a) (accounts s),
        links := filter (\<lambda>l. snd l \<noteq> a) (links s),
        aliases := filter (\<lambda>n. n_account n \<noteq> a) (aliases s),
        characters := filter (\<lambda>n. n_account n \<noteq> a) (characters s),
        tags := filter (\<lambda>n. n_account n \<noteq> a) (tags s), acc_roles := filter (\<lambda>r. fst r \<noteq> a) (acc_roles s),
        acc_users := filter (\<lambda>r. fst r \<noteq> a) (acc_users s), shares := filter (\<lambda>r. fst r \<noteq> a) (shares s)\<rparr>"
    and nn: "n = length (filter (\<lambda>x. a_id x = a) (accounts s))"
    unfolding delete_account_def by (elim stmt_InrD) auto
  have "a \<in> account_ids s"
    using n nn by (auto simp: account_ids_def length_greater_0_conv [symmetric] filter_empty_conv)
  moreover have "account_ids s' = account_ids s - {a}"
    by (auto simp: s' account_ids_def)
  moreover have "\<exists>e. r = Inl e" if "decryptCredentials st a any s' = (r, s'')" for st any s'' r
  proof -
    have "filter (\<lambda>x. a_id x = a \<and> (any \<or> \<not> a_disabled x)) (accounts s') = []"
      by (auto simp: s' filter_empty_conv)
    then have "query_row (\<lambda>s. map (\<lambda>a. (a_username_cipher a, a_password_cipher a))
        (filter (\<lambda>x. a_id x = a \<and> (any \<or> \<not> a_disabled x)) (accounts s))) s' \<noteq> (Inr y, t)" for y t
      by (auto simp: query_row_def stmt_def split: list.splits option.splits)
    with that show ?thesis
      by (auto simp: decryptCredentials_def andThen_def split: prod.splits sum.splits)
  qed
  moreover have "role_grants a s' = []" "user_grants a s' = []" "group_grants a s' = []"
    by (simp_all add: s' role_grants_def user_grants_def group_grants_def)
  moreover have "role_grants b s' = role_grants b s \<and> user_grants b s' = user_grants b s \<and> group_grants b s' = group_grants b s"
    if "b \<noteq> a" for b
    using that by (simp add: s' role_grants_def user_grants_def group_grants_def other_rows)
  ultimately show ?thesis
    by (auto simp: s')
qed

theorem deleted_account_leaves_nothing_witness:
  "let s = sample_world\<lparr>accounts := [\<lparr>a_id = 1, a_username_cipher = [], a_username_blind = ''b1'', a_password_cipher = [],
        a_notes_cipher = None, a_disabled = False, a_required_role = [], a_required_user = None, a_restricted = False,
        a_owner = None, a_updated_at = 0\<rparr>], next_account := 2, aliases := [\<lparr>n_name = ''Tank'', n_account = 1\<rparr>]\<rparr>
   in \<exists>s'. DeleteEQAccount 1 s = (Inr (), s') \<and> account_ids s' = account_ids s - {1}"
proof -
  let ?s = "sample_world\<lparr>accounts := [\<lparr>a_id = 1, a_username_cipher = [], a_username_blind = ''b1'', a_password_cipher = [],
        a_notes_cipher = None, a_disabled = False, a_required_role = [], a_required_user = None, a_restricted = False,
        a_owner = None, a_updated_at = 0\<rparr>], next_account := 2, aliases := [\<lparr>n_name = ''Tank'', n_account = 1\<rparr>]\<rparr>"
  have wf: "wf_world ?s"
    using wf_sample_world
    by (simp add: sample_world_def empty_world_def wf_world_def id_sets wf_accounts_def wf_names_def wf_pairs_def wf_tags_def)
  have "fst (DeleteEQAccount 1 ?s) = Inr ()"
    by code_simp
  then obtain s' where "DeleteEQAccount 1 ?s = (Inr (), s')"
    by (metis prod.collapse)
  with deleted_account_leaves_nothing [OF wf this] show ?thesis
    unfolding Let_def by blast
qed

end
