(* ===== verification/StoreAccess.thy ===== *)
theory StoreAccess
  imports StoreAccounts
begin

text \<open>
  internal/store/store.go: who may use which EQ account (\<open>AllowedAccountIDs\<close>), which accounts a
  typed login name stands for (\<open>ResolveLoginCandidates\<close>), and the guard for restricted accounts
  (restricted_manage.go needs the account's metadata, see \<open>StoreViews\<close>).

  \<open>may_use\<close> is the policy in words of principals: an account is granted to users, roles and
  groups; a private share adds its owner and share recipients and needs a match; any other account
  without grants is open to everybody.
\<close>

section \<open>The query\<close>

text \<open>The clause \<open>gm.discord_role_id <> ''\<close> of this query is stricter than \<open>member_matches\<close>.\<close>

definition member_matches_nonempty :: "world \<Rightarrow> int \<Rightarrow> member_row \<Rightarrow> bool" where
  "member_matches_nonempty s uid m =
     (m_user m = Some uid \<or> (case m_role m of None \<Rightarrow> False | Some r \<Rightarrow> r \<noteq> [] \<and> holds_role s uid r))"

definition role_granted :: "world \<Rightarrow> int \<Rightarrow> int \<Rightarrow> bool" where
  "role_granted s uid aid = (\<exists>ar \<in> set (acc_roles s). fst ar = aid \<and> holds_role s uid (snd ar))"

definition group_granted :: "world \<Rightarrow> int \<Rightarrow> int \<Rightarrow> bool" where
  "group_granted s uid aid =
     (\<exists>gl \<in> set (links s). snd gl = aid \<and>
        (\<exists>gm \<in> set (members s). m_group gm = fst gl \<and> member_matches_nonempty s uid gm))"

definition allowed_row :: "world \<Rightarrow> int \<Rightarrow> account_row \<Rightarrow> bool" where
  "allowed_row s uid a =
     (\<not> a_disabled a \<and>
      ((a_restricted a \<and>
         (a_owner a = Some uid
          \<or> (\<exists>sh \<in> set (shares s). fst sh = a_id a \<and> snd sh = uid)
          \<or> role_granted s uid (a_id a)
          \<or> group_granted s uid (a_id a)))
       \<or>
       (\<not> a_restricted a \<and>
         ((\<not> (\<exists>ar \<in> set (acc_roles s). fst ar = a_id a)
           \<and> \<not> (\<exists>au \<in> set (acc_users s). fst au = a_id a)
           \<and> \<not> (\<exists>gl \<in> set (links s). snd gl = a_id a))
          \<or> role_granted s uid (a_id a)
          \<or> (\<exists>au \<in> set (acc_users s). fst au = a_id a \<and> snd au = uid)
          \<or> group_granted s uid (a_id a)))))"

definition AllowedAccountIDs :: "User \<Rightarrow> int list db" where
  "AllowedAccountIDs u = query (\<lambda>s. sort (map a_id (filter (allowed_row s (ID u)) (accounts s))))"

record LoginCandidate =
  CandID :: int
  ByUser :: bool
  ByTag :: bool
  ByAlias :: bool
  ByCharacter :: bool

definition Direct :: "LoginCandidate \<Rightarrow> bool" where
  "Direct c = (ByUser c \<or> ByAlias c \<or> ByCharacter c)"

definition candidate :: "world \<Rightarrow> string \<Rightarrow> string \<Rightarrow> account_row \<Rightarrow> LoginCandidate" where
  "candidate s name blind a =
     \<lparr>CandID = a_id a, ByUser = (a_username_blind a = blind),
      ByTag = (\<exists>t \<in> set (tags s). n_account t = a_id a \<and> same_name name t),
      ByAlias = (\<exists>t \<in> set (aliases s). n_account t = a_id a \<and> same_name name t),
      ByCharacter = (\<exists>t \<in> set (characters s). n_account t = a_id a \<and> same_name name t)\<rparr>"

definition ResolveLoginCandidates :: "Store \<Rightarrow> User \<Rightarrow> string \<Rightarrow> LoginCandidate list db" where
  "ResolveLoginCandidates st u name =
     andThen (AllowedAccountIDs u) (\<lambda>allowed.
     if allowed = [] then ret []
     else let name = TrimSpace name in
       if name = [] then ret []
       else let blind = BlindIndex (StoreKey st) (ToLower name) in
         query (\<lambda>s. sort_key CandID (filter (\<lambda>c. ByUser c \<or> ByTag c \<or> ByAlias c \<or> ByCharacter c)
           (map (candidate s name blind) (filter (\<lambda>a. \<not> a_disabled a \<and> a_id a \<in> set allowed) (accounts s))))))"

section \<open>The policy\<close>

datatype principal = UserP int | RoleP string | GroupP int

definition grants :: "world \<Rightarrow> int \<Rightarrow> principal set" where
  "grants s aid = RoleP ` set (role_grants aid s) \<union> GroupP ` set (group_grants aid s)"

definition named_users :: "world \<Rightarrow> int \<Rightarrow> principal set" where
  "named_users s aid = UserP ` set (user_grants aid s)"

definition recipients :: "world \<Rightarrow> int \<Rightarrow> principal set" where
  "recipients s aid = {UserP (snd sh) |sh. sh \<in> set (shares s) \<and> fst sh = aid}"

text \<open>What a user is: itself, the Discord roles it holds, the groups it is in by user or role.\<close>

definition principals :: "world \<Rightarrow> int \<Rightarrow> principal set" where
  "principals s uid = {UserP uid} \<union> {RoleP r |r. holds_role s uid r}
     \<union> {GroupP g |g. \<exists>m \<in> set (members s). m_group m = g \<and>
          (m_user m = Some uid \<or> (\<exists>r. m_role m = Some r \<and> r \<noteq> [] \<and> holds_role s uid r))}"

definition audience :: "world \<Rightarrow> account_row \<Rightarrow> principal set" where
  "audience s a =
     (if a_restricted a then UserP ` set_option (a_owner a) \<union> recipients s (a_id a) \<union> grants s (a_id a)
      else named_users s (a_id a) \<union> grants s (a_id a))"

definition may_use :: "world \<Rightarrow> int \<Rightarrow> account_row \<Rightarrow> bool" where
  "may_use s uid a \<longleftrightarrow> \<not> a_disabled a \<and>
     (principals s uid \<inter> audience s a \<noteq> {} \<or> \<not> a_restricted a \<and> audience s a = {})"

lemma role_granted_iff: "role_granted s uid aid \<longleftrightarrow> (\<exists>r \<in> set (role_grants aid s). holds_role s uid r)"
  by (force simp: role_granted_def role_grants_def)

lemma group_granted_iff:
  "group_granted s uid aid \<longleftrightarrow> (\<exists>g \<in> set (group_grants aid s). GroupP g \<in> principals s uid)"
  by (fastforce simp: group_granted_def group_grants_def principals_def member_matches_nonempty_def split: option.splits)

lemma grants_match:
  "principals s uid \<inter> grants s aid \<noteq> {} \<longleftrightarrow> role_granted s uid aid \<or> group_granted s uid aid"
  by (auto simp: role_granted_iff group_granted_iff grants_def) (auto simp: principals_def)

lemma user_match: "UserP v \<in> principals s uid \<longleftrightarrow> v = uid"
  by (auto simp: principals_def)

lemma allowed_row_policy: "allowed_row s uid a \<longleftrightarrow> may_use s uid a"
proof (cases "a_restricted a")
  case True
  have "principals s uid \<inter> audience s a \<noteq> {} \<longleftrightarrow>
      a_owner a = Some uid \<or> (\<exists>sh \<in> set (shares s). fst sh = a_id a \<and> snd sh = uid)
      \<or> principals s uid \<inter> grants s (a_id a) \<noteq> {}"
    using True by (force simp: audience_def recipients_def user_match)
  with True show ?thesis
    by (simp add: allowed_row_def may_use_def grants_match)
next
  case False
  have "principals s uid \<inter> audience s a \<noteq> {} \<longleftrightarrow>
      (\<exists>au \<in> set (acc_users s). fst au = a_id a \<and> snd au = uid) \<or> principals s uid \<inter> grants s (a_id a) \<noteq> {}"
    using False by (force simp: audience_def named_users_def user_grants_def user_match)
  moreover have "audience s a = {} \<longleftrightarrow> \<not> (\<exists>ar \<in> set (acc_roles s). fst ar = a_id a)
      \<and> \<not> (\<exists>au \<in> set (acc_users s). fst au = a_id a) \<and> \<not> (\<exists>gl \<in> set (links s). snd gl = a_id a)"
    using False by (auto simp: audience_def named_users_def grants_def user_grants_def role_grants_def group_grants_def filter_empty_conv)
  ultimately show ?thesis
    using False by (auto simp: allowed_row_def may_use_def grants_match)
qed

lemma quiet_reads:
  "role_grants a (s\<lparr>faults := fs\<rparr>) = role_grants a s" "group_grants a (s\<lparr>faults := fs\<rparr>) = group_grants a s"
  "user_grants a (s\<lparr>faults := fs\<rparr>) = user_grants a s" "principals (s\<lparr>faults := fs\<rparr>) = principals s"
  "recipients (s\<lparr>faults := fs\<rparr>) = recipients s"
  by (simp_all add: role_grants_def group_grants_def user_grants_def principals_def recipients_def fun_eq_iff)

lemma may_use_frame [simp]: "may_use (s\<lparr>faults := fs\<rparr>) = may_use s"
  by (simp add: may_use_def audience_def named_users_def grants_def quiet_reads fun_eq_iff)

lemma AllowedAccountIDs_InrD:
  assumes "AllowedAccountIDs u s = (Inr ids, s')"
  shows "\<exists>fs. s' = s\<lparr>faults := fs\<rparr>" and "ids = sort (map a_id (filter (may_use s (ID u)) (accounts s)))"
  using query_InrD [OF assms [unfolded AllowedAccountIDs_def allowed_row_policy]] by auto

text \<open>
  C11: the access query implements the policy. Whenever \<open>AllowedAccountIDs\<close> returns, its result is
  strictly increasing and lists exactly the enabled accounts the user may use: those that name
  the user, one of its Discord roles or one of its groups, private shares with their owner and
  recipients included, and the unrestricted accounts that name nobody.
\<close>

theorem allowed_accounts_follow_policy:
  assumes "wf_world s" and "AllowedAccountIDs u s = (Inr ids, s')"
  shows "sorted ids \<and> distinct ids \<and> set ids = a_id ` {a \<in> set (accounts s). may_use s (ID u) a}"
  using assms(1) AllowedAccountIDs_InrD(2) [OF assms(2)]
  by (auto simp: wf_world_def wf_accounts_def distinct_map_filterI)

definition shared_world :: world where
  "shared_world = sample_world\<lparr>accounts :=
     [\<lparr>a_id = 1, a_username_cipher = [], a_username_blind = ''b1'', a_password_cipher = [], a_notes_cipher = None,
       a_disabled = False, a_required_role = [], a_required_user = None, a_restricted = True, a_owner = Some 1, a_updated_at = 0\<rparr>,
      \<lparr>a_id = 2, a_username_cipher = [], a_username_blind = ''b2'', a_password_cipher = [], a_notes_cipher = None,
       a_disabled = False, a_required_role = [], a_required_user = None, a_restricted = False, a_owner = None, a_updated_at = 0\<rparr>],
     next_account := 3, acc_roles := [(2, ''raid'')]\<rparr>"

lemma wf_shared_world [simp]: "wf_world shared_world"
  using wf_sample_world
  by (simp add: shared_world_def sample_world_def empty_world_def wf_world_def id_sets wf_accounts_def wf_names_def
      wf_pairs_def wf_tags_def sample_user_def)

theorem allowed_accounts_follow_policy_witness:
  "fst (AllowedAccountIDs sample_user shared_world) = Inr [1]
   \<and> a_id ` {a \<in> set (accounts shared_world). may_use shared_world 1 a} = {1}"
proof -
  have run: "fst (AllowedAccountIDs sample_user shared_world) = Inr [1]"
    by code_simp
  then obtain s' where "AllowedAccountIDs sample_user shared_world = (Inr [1], s')"
    by (metis prod.collapse)
  from allowed_accounts_follow_policy [OF wf_shared_world this] run show ?thesis
    by (simp add: sample_user_def)
qed

section \<open>Login candidates\<close>

definition matched :: "LoginCandidate \<Rightarrow> bool" where
  "matched c = (Direct c \<or> ByTag c)"

lemma candidate_frame [simp]: "candidate (s\<lparr>faults := fs\<rparr>) = candidate s"
  by (simp add: candidate_def fun_eq_iff)

lemma one_name_one_row:
  assumes "distinct (map (\<lambda>n. ToLower (n_name n)) ns)" and "t \<in> set ns" "u \<in> set ns" and "same_name m t" "same_name m u"
  shows "t = u"
  by (rule unique_key_eq [OF assms(1-3)]) (use assms(4,5) in \<open>simp add: same_name_def\<close>)

lemma candidate_unique:
  assumes wf: "wf_world s" and a: "a \<in> set (accounts s)" and b: "b \<in> set (accounts s)"
    and same: "ByUser (candidate s m k a) \<and> ByUser (candidate s m k b)
      \<or> ByAlias (candidate s m k a) \<and> ByAlias (candidate s m k b)
      \<or> ByCharacter (candidate s m k a) \<and> ByCharacter (candidate s m k b)"
  shows "candidate s m k a = candidate s m k b"
proof -
  have d: "distinct (map a_id (accounts s))" "distinct (map a_username_blind (accounts s))"
      "distinct (map (\<lambda>n. ToLower (n_name n)) (aliases s))" "distinct (map (\<lambda>n. ToLower (n_name n)) (characters s))"
    using wf by (simp_all add: wf_world_def wf_accounts_def wf_names_def)
  consider "a_username_blind a = a_username_blind b"
    | t u where "t \<in> set (aliases s)" "u \<in> set (aliases s)" "same_name m t" "same_name m u" "n_account t = a_id a" "n_account u = a_id b"
    | t u where "t \<in> set (characters s)" "u \<in> set (characters s)" "same_name m t" "same_name m u" "n_account t = a_id a" "n_account u = a_id b"
    using same by (auto simp: candidate_def)
  then have "a = b"
  proof cases
    case 1
    then show ?thesis using unique_key_eq [OF d(2) a b] by simp
  next
    case 2
    then have "a_id a = a_id b" using one_name_one_row [OF d(3)] by metis
    then show ?thesis using unique_key_eq [OF d(1) a b] by simp
  next
    case 3
    then have "a_id a = a_id b" using one_name_one_row [OF d(4)] by metis
    then show ?thesis using unique_key_eq [OF d(1) a b] by simp
  qed
  then show ?thesis by simp
qed

lemma ResolveLoginCandidates_facts:
  assumes wf: "wf_world s" and run: "ResolveLoginCandidates st u name s = (Inr cs, s')"
  shows "sorted (map CandID cs) \<and> distinct (map CandID cs)
    \<and> (TrimSpace name \<noteq> [] \<longrightarrow> set cs = {c. matched c \<and> (\<exists>a \<in> set (accounts s). may_use s (ID u) a
          \<and> c = candidate s (TrimSpace name) (BlindIndex (StoreKey st) (ToLower (TrimSpace name))) a)})
    \<and> (TrimSpace name = [] \<longrightarrow> cs = [])
    \<and> (\<forall>c \<in> set cs. \<forall>d \<in> set cs. ByUser c \<and> ByUser d \<or> ByAlias c \<and> ByAlias d \<or> ByCharacter c \<and> ByCharacter d \<longrightarrow> c = d)"
proof -
  let ?n = "TrimSpace name"
  let ?cand = "candidate s ?n (BlindIndex (StoreKey st) (ToLower ?n))"
  let ?m = "\<lambda>c. ByUser c \<or> ByTag c \<or> ByAlias c \<or> ByCharacter c"
  from run obtain ids s1 where al: "AllowedAccountIDs u s = (Inr ids, s1)"
    and rest: "(if ids = [] then ret []
     else let name = ?n in if name = [] then ret []
       else let blind = BlindIndex (StoreKey st) (ToLower name) in
         query (\<lambda>s. sort_key CandID (filter ?m
           (map (candidate s name blind) (filter (\<lambda>a. \<not> a_disabled a \<and> a_id a \<in> set ids) (accounts s)))))) s1 = (Inr cs, s')"
    unfolding ResolveLoginCandidates_def by (elim andThen_InrE) (rule that)
  have dist: "distinct (map a_id (accounts s))" using wf by (simp add: wf_world_def wf_accounts_def)
  obtain fs where s1: "s1 = s\<lparr>faults := fs\<rparr>" and ids: "ids = sort (map a_id (filter (may_use s (ID u)) (accounts s)))"
    using AllowedAccountIDs_InrD [OF al] by blast
  have in_ids: "a_id a \<in> set ids \<longleftrightarrow> may_use s (ID u) a" if a: "a \<in> set (accounts s)" for a
  proof
    assume "a_id a \<in> set ids"
    then obtain b where b: "b \<in> set (accounts s)" "may_use s (ID u) b" "a_id a = a_id b" by (auto simp: ids)
    from unique_key_eq [OF dist a b(1,3)] b(2) show "may_use s (ID u) a" by simp
  qed (use a in \<open>simp add: ids\<close>)
  have rows: "filter (\<lambda>a. \<not> a_disabled a \<and> a_id a \<in> set ids) (accounts s) = filter (may_use s (ID u)) (accounts s)"
    by (intro filter_cong refl) (auto simp: in_ids may_use_def)
  have cand_id: "map CandID (map ?cand xs) = map a_id xs" for xs
    by (simp add: candidate_def comp_def)
  show ?thesis
  proof (cases "ids = [] \<or> ?n = []")
    case True
    then have "cs = []" using rest by (auto simp: Let_def split: if_splits)
    moreover have "ids = [] \<longrightarrow> (\<forall>a \<in> set (accounts s). \<not> may_use s (ID u) a)"
      using in_ids by auto
    ultimately show ?thesis using True by auto
  next
    case False
    then have q: "query (\<lambda>s. sort_key CandID (filter ?m (map (candidate s ?n (BlindIndex (StoreKey st) (ToLower ?n)))
        (filter (\<lambda>a. \<not> a_disabled a \<and> a_id a \<in> set ids) (accounts s))))) s1 = (Inr cs, s')"
      using rest by (simp add: Let_def)
    from query_InrD [OF q] obtain gs where "s' = s1\<lparr>faults := gs\<rparr>"
      and "cs = sort_key CandID (filter ?m (map (candidate s' ?n (BlindIndex (StoreKey st) (ToLower ?n)))
        (filter (\<lambda>a. \<not> a_disabled a \<and> a_id a \<in> set ids) (accounts s'))))"
      by blast
    then have cs: "cs = sort_key CandID (filter ?m (map ?cand (filter (may_use s (ID u)) (accounts s))))"
      by (simp add: s1 rows)
    have "distinct (map CandID (map ?cand (filter (may_use s (ID u)) (accounts s))))"
      unfolding cand_id by (rule distinct_map_filterI [OF dist])
    then have "distinct (map CandID (filter ?m (map ?cand (filter (may_use s (ID u)) (accounts s)))))"
      by (rule distinct_map_filterI)
    then have d: "distinct (map CandID cs)"
      unfolding cs by (simp only: distinct_map distinct_sort set_sort)
    have set: "set cs = {c. matched c \<and> (\<exists>a \<in> set (accounts s). may_use s (ID u) a \<and> c = ?cand a)}"
      unfolding cs by (auto simp: matched_def Direct_def)
    have "\<forall>c \<in> set cs. \<forall>d \<in> set cs. ByUser c \<and> ByUser d \<or> ByAlias c \<and> ByAlias d \<or> ByCharacter c \<and> ByCharacter d \<longrightarrow> c = d"
      using candidate_unique [OF wf] unfolding set by blast
    moreover have "sorted (map CandID cs)" unfolding cs by (rule sorted_sort_key)
    moreover have "?n \<noteq> []" using False by blast
    ultimately show ?thesis using d set by blast
  qed
qed

lemma AllowedAccountIDs_mem:
  "AllowedAccountIDs u s = (Inr ids, s') \<Longrightarrow> i \<in> set ids \<Longrightarrow> \<exists>a \<in> set (accounts s). a_id a = i \<and> may_use s (ID u) a"
  by (drule AllowedAccountIDs_InrD(2)) auto

lemma ResolveLoginCandidates_no_faults:
  "faults s = [] \<Longrightarrow> \<exists>cs. ResolveLoginCandidates st u name s = (Inr cs, s)"
  by (simp add: ResolveLoginCandidates_def AllowedAccountIDs_def andThen_def query_no_faults Let_def)

text \<open>
  What a typed text stands for, said of the tables: \<open>called rows text a\<close> when one of the names of
  account \<open>a\<close> in \<open>rows\<close> is the trimmed text, in any case; login names are compared by their keyed digests.
\<close>

definition called :: "name_row list \<Rightarrow> string \<Rightarrow> account_row \<Rightarrow> bool" where
  "called rows text a \<longleftrightarrow> (\<exists>t \<in> set rows. n_account t = a_id a \<and> ToLower (n_name t) = ToLower (TrimSpace text))"

definition login_name_is :: "Store \<Rightarrow> string \<Rightarrow> account_row \<Rightarrow> bool" where
  "login_name_is st text a \<longleftrightarrow> a_username_blind a = BlindIndex (StoreKey st) (ToLower (TrimSpace text))"

definition stands_for :: "world \<Rightarrow> Store \<Rightarrow> string \<Rightarrow> account_row \<Rightarrow> bool" where
  "stands_for s st text a \<longleftrightarrow>
     login_name_is st text a \<or> called (tags s) text a \<or> called (aliases s) text a \<or> called (characters s) text a"

lemma candidate_stands_for:
  "c = candidate s (TrimSpace text) (BlindIndex (StoreKey st) (ToLower (TrimSpace text))) a \<Longrightarrow>
   CandID c = a_id a \<and> (ByUser c \<longleftrightarrow> login_name_is st text a) \<and> (ByTag c \<longleftrightarrow> called (tags s) text a)
   \<and> (ByAlias c \<longleftrightarrow> called (aliases s) text a) \<and> (ByCharacter c \<longleftrightarrow> called (characters s) text a)
   \<and> (matched c \<longleftrightarrow> stands_for s st text a)"
  by (auto simp: candidate_def login_name_is_def called_def stands_for_def matched_def Direct_def same_name_def)

text \<open>
  C17: what a typed login name stands for. The candidates are, in the order of their ids and each
  once, exactly the accounts the user may use whose login name, tag, alias or character is the
  trimmed text in any case, and each says by which of the four it was found; among them at most one
  matches by login name, one by alias and one by character, so only a tag can leave a choice. A
  blank name has no candidates.
\<close>

theorem login_candidates_exact:
  assumes wf: "wf_world s" and run: "ResolveLoginCandidates st u name s = (Inr cs, s')"
  shows "sorted (map CandID cs) \<and> distinct (map CandID cs)
    \<and> (TrimSpace name \<noteq> [] \<longrightarrow> CandID ` set cs = a_id ` {a \<in> set (accounts s). may_use s (ID u) a \<and> stands_for s st name a})
    \<and> (TrimSpace name = [] \<longrightarrow> cs = [])
    \<and> (\<forall>c \<in> set cs. \<exists>a \<in> set (accounts s). a_id a = CandID c \<and> (ByUser c \<longleftrightarrow> login_name_is st name a)
          \<and> (ByTag c \<longleftrightarrow> called (tags s) name a) \<and> (ByAlias c \<longleftrightarrow> called (aliases s) name a)
          \<and> (ByCharacter c \<longleftrightarrow> called (characters s) name a))
    \<and> (\<forall>c \<in> set cs. \<forall>d \<in> set cs. ByUser c \<and> ByUser d \<or> ByAlias c \<and> ByAlias d \<or> ByCharacter c \<and> ByCharacter d \<longrightarrow> c = d)"
proof -
  let ?cand = "candidate s (TrimSpace name) (BlindIndex (StoreKey st) (ToLower (TrimSpace name)))"
  let ?fits = "\<lambda>c a. (ByUser c \<longleftrightarrow> login_name_is st name a) \<and> (ByTag c \<longleftrightarrow> called (tags s) name a)
      \<and> (ByAlias c \<longleftrightarrow> called (aliases s) name a) \<and> (ByCharacter c \<longleftrightarrow> called (characters s) name a)"
  note f = ResolveLoginCandidates_facts [OF assms]
  have cand: "CandID (?cand a) = a_id a" "matched (?cand a) \<longleftrightarrow> stands_for s st name a" "?fits (?cand a) a" for a
    using candidate_stands_for [OF refl, of s name st a] by blast+
  have mem: "c \<in> set cs \<longleftrightarrow> TrimSpace name \<noteq> [] \<and> (\<exists>a \<in> set (accounts s). may_use s (ID u) a \<and> stands_for s st name a \<and> c = ?cand a)" for c
  proof (cases "TrimSpace name = []")
    case True
    with f show ?thesis by simp
  next
    case False
    then have "set cs = {c. matched c \<and> (\<exists>a \<in> set (accounts s). may_use s (ID u) a \<and> c = ?cand a)}" using f by blast
    then show ?thesis using False by (simp only: mem_Collect_eq) (auto simp: cand(2))
  qed
  have "CandID ` set cs = a_id ` {a \<in> set (accounts s). may_use s (ID u) a \<and> stands_for s st name a}" if name: "TrimSpace name \<noteq> []"
  proof (rule set_eqI)
    fix i
    have "i \<in> CandID ` set cs \<longleftrightarrow> (\<exists>a \<in> set (accounts s). may_use s (ID u) a \<and> stands_for s st name a \<and> i = CandID (?cand a))"
      unfolding image_iff Bex_def mem using name by blast
    then show "i \<in> CandID ` set cs \<longleftrightarrow> i \<in> a_id ` {a \<in> set (accounts s). may_use s (ID u) a \<and> stands_for s st name a}"
      unfolding cand(1) by blast
  qed
  moreover have "\<exists>a \<in> set (accounts s). a_id a = CandID c \<and> ?fits c a" if "c \<in> set cs" for c
  proof -
    from that mem obtain a where "a \<in> set (accounts s)" "c = ?cand a" by blast
    then show ?thesis using cand(1,3) by (intro bexI [of _ a]) simp_all
  qed
  ultimately show ?thesis using f by blast
qed

theorem login_candidates_exact_witness:
  "let s = shared_world\<lparr>aliases := [\<lparr>n_name = ''Tank'', n_account = 1\<rparr>]\<rparr> in
   \<exists>cs s'. ResolveLoginCandidates sample_store sample_user '' tANK'' s = (Inr cs, s')
     \<and> (\<exists>c \<in> set cs. CandID c = 1 \<and> ByAlias c)"
proof -
  let ?s = "shared_world\<lparr>aliases := [\<lparr>n_name = ''Tank'', n_account = 1\<rparr>]\<rparr>"
  let ?n = "TrimSpace '' tANK''"
  have wf: "wf_world ?s"
    using wf_shared_world by (simp add: wf_world_def wf_names_def shared_world_def id_sets)
  have n: "?n = ''tANK''" and tank: "ToLower ''Tank'' = ToLower ''tANK''" by code_simp+
  have no: "faults ?s = []" by (simp add: shared_world_def sample_world_def empty_world_def)
  have "fst (AllowedAccountIDs sample_user ?s) = Inr [1]" by code_simp
  then have al: "AllowedAccountIDs sample_user ?s = (Inr [1], ?s)"
    using no by (simp add: AllowedAccountIDs_def query_no_faults)
  obtain cs where r: "ResolveLoginCandidates sample_store sample_user '' tANK'' ?s = (Inr cs, ?s)"
    using ResolveLoginCandidates_no_faults [OF no] by blast
  have "1 \<in> set [1::int]" by simp
  from AllowedAccountIDs_mem [OF al this] obtain a where a: "a \<in> set (accounts ?s)" "a_id a = 1" "may_use ?s (ID sample_user) a"
    by blast
  have tank': "called (aliases ?s) '' tANK'' a" using a(2) by (simp add: called_def n tank)
  then have "stands_for ?s sample_store '' tANK'' a" by (simp add: stands_for_def)
  moreover have "?n \<noteq> []" by (simp add: n)
  ultimately have "1 \<in> CandID ` set cs"
    using login_candidates_exact [OF wf r] imageI [of a "{a \<in> set (accounts ?s). may_use ?s (ID sample_user) a \<and> stands_for ?s sample_store '' tANK'' a}" a_id] a
    by simp
  then obtain c where c: "c \<in> set cs" "CandID c = 1" by auto
  have "\<forall>c \<in> set cs. \<exists>b \<in> set (accounts ?s). a_id b = CandID c \<and> (ByAlias c \<longleftrightarrow> called (aliases ?s) '' tANK'' b)"
    using login_candidates_exact [OF wf r] by blast
  with c obtain b where b: "b \<in> set (accounts ?s)" "a_id b = 1" "ByAlias c \<longleftrightarrow> called (aliases ?s) '' tANK'' b" by auto
  have "distinct (map a_id (accounts ?s))" using wf by (simp add: wf_world_def wf_accounts_def)
  from unique_key_eq [OF this b(1) a(1)] a(2) b(2) have "b = a" by simp
  with r c b(3) tank' show ?thesis unfolding Let_def by blast
qed

end
