(* ===== verification/StoreViews.thy ===== *)
theory StoreViews
  imports StoreAccess
begin

text \<open>
  internal/store/store.go, what clients are shown: account metadata, the full state of a user,
  characters, the audit trail, share activity, the directory and the Discord role names; and
  restricted_manage.go, the guard that reads this metadata.

  Times are the integers of the clock. A listing that the code sorts with \<open>sort.Slice\<close> is sorted
  by the key its comparison stands for; where that key can tie (\<open>BuildShareOnline\<close>) Go leaves the
  order of the tied rows open and the model keeps them in place. The loops over Go maps (the
  account ids of an audit page) run in the order of first occurrence.
\<close>

named_theorems reads_rules

section \<open>Read-only actions\<close>

text \<open>Only the faults of the connection are used up, on success and on every error path.\<close>

definition reads :: "'a db \<Rightarrow> bool" where
  "reads m = (\<forall>s. \<exists>fs. snd (m s) = s\<lparr>faults := fs\<rparr>)"

lemma readsD: "reads m \<Longrightarrow> m s = (r, s') \<Longrightarrow> \<exists>fs. s' = s\<lparr>faults := fs\<rparr>"
  unfolding reads_def by (metis snd_conv)

lemma reads_ret [reads_rules]: "reads (ret x)"
  unfolding reads_def by (simp, metis world.surjective world.update_convs(22))

lemma reads_fail [reads_rules]: "reads (fail e)"
  unfolding reads_def by (simp, metis world.surjective world.update_convs(22))

lemma reads_stmt: "(\<And>s. snd (m s) = s) \<Longrightarrow> reads (stmt m)"
proof -
  assume m: "\<And>s. snd (m s) = s"
  have "\<exists>fs. snd (stmt m s) = s\<lparr>faults := fs\<rparr>" for s
  proof (cases "faults s")
    case Nil
    then have "snd (stmt m s) = s\<lparr>faults := faults s\<rparr>"
      by (simp add: stmt_def m)
    then show ?thesis by blast
  next
    case (Cons f fs)
    then show ?thesis by (cases f) (auto simp: stmt_def m)
  qed
  then show ?thesis by (simp add: reads_def)
qed

lemma reads_query [reads_rules]: "reads (query f)"
  unfolding query_def by (rule reads_stmt) simp

lemma reads_query_row [reads_rules]: "reads (query_row f)"
  unfolding query_row_def by (rule reads_stmt) (simp split: list.splits)

lemma reads_twice:
  assumes "reads m" and "m s = (r, s')" and "reads n"
  shows "\<exists>fs. snd (n s') = s\<lparr>faults := fs\<rparr>"
proof -
  obtain fs where "s' = s\<lparr>faults := fs\<rparr>" using readsD [OF assms(1,2)] by blast
  moreover obtain gs where "snd (n s') = s'\<lparr>faults := gs\<rparr>" using assms(3) by (auto simp: reads_def)
  ultimately show ?thesis by auto
qed

lemma reads_andThen [reads_rules]: "reads m \<Longrightarrow> (\<And>x. reads (f x)) \<Longrightarrow> reads (andThen m f)"
proof -
  assume m: "reads m" and f: "\<And>x. reads (f x)"
  have "\<exists>fs. snd (andThen m f s) = s\<lparr>faults := fs\<rparr>" for s
  proof -
    obtain r s' where r: "m s = (r, s')" by (cases "m s")
    show ?thesis
      using readsD [OF m r] reads_twice [OF m r f] by (cases r) (simp_all add: andThen_def r)
  qed
  then show ?thesis by (simp add: reads_def)
qed

lemma reads_attempt [reads_rules]: "reads m \<Longrightarrow> (\<And>r. reads (f r)) \<Longrightarrow> reads (attempt m f)"
proof -
  assume m: "reads m" and f: "\<And>x. reads (f x)"
  have "\<exists>fs. snd (attempt m f s) = s\<lparr>faults := fs\<rparr>" for s
  proof -
    obtain r s' where r: "m s = (r, s')" by (cases "m s")
    show ?thesis
      using reads_twice [OF m r f] by (simp add: attempt_def r)
  qed
  then show ?thesis by (simp add: reads_def)
qed

lemma reads_if [reads_rules]: "(b \<Longrightarrow> reads m) \<Longrightarrow> (\<not> b \<Longrightarrow> reads n) \<Longrightarrow> reads (if b then m else n)"
  by simp

lemma reads_option [reads_rules]: "reads m \<Longrightarrow> (\<And>y. reads (f y)) \<Longrightarrow> reads (case x of None \<Rightarrow> m | Some y \<Rightarrow> f y)"
  by (cases x) auto

lemma reads_sum [reads_rules]: "(\<And>e. reads (f e)) \<Longrightarrow> (\<And>y. reads (g y)) \<Longrightarrow> reads (case x of Inl e \<Rightarrow> f e | Inr y \<Rightarrow> g y)"
  by (cases x) auto

lemma reads_prod [reads_rules]: "(\<And>a b. reads (f a b)) \<Longrightarrow> reads (case x of (a, b) \<Rightarrow> f a b)"
  by (cases x) auto

lemma reads_collect_each [reads_rules]: "(\<And>x. reads (f x)) \<Longrightarrow> reads (collect_each f xs)"
  by (induction xs) (auto intro!: reads_rules)

lemma reads_keeps: "reads m \<Longrightarrow> quiet I \<Longrightarrow> keeps I m"
  unfolding reads_def keeps_def by (metis quiet_simps(1))

text \<open>A listing whose query error is dropped: the caller sees an empty list.\<close>

definition query_list :: "(world \<Rightarrow> 'a list) \<Rightarrow> 'a list db" where
  "query_list f = attempt (query f) (\<lambda>r. ret (case r of Inl _ \<Rightarrow> [] | Inr xs \<Rightarrow> xs))"

lemma reads_query_list [reads_rules]: "reads (query_list f)"
  unfolding query_list_def by (intro reads_rules)

lemma query_list_InrD:
  assumes "query_list f s = (Inr xs, s')"
  shows "\<exists>fs. s' = s\<lparr>faults := fs\<rparr>" and "xs = [] \<or> xs = f s'"
proof -
  show "\<exists>fs. s' = s\<lparr>faults := fs\<rparr>"
    by (rule readsD [OF reads_query_list assms])
  obtain r s1 where "query f s = (r, s1)" by (cases "query f s")
  with assms query_InrD [of f s] show "xs = [] \<or> xs = f s'"
    by (cases r) (auto simp: query_list_def attempt_def)
qed

lemma query_list_no_faults [act_simps]: "faults s = [] \<Longrightarrow> query_list f s = (Inr (f s), s)"
  by (simp add: query_list_def attempt_def query_no_faults)

section \<open>Account metadata\<close>

record EQAccountMeta =
  MetaID :: int
  Username :: string
  Disabled :: bool
  Elevated :: bool
  RequiredRoleID :: string
  RequiredRoleIDs :: "string list"
  RequiredUserID :: int
  RequiredUserIDs :: "int list"
  GroupIDs :: "int list"
  Restricted :: bool
  OwnerUserID :: int
  SharedUserIDs :: "int list"
  Aliases :: "string list"
  Tags :: "string list"
  Characters :: "string list"

text \<open>A sealed column shown in clear when it opens, and as the empty string when not.\<close>

definition shown :: "Store \<Rightarrow> string \<Rightarrow> bytes \<Rightarrow> string" where
  "shown st aad c =
     (if c = [] then [] else case OpenString (StoreAEAD st) c aad of Inl _ \<Rightarrow> [] | Inr name \<Rightarrow> name)"

definition listAccountRoleIDs :: "int \<Rightarrow> string list db" where
  "listAccountRoleIDs accountID = query_list (\<lambda>s. sort (role_grants accountID s))"

definition listAccountUserIDs :: "int \<Rightarrow> int list db" where
  "listAccountUserIDs accountID = query_list (\<lambda>s. sort (user_grants accountID s))"

definition listAccountGroupIDs :: "int \<Rightarrow> int list db" where
  "listAccountGroupIDs accountID = query_list (\<lambda>s. sort (group_grants accountID s))"

definition listShareUserIDs :: "int \<Rightarrow> int list db" where
  "listShareUserIDs accountID = query_list (\<lambda>s. sort (map snd (filter (\<lambda>sh. fst sh = accountID) (shares s))))"

definition names_of :: "int \<Rightarrow> name_row list \<Rightarrow> string list" where
  "names_of accountID rows = map n_name (filter (\<lambda>n. n_account n = accountID) rows)"

definition fillAccountLists :: "EQAccountMeta \<Rightarrow> EQAccountMeta db" where
  "fillAccountLists meta =
     andThen (query_list (\<lambda>s. sort_key (\<lambda>a. (ToLower a, a)) (names_of (MetaID meta) (aliases s)))) (\<lambda>als.
     andThen (query_list (\<lambda>s. sort_key (\<lambda>t. (ToLower t, t)) (names_of (MetaID meta) (tags s)))) (\<lambda>ts.
     andThen (query_list (\<lambda>s. sort (names_of (MetaID meta) (characters s)))) (\<lambda>cs.
     ret (meta\<lparr>Aliases := als, Tags := ts, Characters := cs\<rparr>))))"

definition owner_id :: "account_row \<Rightarrow> int" where
  "owner_id a = (case a_owner a of None \<Rightarrow> 0 | Some u \<Rightarrow> u)"

text \<open>The row alone, before the lists are read.\<close>

definition meta_of_account :: "Store \<Rightarrow> int \<Rightarrow> account_row \<Rightarrow> EQAccountMeta" where
  "meta_of_account st i a =
     (let reqUser = (case a_required_user a of None \<Rightarrow> 0 | Some u \<Rightarrow> u) in
      \<lparr>MetaID = i, Username = shown st ''eq_accounts.username'' (a_username_cipher a),
       Disabled = a_disabled a, Elevated = (a_required_role a \<noteq> [] \<or> reqUser > 0),
       RequiredRoleID = a_required_role a, RequiredRoleIDs = [], RequiredUserID = reqUser,
       RequiredUserIDs = [], GroupIDs = [], Restricted = a_restricted a, OwnerUserID = owner_id a,
       SharedUserIDs = [], Aliases = [], Tags = [], Characters = []\<rparr>)"

definition with_grants :: "string list \<Rightarrow> int list \<Rightarrow> int list \<Rightarrow> EQAccountMeta \<Rightarrow> EQAccountMeta" where
  "with_grants roles us gs meta =
     meta\<lparr>Elevated := roles \<noteq> [] \<or> us \<noteq> [] \<or> gs \<noteq> [],
       RequiredRoleID := (case roles of [] \<Rightarrow> [] | r # _ \<Rightarrow> r), RequiredRoleIDs := roles,
       RequiredUserID := (case us of [] \<Rightarrow> 0 | u # _ \<Rightarrow> u), RequiredUserIDs := us, GroupIDs := gs\<rparr>"

definition shows_shares :: "User option \<Rightarrow> EQAccountMeta \<Rightarrow> bool" where
  "shows_shares viewer meta =
     (case viewer of None \<Rightarrow> True | Some v \<Rightarrow> OwnerUserID meta > 0 \<and> ID v = OwnerUserID meta)"

definition loadEQAccountMeta :: "Store \<Rightarrow> int \<Rightarrow> User option \<Rightarrow> EQAccountMeta db" where
  "loadEQAccountMeta st i viewer =
     andThen (query_row (\<lambda>s. filter (\<lambda>a. a_id a = i) (accounts s))) (\<lambda>a.
     andThen (fillAccountLists (meta_of_account st i a)) (\<lambda>meta.
     andThen (listAccountRoleIDs i) (\<lambda>roles.
     andThen (listAccountUserIDs i) (\<lambda>us.
     andThen (listAccountGroupIDs i) (\<lambda>gs.
     andThen (if shows_shares viewer meta \<and> a_restricted a then listShareUserIDs i else ret []) (\<lambda>sh.
     ret ((with_grants roles us gs meta)\<lparr>SharedUserIDs := sh\<rparr>)))))))"

definition LoadEQAccountMeta :: "Store \<Rightarrow> int \<Rightarrow> EQAccountMeta db" where
  "LoadEQAccountMeta st i = loadEQAccountMeta st i None"

definition LoadEQAccountMetaForViewer :: "Store \<Rightarrow> int \<Rightarrow> User \<Rightarrow> EQAccountMeta db" where
  "LoadEQAccountMetaForViewer st i viewer = loadEQAccountMeta st i (Some viewer)"

definition GetEQAccountMeta :: "Store \<Rightarrow> int \<Rightarrow> EQAccountMeta db" where
  "GetEQAccountMeta st i = loadEQAccountMeta st i None"

text \<open>The order of the account listings: by lower-case name, nameless ones last, then by id.\<close>

definition meta_order :: "EQAccountMeta \<Rightarrow> bool \<times> string \<times> int" where
  "meta_order m = (let n = ToLower (Username m) in (n = [], n, MetaID m))"

text \<open>Accounts whose metadata cannot be loaded are skipped.\<close>

definition load_all :: "Store \<Rightarrow> User option \<Rightarrow> int list \<Rightarrow> EQAccountMeta list db" where
  "load_all st viewer = collect_each (\<lambda>i. attempt (loadEQAccountMeta st i viewer)
     (\<lambda>r. ret (case r of Inl _ \<Rightarrow> None | Inr m \<Rightarrow> Some m)))"

definition ListEQAccountMetas :: "Store \<Rightarrow> User option \<Rightarrow> bool \<Rightarrow> EQAccountMeta list db" where
  "ListEQAccountMetas st forUser includeDisabled =
     andThen (case forUser of Some u \<Rightarrow> AllowedAccountIDs u
              | None \<Rightarrow> query (\<lambda>s. sort (map a_id (filter (\<lambda>a. includeDisabled \<or> \<not> a_disabled a) (accounts s))))) (\<lambda>ids.
     andThen (load_all st forUser ids) (\<lambda>out. ret (sort_key meta_order out)))"

record OnlineEntry =
  OnlineAccountID :: int
  OnlineCharacter :: string

record FullState =
  FullAccounts :: "EQAccountMeta list"
  FullOnline :: "OnlineEntry list"

definition FullStateForUser :: "Store \<Rightarrow> User \<Rightarrow> OnlineEntry list \<Rightarrow> FullState db" where
  "FullStateForUser st u online =
     andThen (AllowedAccountIDs u) (\<lambda>ids.
     let filteredOnline = filter (\<lambda>e. OnlineAccountID e \<in> set ids) online in
     if ids = [] then ret \<lparr>FullAccounts = [], FullOnline = filteredOnline\<rparr>
     else andThen (load_all st (Some u) ids) (\<lambda>ms.
       ret \<lparr>FullAccounts = sort_key meta_order ms, FullOnline = filteredOnline\<rparr>))"

record CharacterListing =
  CharName :: string
  CharAccountID :: int
  CharUsername :: string

definition ListCharacters :: "Store \<Rightarrow> int \<Rightarrow> CharacterListing list db" where
  "ListCharacters st accountID =
     query (\<lambda>s. map (\<lambda>(c, a). \<lparr>CharName = n_name c, CharAccountID = n_account c,
          CharUsername = shown st ''eq_accounts.username'' (a_username_cipher a)\<rparr>)
       (sort_key (\<lambda>(c, a). ToLower (n_name c))
         (filter (\<lambda>(c, a). accountID > 0 \<longrightarrow> n_account c = accountID)
           (concat (map (\<lambda>c. map (Pair c) (filter (\<lambda>a. a_id a = n_account c) (accounts s))) (characters s))))))"

section \<open>The restricted-account guard\<close>

definition CheckRestrictedAccountManage :: "Store \<Rightarrow> int \<Rightarrow> int \<Rightarrow> bool \<Rightarrow> bool \<Rightarrow> unit db" where
  "CheckRestrictedAccountManage st accountID actorUserID setAccess setPassword =
     andThen (LoadEQAccountMeta st accountID) (\<lambda>meta.
     if \<not> Restricted meta then ret ()
     else if setAccess then fail ErrShareAccessManagedInGUI
     else if setPassword then fail ErrSharePasswordManagedInGUI
     else if OwnerUserID meta \<noteq> actorUserID then fail ErrShareNotOwner
     else ret ())"

section \<open>What the metadata says\<close>

lemma reads_listings [reads_rules]:
  "reads (listAccountRoleIDs i)" "reads (listAccountUserIDs i)" "reads (listAccountGroupIDs i)"
  "reads (listShareUserIDs i)" "reads (fillAccountLists m)"
  unfolding listAccountRoleIDs_def listAccountUserIDs_def listAccountGroupIDs_def listShareUserIDs_def fillAccountLists_def
  by (intro reads_rules)+

lemma reads_loadEQAccountMeta [reads_rules]: "reads (loadEQAccountMeta st i v)"
  unfolding loadEQAccountMeta_def by (intro reads_rules)

lemma reads_AllowedAccountIDs [reads_rules]: "reads (AllowedAccountIDs u)"
  unfolding AllowedAccountIDs_def by (rule reads_query)

lemma reads_load_all [reads_rules]: "reads (load_all st v ids)"
  unfolding load_all_def by (intro reads_rules)

lemma reads_FullStateForUser [reads_rules]: "reads (FullStateForUser st u online)"
  unfolding FullStateForUser_def Let_def by (intro reads_rules)

lemma reads_CheckRestrictedAccountManage [reads_rules]: "reads (CheckRestrictedAccountManage st i u a p)"
  unfolding CheckRestrictedAccountManage_def LoadEQAccountMeta_def by (intro reads_rules)

text \<open>What a row of metadata promises about the account it was loaded from.\<close>

definition meta_of_row :: "Store \<Rightarrow> world \<Rightarrow> User option \<Rightarrow> EQAccountMeta \<Rightarrow> account_row \<Rightarrow> bool" where
  "meta_of_row st s viewer m a \<longleftrightarrow>
     a \<in> set (accounts s) \<and> a_id a = MetaID m \<and> Username m = shown st ''eq_accounts.username'' (a_username_cipher a)
     \<and> Disabled m = a_disabled a \<and> Restricted m = a_restricted a \<and> OwnerUserID m = owner_id a
     \<and> (SharedUserIDs m \<noteq> [] \<longrightarrow> a_restricted a \<and> (\<forall>v. viewer = Some v \<longrightarrow> a_owner a = Some (ID v))
          \<and> SharedUserIDs m = sort (map snd (filter (\<lambda>sh. fst sh = MetaID m) (shares s))))"

lemma meta_of_row_frame [simp]: "meta_of_row st (s\<lparr>faults := fs\<rparr>) = meta_of_row st s"
  by (simp add: meta_of_row_def fun_eq_iff)

lemma fillAccountLists_InrD:
  assumes "fillAccountLists m s = (Inr m', s')"
  obtains als ts cs where "m' = m\<lparr>Aliases := als, Tags := ts, Characters := cs\<rparr>"
  using assms unfolding fillAccountLists_def by (elim andThen_InrE) (rule that, rule sym, simp)

lemma listShareUserIDs_InrD:
  assumes "listShareUserIDs i s = (Inr xs, s')"
  shows "xs = [] \<or> xs = sort (map snd (filter (\<lambda>sh. fst sh = i) (shares s)))"
proof -
  note l = assms [unfolded listShareUserIDs_def]
  from query_list_InrD(1) [OF l] obtain fs where "s' = s\<lparr>faults := fs\<rparr>" by blast
  with query_list_InrD(2) [OF l] show ?thesis by simp
qed

lemma loadEQAccountMeta_InrD:
  assumes "loadEQAccountMeta st i v s = (Inr m, s')"
  shows "MetaID m = i" and "\<exists>a. meta_of_row st s v m a"
proof -
  let ?q = "query_row (\<lambda>s. filter (\<lambda>a. a_id a = i) (accounts s))"
  from assms obtain a s1 m1 s2 roles s3 us s4 gs s5 sh s6 where
    q: "?q s = (Inr a, s1)" and f: "fillAccountLists (meta_of_account st i a) s1 = (Inr m1, s2)"
    and l: "listAccountRoleIDs i s2 = (Inr roles, s3)" "listAccountUserIDs i s3 = (Inr us, s4)" "listAccountGroupIDs i s4 = (Inr gs, s5)"
    and sh: "(if shows_shares v m1 \<and> a_restricted a then listShareUserIDs i else ret []) s5 = (Inr sh, s6)"
    and m: "ret ((with_grants roles us gs m1)\<lparr>SharedUserIDs := sh\<rparr>) s6 = (Inr m, s')"
    unfolding loadEQAccountMeta_def by (elim andThen_InrE) (rule that)
  from m have m: "m = (with_grants roles us gs m1)\<lparr>SharedUserIDs := sh\<rparr>"
    by simp
  from query_row_InrD [OF q] obtain fs1 rest where s1: "s1 = s\<lparr>faults := fs1\<rparr>"
    and rows: "filter (\<lambda>a. a_id a = i) (accounts s1) = a # rest"
    by blast
  from filter_ConsD [OF rows] have a: "a \<in> set (accounts s)" "a_id a = i"
    by (simp_all add: s1)
  obtain fs5 where s5: "s5 = s\<lparr>faults := fs5\<rparr>"
    using readsD [OF reads_listings(5) f] readsD [OF reads_listings(1) l(1)] readsD [OF reads_listings(2) l(2)]
      readsD [OF reads_listings(3) l(3)] s1 by auto
  obtain als ts cs where m1: "m1 = (meta_of_account st i a)\<lparr>Aliases := als, Tags := ts, Characters := cs\<rparr>"
    by (rule fillAccountLists_InrD [OF f])
  have o1: "OwnerUserID m1 = owner_id a"
    by (simp add: m1 meta_of_account_def Let_def)
  have shares: "sh \<noteq> [] \<longrightarrow> a_restricted a \<and> (\<forall>u. v = Some u \<longrightarrow> a_owner a = Some (ID u))
      \<and> sh = sort (map snd (filter (\<lambda>x. fst x = i) (shares s)))"
  proof (cases "shows_shares v m1 \<and> a_restricted a")
    case True
    then have "listShareUserIDs i s5 = (Inr sh, s6)" using sh by simp
    from listShareUserIDs_InrD [OF this] have "sh = [] \<or> sh = sort (map snd (filter (\<lambda>x. fst x = i) (shares s)))"
      by (simp add: s5)
    moreover have "\<forall>u. v = Some u \<longrightarrow> a_owner a = Some (ID u)"
      using True by (auto simp: shows_shares_def o1 owner_id_def split: option.splits)
    ultimately show ?thesis using True by blast
  next
    case False
    then have "sh = []" using sh by (simp only: if_False ret_def) simp
    then show ?thesis by simp
  qed
  show "MetaID m = i" by (simp add: m m1 with_grants_def meta_of_account_def Let_def)
  show "\<exists>a. meta_of_row st s v m a"
    using a shares by (intro exI [of _ a]) (simp add: meta_of_row_def m m1 with_grants_def meta_of_account_def Let_def)
qed

lemma loadEQAccountMeta_no_faults:
  assumes "faults s = []" and "i \<in> account_ids s"
  shows "\<exists>m. loadEQAccountMeta st i v s = (Inr m, s)"
proof -
  from assms(2) obtain a as where "filter (\<lambda>a. a_id a = i) (accounts s) = a # as"
    by (cases "filter (\<lambda>a. a_id a = i) (accounts s)") (auto simp: account_ids_def filter_empty_conv)
  then show ?thesis
    using assms(1)
    by (auto simp: loadEQAccountMeta_def Let_def andThen_def query_row_no_faults fillAccountLists_def query_list_no_faults
        listAccountRoleIDs_def listAccountUserIDs_def listAccountGroupIDs_def listShareUserIDs_def)
qed

lemma load_all_InrD:
  "load_all st v ids s = (Inr ms, s') \<Longrightarrow>
   set (map MetaID ms) \<subseteq> set ids \<and> (distinct ids \<longrightarrow> distinct (map MetaID ms)) \<and> (\<forall>m \<in> set ms. \<exists>a. meta_of_row st s v m a)"
proof (induction ids arbitrary: s ms)
  case Nil
  then show ?case by (simp add: load_all_def)
next
  case (Cons i ids)
  obtain r s1 where r: "loadEQAccountMeta st i v s = (r, s1)" by (cases "loadEQAccountMeta st i v s")
  from Cons.prems obtain ms1 where rest: "load_all st v ids s1 = (Inr ms1, s')"
    and ms: "ms = (case r of Inl _ \<Rightarrow> ms1 | Inr m \<Rightarrow> m # ms1)"
    by (auto simp: load_all_def attempt_def r elim!: andThen_InrE split: sum.splits)
  obtain fs where s1: "s1 = s\<lparr>faults := fs\<rparr>" using readsD [OF reads_loadEQAccountMeta r] by blast
  note IH = Cons.IH [OF rest, unfolded s1 meta_of_row_frame]
  show ?case
  proof (cases r)
    case (Inl e)
    with IH ms show ?thesis by auto
  next
    case (Inr m)
    with r loadEQAccountMeta_InrD [of st i v s m s1] have "MetaID m = i" "\<exists>a. meta_of_row st s v m a" by auto
    with IH ms Inr show ?thesis by auto
  qed
qed

lemma load_all_no_faults:
  "faults s = [] \<Longrightarrow> set ids \<subseteq> account_ids s \<Longrightarrow> load_all st v ids s = (Inr ms, s') \<Longrightarrow> set ids = set (map MetaID ms)"
proof (induction ids arbitrary: ms)
  case Nil
  then show ?case by (simp add: load_all_def)
next
  case (Cons i ids)
  from Cons.prems loadEQAccountMeta_no_faults [of s i st v] obtain m where r: "loadEQAccountMeta st i v s = (Inr m, s)"
    by auto
  from Cons.prems(3) obtain ms1 where rest: "load_all st v ids s = (Inr ms1, s')" and ms: "ms = m # ms1"
    by (auto simp: load_all_def attempt_def r elim!: andThen_InrE)
  from Cons.IH [OF Cons.prems(1) _ rest] Cons.prems(2) loadEQAccountMeta_InrD(1) [OF r] show ?case
    by (auto simp: ms)
qed

section \<open>Properties\<close>

lemma sort_key_facts:
  "set (map f (sort_key k xs)) = set (map f xs)" "distinct (map f (sort_key k xs)) = distinct (map f xs)"
  by (simp_all add: distinct_map)

lemma allowed_ids:
  assumes "wf_world s" and "AllowedAccountIDs u s = (Inr ids, s')"
  shows "distinct ids" and "set ids = a_id ` {a \<in> set (accounts s). may_use s (ID u) a}"
  using assms(1) AllowedAccountIDs_InrD(2) [OF assms(2)]
  by (auto simp: wf_world_def wf_accounts_def distinct_map_filterI)

lemma may_use_by_id:
  assumes "wf_world s" and "a \<in> set (accounts s)" and "a_id a \<in> a_id ` {a \<in> set (accounts s). may_use s uid a}"
  shows "may_use s uid a"
proof -
  from assms(3) obtain b where b: "b \<in> set (accounts s)" "may_use s uid b" "a_id a = a_id b" by auto
  have "distinct (map a_id (accounts s))" using assms(1) by (simp add: wf_world_def wf_accounts_def)
  from unique_key_eq [OF this assms(2) b(1,3)] b(2) show ?thesis by simp
qed

lemma FullStateForUser_facts:
  assumes wf: "wf_world s" and run: "FullStateForUser st u online s = (Inr full, s')"
  shows "(\<forall>m \<in> set (FullAccounts full). \<exists>a \<in> set (accounts s). a_id a = MetaID m \<and> may_use s (ID u) a
        \<and> (SharedUserIDs m \<noteq> [] \<longrightarrow> a_restricted a \<and> a_owner a = Some (ID u)))
    \<and> distinct (map MetaID (FullAccounts full)) \<and> sorted (map meta_order (FullAccounts full))
    \<and> FullOnline full = filter (\<lambda>e. \<exists>a \<in> set (accounts s). a_id a = OnlineAccountID e \<and> may_use s (ID u) a) online
    \<and> (faults s = [] \<longrightarrow> MetaID ` set (FullAccounts full) = a_id ` {a \<in> set (accounts s). may_use s (ID u) a})"
proof -
  from run obtain ids s1 where al: "AllowedAccountIDs u s = (Inr ids, s1)"
    and rest: "(let filteredOnline = filter (\<lambda>e. OnlineAccountID e \<in> set ids) online in
       if ids = [] then ret \<lparr>FullAccounts = [], FullOnline = filteredOnline\<rparr>
       else andThen (load_all st (Some u) ids) (\<lambda>ms.
         ret \<lparr>FullAccounts = sort_key meta_order ms, FullOnline = filteredOnline\<rparr>)) s1 = (Inr full, s')"
    unfolding FullStateForUser_def by (elim andThen_InrE) (rule that)
  note ids = allowed_ids [OF wf al]
  obtain fs where s1: "s1 = s\<lparr>faults := fs\<rparr>" using AllowedAccountIDs_InrD(1) [OF al] by blast
  have online: "filter (\<lambda>e. OnlineAccountID e \<in> set ids) online
      = filter (\<lambda>e. \<exists>a \<in> set (accounts s). a_id a = OnlineAccountID e \<and> may_use s (ID u) a) online"
    by (intro filter_cong refl) (auto simp: ids(2) image_iff eq_commute)
  show ?thesis
  proof (cases "ids = []")
    case True
    with rest have full: "full = \<lparr>FullAccounts = [], FullOnline = filter (\<lambda>e. OnlineAccountID e \<in> set ids) online\<rparr>"
      by (simp add: Let_def)
    have "{a \<in> set (accounts s). may_use s (ID u) a} = {}" using ids(2) True by simp
    then show ?thesis unfolding full online by simp
  next
    case False
    with rest obtain ms where l: "load_all st (Some u) ids s1 = (Inr ms, s')"
      and "full = \<lparr>FullAccounts = sort_key meta_order ms, FullOnline = filter (\<lambda>e. OnlineAccountID e \<in> set ids) online\<rparr>"
      by (auto simp: Let_def elim!: andThen_InrE)
    note full = this(2) [unfolded online]
    note facts = load_all_InrD [OF l, unfolded s1 meta_of_row_frame]
    have "\<exists>a \<in> set (accounts s). a_id a = MetaID m \<and> may_use s (ID u) a
        \<and> (SharedUserIDs m \<noteq> [] \<longrightarrow> a_restricted a \<and> a_owner a = Some (ID u))" if m: "m \<in> set ms" for m
    proof -
      from facts m obtain a where a: "meta_of_row st s (Some u) m a" by blast
      from facts m have "MetaID m \<in> set ids" by auto
      with a have "may_use s (ID u) a"
        by (intro may_use_by_id [OF wf]) (auto simp: meta_of_row_def ids(2))
      with a show ?thesis by (auto simp: meta_of_row_def)
    qed
    moreover have "faults s = [] \<longrightarrow> MetaID ` set ms = set ids"
    proof
      assume no: "faults s = []"
      then have "s1 = s" using al by (simp add: AllowedAccountIDs_def query_no_faults)
      from load_all_no_faults [OF no _ l [unfolded this]] show "MetaID ` set ms = set ids"
        by (auto simp: ids(2) account_ids_def)
    qed
    ultimately show ?thesis
      using facts ids(1) by (simp add: full ids(2) distinct_map)
  qed
qed

text \<open>
  C15: what a client sees in its full state. The listed accounts are accounts the user may use, each
  once, in the listing order, with the recipients of a private share only when the user is its
  owner; the online entries are exactly those of such accounts. Loading never shows more because
  of a failing connection, and shows all of them when it does not fail.
\<close>

theorem full_state_shows_only_allowed:
  assumes wf: "wf_world s" and run: "FullStateForUser st u online s = (Inr full, s')"
  shows "(\<forall>m \<in> set (FullAccounts full). \<exists>a \<in> set (accounts s). a_id a = MetaID m \<and> may_use s (ID u) a
        \<and> (SharedUserIDs m \<noteq> [] \<longrightarrow> a_restricted a \<and> a_owner a = Some (ID u)))
    \<and> distinct (map MetaID (FullAccounts full)) \<and> sorted (map meta_order (FullAccounts full))
    \<and> FullOnline full = filter (\<lambda>e. \<exists>a \<in> set (accounts s). a_id a = OnlineAccountID e \<and> may_use s (ID u) a) online
    \<and> (faults s = [] \<longrightarrow> MetaID ` set (FullAccounts full) = a_id ` {a \<in> set (accounts s). may_use s (ID u) a})"
  using assms by (rule FullStateForUser_facts)

theorem full_state_shows_only_allowed_witness:
  "\<exists>full s'. FullStateForUser sample_store sample_user [\<lparr>OnlineAccountID = 1, OnlineCharacter = ''Bob''\<rparr>,
        \<lparr>OnlineAccountID = 2, OnlineCharacter = ''Eve''\<rparr>] shared_world = (Inr full, s')
    \<and> MetaID ` set (FullAccounts full) = {1} \<and> map OnlineAccountID (FullOnline full) = [1]"
proof -
  let ?on = "[\<lparr>OnlineAccountID = 1, OnlineCharacter = ''Bob''\<rparr>, \<lparr>OnlineAccountID = 2, OnlineCharacter = ''Eve''\<rparr>]"
  let ?r = "FullStateForUser sample_store sample_user ?on shared_world"
  have "case fst ?r of Inr f \<Rightarrow> map MetaID (FullAccounts f) = [1] \<and> map OnlineAccountID (FullOnline f) = [1] | Inl _ \<Rightarrow> False"
    by code_simp
  then obtain full s' where r: "?r = (Inr full, s')" and ids: "map MetaID (FullAccounts full) = [1]"
      and on: "map OnlineAccountID (FullOnline full) = [1]"
    by (cases ?r) (auto split: sum.splits)
  have "faults shared_world = []" by (simp add: shared_world_def sample_world_def empty_world_def)
  with full_state_shows_only_allowed [OF wf_shared_world r] ids have "MetaID ` set (FullAccounts full) = {1}"
    by (metis list.set_map list.set(1,2))
  with r on show ?thesis by (intro exI conjI)
qed

text \<open>
  C16: the guard of private shares. It lets an operation pass only for an account that exists and is
  either unrestricted, or owned by the actor with neither access nor password at stake; without
  faults it decides exactly so, with the error the clients know. It changes nothing.
\<close>

theorem restricted_guard:
  assumes "wf_world s" and run: "CheckRestrictedAccountManage st i actor setAccess setPassword s = (r, s')"
  shows "s' = s\<lparr>faults := faults s'\<rparr>
    \<and> (r = Inr () \<longrightarrow> (\<exists>a \<in> set (accounts s). a_id a = i
         \<and> (a_restricted a \<longrightarrow> \<not> setAccess \<and> \<not> setPassword \<and> owner_id a = actor)))
    \<and> (\<forall>a \<in> set (accounts s). a_id a = i \<and> faults s = [] \<longrightarrow>
         r = (if \<not> a_restricted a then Inr () else if setAccess then Inl ErrShareAccessManagedInGUI
              else if setPassword then Inl ErrSharePasswordManagedInGUI
              else if owner_id a \<noteq> actor then Inl ErrShareNotOwner else Inr ()))"
proof -
  have state: "s' = s\<lparr>faults := faults s'\<rparr>"
    using readsD [OF reads_CheckRestrictedAccountManage run] by auto
  obtain r1 s1 where l: "loadEQAccountMeta st i None s = (r1, s1)" by (cases "loadEQAccountMeta st i None s")
  show ?thesis
  proof (cases r1)
    case (Inl e)
    have "\<not> (faults s = [] \<and> i \<in> account_ids s)"
      using loadEQAccountMeta_no_faults [of s i st None] l Inl by auto
    then show ?thesis
      using state run Inl l by (auto simp: CheckRestrictedAccountManage_def LoadEQAccountMeta_def andThen_def account_ids_def)
  next
    case (Inr m)
    from loadEQAccountMeta_InrD [OF l [unfolded Inr]] obtain a where id: "MetaID m = i" and a: "meta_of_row st s None m a"
      by blast
    have uniq: "b = a" if "b \<in> set (accounts s)" "a_id b = i" for b
      using unique_key_eq [of a_id "accounts s" b a] that assms(1) a id
      by (auto simp: meta_of_row_def wf_world_def wf_accounts_def)
    from a id have am: "a \<in> set (accounts s)" "a_id a = i" and m: "Restricted m = a_restricted a" "OwnerUserID m = owner_id a"
      by (simp_all add: meta_of_row_def)
    have r: "r = (if \<not> a_restricted a then Inr () else if setAccess then Inl ErrShareAccessManagedInGUI
              else if setPassword then Inl ErrSharePasswordManagedInGUI
              else if owner_id a \<noteq> actor then Inl ErrShareNotOwner else Inr ())"
      using run by (simp add: CheckRestrictedAccountManage_def LoadEQAccountMeta_def andThen_def l Inr m split: if_splits)
    have "r = Inr () \<longrightarrow> (a_restricted a \<longrightarrow> \<not> setAccess \<and> \<not> setPassword \<and> owner_id a = actor)"
      by (simp add: r)
    then have "r = Inr () \<longrightarrow> (\<exists>a \<in> set (accounts s). a_id a = i
         \<and> (a_restricted a \<longrightarrow> \<not> setAccess \<and> \<not> setPassword \<and> owner_id a = actor))"
      using am by blast
    moreover have "\<forall>b \<in> set (accounts s). a_id b = i \<and> faults s = [] \<longrightarrow>
         r = (if \<not> a_restricted b then Inr () else if setAccess then Inl ErrShareAccessManagedInGUI
              else if setPassword then Inl ErrSharePasswordManagedInGUI
              else if owner_id b \<noteq> actor then Inl ErrShareNotOwner else Inr ())"
    proof (intro ballI impI, elim conjE)
      fix b assume "b \<in> set (accounts s)" "a_id b = i"
      then have "b = a" by (rule uniq)
      then show "r = (if \<not> a_restricted b then Inr () else if setAccess then Inl ErrShareAccessManagedInGUI
              else if setPassword then Inl ErrSharePasswordManagedInGUI
              else if owner_id b \<noteq> actor then Inl ErrShareNotOwner else Inr ())"
        by (simp only: r)
    qed
    ultimately show ?thesis using state by blast
  qed
qed

theorem restricted_guard_witness:
  "fst (CheckRestrictedAccountManage sample_store 1 1 True False shared_world) = Inl ErrShareAccessManagedInGUI
   \<and> fst (CheckRestrictedAccountManage sample_store 1 2 False False shared_world) = Inl ErrShareNotOwner"
proof -
  have a: "\<exists>a \<in> set (accounts shared_world). a_id a = 1 \<and> a_restricted a \<and> owner_id a = 1" and f: "faults shared_world = []"
    by (simp_all add: shared_world_def sample_world_def empty_world_def owner_id_def)
  obtain r1 s1 where c1: "CheckRestrictedAccountManage sample_store 1 1 True False shared_world = (r1, s1)"
    by (rule prod.exhaust)
  obtain r2 s2 where c2: "CheckRestrictedAccountManage sample_store 1 2 False False shared_world = (r2, s2)"
    by (rule prod.exhaust)
  from a obtain x where x: "x \<in> set (accounts shared_world)" "a_id x = 1" "a_restricted x" "owner_id x = 1"
    by blast
  have "r1 = Inl ErrShareAccessManagedInGUI"
    using restricted_guard [OF wf_shared_world c1] x f by simp
  moreover have "r2 = Inl ErrShareNotOwner"
    using restricted_guard [OF wf_shared_world c2] x f by simp
  ultimately show ?thesis by (simp add: c1 c2)
qed

end
