(* ===== verification/StoreActivity.thy ===== *)
theory StoreActivity
  imports StoreViews
begin

text \<open>
  internal/store/store.go: the audit trail and its listings, the activity on private shares, the
  Discord role names and the user directories.
\<close>

section \<open>The audit trail\<close>

definition AuditAccount :: "Store \<Rightarrow> int \<Rightarrow> int \<Rightarrow> string \<Rightarrow> string \<Rightarrow> unit db" where
  "AuditAccount st userID accountID action detail =
     andThen (if detail \<noteq> [] then attempt (SealString (StoreAEAD st) detail ''audit_log.detail'')
                (\<lambda>r. ret (case r of Inl _ \<Rightarrow> [] | Inr c \<Rightarrow> c))
              else ret []) (\<lambda>detailCipher.
     ignore (stmt (\<lambda>s. (Inr (), s\<lparr>audit_log := audit_log s @ [\<lparr>l_id = next_audit s, l_user = userID,
         l_account = (if accountID > 0 then Some accountID else None), l_action = action,
         l_detail = detailCipher, l_created_at = clock s\<rparr>], next_audit := next_audit s + 1\<rparr>))))"

definition Audit :: "Store \<Rightarrow> int \<Rightarrow> string \<Rightarrow> string \<Rightarrow> unit db" where
  "Audit st userID action detail = AuditAccount st userID 0 action detail"

record AuditEntry =
  EntryID :: int
  EntryAt :: int
  EntryUserID :: int
  EntryActorName :: string
  EntryActorDiscordID :: string
  EntryAccountID :: int
  EntryAccountUsername :: string
  EntryAction :: string
  EntryDetail :: string

text \<open>\<open>LEFT JOIN users\<close>: a column of the actor, empty without such a user.\<close>

definition actor_col :: "(User \<Rightarrow> string) \<Rightarrow> int \<Rightarrow> world \<Rightarrow> string" where
  "actor_col col uid s = (case filter (\<lambda>u. ID u = uid) (users s) of [] \<Rightarrow> [] | u # _ \<Rightarrow> col u)"

definition opt_id :: "int option \<Rightarrow> int" where
  "opt_id x = (case x of None \<Rightarrow> 0 | Some i \<Rightarrow> i)"

definition audited_subjects :: "string list" where
  "audited_subjects = [''account'', ''alias'', ''tag'', ''character'', ''share'', ''import'', ''config'']"

text \<open>\<open>ILIKE '%word%'\<close> for one of the words, an event on an account, or a login.\<close>

definition about_accounts :: "audit_row \<Rightarrow> bool" where
  "about_accounts r =
     (l_account r \<noteq> None \<or> list_ex (\<lambda>w. Contains (ToLower (l_action r)) w) audited_subjects
      \<or> l_action r = ''login_auth'')"

definition newest_first :: "audit_row list \<Rightarrow> audit_row list" where
  "newest_first rs = rev (sort_key (\<lambda>r. (l_created_at r, l_id r)) rs)"

definition audit_entry :: "Store \<Rightarrow> world \<Rightarrow> audit_row \<Rightarrow> AuditEntry" where
  "audit_entry st s r =
     \<lparr>EntryID = l_id r, EntryAt = l_created_at r, EntryUserID = l_user r,
      EntryActorName = actor_col DisplayName (l_user r) s, EntryActorDiscordID = actor_col DiscordID (l_user r) s,
      EntryAccountID = opt_id (l_account r), EntryAccountUsername = [], EntryAction = l_action r,
      EntryDetail = shown st ''audit_log.detail'' (l_detail r)\<rparr>"

text \<open>The login names of the accounts of a page, as far as they can be loaded.\<close>

definition account_names :: "Store \<Rightarrow> int list \<Rightarrow> (int \<times> string) list db" where
  "account_names st ids = collect_each (\<lambda>i. attempt (loadEQAccountMeta st i None)
     (\<lambda>r. ret (case r of Inl _ \<Rightarrow> None | Inr m \<Rightarrow> if Username m \<noteq> [] then Some (i, Username m) else None)))
     (dedup (\<lambda>i. i \<le> 0) ids)"

definition name_or :: "string \<Rightarrow> (int \<times> string) list \<Rightarrow> int \<Rightarrow> string" where
  "name_or d names i = (case map_of names i of None \<Rightarrow> d | Some n \<Rightarrow> n)"

definition ListAccountAudits :: "Store \<Rightarrow> int \<Rightarrow> int \<Rightarrow> int \<Rightarrow> int \<Rightarrow> AuditEntry list db" where
  "ListAccountAudits st accountID userID limit offset =
     (let limit = (if limit \<le> 0 \<or> limit > 500 then 100 else limit);
          offset = (if offset < 0 then 0 else offset) in
      andThen (query (\<lambda>s. map (audit_entry st s) (take (nat limit) (drop (nat offset) (newest_first
          (filter (\<lambda>r. about_accounts r \<and> (accountID > 0 \<longrightarrow> l_account r = Some accountID)
             \<and> (userID > 0 \<longrightarrow> l_user r = userID)) (audit_log s))))))) (\<lambda>out.
      andThen (account_names st (map EntryAccountID out)) (\<lambda>names.
      ret (map (\<lambda>e. e\<lparr>EntryAccountUsername := name_or (EntryAccountUsername e) names (EntryAccountID e)\<rparr>) out))))"

section \<open>Activity on private shares\<close>

record ShareLoginEntry =
  LoginID :: int
  LoginAt :: int
  LoginUserID :: int
  LoginActorName :: string
  LoginActorDiscordID :: string
  LoginAccountID :: int
  LoginAccountUsername :: string
  LoginDetail :: string
  LoginActorIsOwner :: bool

definition owned_restricted :: "int \<Rightarrow> account_row \<Rightarrow> bool" where
  "owned_restricted ownerID a = (a_restricted a \<and> a_owner a = Some ownerID)"

definition ListOwnedRestrictedAccountIDs :: "int \<Rightarrow> int list db" where
  "ListOwnedRestrictedAccountIDs ownerID =
     (if ownerID \<le> 0 then ret []
      else query (\<lambda>s. sort (map a_id (filter (owned_restricted ownerID) (accounts s)))))"

text \<open>The login events on accounts of the owner: the inner join of the two tables.\<close>

definition owned_login :: "int \<Rightarrow> world \<Rightarrow> audit_row \<Rightarrow> bool" where
  "owned_login ownerID s r =
     (l_action r = ''login_auth'' \<and> (\<exists>a \<in> set (accounts s). l_account r = Some (a_id a) \<and> owned_restricted ownerID a))"

definition login_entry :: "Store \<Rightarrow> int \<Rightarrow> world \<Rightarrow> audit_row \<Rightarrow> ShareLoginEntry" where
  "login_entry st acctOwner s r =
     \<lparr>LoginID = l_id r, LoginAt = l_created_at r, LoginUserID = l_user r,
      LoginActorName = actor_col DisplayName (l_user r) s, LoginActorDiscordID = actor_col DiscordID (l_user r) s,
      LoginAccountID = opt_id (l_account r), LoginAccountUsername = [],
      LoginDetail = shown st ''audit_log.detail'' (l_detail r),
      LoginActorIsOwner = (l_user r > 0 \<and> l_user r = acctOwner)\<rparr>"

definition ListOwnedShareLogins :: "Store \<Rightarrow> int \<Rightarrow> int \<Rightarrow> ShareLoginEntry list db" where
  "ListOwnedShareLogins st ownerID limit =
     (if ownerID \<le> 0 then ret []
      else let limit = (if limit \<le> 0 \<or> limit > 200 then 50 else limit) in
        andThen (query (\<lambda>s. map (login_entry st ownerID s)
            (take (nat limit) (newest_first (filter (owned_login ownerID s) (audit_log s)))))) (\<lambda>out.
        andThen (account_names st (map LoginAccountID out)) (\<lambda>names.
        ret (map (\<lambda>e. e\<lparr>LoginAccountUsername := name_or (LoginAccountUsername e) names (LoginAccountID e)\<rparr>) out))))"

record ShareOnlineEntry =
  ShAccountID :: int
  ShAccountUsername :: string
  ShCharacterName :: string
  ShUserID :: int
  ShUserDisplayName :: string
  ShUserDiscordID :: string
  ShActorIsOwner :: bool
  ShLastSeen :: int

record PresenceHint =
  HintAccountID :: int
  HintCharacterName :: string
  HintUserID :: int
  HintLastSeen :: int

definition share_online_entry :: "Store \<Rightarrow> int \<Rightarrow> PresenceHint \<Rightarrow> ShareOnlineEntry option db" where
  "share_online_entry st ownerID r =
     andThen (attempt (loadEQAccountMeta st (HintAccountID r) None)
       (\<lambda>x. ret (case x of Inl _ \<Rightarrow> [] | Inr m \<Rightarrow> Username m))) (\<lambda>name.
     andThen (if HintUserID r > 0 then attempt (UserByID (HintUserID r))
         (\<lambda>x. ret (case x of Inl _ \<Rightarrow> ([], []) | Inr u \<Rightarrow> (DisplayName u, DiscordID u)))
       else ret ([], [])) (\<lambda>(display, discord).
     ret (Some \<lparr>ShAccountID = HintAccountID r, ShAccountUsername = name, ShCharacterName = HintCharacterName r,
       ShUserID = HintUserID r, ShUserDisplayName = display, ShUserDiscordID = discord,
       ShActorIsOwner = (HintUserID r > 0 \<and> HintUserID r = ownerID), ShLastSeen = HintLastSeen r\<rparr>)))"

definition BuildShareOnline :: "Store \<Rightarrow> int \<Rightarrow> PresenceHint list \<Rightarrow> ShareOnlineEntry list db" where
  "BuildShareOnline st ownerID rows =
     (if ownerID \<le> 0 \<or> rows = [] then ret []
      else andThen (ListOwnedRestrictedAccountIDs ownerID) (\<lambda>owned.
        andThen (collect_each (share_online_entry st ownerID) (filter (\<lambda>r. HintAccountID r \<in> set owned) rows)) (\<lambda>out.
        ret (sort_key (\<lambda>e. ToLower (ShAccountUsername e)) out))))"

section \<open>Discord role names and user directories\<close>

text \<open>A role is the pair of its id and name.\<close>

definition upsert_role :: "string \<Rightarrow> string \<Rightarrow> unit db" where
  "upsert_role i name =
     stmt (\<lambda>s. (Inr (), s\<lparr>disc_roles :=
       (if i \<in> fst ` set (disc_roles s)
        then map (\<lambda>r. if fst r = i then (i, if name = [] then snd r else name) else r) (disc_roles s)
        else disc_roles s @ [(i, name)])\<rparr>))"

definition UpsertDiscordRoles :: "(string \<times> string) list \<Rightarrow> unit db" where
  "UpsertDiscordRoles roles =
     for_each (\<lambda>r. let i = TrimSpace (fst r) in if i = [] then ret () else upsert_role i (TrimSpace (snd r))) roles"

text \<open>The role ids that users, groups and elevated accounts refer to.\<close>

definition referenced_roles :: "world \<Rightarrow> string list" where
  "referenced_roles s = sort (remdups (filter (\<lambda>r. r \<noteq> [])
     (concat (map RoleIDs (users s)) @ concat (map (\<lambda>m. case m_role m of None \<Rightarrow> [] | Some r \<Rightarrow> [r]) (members s))
      @ map a_required_role (accounts s))))"

definition role_order :: "string \<times> string \<Rightarrow> bool \<times> string \<times> string" where
  "role_order r = (ToLower (snd r) = [], ToLower (snd r), fst r)"

definition ListDiscordRoles :: "(string \<times> string) list db" where
  "ListDiscordRoles =
     andThen (query (\<lambda>s. sort_key (\<lambda>r. (ToLower (snd r), fst r)) (disc_roles s))) (\<lambda>out.
     andThen (query_list referenced_roles) (\<lambda>extra.
     ret (sort_key role_order (out @ map (\<lambda>i. (i, [])) (filter (\<lambda>i. i \<notin> fst ` set out) extra)))))"

record AdminUser =
  AdminID :: int
  AdminDiscordID :: string
  AdminDisplayName :: string
  AdminRoleIDs :: "string list"
  AdminRevoked :: bool
  HasActiveToken :: bool

definition has_token :: "world \<Rightarrow> User \<Rightarrow> bool" where
  "has_token s u = (\<exists>t \<in> set (tokens s). t_user t = ID u)"

definition directory_order :: "User \<Rightarrow> string \<times> string" where
  "directory_order u = (ToLower (DisplayName u), DiscordID u)"

definition ListSSOUsers :: "AdminUser list db" where
  "ListSSOUsers = query (\<lambda>s. map (\<lambda>u. \<lparr>AdminID = ID u, AdminDiscordID = DiscordID u, AdminDisplayName = DisplayName u,
       AdminRoleIDs = RoleIDs u, AdminRevoked = AccessRevoked u,
       HasActiveToken = (\<exists>t \<in> set (tokens s). t_user t = ID u \<and> active t)\<rparr>)
     (sort_key directory_order (filter (has_token s) (users s))))"

record AdminState =
  AdminUsers :: "AdminUser list"
  AdminRoles :: "(string \<times> string) list"

definition AdminState_of :: "AdminState db" where
  "AdminState_of = andThen ListSSOUsers (\<lambda>us. andThen ListDiscordRoles (\<lambda>rs. ret \<lparr>AdminUsers = us, AdminRoles = rs\<rparr>))"

record DirectoryUser =
  DirID :: int
  DirDiscordID :: string
  DirDisplayName :: string

definition ListDirectoryUsers :: "DirectoryUser list db" where
  "ListDirectoryUsers = query (\<lambda>s. map (\<lambda>u. \<lparr>DirID = ID u, DirDiscordID = DiscordID u, DirDisplayName = DisplayName u\<rparr>)
     (sort_key directory_order (filter (\<lambda>u. \<not> AccessRevoked u \<and> has_token s u) (users s))))"

section \<open>Who sees what\<close>

lemma reads_activity [reads_rules]:
  "reads (account_names st ids)" "reads (UserByID u)" "reads (ListOwnedRestrictedAccountIDs o')"
  "reads ListSSOUsers" "reads ListDirectoryUsers" "reads ListDiscordRoles"
  unfolding account_names_def UserByID_def ListOwnedRestrictedAccountIDs_def ListSSOUsers_def ListDirectoryUsers_def ListDiscordRoles_def
  by (intro reads_rules)+

lemma keeps_AuditAccount: "keeps wf_world (AuditAccount st u a act d)"
proof -
  have "keeps wf_world (stmt (\<lambda>s. (Inr (), s\<lparr>audit_log := f s, next_audit := g s\<rparr>)))" for f g
    by (rule keeps_stmt) (auto simp: keeps_def wf_world_def id_sets)
  then show ?thesis
    unfolding AuditAccount_def SealString_def Seal_def by (intro keeps_rules quiet_wf_world)
qed

lemma frame_AuditAccount:
  "unseen f \<Longrightarrow> (\<And>s xs n. f (s\<lparr>audit_log := xs, next_audit := n\<rparr>) = f s) \<Longrightarrow> frame f (AuditAccount st u a act d)"
  unfolding AuditAccount_def SealString_def Seal_def
  by (intro frame_rules frame_stmt) (auto simp: frame_def)

lemma keeps_UpsertDiscordRoles: "keeps wf_world (UpsertDiscordRoles rs)"
proof -
  have "keeps wf_world (upsert_role i n)" for i n
    unfolding upsert_role_def by (rule keeps_stmt) (auto simp: keeps_def wf_world_def id_sets)
  then show ?thesis
    unfolding UpsertDiscordRoles_def Let_def by (intro keeps_rules)
qed

lemma set_newest_first [simp]: "set (newest_first rs) = set rs"
  by (simp add: newest_first_def)

text \<open>
  A page of the audit trail is bounded whatever was asked for: at most the limit, which is
  between 1 and 500 (100 when the request is out of range), and every entry is an event of the
  trail about accounts that passes the filters on account and actor.
\<close>

theorem audit_page_bounded:
  assumes run: "ListAccountAudits st accountID userID limit offset s = (Inr out, s')"
  shows "length out \<le> (if limit \<le> 0 \<or> limit > 500 then 100 else nat limit) \<and> length out \<le> 500
    \<and> (\<forall>e \<in> set out. \<exists>r \<in> set (audit_log s). EntryID e = l_id r \<and> EntryAction e = l_action r \<and> about_accounts r
         \<and> (accountID > 0 \<longrightarrow> EntryAccountID e = accountID) \<and> (userID > 0 \<longrightarrow> EntryUserID e = userID))"
proof -
  let ?rows = "\<lambda>s. take (nat (if limit \<le> 0 \<or> limit > 500 then 100 else limit)) (drop (nat (if offset < 0 then 0 else offset))
    (newest_first (filter (\<lambda>r. about_accounts r \<and> (accountID > 0 \<longrightarrow> l_account r = Some accountID)
             \<and> (userID > 0 \<longrightarrow> l_user r = userID)) (audit_log s))))"
  from run obtain es s1 names s2 where q: "query (\<lambda>s. map (audit_entry st s) (?rows s)) s = (Inr es, s1)"
    and out: "ret (map (\<lambda>e. e\<lparr>EntryAccountUsername := name_or (EntryAccountUsername e) names (EntryAccountID e)\<rparr>) es) s2 = (Inr out, s')"
    unfolding ListAccountAudits_def Let_def by (elim andThen_InrE) (rule that)
  from query_InrD [OF q] obtain fs where s1: "s1 = s\<lparr>faults := fs\<rparr>" and es: "es = map (audit_entry st s1) (?rows s1)"
    by blast
  have rows: "?rows s1 = ?rows s" by (simp add: s1)
  have len: "length out = length (?rows s)" using out es rows by auto
  have "\<exists>r \<in> set (audit_log s). EntryID e = l_id r \<and> EntryAction e = l_action r \<and> about_accounts r
         \<and> (accountID > 0 \<longrightarrow> EntryAccountID e = accountID) \<and> (userID > 0 \<longrightarrow> EntryUserID e = userID)"
    if e: "e \<in> set out" for e
  proof -
    from e out es rows obtain r n where r: "r \<in> set (?rows s)" and e: "e = (audit_entry st s1 r)\<lparr>EntryAccountUsername := n\<rparr>"
      by auto
    from r have "r \<in> set (audit_log s) \<and> about_accounts r \<and> (accountID > 0 \<longrightarrow> l_account r = Some accountID)
        \<and> (userID > 0 \<longrightarrow> l_user r = userID)"
      using in_set_dropD [OF in_set_takeD [OF r]] by simp
    then show ?thesis
      by (intro bexI [of _ r]) (auto simp: e audit_entry_def opt_id_def)
  qed
  moreover have "length (?rows s) \<le> nat (if limit \<le> 0 \<or> limit > 500 then 100 else limit)" by simp
  ultimately show ?thesis unfolding len by (auto split: if_splits)
qed

definition audited_world :: world where
  "audited_world = shared_world\<lparr>audit_log :=
     [\<lparr>l_id = 1, l_user = 1, l_account = Some 1, l_action = ''login_relay'', l_detail = [], l_created_at = 5\<rparr>,
      \<lparr>l_id = 2, l_user = 1, l_account = None, l_action = ''whoami'', l_detail = [], l_created_at = 6\<rparr>,
      \<lparr>l_id = 3, l_user = 1, l_account = Some 1, l_action = ''login_auth'', l_detail = [], l_created_at = 7\<rparr>], next_audit := 4\<rparr>"

theorem audit_page_bounded_witness:
  "\<exists>out s'. ListAccountAudits sample_store 1 0 0 0 audited_world = (Inr out, s') \<and> map EntryID out = [3, 1] \<and> length out \<le> 100"
proof -
  let ?r = "ListAccountAudits sample_store 1 0 0 0 audited_world"
  have "case fst ?r of Inr out \<Rightarrow> map EntryID out = [3, 1] | Inl _ \<Rightarrow> False"
    by code_simp
  then obtain out s' where r: "?r = (Inr out, s')" and ids: "map EntryID out = [3, 1]"
    by (cases ?r) (auto split: sum.splits)
  from audit_page_bounded [OF r] have "length out \<le> 100" by simp
  with r ids show ?thesis by (intro exI conjI)
qed

lemma ListOwnedRestrictedAccountIDs_InrD:
  assumes "ListOwnedRestrictedAccountIDs ow s = (Inr ids, s')" and "i \<in> set ids"
  shows "\<exists>a \<in> set (accounts s). a_id a = i \<and> owned_restricted ow a"
proof (cases "ow \<le> 0")
  case True
  with assms show ?thesis by (simp add: ListOwnedRestrictedAccountIDs_def)
next
  case False
  with assms(1) have "query (\<lambda>s. sort (map a_id (filter (owned_restricted ow) (accounts s)))) s = (Inr ids, s')"
    by (simp add: ListOwnedRestrictedAccountIDs_def)
  from query_InrD [OF this] obtain fs where "s' = s\<lparr>faults := fs\<rparr>"
    and "ids = sort (map a_id (filter (owned_restricted ow) (accounts s')))" by blast
  with assms(2) show ?thesis by auto
qed

lemma collect_each_origin:
  "collect_each f xs s = (Inr ys, s') \<Longrightarrow> y \<in> set ys \<Longrightarrow> \<exists>x \<in> set xs. \<exists>s1 s2. f x s1 = (Inr (Some y), s2)"
proof (induction xs arbitrary: s ys)
  case (Cons x xs)
  from Cons.prems(1) obtain z s1 zs where "f x s = (Inr z, s1)" "collect_each f xs s1 = (Inr zs, s')"
    "ys = (case z of None \<Rightarrow> zs | Some v \<Rightarrow> v # zs)"
    by (auto elim!: andThen_InrE)
  with Cons.prems(2) Cons.IH show ?case by (cases z) auto
qed simp

lemma share_online_entry_InrD:
  assumes "share_online_entry st ow r s = (Inr (Some e), s')"
  shows "ShAccountID e = HintAccountID r \<and> ShUserID e = HintUserID r \<and> (ShActorIsOwner e \<longleftrightarrow> HintUserID r > 0 \<and> HintUserID r = ow)"
  using assms unfolding share_online_entry_def by (elim andThen_InrE) (auto split: prod.splits)

lemma owned_logins:
  assumes logins: "ListOwnedShareLogins st ow limit s = (Inr out, s1)"
  shows "length out \<le> 200
    \<and> (\<forall>e \<in> set out. \<exists>r \<in> set (audit_log s). LoginID e = l_id r \<and> LoginAccountID e = opt_id (l_account r) \<and> owned_login ow s r
         \<and> (LoginActorIsOwner e \<longleftrightarrow> l_user r > 0 \<and> l_user r = ow))"
proof -
  let ?lim = "if limit \<le> 0 \<or> limit > 200 then 50 else limit"
  show ?thesis
  proof (cases "ow \<le> 0")
    case True
    with logins show ?thesis by (simp add: ListOwnedShareLogins_def)
  next
    case False
    from logins obtain es t1 names t2 where
      q: "query (\<lambda>s. map (login_entry st ow s) (take (nat ?lim) (newest_first (filter (owned_login ow s) (audit_log s))))) s = (Inr es, t1)"
      and out: "ret (map (\<lambda>e. e\<lparr>LoginAccountUsername := name_or (LoginAccountUsername e) names (LoginAccountID e)\<rparr>) es) t2 = (Inr out, s1)"
      unfolding ListOwnedShareLogins_def Let_def if_not_P [OF False] by (elim andThen_InrE) (rule that)
    from query_InrD [OF q] obtain fs where t1: "t1 = s\<lparr>faults := fs\<rparr>"
      and es: "es = map (login_entry st ow t1) (take (nat ?lim) (newest_first (filter (owned_login ow t1) (audit_log t1))))"
      by blast
    have frame: "owned_login ow t1 = owned_login ow s" "audit_log t1 = audit_log s"
      by (simp_all add: t1 owned_login_def fun_eq_iff)
    have len: "length out \<le> nat ?lim" using out es by auto
    have "\<exists>r \<in> set (audit_log s). LoginID e = l_id r \<and> LoginAccountID e = opt_id (l_account r) \<and> owned_login ow s r \<and> (LoginActorIsOwner e \<longleftrightarrow> l_user r > 0 \<and> l_user r = ow)"
      if e: "e \<in> set out" for e
    proof -
      from e out es obtain r n where r: "r \<in> set (take (nat ?lim) (newest_first (filter (owned_login ow t1) (audit_log t1))))"
        and e: "e = (login_entry st ow t1 r)\<lparr>LoginAccountUsername := n\<rparr>" by auto
      from in_set_takeD [OF r] have "r \<in> set (audit_log s)" "owned_login ow s r" by (simp_all add: frame)
      then show ?thesis by (intro bexI [of _ r]) (simp_all add: e login_entry_def)
    qed
    with len show ?thesis by (auto split: if_splits)
  qed
qed

lemma share_online_owned:
  assumes online: "BuildShareOnline st ow hints s = (Inr on, s2)" and e: "e \<in> set on"
  shows "(\<exists>a \<in> set (accounts s). a_id a = ShAccountID e \<and> owned_restricted ow a)
         \<and> (\<exists>h \<in> set hints. ShAccountID e = HintAccountID h \<and> ShUserID e = HintUserID h)
         \<and> (ShActorIsOwner e \<longleftrightarrow> ShUserID e > 0 \<and> ShUserID e = ow)"
proof (cases "ow \<le> 0 \<or> hints = []")
  case True
  with online e show ?thesis by (auto simp: BuildShareOnline_def)
next
  case False
  from online obtain owned t1 es t2 where
    o1: "ListOwnedRestrictedAccountIDs ow s = (Inr owned, t1)"
    and o2: "collect_each (share_online_entry st ow) (filter (\<lambda>r. HintAccountID r \<in> set owned) hints) t1 = (Inr es, t2)"
    and o3: "ret (sort_key (\<lambda>e. ToLower (ShAccountUsername e)) es) t2 = (Inr on, s2)"
    unfolding BuildShareOnline_def if_not_P [OF False] by (elim andThen_InrE) (rule that)
  from e o3 have "e \<in> set es" by auto
  from collect_each_origin [OF o2 this] obtain h u1 u2 where h: "h \<in> set hints" "HintAccountID h \<in> set owned"
    and "share_online_entry st ow h u1 = (Inr (Some e), u2)" by auto
  with share_online_entry_InrD [of st ow h u1 e u2] ListOwnedRestrictedAccountIDs_InrD [OF o1 h(2)] show ?thesis
    by auto
qed

text \<open>
  The activity page of private shares belongs to the owner. Every login shown is a \<open>login_auth\<close>
  event on a restricted account owned by the viewer, at most 200 of them, and every online entry
  comes from a presence row on such an account; the actor is flagged as the owner exactly when it
  is.
\<close>

theorem share_activity_is_the_owners:
  assumes logins: "ListOwnedShareLogins st ow limit s = (Inr out, s1)"
    and online: "BuildShareOnline st ow hints s = (Inr on, s2)"
  shows "length out \<le> 200
    \<and> (\<forall>e \<in> set out. \<exists>r \<in> set (audit_log s). LoginID e = l_id r \<and> owned_login ow s r
         \<and> (LoginActorIsOwner e \<longleftrightarrow> l_user r > 0 \<and> l_user r = ow))
    \<and> (\<forall>e \<in> set on. (\<exists>a \<in> set (accounts s). a_id a = ShAccountID e \<and> owned_restricted ow a)
         \<and> (\<exists>h \<in> set hints. ShAccountID e = HintAccountID h \<and> ShUserID e = HintUserID h)
         \<and> (ShActorIsOwner e \<longleftrightarrow> ShUserID e > 0 \<and> ShUserID e = ow))"
  using owned_logins [OF logins] share_online_owned [OF online] by blast

theorem share_activity_is_the_owners_witness:
  "\<exists>out on s1 s2. ListOwnedShareLogins sample_store 1 0 audited_world = (Inr out, s1)
    \<and> BuildShareOnline sample_store 1 [\<lparr>HintAccountID = 1, HintCharacterName = ''Bob'', HintUserID = 1, HintLastSeen = 9\<rparr>,
        \<lparr>HintAccountID = 2, HintCharacterName = ''Eve'', HintUserID = 1, HintLastSeen = 9\<rparr>] audited_world = (Inr on, s2)
    \<and> map LoginID out = [3] \<and> map ShAccountID on = [1] \<and> (\<forall>e \<in> set on. ShActorIsOwner e)"
proof -
  let ?h = "[\<lparr>HintAccountID = 1, HintCharacterName = ''Bob'', HintUserID = 1, HintLastSeen = 9\<rparr>,
        \<lparr>HintAccountID = 2, HintCharacterName = ''Eve'', HintUserID = 1, HintLastSeen = 9\<rparr>]"
  let ?l = "ListOwnedShareLogins sample_store 1 0 audited_world" and ?o = "BuildShareOnline sample_store 1 ?h audited_world"
  have "case fst ?l of Inr out \<Rightarrow> map LoginID out = [3] | Inl _ \<Rightarrow> False" by code_simp
  then obtain out s1 where l: "?l = (Inr out, s1)" "map LoginID out = [3]"
    by (cases ?l) (auto split: sum.splits)
  have "case fst ?o of Inr on \<Rightarrow> map ShAccountID on = [1] \<and> map ShUserID on = [1] | Inl _ \<Rightarrow> False" by code_simp
  then obtain on s2 where o: "?o = (Inr on, s2)" "map ShAccountID on = [1]" and u: "map ShUserID on = [1]"
    by (cases ?o) (auto split: sum.splits)
  have "\<forall>e \<in> set on. ShActorIsOwner e"
    using share_activity_is_the_owners [OF l(1) o(1)] u by auto
  with l o show ?thesis by (intro exI conjI)
qed

text \<open>
  Nothing but \<open>login_auth\<close> rows can appear, and no code of the service writes that action (the relay
  writes \<open>login_relay\<close>): the login half of the activity page is empty.
\<close>

lemma share_logins_empty_without_login_auth:
  assumes "\<forall>r \<in> set (audit_log s). l_action r \<noteq> ''login_auth''" and "ListOwnedShareLogins st ow limit s = (Inr out, s')"
  shows "out = []"
proof (cases "ow \<le> 0")
  case True
  with assms(2) show ?thesis by (simp add: ListOwnedShareLogins_def)
next
  case False
  let ?lim = "if limit \<le> 0 \<or> limit > 200 then 50 else limit"
  from assms(2) obtain es t1 names t2 where
      q: "query (\<lambda>s. map (login_entry st ow s) (take (nat ?lim) (newest_first (filter (owned_login ow s) (audit_log s))))) s = (Inr es, t1)"
      and out: "ret (map (\<lambda>e. e\<lparr>LoginAccountUsername := name_or (LoginAccountUsername e) names (LoginAccountID e)\<rparr>) es) t2 = (Inr out, s')"
      unfolding ListOwnedShareLogins_def Let_def if_not_P [OF False] by (elim andThen_InrE) (rule that)
  from query_InrD [OF q] obtain fs where t1: "t1 = s\<lparr>faults := fs\<rparr>"
      and es: "es = map (login_entry st ow t1) (take (nat ?lim) (newest_first (filter (owned_login ow t1) (audit_log t1))))"
    by blast
  have "filter (owned_login ow t1) (audit_log t1) = []"
    using assms(1) by (auto simp: t1 owned_login_def filter_empty_conv)
  with es have "es = []" by (simp add: newest_first_def)
  with out show ?thesis by simp
qed

end
