(* ===== verification/StoreShares.thy ===== *)
theory StoreShares
  imports StoreViews
begin

text \<open>
  internal/store/store.go, private shares: \<open>ShareLocalAccount\<close> publishes a restricted account of the
  caller, \<open>UnshareLocalAccount\<close> removes it, \<open>SetRestrictedAccountShares\<close> replaces its recipients.

  \<open>untouched i v\<close> is what the owner-only argument rests on: the row of account \<open>i\<close>, its grants, share
  recipients and aliases are \<open>v\<close>, and \<open>i\<close> is an id already given out. Every statement on another
  account keeps it, on success and on failure.
\<close>

section \<open>Operations\<close>

definition insert_share :: "int \<Rightarrow> int \<Rightarrow> unit db" where
  "insert_share accountID uid = exec_insert shares shares_update
     (strict ''account_shares_pkey'' (\<lambda>s. (accountID, uid) \<in> set (shares s)) (account_user_fk ''account_shares'' accountID uid))
     (\<lambda>_. (accountID, uid))"

definition add_share :: "int \<Rightarrow> int \<Rightarrow> unit db" where
  "add_share accountID uid =
     attempt (query_row (\<lambda>s. map AccessRevoked (filter (\<lambda>u. ID u = uid) (users s)))) (\<lambda>r. case r of
       Inl e \<Rightarrow> if e = NoRows then fail (Err (''user not found: '' @ itoa uid)) else fail e
     | Inr revoked \<Rightarrow> if revoked then fail (Err (''user access revoked: '' @ itoa uid)) else insert_share accountID uid)"

definition replaceAccountShares :: "int \<Rightarrow> int list \<Rightarrow> unit db" where
  "replaceAccountShares accountID userIDs =
     andThen (exec_delete shares shares_update (\<lambda>sh. fst sh = accountID)) (\<lambda>_.
     for_each (add_share accountID) (clean_ids userIDs))"

text \<open>The columns that decide whether an account is a private share, and of whom.\<close>

definition share_columns :: "int \<Rightarrow> (bool \<times> int option) db" where
  "share_columns accountID =
     query_row (\<lambda>s. map (\<lambda>a. (a_restricted a, a_owner a)) (filter (\<lambda>a. a_id a = accountID) (accounts s)))"

definition SetRestrictedAccountShares :: "int \<Rightarrow> int list \<Rightarrow> unit db" where
  "SetRestrictedAccountShares accountID shareUserIDs =
     attempt (share_columns accountID) (\<lambda>r. case r of
       Inl e \<Rightarrow> if e = NoRows then fail (Err ''account not found'') else fail e
     | Inr (restricted, ownerID) \<Rightarrow>
         if \<not> restricted then fail (Err ''account is not a private share'')
         else replaceAccountShares accountID (dedup (\<lambda>u. u \<le> 0 \<or> ownerID = Some u) shareUserIDs))"

definition DiffNewShareRecipients :: "int list \<Rightarrow> int list \<Rightarrow> int list" where
  "DiffNewShareRecipients previous incoming = filter (\<lambda>i. i \<notin> set previous) incoming"

definition publish :: "User \<Rightarrow> int \<Rightarrow> unit db" where
  "publish owner i =
     andThen (update_account i ''eq_accounts_owner_user_id_fkey'' (Some (ID owner))
       (\<lambda>a. a\<lparr>a_required_role := [], a_required_user := None, a_restricted := True, a_owner := Some (ID owner)\<rparr>)) (\<lambda>_. ret ())"

text \<open>The two branches of \<open>ShareLocalAccount\<close>; each gives the account and its recipients so far.\<close>

definition update_share :: "Store \<Rightarrow> User \<Rightarrow> int \<Rightarrow> string \<Rightarrow> (int \<times> int list) db" where
  "update_share st owner i password =
     andThen (listShareUserIDs i) (\<lambda>previous.
     andThen (share_columns i) (\<lambda>(restricted, ownerID).
     if \<not> restricted \<or> ownerID \<noteq> Some (ID owner) then fail (Err ''account already exists on SSO'') else
     andThen (if TrimSpace password \<noteq> [] then SetEQPassword st i password else ret ()) (\<lambda>_.
     andThen (publish owner i) (\<lambda>_.
     andThen (ignore (ReplaceAccountUsers i [])) (\<lambda>_.
     ret (i, previous))))))"

definition create_share :: "Store \<Rightarrow> User \<Rightarrow> string \<Rightarrow> string \<Rightarrow> (int \<times> int list) db" where
  "create_share st owner username password =
     (if TrimSpace password = [] then fail (Err ''password required'') else
      andThen (AddEQAccount st username password []) (\<lambda>i.
      andThen (publish owner i) (\<lambda>_. ret (i, []))))"

definition add_aliases :: "string \<Rightarrow> int \<Rightarrow> string list \<Rightarrow> unit db" where
  "add_aliases username i als =
     for_each (\<lambda>al. let al = TrimSpace al in
       if al = [] \<or> EqualFold al username then ret () else ignore (AddAlias al i)) als"

definition ShareLocalAccount ::
  "Store \<Rightarrow> User \<Rightarrow> string \<Rightarrow> string \<Rightarrow> string list \<Rightarrow> int list \<Rightarrow> string list \<Rightarrow> int list \<Rightarrow> (int \<times> int list) db"
where
  "ShareLocalAccount st owner username password als shareUserIDs shareRoleIDs shareGroupIDs =
     (let username = TrimSpace username in
      if username = [] then fail (Err ''username required'') else
      let cleanShares = dedup (\<lambda>u. u \<le> 0 \<or> u = ID owner) shareUserIDs;
          cleanRoles = clean_roles shareRoleIDs; cleanGroups = clean_ids shareGroupIDs in
      andThen (FindEQAccountIDByUsername st username) (\<lambda>found.
      andThen (case found of None \<Rightarrow> create_share st owner username password
               | Some i \<Rightarrow> update_share st owner i password) (\<lambda>(i, previousShares).
      andThen (add_aliases username i als) (\<lambda>_.
      andThen (replaceAccountShares i cleanShares) (\<lambda>_.
      andThen (ReplaceAccountRoles i cleanRoles) (\<lambda>_.
      andThen (ReplaceAccountGroups i cleanGroups) (\<lambda>_.
      ret (i, DiffNewShareRecipients previousShares cleanShares))))))))"

definition UnshareLocalAccount :: "Store \<Rightarrow> User \<Rightarrow> string \<Rightarrow> unit db" where
  "UnshareLocalAccount st owner username =
     andThen (FindEQAccountIDByUsername st username) (\<lambda>found. case found of
       None \<Rightarrow> fail (Err ''not shared'')
     | Some i \<Rightarrow>
         andThen (share_columns i) (\<lambda>(restricted, ownerID).
         if \<not> restricted \<or> ownerID \<noteq> Some (ID owner) then fail (Err ''not your shared account'')
         else DeleteEQAccount i))"

section \<open>The schema's constraints are kept\<close>

lemma keeps_replaceAccountShares: "keeps wf_world (replaceAccountShares a us)"
  unfolding replaceAccountShares_def add_share_def insert_share_def
  by (intro keeps_rules quiet_wf_world account_statement_wf) (auto simp: strict_def split: if_splits)

lemma keeps_publish: "keeps wf_world (publish owner i)"
  unfolding publish_def by (intro keeps_rules) auto

lemma keeps_SetRestrictedAccountShares: "keeps wf_world (SetRestrictedAccountShares a us)"
  unfolding SetRestrictedAccountShares_def share_columns_def
  by (intro keeps_rules quiet_wf_world keeps_replaceAccountShares)

lemma reads_share_columns [reads_rules]: "reads (share_columns i)"
  unfolding share_columns_def by (rule reads_query_row)

lemma reads_FindEQAccountIDByUsername [reads_rules]: "reads (FindEQAccountIDByUsername st u)"
  unfolding FindEQAccountIDByUsername_def Let_def by (intro reads_rules)

lemma keeps_ShareLocalAccount: "keeps wf_world (ShareLocalAccount st ow u p als us rs gs)"
  unfolding ShareLocalAccount_def update_share_def create_share_def add_aliases_def Let_def
  by (intro keeps_rules quiet_wf_world keeps_publish keeps_SetEQPassword keeps_ReplaceAccountUsers keeps_AddAlias
      keeps_AddEQAccount keeps_replaceAccountShares keeps_ReplaceAccountRoles keeps_ReplaceAccountGroups
      reads_keeps [OF reads_share_columns] reads_keeps [OF reads_FindEQAccountIDByUsername] reads_keeps [OF reads_listings(4)])

lemma keeps_UnshareLocalAccount: "keeps wf_world (UnshareLocalAccount st ow u)"
  unfolding UnshareLocalAccount_def
  by (intro keeps_rules quiet_wf_world keeps_DeleteEQAccount
      reads_keeps [OF reads_share_columns] reads_keeps [OF reads_FindEQAccountIDByUsername])

section \<open>Other accounts\<close>

definition footprint :: "int \<Rightarrow> world \<Rightarrow>
    account_row list \<times> string list \<times> int list \<times> int list \<times> (int \<times> int) list \<times> name_row list" where
  "footprint i s = (filter (\<lambda>a. a_id a = i) (accounts s), role_grants i s, user_grants i s, group_grants i s,
     filter (\<lambda>sh. fst sh = i) (shares s), filter (\<lambda>n. n_account n = i) (aliases s))"

definition untouched where
  "untouched i v s \<longleftrightarrow> i < next_account s \<and> footprint i s = v"

lemmas footprint_simps = footprint_def role_grants_def user_grants_def group_grants_def

lemma quiet_untouched [simp]: "quiet (untouched i v)"
  by (rule quietI) (simp_all add: untouched_def footprint_simps)

lemma untouchedI:
  "untouched i v s \<Longrightarrow> footprint i s' = footprint i s \<Longrightarrow> next_account s' = next_account s \<Longrightarrow> untouched i v s'"
  by (simp add: untouched_def)

named_theorems untouched_rules

lemma untouched_update_account [untouched_rules]:
  assumes "j \<noteq> i" and "\<And>a. a_id (f a) = a_id a"
  shows "keeps (untouched i v) (update_account j con refs f)"
  unfolding update_account_def
proof (rule keeps_stmt [OF quiet_untouched], rule keepsI)
  fix s assume u: "untouched i v s"
  have rows: "filter (\<lambda>a. a_id a = i) (map (\<lambda>a. if a_id a = j then (f a)\<lparr>a_updated_at := clock s\<rparr> else a) as)
      = filter (\<lambda>a. a_id a = i) as" for as
    using assms by (induction as) auto
  show "untouched i v (snd (if j \<in> account_ids s \<and> \<not> set_option refs \<subseteq> user_ids s
       then (Inl (ForeignKeyViolation ''eq_accounts'' con), s)
       else (Inr (length (filter (\<lambda>a. a_id a = j) (accounts s))),
         s\<lparr>accounts := map (\<lambda>a. if a_id a = j then (f a)\<lparr>a_updated_at := clock s\<rparr> else a) (accounts s)\<rparr>)))"
    using u untouchedI [OF u] by (simp add: footprint_simps rows)
qed

lemma untouched_insert_account [untouched_rules]: "keeps (untouched i v) (insert_account uc b pc nc)"
  unfolding insert_account_def
  by (rule keeps_stmt [OF quiet_untouched]) (auto simp: keeps_def untouched_def Let_def footprint_simps)

lemma untouched_deletes [untouched_rules]:
  assumes "j \<noteq> i"
  shows "keeps (untouched i v) (exec_delete shares shares_update (\<lambda>sh. fst sh = j))"
    and "keeps (untouched i v) (exec_delete acc_roles acc_roles_update (\<lambda>r. fst r = j))"
    and "keeps (untouched i v) (exec_delete acc_users acc_users_update (\<lambda>r. fst r = j))"
    and "keeps (untouched i v) (exec_delete links links_update (\<lambda>l. snd l = j))"
  using assms by (auto intro!: keeps_exec_delete simp: untouched_def footprint_simps other_rows)

lemma untouched_inserts [untouched_rules]:
  assumes "j \<noteq> i"
  shows "keeps (untouched i v) (exec_insert shares shares_update viol (\<lambda>_. (j, u)))"
    and "keeps (untouched i v) (exec_insert aliases aliases_update viol (\<lambda>_. \<lparr>n_name = n, n_account = j\<rparr>))"
    and "keeps (untouched i v) (exec_insert_once acc_roles acc_roles_update cf viol (j, r))"
    and "keeps (untouched i v) (exec_insert_once acc_users acc_users_update cf viol (j, u))"
    and "keeps (untouched i v) (exec_insert_once links links_update cf viol (g, j))"
  using assms by (auto intro!: keeps_exec_insert keeps_exec_insert_once simp: untouched_def footprint_simps)

lemma untouched_delete_account [untouched_rules]:
  "j \<noteq> i \<Longrightarrow> keeps (untouched i v) (delete_account j)"
  unfolding delete_account_def
  by (rule keeps_stmt [OF quiet_untouched]) (auto simp: keeps_def untouched_def footprint_simps other_rows)

lemma untouched_operations [untouched_rules]:
  assumes "j \<noteq> i"
  shows "keeps (untouched i v) (SetEQPassword st j p)" and "keeps (untouched i v) (publish ow j)"
    and "keeps (untouched i v) (AddAlias n j)" and "keeps (untouched i v) (replaceAccountShares j us)"
    and "keeps (untouched i v) (ReplaceAccountRoles j rs)" and "keeps (untouched i v) (ReplaceAccountUsers j us)"
    and "keeps (untouched i v) (ReplaceAccountGroups j gs)" and "keeps (untouched i v) (DeleteEQAccount j)"
  unfolding SetEQPassword_def SealString_def Seal_def publish_def AddAlias_def replaceAccountShares_def add_share_def insert_share_def
    ReplaceAccountRoles_def ReplaceAccountUsers_def ReplaceAccountGroups_def DeleteEQAccount_def Let_def
  by (intro keeps_rules untouched_rules quiet_untouched assms; simp)+

lemma untouched_AddEQAccount [untouched_rules]: "keeps (untouched i v) (AddEQAccount st u p n)"
  unfolding AddEQAccount_def SealString_def Seal_def Let_def
  by (intro keeps_rules untouched_rules quiet_untouched)

lemma untouched_add_aliases [untouched_rules]: "j \<noteq> i \<Longrightarrow> keeps (untouched i v) (add_aliases u j als)"
  unfolding add_aliases_def Let_def by (intro keeps_rules untouched_rules)

lemma untouched_reads: "reads m \<Longrightarrow> keeps (untouched i v) m"
  by (rule reads_keeps [OF _ quiet_untouched])

section \<open>Only the owner\<close>

definition owned_by :: "User \<Rightarrow> account_row \<Rightarrow> bool" where
  "owned_by ow a = (a_restricted a \<and> a_owner a = Some (ID ow))"

lemma share_columns_InrD:
  assumes "share_columns j s = (Inr (b, u), s')"
  shows "\<exists>a \<in> set (accounts s). a_id a = j \<and> a_restricted a = b \<and> a_owner a = u"
proof -
  from query_row_InrD [OF assms [unfolded share_columns_def]] obtain fs xs where s': "s' = s\<lparr>faults := fs\<rparr>"
    and rows: "map (\<lambda>a. (a_restricted a, a_owner a)) (filter (\<lambda>a. a_id a = j) (accounts s')) = (b, u) # xs"
    by (elim exE conjE) (rule that)
  from rows have "(b, u) \<in> set (map (\<lambda>a. (a_restricted a, a_owner a)) (filter (\<lambda>a. a_id a = j) (accounts s)))"
    by (simp add: s')
  then show ?thesis by auto
qed

lemma owner_check:
  assumes "share_columns j s = (Inr (b, u), s')" and "\<not> (\<not> b \<or> u \<noteq> Some (ID ow))"
  shows "\<exists>a \<in> set (accounts s). a_id a = j \<and> owned_by ow a"
  using share_columns_InrD [OF assms(1)] assms(2) by (auto simp: owned_by_def)

lemma update_share_InrD:
  assumes "update_share st ow j p s = (Inr (k, prev), s')"
  shows "k = j \<and> (\<exists>a \<in> set (accounts s). a_id a = j \<and> owned_by ow a)"
proof -
  from assms obtain pr s1 c s2 where l: "listShareUserIDs j s = (Inr pr, s1)" and c: "share_columns j s1 = (Inr c, s2)"
    and rest: "(case c of (restricted, ownerID) \<Rightarrow>
        if \<not> restricted \<or> ownerID \<noteq> Some (ID ow) then fail (Err ''account already exists on SSO'') else
        andThen (if TrimSpace p \<noteq> [] then SetEQPassword st j p else ret ()) (\<lambda>_.
        andThen (publish ow j) (\<lambda>_. andThen (ignore (ReplaceAccountUsers j [])) (\<lambda>_. ret (j, pr))))) s2 = (Inr (k, prev), s')"
    unfolding update_share_def by (elim andThen_InrE) (rule that)
  obtain b u where bu: "c = (b, u)" by (cases c)
  obtain fs where s1: "s1 = s\<lparr>faults := fs\<rparr>" using readsD [OF reads_listings(4) l] by blast
  from rest bu have g: "\<not> (\<not> b \<or> u \<noteq> Some (ID ow))" by (auto split: if_splits)
  from owner_check [OF c [unfolded bu] g] have "\<exists>a \<in> set (accounts s). a_id a = j \<and> owned_by ow a"
    by (simp add: s1)
  moreover from rest g have "k = j" by (auto simp: bu elim!: andThen_InrE)
  ultimately show ?thesis by blast
qed

lemma update_share_foreign:
  assumes "\<forall>a \<in> set (accounts s). a_id a = i \<longrightarrow> \<not> owned_by ow a"
  shows "\<exists>fs. snd (update_share st ow i p s) = s\<lparr>faults := fs\<rparr>"
proof -
  obtain r1 s1 where l: "listShareUserIDs i s = (r1, s1)" by (cases "listShareUserIDs i s")
  obtain f1 where s1: "s1 = s\<lparr>faults := f1\<rparr>" using readsD [OF reads_listings(4) l] by blast
  obtain r2 s2 where c: "share_columns i s1 = (r2, s2)" by (cases "share_columns i s1")
  obtain f2 where s2: "s2 = s\<lparr>faults := f2\<rparr>" using readsD [OF reads_share_columns c] s1 by auto
  show ?thesis
  proof (cases r1)
    case (Inl e)
    then have "snd (update_share st ow i p s) = s1" by (simp add: update_share_def andThen_def l)
    then show ?thesis using s1 by blast
  next
    case (Inr pr)
    have "snd (update_share st ow i p s) = s2"
    proof (cases r2)
      case Inl
      then show ?thesis by (simp add: update_share_def andThen_def l Inr c)
    next
      case r2: (Inr cu)
      obtain b u where bu: "cu = (b, u)" by (cases cu)
      have "\<not> b \<or> u \<noteq> Some (ID ow)"
        using owner_check [OF c [unfolded r2 bu]] assms by (auto simp: s1)
      then show ?thesis
        by (simp add: update_share_def andThen_def l Inr c r2 bu)
    qed
    then show ?thesis using s2 by blast
  qed
qed

lemma update_share_untouched: "j \<noteq> i \<Longrightarrow> keeps (untouched i v) (update_share st ow j p)"
  unfolding update_share_def by (intro keeps_rules untouched_rules untouched_reads reads_listings reads_share_columns)

lemma create_share_untouched: "keeps (untouched i v) (create_share st ow u p)"
proof (rule keepsI)
  fix s assume un: "untouched i v s"
  show "untouched i v (snd (create_share st ow u p s))"
  proof (cases "TrimSpace p = []")
    case True
    with un show ?thesis by (simp add: create_share_def)
  next
    case False
    obtain r s1 where a: "AddEQAccount st u p [] s = (r, s1)" by (cases "AddEQAccount st u p [] s")
    have un1: "untouched i v s1" by (rule keeps_result [OF untouched_AddEQAccount un a])
    show ?thesis
    proof (cases r)
      case (Inl e)
      with un1 False a show ?thesis by (simp add: create_share_def andThen_def)
    next
      case (Inr j)
      from a Inr have "j = next_account s" by (auto elim: AddEQAccount_InrD)
      with un have "j \<noteq> i" by (simp add: untouched_def)
      then have "keeps (untouched i v) (andThen (publish ow j) (\<lambda>_. ret (j, [])))"
        by (intro keeps_rules untouched_rules)
      from keepsD [OF this un1] False a Inr show ?thesis by (simp add: create_share_def andThen_def)
    qed
  qed
qed

lemma create_share_InrD:
  assumes "create_share st ow u p s = (Inr (j, prev), s')"
  shows "j = next_account s \<and> prev = []"
  using assms unfolding create_share_def
  by (auto split: if_splits elim!: andThen_InrE AddEQAccount_InrD)

text \<open>
  C13: private shares are changed by their owner only. Whatever a caller passes to
  \<open>ShareLocalAccount\<close> and \<open>UnshareLocalAccount\<close>, and wherever a statement fails, an account that is
  not a private share of the caller keeps its row (credentials, owner, restriction), its role, user
  and group grants, its recipients and its aliases.
\<close>

theorem private_shares_are_owner_only:
  assumes wf: "wf_world s" and a: "a \<in> set (accounts s)" and foreign: "\<not> owned_by ow a"
  shows "footprint (a_id a) (snd (ShareLocalAccount st ow u p als us rs gs s)) = footprint (a_id a) s
    \<and> footprint (a_id a) (snd (UnshareLocalAccount st ow u s)) = footprint (a_id a) s"
proof -
  let ?i = "a_id a" and ?v = "footprint (a_id a) s"
  let ?n = "TrimSpace u"
  have un: "untouched ?i ?v s"
    using wf a by (auto simp: untouched_def wf_world_def wf_accounts_def)
  have no: "\<forall>b \<in> set (accounts s). a_id b = ?i \<longrightarrow> \<not> owned_by ow b"
    using unique_key_eq [of a_id "accounts s"] wf a foreign by (metis wf_world_def wf_accounts_def)
  have share: "untouched ?i ?v (snd (ShareLocalAccount st ow u p als us rs gs s))"
  proof (cases "?n = []")
    case True
    with un show ?thesis by (simp add: ShareLocalAccount_def Let_def)
  next
    case False
    obtain r s1 where f: "FindEQAccountIDByUsername st ?n s = (r, s1)" by (cases "FindEQAccountIDByUsername st ?n s")
    obtain fs where s1: "s1 = s\<lparr>faults := fs\<rparr>" using readsD [OF reads_FindEQAccountIDByUsername f] by blast
    have un1: "untouched ?i ?v s1" using un by (simp add: s1)
    define target where "target = (\<lambda>found. case found of None \<Rightarrow> create_share st ow ?n p | Some i \<Rightarrow> update_share st ow i p)"
    define rest where "rest = (\<lambda>(i, previousShares).
      andThen (add_aliases ?n i als) (\<lambda>_.
      andThen (replaceAccountShares i (dedup (\<lambda>u. u \<le> 0 \<or> u = ID ow) us)) (\<lambda>_.
      andThen (ReplaceAccountRoles i (clean_roles rs)) (\<lambda>_.
      andThen (ReplaceAccountGroups i (clean_ids gs)) (\<lambda>_.
      ret (i, DiffNewShareRecipients previousShares (dedup (\<lambda>u. u \<le> 0 \<or> u = ID ow) us)))))))"
    have op: "ShareLocalAccount st ow u p als us rs gs = andThen (FindEQAccountIDByUsername st ?n) (\<lambda>found. andThen (target found) rest)"
      using False by (simp add: ShareLocalAccount_def Let_def target_def rest_def)
    have rest: "keeps (untouched ?i ?v) (rest (j, prev))" if "j \<noteq> ?i" for j prev
      using that unfolding rest_def prod.case by (intro keeps_rules untouched_rules)
    show ?thesis
    proof (cases r)
      case (Inl e)
      with un1 show ?thesis by (simp add: op andThen_def f)
    next
      case (Inr found)
      obtain q s2 where q: "target found s1 = (q, s2)" by (cases "target found s1")
      have both: "untouched ?i ?v s2 \<and> (\<forall>j prev. q = Inr (j, prev) \<longrightarrow> j \<noteq> ?i)"
      proof (cases found)
        case None
        then have c: "create_share st ow ?n p s1 = (q, s2)" using q by (simp add: target_def)
        from keeps_result [OF create_share_untouched un1 c] create_share_InrD [of st ow ?n p s1] c un1 show ?thesis
          by (auto simp: untouched_def)
      next
        case (Some j)
        then have c: "update_share st ow j p s1 = (q, s2)" using q by (simp add: target_def)
        show ?thesis
        proof (cases "j = ?i")
          case True
          have "\<exists>fs. s2 = s1\<lparr>faults := fs\<rparr>"
            using update_share_foreign [of s1 ?i ow st p] no c True by (simp add: s1)
          moreover have "\<forall>j prev. q \<noteq> Inr (j, prev)"
            using update_share_InrD [of st ow j p s1] c no True by (auto simp: s1)
          ultimately show ?thesis using un1 by auto
        next
          case False
          with keeps_result [OF update_share_untouched [OF False] un1 c] update_share_InrD [of st ow j p s1] c show ?thesis
            by auto
        qed
      qed
      show ?thesis
      proof (cases q)
        case (Inl e)
        with both show ?thesis by (simp add: op andThen_def f Inr q)
      next
        case q': (Inr jp)
        obtain j prev where jp: "jp = (j, prev)" by (cases jp)
        from keepsD [OF rest, of j s2 prev] both show ?thesis by (simp add: op andThen_def f Inr q q' jp)
      qed
    qed
  qed
  have unshare: "untouched ?i ?v (snd (UnshareLocalAccount st ow u s))"
  proof -
    obtain r s1 where f: "FindEQAccountIDByUsername st u s = (r, s1)" by (cases "FindEQAccountIDByUsername st u s")
    obtain fs where s1: "s1 = s\<lparr>faults := fs\<rparr>" using readsD [OF reads_FindEQAccountIDByUsername f] by blast
    have un1: "untouched ?i ?v s1" using un by (simp add: s1)
    show ?thesis
    proof (cases "\<exists>j. r = Inr (Some j)")
      case False
      then show ?thesis using un1 by (auto simp: UnshareLocalAccount_def andThen_def f split: sum.splits option.splits)
    next
      case True
      then obtain j where r: "r = Inr (Some j)" by blast
      obtain q s2 where c: "share_columns j s1 = (q, s2)" by (cases "share_columns j s1")
      have un2: "untouched ?i ?v s2" by (rule keeps_result [OF untouched_reads [OF reads_share_columns] un1 c])
      show ?thesis
      proof (cases q)
        case (Inl e)
        with un2 show ?thesis by (simp add: UnshareLocalAccount_def andThen_def f r c)
      next
        case (Inr bu)
        obtain b w where bu: "bu = (b, w)" by (cases bu)
        show ?thesis
        proof (cases "\<not> b \<or> w \<noteq> Some (ID ow)")
          case True
          with un2 show ?thesis by (simp add: UnshareLocalAccount_def andThen_def f r c Inr bu)
        next
          case False
          from owner_check [OF c [unfolded Inr bu] False] no have "j \<noteq> ?i" by (auto simp: s1)
          from keepsD [OF untouched_operations(8) [OF this] un2] False show ?thesis
            by (simp add: UnshareLocalAccount_def andThen_def f r c Inr bu)
        qed
      qed
    qed
  qed
  from share unshare show ?thesis by (simp add: untouched_def)
qed

theorem private_shares_are_owner_only_witness:
  "let s = shared_world; other = sample_user\<lparr>ID := 2\<rparr>; a = hd (accounts s) in
   a_restricted a \<and> footprint 1 (snd (ShareLocalAccount sample_store other ''Bob'' ''x'' [''Tank''] [] [] [] s)) = footprint 1 s"
proof -
  have a: "hd (accounts shared_world) \<in> set (accounts shared_world)" "\<not> owned_by (sample_user\<lparr>ID := 2\<rparr>) (hd (accounts shared_world))"
    "a_id (hd (accounts shared_world)) = 1" "a_restricted (hd (accounts shared_world))"
    by (simp_all add: shared_world_def owned_by_def)
  from private_shares_are_owner_only [OF wf_shared_world a(1,2)] a(3,4) show ?thesis
    by (simp only: Let_def)
qed

section \<open>What a successful share does\<close>

definition published :: "User \<Rightarrow> int \<Rightarrow> world \<Rightarrow> bool" where
  "published ow i s = (\<exists>a \<in> set (accounts s). a_id a = i \<and> owned_by ow a)"

definition has_account :: "int \<Rightarrow> world \<Rightarrow> bool" where
  "has_account i s = (i \<in> account_ids s)"

definition recipients_of :: "int \<Rightarrow> world \<Rightarrow> int list" where
  "recipients_of i s = map snd (filter (\<lambda>sh. fst sh = i) (shares s))"

definition reachable_user :: "world \<Rightarrow> int \<Rightarrow> bool" where
  "reachable_user s u = (\<exists>x \<in> set (users s). ID x = u \<and> \<not> AccessRevoked x)"

lemma quiet_published [simp]: "quiet (published ow i)" and quiet_has_account [simp]: "quiet (has_account i)"
  by (auto simp: quiet_def published_def has_account_def)

lemma mem_update: "x \<in> set xs \<Longrightarrow> (if P x then f x else x) \<in> set (map (\<lambda>r. if P r then f r else r) xs)"
  by (induction xs) auto

lemma published_update_account:
  assumes "\<And>a. a_id (f a) = a_id a" "\<And>a. owned_by ow a \<Longrightarrow> owned_by ow (f a)"
  shows "keeps (published ow i) (update_account j con refs f)"
  unfolding update_account_def
proof (rule keeps_stmt [OF quiet_published], rule keepsI)
  fix s assume "published ow i s"
  then obtain a where a: "a \<in> set (accounts s)" "a_id a = i" "owned_by ow a" by (auto simp: published_def)
  let ?f = "\<lambda>a. (f a)\<lparr>a_updated_at := clock s\<rparr>"
  let ?as = "map (\<lambda>a. if a_id a = j then ?f a else a) (accounts s)"
  from mem_update [OF a(1), of "\<lambda>a. a_id a = j" ?f] have "(if a_id a = j then ?f a else a) \<in> set ?as" .
  moreover have "a_id (if a_id a = j then ?f a else a) = i \<and> owned_by ow (if a_id a = j then ?f a else a)"
    using a assms by (simp add: owned_by_def)
  ultimately have "published ow i (s\<lparr>accounts := ?as\<rparr>)"
    unfolding published_def by (simp del: set_map) blast
  then show "published ow i (snd (if j \<in> account_ids s \<and> \<not> set_option refs \<subseteq> user_ids s
       then (Inl (ForeignKeyViolation ''eq_accounts'' con), s)
       else (Inr (length (filter (\<lambda>a. a_id a = j) (accounts s))), s\<lparr>accounts := ?as\<rparr>)))"
    using \<open>published ow i s\<close> by (simp del: set_map)
qed

lemma has_account_update_account:
  assumes "\<And>a. a_id (f a) = a_id a"
  shows "keeps (has_account i) (update_account j con refs f)"
  unfolding update_account_def
proof (rule keeps_stmt [OF quiet_has_account], rule keepsI)
  fix s assume h: "has_account i s"
  let ?f = "\<lambda>a. (f a)\<lparr>a_updated_at := clock s\<rparr>"
  have "a_id ` set (map (\<lambda>a. if a_id a = j then ?f a else a) (accounts s)) = account_ids s"
    using image_update_key [of a_id ?f] assms by (simp add: account_ids_def del: set_map)
  then show "has_account i (snd (if j \<in> account_ids s \<and> \<not> set_option refs \<subseteq> user_ids s
       then (Inl (ForeignKeyViolation ''eq_accounts'' con), s)
       else (Inr (length (filter (\<lambda>a. a_id a = j) (accounts s))),
         s\<lparr>accounts := map (\<lambda>a. if a_id a = j then ?f a else a) (accounts s)\<rparr>)))"
    using h by (simp add: has_account_def account_ids_def del: set_map)
qed

lemma publish_InrD:
  assumes "publish ow i s = (Inr (), s')" and "has_account i s"
  shows "published ow i s'"
proof -
  let ?g = "\<lambda>a. a\<lparr>a_required_role := [], a_required_user := None, a_restricted := True, a_owner := Some (ID ow)\<rparr>"
  from assms(1) obtain n where u: "update_account i ''eq_accounts_owner_user_id_fkey'' (Some (ID ow)) ?g s = (Inr n, s')"
    unfolding publish_def by (auto elim!: andThen_InrE)
  from assms(2) obtain a where a: "a \<in> set (accounts s)" "a_id a = i" by (auto simp: has_account_def account_ids_def)
  from u obtain fs t where s': "s' = s\<lparr>faults := fs, accounts := map (\<lambda>a. if a_id a = i then (?g a)\<lparr>a_updated_at := t\<rparr> else a) (accounts s)\<rparr>"
    unfolding update_account_def by (elim stmt_InrD) (auto split: if_splits)
  from mem_update [OF a(1), of "\<lambda>a. a_id a = i" "\<lambda>a. (?g a)\<lparr>a_updated_at := t\<rparr>"] a(2)
  have "(?g a)\<lparr>a_updated_at := t\<rparr> \<in> set (accounts s')" by (simp add: s' del: set_map)
  with a(2) show ?thesis unfolding published_def by (intro bexI) (simp_all add: owned_by_def)
qed

lemma insert_share_InrD:
  assumes "insert_share i u s = (Inr (), s')"
  shows "shares s' = shares s @ [(i, u)]"
  using assms unfolding insert_share_def exec_insert_def
  by (elim stmt_InrD) (auto split: option.splits)

lemma frame_add_share: "unseen f \<Longrightarrow> (\<And>s h. f (shares_update h s) = f s) \<Longrightarrow> frame f (add_share i u)"
  unfolding add_share_def insert_share_def by (intro frame_rules)

lemma add_share_InrD:
  assumes "add_share i u s = (Inr (), s')"
  shows "shares s' = shares s @ [(i, u)] \<and> reachable_user s u"
proof -
  let ?q = "query_row (\<lambda>s. map AccessRevoked (filter (\<lambda>x. ID x = u) (users s)))"
  obtain r s1 where q: "?q s = (r, s1)" by (cases "?q s")
  show ?thesis
  proof (cases r)
    case (Inl e)
    with assms q show ?thesis by (auto simp: add_share_def attempt_def split: if_splits)
  next
    case (Inr b)
    with assms q have b: "\<not> b" and i: "insert_share i u s1 = (Inr (), s')"
      by (auto simp: add_share_def attempt_def split: if_splits)
    from query_row_InrD [OF q [unfolded Inr]] obtain fs xs where s1: "s1 = s\<lparr>faults := fs\<rparr>"
      and rows: "map AccessRevoked (filter (\<lambda>x. ID x = u) (users s1)) = b # xs" by (elim exE conjE) (rule that)
    have "b \<in> set (map AccessRevoked (filter (\<lambda>x. ID x = u) (users s1)))" unfolding rows by simp
    with b insert_share_InrD [OF i] show ?thesis by (auto simp: s1 reachable_user_def)
  qed
qed

lemma share_loop:
  "for_each (add_share i) us s = (Inr (), s') \<Longrightarrow> shares s' = shares s @ map (Pair i) us \<and> (\<forall>u \<in> set us. reachable_user s u)"
proof (induction us arbitrary: s)
  case (Cons u us)
  from Cons.prems obtain s1 where a: "add_share i u s = (Inr (), s1)" and r: "for_each (add_share i) us s1 = (Inr (), s')"
    by (auto elim!: andThen_InrE)
  have "users s1 = users s"
    by (rule frame_result [OF frame_add_share a]) auto
  then have "reachable_user s1 = reachable_user s" by (simp add: reachable_user_def fun_eq_iff)
  with Cons.IH [OF r] add_share_InrD [OF a] show ?case by simp
qed simp

lemma clean_ids_dedup: "clean_ids (dedup (\<lambda>u. u \<le> 0 \<or> P u) us) = dedup (\<lambda>u. u \<le> 0 \<or> P u) us"
  unfolding clean_ids_def dedup_def [of "\<lambda>i. i \<le> 0"] by (rule dedup_from_id) auto

lemma replaceAccountShares_InrD:
  assumes "replaceAccountShares i us s = (Inr (), s')"
  shows "recipients_of i s' = clean_ids us \<and> (\<forall>u \<in> set (clean_ids us). reachable_user s u)"
proof -
  from assms obtain n s1 where d: "exec_delete shares shares_update (\<lambda>sh. fst sh = i) s = (Inr n, s1)"
    and l: "for_each (add_share i) (clean_ids us) s1 = (Inr (), s')"
    unfolding replaceAccountShares_def by (elim andThen_InrE) (rule that)
  from d obtain fs where "s1 = s\<lparr>faults := fs, shares := filter (\<lambda>sh. fst sh \<noteq> i) (shares s)\<rparr>"
    by (elim exec_delete_InrD) simp
  with share_loop [OF l] show ?thesis
    by (simp add: recipients_of_def reachable_user_def filter_map comp_def)
qed

lemma published_steps:
  "keeps (published ow i) (add_aliases u j als)" "keeps (published ow i) (replaceAccountShares j us)"
  "keeps (published ow i) (ReplaceAccountRoles j rs)" "keeps (published ow i) (ReplaceAccountGroups j gs)"
  "keeps (published ow i) (ReplaceAccountUsers j vs)"
proof -
  have fr: "frame accounts m \<Longrightarrow> keeps (published ow i) m" for m :: "unit db"
    unfolding published_def by (rule frame_keeps)
  show "keeps (published ow i) (add_aliases u j als)"
    by (rule fr) (unfold add_aliases_def AddAlias_def Let_def, intro frame_rules unseen_tables; simp)
  show "keeps (published ow i) (replaceAccountShares j us)"
    by (rule fr) (unfold replaceAccountShares_def, intro frame_rules frame_add_share unseen_tables; simp)
  show "keeps (published ow i) (ReplaceAccountGroups j gs)"
    by (rule fr) (unfold ReplaceAccountGroups_def, intro frame_rules unseen_tables; simp)
  have ins: "keeps (published ow i) (exec_insert_once acc_roles acc_roles_update cf vl (j, r))"
    "keeps (published ow i) (exec_insert_once acc_users acc_users_update cf vl (j, w))"
    "keeps (published ow i) (exec_delete acc_roles acc_roles_update P)"
    "keeps (published ow i) (exec_delete acc_users acc_users_update Q)" for cf vl r w P Q
    by (auto intro!: keeps_exec_insert_once keeps_exec_delete simp: published_def)
  show "keeps (published ow i) (ReplaceAccountRoles j rs)" "keeps (published ow i) (ReplaceAccountUsers j vs)"
    unfolding ReplaceAccountRoles_def ReplaceAccountUsers_def Let_def
    by (intro keeps_rules ins published_update_account; simp add: owned_by_def)+
qed

lemma target_published:
  assumes "(case found of None \<Rightarrow> create_share st ow n p | Some i \<Rightarrow> update_share st ow i p) s = (Inr (i, prev), s')"
  shows "published ow i s'"
proof (cases found)
  case None
  with assms obtain s1 where a: "AddEQAccount st n p [] s = (Inr i, s1)" and pb: "publish ow i s1 = (Inr (), s')"
    by (auto simp: create_share_def split: if_splits elim!: andThen_InrE)
  from a have "has_account i s1" by (auto simp: has_account_def account_ids_def elim!: AddEQAccount_InrD)
  then show ?thesis by (rule publish_InrD [OF pb])
next
  case (Some j)
  with assms have u: "update_share st ow j p s = (Inr (i, prev), s')" by simp
  from update_share_InrD [OF u] have ij: "i = j" and ex: "has_account i s" by (auto simp: has_account_def account_ids_def)
  from u obtain pr s1 c s2 where l: "listShareUserIDs j s = (Inr pr, s1)" and c: "share_columns j s1 = (Inr c, s2)"
    and rest: "(case c of (restricted, ownerID) \<Rightarrow>
        if \<not> restricted \<or> ownerID \<noteq> Some (ID ow) then fail (Err ''account already exists on SSO'') else
        andThen (if TrimSpace p \<noteq> [] then SetEQPassword st j p else ret ()) (\<lambda>_.
        andThen (publish ow j) (\<lambda>_. andThen (ignore (ReplaceAccountUsers j [])) (\<lambda>_. ret (j, pr))))) s2 = (Inr (i, prev), s')"
    unfolding update_share_def by (elim andThen_InrE) (rule that)
  have h2: "has_account i s2"
    using ex readsD [OF reads_listings(4) l] readsD [OF reads_share_columns c] by (auto simp: has_account_def)
  from rest have "andThen (if TrimSpace p \<noteq> [] then SetEQPassword st j p else ret ()) (\<lambda>_.
        andThen (publish ow j) (\<lambda>_. andThen (ignore (ReplaceAccountUsers j [])) (\<lambda>_. ret (j, pr)))) s2 = (Inr (i, prev), s')"
    by (cases c) (simp split: if_splits)
  then obtain s3 s4 where pw: "(if TrimSpace p \<noteq> [] then SetEQPassword st j p else ret ()) s2 = (Inr (), s3)"
    and pb: "publish ow j s3 = (Inr (), s4)" and ig: "andThen (ignore (ReplaceAccountUsers j [])) (\<lambda>_. ret (j, pr)) s4 = (Inr (i, prev), s')"
    by (auto elim!: andThen_InrE)
  have "keeps (has_account i) (if TrimSpace p \<noteq> [] then SetEQPassword st j p else ret ())"
    unfolding SetEQPassword_def SealString_def Seal_def
    by (intro keeps_rules quiet_has_account has_account_update_account) simp
  from keeps_result [OF this h2 pw] pb have "published ow i s4" by (auto simp: ij intro: publish_InrD)
  moreover have "keeps (published ow i) (andThen (ignore (ReplaceAccountUsers j [])) (\<lambda>_. ret (j, pr)))"
    by (intro keeps_rules published_steps)
  ultimately show ?thesis using ig by (blast intro: keeps_result)
qed

text \<open>
  C14: a successful share does what was asked. The account it returns is a private share of the
  caller; its recipients are exactly the given users without the caller, duplicates and non-positive
  ids, each an existing user whose access is not revoked; its role and group grants are the cleaned
  lists; the users reported as new are recipients.
\<close>

theorem share_does_what_was_asked:
  assumes run: "ShareLocalAccount st ow u p als us rs gs s = (Inr (i, new), s')"
  shows "(\<exists>a \<in> set (accounts s'). a_id a = i \<and> owned_by ow a)
    \<and> recipients_of i s' = dedup (\<lambda>x. x \<le> 0 \<or> x = ID ow) us
    \<and> (\<forall>x \<in> set (recipients_of i s'). reachable_user s' x \<and> x \<noteq> ID ow)
    \<and> role_grants i s' = clean_roles rs \<and> group_grants i s' = clean_ids gs
    \<and> set new \<subseteq> set (recipients_of i s')"
proof -
  let ?us = "dedup (\<lambda>x. x \<le> 0 \<or> x = ID ow) us"
  from run have "TrimSpace u \<noteq> []" by (auto simp: ShareLocalAccount_def Let_def)
  with run have run': "andThen (FindEQAccountIDByUsername st (TrimSpace u)) (\<lambda>found.
      andThen (case found of None \<Rightarrow> create_share st ow (TrimSpace u) p | Some i \<Rightarrow> update_share st ow i p) (\<lambda>(i, previousShares).
      andThen (add_aliases (TrimSpace u) i als) (\<lambda>_.
      andThen (replaceAccountShares i ?us) (\<lambda>_.
      andThen (ReplaceAccountRoles i (clean_roles rs)) (\<lambda>_.
      andThen (ReplaceAccountGroups i (clean_ids gs)) (\<lambda>_.
      ret (i, DiffNewShareRecipients previousShares ?us))))))) s = (Inr (i, new), s')"
    by (simp add: ShareLocalAccount_def Let_def)
  obtain found s1 jp s2 where t: "(case found of None \<Rightarrow> create_share st ow (TrimSpace u) p | Some i \<Rightarrow> update_share st ow i p) s1 = (Inr jp, s2)"
    and rest: "(\<lambda>(i, previousShares).
      andThen (add_aliases (TrimSpace u) i als) (\<lambda>_.
      andThen (replaceAccountShares i ?us) (\<lambda>_.
      andThen (ReplaceAccountRoles i (clean_roles rs)) (\<lambda>_.
      andThen (ReplaceAccountGroups i (clean_ids gs)) (\<lambda>_.
      ret (i, DiffNewShareRecipients previousShares ?us)))))) jp s2 = (Inr (i, new), s')"
    by (rule andThen_InrE [OF run']) (erule andThen_InrE, rule that)
  obtain j prev where jp: "jp = (j, prev)" by (cases jp)
  from rest [unfolded jp prod.case] obtain s3 s4 s5 s6 where al: "add_aliases (TrimSpace u) j als s2 = (Inr (), s3)"
    and sh: "replaceAccountShares j ?us s3 = (Inr (), s4)"
    and ro: "ReplaceAccountRoles j (clean_roles rs) s4 = (Inr (), s5)" and gr: "ReplaceAccountGroups j (clean_ids gs) s5 = (Inr (), s6)"
    and fin: "ret (j, DiffNewShareRecipients prev ?us) s6 = (Inr (i, new), s')"
    by (auto elim!: andThen_InrE)
  from fin have i: "i = j" and s6: "s6 = s'" and new: "new = DiffNewShareRecipients prev ?us" by auto
  have pub: "published ow j s'"
    using keeps_result [OF published_steps(1) target_published [OF t [unfolded jp]] al] sh ro gr s6
    by (blast intro: keeps_result [OF published_steps(2)] keeps_result [OF published_steps(3)] keeps_result [OF published_steps(4)])
  have frs: "frame shares (ReplaceAccountRoles j (clean_roles rs))" "frame shares (ReplaceAccountGroups j (clean_ids gs))"
    "frame users (ReplaceAccountRoles j (clean_roles rs))" "frame users (ReplaceAccountGroups j (clean_ids gs))"
    unfolding ReplaceAccountRoles_def ReplaceAccountGroups_def Let_def by (intro frame_rules unseen_tables; simp)+
  have fru: "frame users (replaceAccountShares j ?us)"
    unfolding replaceAccountShares_def by (intro frame_rules frame_add_share unseen_tables; simp)
  have "shares s' = shares s4" "users s' = users s3"
    using frame_result [OF frs(1) ro] frame_result [OF frs(2) gr] frame_result [OF frs(3) ro] frame_result [OF frs(4) gr]
      frame_result [OF fru sh] s6 by simp_all
  with replaceAccountShares_InrD [OF sh] have rec: "recipients_of j s' = ?us" and ok: "\<forall>x \<in> set ?us. reachable_user s' x"
    by (simp_all add: recipients_of_def reachable_user_def clean_ids_dedup)
  have "role_grants j s5 = clean_roles (clean_roles rs)"
    using roles.replaced [of j "clean_roles rs" s4] ro by simp
  moreover have "role_grants j s6 = role_grants j s5"
    using frame_result [OF frame_Replace(5) gr] by (simp add: role_grants_def)
  moreover have "map TrimSpace (clean_roles rs) = clean_roles rs"
    by (rule map_idI) (auto simp: clean_roles_def)
  ultimately have "role_grants j s' = clean_roles rs" by (simp add: s6 clean_roles_def)
  moreover have "group_grants j s' = clean_ids gs"
    using grouped.replaced [of j "clean_ids gs" s5] gr by (simp add: s6 clean_ids_def)
  ultimately show ?thesis
    using pub rec ok by (auto simp: i new published_def DiffNewShareRecipients_def)
qed

definition two_users :: world where
  "two_users = sample_world\<lparr>users := [sample_user, sample_user\<lparr>ID := 2, DiscordID := ''other''\<rparr>], next_user := 3\<rparr>"

text \<open>A new account row, as \<open>AddEQAccount\<close> writes it.\<close>

definition fresh_row :: "Store \<Rightarrow> string \<Rightarrow> world \<Rightarrow> bytes \<Rightarrow> bytes \<Rightarrow> account_row" where
  "fresh_row st u s uc pc = \<lparr>a_id = next_account s, a_username_cipher = uc,
     a_username_blind = BlindIndex (StoreKey st) (ToLower (TrimSpace u)), a_password_cipher = pc, a_notes_cipher = None,
     a_disabled = False, a_required_role = [], a_required_user = None, a_restricted = False, a_owner = None,
     a_updated_at = clock s\<rparr>"

lemma AddEQAccount_runs:
  assumes "faults s = [] \<and> fs = [] \<or> faults s = None # fs"
    and "BlindIndex (StoreKey st) (ToLower (TrimSpace u)) \<notin> a_username_blind ` set (accounts s)"
  obtains uc pc en where "AddEQAccount st u p [] s = (Inr (next_account s), s\<lparr>entropy := en, faults := fs,
     next_account := next_account s + 1, accounts := accounts s @ [fresh_row st u s uc pc]\<rparr>)"
proof -
  obtain uc e1 where e1: "SealString (StoreAEAD st) u ''eq_accounts.username'' s = (Inr uc, s\<lparr>entropy := e1\<rparr>)"
    by (rule SealString_cases)
  obtain pc e2 where "SealString (StoreAEAD st) p ''eq_accounts.password'' (s\<lparr>entropy := e1\<rparr>)
      = (Inr pc, s\<lparr>entropy := e1\<rparr>\<lparr>entropy := e2\<rparr>)"
    by (rule SealString_cases)
  then have e2: "SealString (StoreAEAD st) p ''eq_accounts.password'' (s\<lparr>entropy := e1\<rparr>) = (Inr pc, s\<lparr>entropy := e2\<rparr>)"
    by simp
  have "insert_account uc (BlindIndex (StoreKey st) (ToLower (TrimSpace u))) pc None (s\<lparr>entropy := e2\<rparr>)
      = (Inr (next_account s), s\<lparr>entropy := e2, faults := fs,
     next_account := next_account s + 1, accounts := accounts s @ [fresh_row st u s uc pc]\<rparr>)"
    using assms(1)
  proof
    assume f: "faults s = [] \<and> fs = []"
    then have "s = s\<lparr>faults := fs\<rparr>" by simp
    then have same: "s\<lparr>entropy := e2\<rparr> = s\<lparr>entropy := e2, faults := fs\<rparr>" by (metis world.surjective world.update_convs(21,22))
    show ?thesis
      using f assms(2) by (subst same) (simp add: insert_account_def stmt_def Let_def fresh_row_def)
  next
    assume "faults s = None # fs"
    then show ?thesis
      using assms(2) by (simp add: insert_account_def stmt_def Let_def fresh_row_def)
  qed
  then have "AddEQAccount st u p [] s = (Inr (next_account s), s\<lparr>entropy := e2, faults := fs,
     next_account := next_account s + 1, accounts := accounts s @ [fresh_row st u s uc pc]\<rparr>)"
    unfolding AddEQAccount_def Let_def by (simp add: andThen_def e1 e2)
  then show thesis by (rule that)
qed

lemma two_users_facts [simp]:
  "faults two_users = []" "accounts two_users = []" "next_account two_users = 1" "shares two_users = []"
  "acc_roles two_users = []" "acc_users two_users = []" "links two_users = []" "user_ids two_users = {1, 2}"
  "users two_users = [sample_user, sample_user\<lparr>ID := 2, DiscordID := ''other''\<rparr>]"
  by (simp_all add: two_users_def sample_world_def empty_world_def user_ids_def sample_user_def)

lemma bob: "TrimSpace ''Bob'' = ''Bob''" "TrimSpace ''pw'' = ''pw''" "ToLower ''Bob'' = ''bob''"
  by code_simp+

theorem share_does_what_was_asked_witness:
  "\<exists>i new s'. ShareLocalAccount sample_store sample_user ''Bob'' ''pw'' [] [2, 1, 2] [] [] two_users = (Inr (i, new), s')
    \<and> recipients_of i s' = [2]"
proof -
  let ?s = two_users
  have 1: "faults ?s = [] \<and> [] = [] \<or> faults ?s = None # []"
    and 2: "BlindIndex (StoreKey sample_store) (ToLower (TrimSpace ''Bob'')) \<notin> a_username_blind ` set (accounts ?s)" by simp_all
  obtain uc pc en where "AddEQAccount sample_store ''Bob'' ''pw'' [] ?s = (Inr (next_account ?s), ?s\<lparr>entropy := en, faults := [],
     next_account := next_account ?s + 1, accounts := accounts ?s @ [fresh_row sample_store ''Bob'' ?s uc pc]\<rparr>)"
    by (rule AddEQAccount_runs [OF 1 2])
  then have add: "AddEQAccount sample_store ''Bob'' ''pw'' [] ?s = (Inr 1, ?s\<lparr>entropy := en, faults := [],
     next_account := 2, accounts := [fresh_row sample_store ''Bob'' ?s uc pc]\<rparr>)"
    by simp
  have find: "FindEQAccountIDByUsername sample_store ''Bob'' ?s = (Inr None, ?s)"
    by (simp add: FindEQAccountIDByUsername_def Let_def bob attempt_def query_row_no_faults)
  have d: "dedup (\<lambda>x. x \<le> 0 \<or> x = ID sample_user) [2, 1, 2] = [2]" "clean_ids [2] = [2]" "clean_ids [] = []" "clean_roles [] = []"
      "dedup (\<lambda>x. x \<le> 0 \<or> x = 1) [2, 1, 2] = [2 :: int]"
    by (simp_all add: dedup_def sample_user_def clean_ids_def clean_roles_def)
  have "\<exists>i new s'. ShareLocalAccount sample_store sample_user ''Bob'' ''pw'' [] [2, 1, 2] [] [] ?s = (Inr (i, new), s')"
    by (simp add: ShareLocalAccount_def Let_def bob andThen_def find create_share_def add publish_def update_account_def stmt_no_faults
        add_aliases_def replaceAccountShares_def d exec_delete_def add_share_def attempt_def query_row_no_faults insert_share_def
        exec_insert_def strict_def account_user_fk_def account_fk_def account_ids_def fresh_row_def ReplaceAccountRoles_def
        ReplaceAccountGroups_def clean_roles_def sample_user_def user_ids_def)
  then obtain i new s' where run: "ShareLocalAccount sample_store sample_user ''Bob'' ''pw'' [] [2, 1, 2] [] [] ?s = (Inr (i, new), s')"
    by blast
  from share_does_what_was_asked [OF run] run d show ?thesis by auto
qed

text \<open>
  Publishing is not atomic: the account is created open to everybody and restricted by a second
  statement. When that statement fails, the caller sees an error and the credentials stay usable by
  every authenticated user.
\<close>

lemma failed_share_is_public:
  "\<exists>s e. wf_world s \<and> fst (ShareLocalAccount sample_store sample_user ''Bob'' ''pw'' [] [] [] [] s) = Inl e
    \<and> (\<exists>a \<in> set (accounts (snd (ShareLocalAccount sample_store sample_user ''Bob'' ''pw'' [] [] [] [] s))).
         \<forall>uid. may_use (snd (ShareLocalAccount sample_store sample_user ''Bob'' ''pw'' [] [] [] [] s)) uid a)"
proof -
  let ?s = "two_users\<lparr>faults := [None, None, Some ''connection lost'']\<rparr>"
  let ?s1 = "two_users\<lparr>faults := [None, Some ''connection lost'']\<rparr>"
  have 1: "faults ?s1 = [] \<and> [Some ''connection lost''] = [] \<or> faults ?s1 = None # [Some ''connection lost'']"
    and 2: "BlindIndex (StoreKey sample_store) (ToLower (TrimSpace ''Bob'')) \<notin> a_username_blind ` set (accounts ?s1)" by simp_all
  obtain uc pc en where "AddEQAccount sample_store ''Bob'' ''pw'' [] ?s1 = (Inr (next_account ?s1), ?s1\<lparr>entropy := en,
     faults := [Some ''connection lost''], next_account := next_account ?s1 + 1,
     accounts := accounts ?s1 @ [fresh_row sample_store ''Bob'' ?s1 uc pc]\<rparr>)"
    by (rule AddEQAccount_runs [OF 1 2])
  then have add: "AddEQAccount sample_store ''Bob'' ''pw'' [] ?s1 = (Inr 1, ?s1\<lparr>entropy := en,
     faults := [Some ''connection lost''], next_account := 2, accounts := [fresh_row sample_store ''Bob'' ?s1 uc pc]\<rparr>)"
    by simp
  have find: "FindEQAccountIDByUsername sample_store ''Bob'' ?s = (Inr None, ?s1)"
    by (simp add: FindEQAccountIDByUsername_def Let_def bob attempt_def query_row_def stmt_def)
  have run: "ShareLocalAccount sample_store sample_user ''Bob'' ''pw'' [] [] [] [] ?s
      = (Inl (Err ''connection lost''), two_users\<lparr>entropy := en, faults := [], next_account := 2,
           accounts := [fresh_row sample_store ''Bob'' ?s1 uc pc]\<rparr>)"
    by (simp add: ShareLocalAccount_def Let_def bob andThen_def find create_share_def add publish_def update_account_def stmt_def)
  have "wf_world two_users"
    using wf_sample_world by (simp add: two_users_def wf_world_def sample_world_def empty_world_def id_sets wf_users_def
        wf_groups_def wf_tokens_def wf_members_def wf_accounts_def wf_names_def wf_tags_def wf_pairs_def sample_user_def)
  then have "wf_world ?s" by simp
  then show ?thesis
    by (intro exI [of _ ?s]) (simp add: run may_use_def audience_def named_users_def grants_def user_grants_def role_grants_def
        group_grants_def fresh_row_def)
qed

end
