(* ===== verification/StoreSteps.thy ===== *)
theory StoreSteps
  imports StoreActivity StoreShares
begin

text \<open>
  The store as a state machine. A step is one mutating operation of internal/store, run to its end or
  to the statement at which it fails, with any arguments; between operations time passes, the random
  source moves on and the database connection may become faulty. \<open>served\<close> are the worlds the service
  can get into after cmd/daemon has prepared an empty database with \<open>EnsureDefaultGroup\<close>.

  The operations of concurrent requests are taken one after the other. The database itself gives
  less (each statement, or transaction, is atomic); what is proved per operation holds at every
  statement boundary, since a step may stop at any of its statements.
\<close>

section \<open>Steps\<close>

inductive_set operations :: "Store \<Rightarrow> unit db set" for st :: Store where
  "ignore (UpsertUser d n rs) \<in> operations st"
| "SetUserRoles u rs \<in> operations st"
| "SetUserAccessRevoked u r \<in> operations st"
| "ignore (CreateToken st u) \<in> operations st"
| "RevokeToken u t \<in> operations st"
| "ignore (UserByToken raw) \<in> operations st"
| "ignore (CreateGroup n d w c) \<in> operations st"
| "UpdateGroupMeta g n d w c \<in> operations st"
| "DeleteGroup g \<in> operations st"
| "ignore EnsureDefaultGroup \<in> operations st"
| "EnsureUserInDefaultGroupIfNone v \<in> operations st"
| "AddGroupUser g u \<in> operations st"
| "RemoveGroupUser g u \<in> operations st"
| "AddGroupRole g r \<in> operations st"
| "RemoveGroupRole g r \<in> operations st"
| "LinkAccountGroup a g \<in> operations st"
| "UnlinkAccountGroup a g \<in> operations st"
| "ReplaceGroupMembership g us rs \<in> operations st"
| "ReplaceGroupAccountLinks g as \<in> operations st"
| "ignore (AddEQAccount st n p t) \<in> operations st"
| "SetEQPassword st a p \<in> operations st"
| "SetEQDisabled a b \<in> operations st"
| "SetEQRequiredRole a r \<in> operations st"
| "SetEQRequiredUser a u \<in> operations st"
| "ReplaceAccountRoles a rs \<in> operations st"
| "ReplaceAccountUsers a us \<in> operations st"
| "ReplaceAccountGroups a gs \<in> operations st"
| "SetAccountAccess a rs us gs \<in> operations st"
| "AddAlias n a \<in> operations st"
| "RemoveAlias n a \<in> operations st"
| "AddTag n a \<in> operations st"
| "RemoveTag n a \<in> operations st"
| "AddCharacter n a \<in> operations st"
| "RemoveCharacter n a \<in> operations st"
| "DeleteEQAccount a \<in> operations st"
| "SetRestrictedAccountShares a us \<in> operations st"
| "ignore (ShareLocalAccount st v n p als us rs gs) \<in> operations st"
| "UnshareLocalAccount st v n \<in> operations st"
| "AuditAccount st u a n d \<in> operations st"
| "UpsertDiscordRoles roles \<in> operations st"

inductive store_step :: "Store \<Rightarrow> world \<Rightarrow> world \<Rightarrow> bool" for st :: Store where
  operation: "m \<in> operations st \<Longrightarrow> store_step st s (snd (m s))"
| connection: "store_step st s (s\<lparr>faults := fs\<rparr>)"
| randomness: "store_step st s (s\<lparr>entropy := en\<rparr>)"
| time: "clock s \<le> t \<Longrightarrow> store_step st s (s\<lparr>clock := t\<rparr>)"

inductive served :: "Store \<Rightarrow> world \<Rightarrow> bool" for st :: Store where
  start: "EnsureDefaultGroup (empty_world\<lparr>clock := t, entropy := en\<rparr>) = (Inr g, s) \<Longrightarrow> served st s"
| step: "served st s \<Longrightarrow> store_step st s s' \<Longrightarrow> served st s'"

inductive_cases store_stepE: "store_step st s s'"

section \<open>Preservation\<close>

lemma groups_framed:
  "frame groups (UpsertUser d n rs)" "frame groups (SetUserRoles u rs)" "frame groups (SetUserAccessRevoked u r)"
  "frame groups (RevokeToken u t)" "frame groups (UserByToken raw)"
  "frame groups (AddGroupUser g u)" "frame groups (RemoveGroupUser g u)" "frame groups (AddGroupRole g q)"
  "frame groups (RemoveGroupRole g q)" "frame groups (LinkAccountGroup a g)" "frame groups (UnlinkAccountGroup a g)"
  "frame groups (ReplaceGroupMembership g us rs)" "frame groups (ReplaceGroupAccountLinks g as)"
  unfolding UpsertUser_def SetUserRoles_def SetUserAccessRevoked_def RevokeToken_def UserByToken_def UserByID_def revoke_tokens_def
    AddGroupUser_def RemoveGroupUser_def AddGroupRole_def RemoveGroupRole_def LinkAccountGroup_def UnlinkAccountGroup_def
    ReplaceGroupMembership_def ReplaceGroupAccountLinks_def upsert_user_def Let_def
  by (intro frame_rules frame_stmt unseen_tables; auto simp: frame_def Let_def split: list.splits)+

lemma groups_framed_token: "frame groups (CreateToken st u)"
  unfolding CreateToken_def MustRandToken_def SealString_def Seal_def revoke_tokens_def insert_token_def UserByID_def Let_def
  by (intro frame_rules frame_stmt unseen_tables; auto simp: frame_def split: option.splits)

lemma groups_framed_accounts:
  "frame groups (AddEQAccount st n p t)" "frame groups (SetEQPassword st a p)" "frame groups (SetEQDisabled a b)"
  "frame groups (ReplaceAccountRoles a rs)" "frame groups (ReplaceAccountUsers a us)" "frame groups (ReplaceAccountGroups a gs)"
  "frame groups (AddAlias n a)" "frame groups (RemoveAlias n a)" "frame groups (AddTag n a)" "frame groups (RemoveTag n a)"
  "frame groups (AddCharacter n a)" "frame groups (RemoveCharacter n a)" "frame groups (DeleteEQAccount a)"
  unfolding AddEQAccount_def SetEQPassword_def SetEQDisabled_def ReplaceAccountRoles_def ReplaceAccountUsers_def
    ReplaceAccountGroups_def AddAlias_def RemoveAlias_def AddTag_def RemoveTag_def AddCharacter_def RemoveCharacter_def
    DeleteEQAccount_def insert_account_def delete_account_def SealString_def Seal_def Let_def
  by (intro frame_rules frame_stmt unseen_tables; simp add: frame_def)+

lemma groups_framed_access:
  "frame groups (SetEQRequiredRole a r)" "frame groups (SetEQRequiredUser a u)" "frame groups (SetAccountAccess a rs us gs)"
  unfolding SetEQRequiredRole_def SetEQRequiredUser_def SetAccountAccess_def Let_def
  by (intro frame_rules groups_framed_accounts)+

lemma reads_frame: "reads m \<Longrightarrow> unseen f \<Longrightarrow> frame f m"
  unfolding reads_def frame_def unseen_def by metis

lemma groups_framed_shares:
  "frame groups (replaceAccountShares a us)" "frame groups (SetRestrictedAccountShares a us)"
  "frame groups (ShareLocalAccount st v n p als us rs gs)" "frame groups (UnshareLocalAccount st v n)"
proof -
  show r: "frame groups (replaceAccountShares a us)" for a us
    unfolding replaceAccountShares_def by (intro frame_rules frame_add_share unseen_tables; simp)
  show "frame groups (SetRestrictedAccountShares a us)"
    unfolding SetRestrictedAccountShares_def share_columns_def by (intro frame_rules r unseen_tables)
  have p: "frame groups (publish v i)" for i
    unfolding publish_def by (intro frame_rules unseen_tables) simp
  show "frame groups (ShareLocalAccount st v n p als us rs gs)"
    unfolding ShareLocalAccount_def update_share_def create_share_def add_aliases_def Let_def
    by (intro frame_rules r p groups_framed_accounts reads_frame [OF reads_share_columns] reads_frame [OF reads_FindEQAccountIDByUsername]
        reads_frame [OF reads_listings(4)] unseen_tables)
  show "frame groups (UnshareLocalAccount st v n)"
    unfolding UnshareLocalAccount_def
    by (intro frame_rules groups_framed_accounts reads_frame [OF reads_share_columns]
        reads_frame [OF reads_FindEQAccountIDByUsername] unseen_tables)
qed

lemma groups_framed_rest: "frame groups (AuditAccount st u a n d)" "frame groups (UpsertDiscordRoles roles)"
proof -
  show "frame groups (AuditAccount st u a n d)" by (rule frame_AuditAccount) simp_all
  have "frame groups (upsert_role i n)" for i n
    unfolding upsert_role_def by (rule frame_stmt) (simp_all add: frame_def)
  then show "frame groups (UpsertDiscordRoles roles)"
    unfolding UpsertDiscordRoles_def Let_def by (intro frame_rules)
qed

lemma EnsureUserInDefault_inv: "keeps group_inv (EnsureUserInDefaultGroupIfNone u)"
  unfolding EnsureUserInDefaultGroupIfNone_def ListGroupsForUser_def
  by (intro keeps_rules quiet_group_inv EnsureDefaultGroup_inv keeps_group_inv [OF keeps_AddGroupUser groups_framed(6)])

lemma frame_update_group [frame_rules]: "frame tokens (update_group g f)" "frame users (update_group g f)"
  unfolding update_group_def by (intro frame_stmt unseen_tables; simp add: frame_def)+

lemma assigning_spares_tokens:
  "frame tokens (UpsertUser d n rs)" "frame tokens (EnsureUserInDefaultGroupIfNone u)" "frame users (EnsureUserInDefaultGroupIfNone u)"
  unfolding UpsertUser_def upsert_user_def EnsureUserInDefaultGroupIfNone_def EnsureDefaultGroup_def AddGroupUser_def
    CreateGroup_def insert_group_def FindGroupIDByName_def ListGroupsForUser_def syncDefaultGroupBasePerms_def Let_def
  by ((intro frame_rules frame_stmt unseen_tables; simp add: frame_def Let_def split: list.splits option.splits)+)

lemma UpsertUser_result:
  assumes "UpsertUser d n rs s = (Inr u, s')"
  shows "u \<in> set (users s') \<and> DiscordID u = d"
proof (cases "filter (\<lambda>u. DiscordID u = d) (users s)")
  case Nil
  with assms show ?thesis
    by (auto simp: UpsertUser_def upsert_user_def stmt_def Let_def split: list.splits option.splits)
next
  case (Cons v vs)
  then have "v \<in> set (users s)" "DiscordID v = d" by (auto dest: filter_eq_ConsD)
  with Cons assms show ?thesis
    by (force simp: UpsertUser_def upsert_user_def stmt_def Let_def split: list.splits option.splits)
qed

lemmas operations_inv =
  CreateGroup_inv UpdateGroupMeta_inv DeleteGroup_inv EnsureDefaultGroup_inv EnsureUserInDefault_inv

lemmas operations_wf =
  keeps_UpsertUser keeps_SetUserRoles keeps_SetUserAccessRevoked keeps_CreateToken keeps_RevokeToken keeps_UserByToken
  keeps_AddGroupUser keeps_RemoveGroupUser keeps_AddGroupRole keeps_RemoveGroupRole keeps_LinkAccountGroup keeps_UnlinkAccountGroup
  keeps_ReplaceGroupMembership keeps_ReplaceGroupAccountLinks keeps_AddEQAccount keeps_SetEQPassword keeps_SetEQDisabled
  keeps_SetEQRequiredRole keeps_SetEQRequiredUser keeps_ReplaceAccountRoles keeps_ReplaceAccountUsers keeps_ReplaceAccountGroups
  keeps_SetAccountAccess keeps_AddAlias keeps_RemoveNames keeps_AddTag keeps_AddCharacter keeps_DeleteEQAccount
  keeps_SetRestrictedAccountShares keeps_ShareLocalAccount keeps_UnshareLocalAccount keeps_AuditAccount keeps_UpsertDiscordRoles

lemmas operations_frame = groups_framed groups_framed_token groups_framed_accounts groups_framed_access groups_framed_shares groups_framed_rest

lemma operations_keep_inv:
  assumes "m \<in> operations st"
  shows "keeps group_inv m"
  using assms
proof induction
qed ((rule operations_inv | rule keeps_ignore, rule operations_inv
      | rule keeps_group_inv, rule operations_wf, rule operations_frame
      | rule keeps_ignore, rule keeps_group_inv, rule operations_wf, rule operations_frame)+)

lemma store_step_inv:
  assumes "store_step st s s'" and "group_inv s"
  shows "group_inv s'"
  using assms
proof cases
  case (operation m)
  with assms(2) show ?thesis by (simp add: keepsD [OF operations_keep_inv])
next
  case (time t)
  with assms(2) show ?thesis
    by (simp add: group_inv_def default_locked_def wf_world_def id_sets)
qed (use assms(2) in simp_all)

lemma start_inv:
  assumes "EnsureDefaultGroup (empty_world\<lparr>clock := t, entropy := en\<rparr>) = (Inr g, s)"
  shows "group_inv s"
proof -
  let ?s0 = "empty_world\<lparr>clock := t, entropy := en\<rparr>"
  let ?d = "\<lparr>g_id = 1, g_name = DefaultGroupName, g_desc = defaultGroupDescription, g_web_role = [], g_cmds = DefaultGroupDiscordCommands\<rparr>"
  have "TrimSpace DefaultGroupName = DefaultGroupName" "DefaultGroupName \<noteq> []"
    "NormalizeDiscordCommands DefaultGroupDiscordCommands = Inr DefaultGroupDiscordCommands" "NormalizeWebRole [] = Inr []"
    "IsDefaultGroupName DefaultGroupName"
    by code_simp+
  then have "s = ?s0\<lparr>groups := [?d], next_group := 2\<rparr>"
    using assms
    by (simp add: EnsureDefaultGroup_def FindGroupIDByName_def CreateGroup_def insert_group_def empty_world_def
        andThen_def attempt_def query_row_no_faults stmt_no_faults Let_def)
  then show ?thesis
    by (simp add: group_inv_def default_locked_def wf_world_def id_sets empty_world_def wf_users_def wf_tokens_def wf_groups_def
        wf_members_def wf_accounts_def wf_pairs_def wf_names_def wf_tags_def is_default_def \<open>IsDefaultGroupName DefaultGroupName\<close>
        \<open>TrimSpace DefaultGroupName = DefaultGroupName\<close>)
qed

text \<open>
  C12: the invariant of the store. In every world the service can reach, whatever sequence of
  operations was run and wherever statements failed, the schema holds (ids and unique columns
  distinct, every reference points to a row, at most one active token per user, names unique in any
  case) and there is exactly one Default group, with its fixed commands and no web role.
\<close>

theorem store_invariant:
  assumes "served st s"
  shows "wf_world s \<and> default_locked s"
proof -
  from assms have "group_inv s"
    by induction (auto intro: start_inv store_step_inv)
  then show ?thesis by (simp add: group_inv_def)
qed

lemma served_seeded:
  "served st (snd (EnsureDefaultGroup (empty_world\<lparr>clock := t, entropy := en\<rparr>)))"
proof -
  let ?s0 = "empty_world\<lparr>clock := t, entropy := en\<rparr>"
  have "TrimSpace DefaultGroupName = DefaultGroupName" "DefaultGroupName \<noteq> []"
    "NormalizeDiscordCommands DefaultGroupDiscordCommands = Inr DefaultGroupDiscordCommands" "NormalizeWebRole [] = Inr []"
    "IsDefaultGroupName DefaultGroupName"
    by code_simp+
  then have "EnsureDefaultGroup ?s0 = (Inr 1, snd (EnsureDefaultGroup ?s0))"
    by (simp add: EnsureDefaultGroup_def FindGroupIDByName_def CreateGroup_def insert_group_def empty_world_def
        andThen_def attempt_def query_row_no_faults stmt_no_faults Let_def)
  then show ?thesis by (rule served.start)
qed

theorem store_invariant_witness:
  "let s0 = snd (EnsureDefaultGroup (empty_world\<lparr>clock := 0, entropy := (\<lambda>_. 0)\<rparr>));
       s1 = snd (ignore (UpsertUser ''42'' ''Ann'' []) (s0\<lparr>faults := [None, Some ''lost'']\<rparr>))
   in served sample_store s1 \<and> wf_world s1"
proof -
  let ?s0 = "snd (EnsureDefaultGroup (empty_world\<lparr>clock := 0, entropy := (\<lambda>_. 0)\<rparr>))"
  have "served sample_store (?s0\<lparr>faults := [None, Some ''lost'']\<rparr>)"
    by (rule served.step [OF served_seeded store_step.connection])
  then have "served sample_store (snd (ignore (UpsertUser ''42'' ''Ann'' []) (?s0\<lparr>faults := [None, Some ''lost'']\<rparr>)))"
    by (rule served.step) (rule store_step.operation, rule operations.intros)
  with store_invariant [OF this] show ?thesis by (simp only: Let_def)
qed

end
