(* ===== verification/HubCore.thy ===== *)
theory HubCore
  imports Presence LoginPacket StoreActivity StoreShares "HOL-Library.Sublist"
begin

text \<open>
  The parts of internal/sso that need no connection: the validators and \<open>pickLoginCandidate\<close> of hub.go,
  the admin test, and the per-client UDP relay of hub_relay.go with its fallback to the typed
  credentials.

  A string is its bytes, one character each; \<open>RuneCountInString\<close> decodes them as UTF-8 the way Go
  does, a byte that starts no valid sequence counting as one rune. The sockets of a relay are not
  modelled: a relay is the data it keeps between datagrams, and what it does is the list of datagrams
  it sends to the login server and to the client.
\<close>

section \<open>Validators\<close>

definition continues :: "nat \<Rightarrow> nat \<Rightarrow> nat list \<Rightarrow> bool" where
  "continues lo hi bs = (case bs of b # _ \<Rightarrow> lo \<le> b \<and> b \<le> hi | [] \<Rightarrow> False)"

text \<open>The width of the first rune of a non-empty byte sequence (package unicode/utf8).\<close>

fun rune_width :: "nat list \<Rightarrow> nat" where
  "rune_width [] = 1"
| "rune_width (b # bs) =
     (let next = continues 0x80 0xBF in
      if 0xC2 \<le> b \<and> b \<le> 0xDF then if next bs then 2 else 1
      else if 0xE0 \<le> b \<and> b \<le> 0xEF then
        if continues (if b = 0xE0 then 0xA0 else 0x80) (if b = 0xED then 0x9F else 0xBF) bs \<and> next (drop 1 bs) then 3 else 1
      else if 0xF0 \<le> b \<and> b \<le> 0xF4 then
        if continues (if b = 0xF0 then 0x90 else 0x80) (if b = 0xF4 then 0x8F else 0xBF) bs
           \<and> next (drop 1 bs) \<and> next (drop 2 bs) then 4 else 1
      else 1)"

lemma rune_width_pos: "0 < rune_width bs"
  by (cases bs) (auto simp: Let_def)

function rune_count :: "nat list \<Rightarrow> nat" where
  "rune_count bs = (if bs = [] then 0 else Suc (rune_count (drop (rune_width bs) bs)))"
  by pat_completeness auto
termination
  by (relation "measure length") (use rune_width_pos in auto)

declare rune_count.simps [simp del]

definition RuneCountInString :: "string \<Rightarrow> nat" where
  "RuneCountInString s = rune_count (map of_char s)"

definition ContainsAny :: "string \<Rightarrow> string \<Rightarrow> bool" where
  "ContainsAny s chars = list_ex (\<lambda>c. c \<in> set chars) s"

definition maxUsernameLen :: nat where "maxUsernameLen = 64"
definition maxPasswordLen :: nat where "maxPasswordLen = 128"
definition maxAliasLen :: nat where "maxAliasLen = 64"
definition maxTagLen :: nat where "maxTagLen = 64"
definition maxCharacterLen :: nat where "maxCharacterLen = 64"

lemmas max_lens = maxUsernameLen_def maxPasswordLen_def maxAliasLen_def maxTagLen_def maxCharacterLen_def

definition control_chars :: string where
  "control_chars = [CHR 0x00, CHR 0x0A, CHR 0x0D]"

definition validateUsername :: "string \<Rightarrow> string option" where
  "validateUsername s =
     (if s = [] then Some ''username_required''
      else if RuneCountInString s > maxUsernameLen then Some ''username_too_long''
      else if ContainsAny s control_chars then Some ''username_invalid'' else None)"

definition validatePassword :: "string \<Rightarrow> string option" where
  "validatePassword s =
     (if s = [] then Some ''password_required''
      else if RuneCountInString s > maxPasswordLen then Some ''password_too_long''
      else if CHR 0x00 \<in> set s then Some ''password_invalid'' else None)"

definition validateAlias :: "string \<Rightarrow> string option" where
  "validateAlias s =
     (if s = [] then Some ''alias_required''
      else if RuneCountInString s > maxAliasLen then Some ''alias_too_long''
      else if ContainsAny s control_chars then Some ''alias_invalid'' else None)"

definition validateTag :: "string \<Rightarrow> string option" where
  "validateTag s =
     (if s = [] then Some ''tag_required''
      else if RuneCountInString s > maxTagLen then Some ''tag_too_long''
      else if ContainsAny s control_chars then Some ''tag_invalid'' else None)"

definition validateCharacter :: "string \<Rightarrow> string option" where
  "validateCharacter s =
     (if s = [] then Some ''name_required''
      else if RuneCountInString s > maxCharacterLen then Some ''name_too_long''
      else if ContainsAny s control_chars then Some ''name_invalid'' else None)"

section \<open>Choosing a login candidate\<close>

text \<open>The tag pool is searched in order; asking the tracker expires old entries.\<close>

fun first_free :: "int \<Rightarrow> LoginCandidate list \<Rightarrow> Tracker \<Rightarrow> int \<times> Tracker" where
  "first_free now [] t = (0, t)"
| "first_free now (c # cs) t =
     (case IsBusy now (CandID c) t of (busy, t') \<Rightarrow> if \<not> busy then (CandID c, t') else first_free now cs t')"

definition pickLoginCandidate :: "int \<Rightarrow> LoginCandidate list \<Rightarrow> Tracker \<Rightarrow> int \<times> Tracker" where
  "pickLoginCandidate now cands t =
     (let direct = filter Direct cands; tagPool = filter (\<lambda>c. \<not> Direct c \<and> ByTag c) cands in
      case direct of c # _ \<Rightarrow> (CandID c, t)
      | [] \<Rightarrow> (case tagPool of [c] \<Rightarrow> (CandID c, t) | _ \<Rightarrow> first_free now tagPool t))"

section \<open>Admins and rate limits\<close>

record HubConfig =
  AdminRoleID :: string
  BootstrapAdminIDs :: "string list"
  ProtocolVersion :: int
  ratePerMin :: int

definition userIsAdmin :: "HubConfig \<Rightarrow> User \<Rightarrow> bool" where
  "userIsAdmin h u =
     (if DiscordID u \<in> set (BootstrapAdminIDs h) then True
      else if AdminRoleID h = [] then False
      else AdminRoleID h \<in> set (RoleIDs u))"

text \<open>The rate a limiter is created with; the limiter itself is golang.org/x/time/rate.\<close>

definition limiter_rate :: "HubConfig \<Rightarrow> int" where
  "limiter_rate h = (if ratePerMin h \<le> 0 then 30 else ratePerMin h)"

section \<open>The UDP relay\<close>

record udpRelay =
  crcBytes :: "8 word"
  crcKey :: "32 word"
  typedFallback :: bytes
  typedRetryUsed :: bool

definition new_relay :: udpRelay where
  "new_relay = \<lparr>crcBytes = 0, crcKey = 0, typedFallback = [], typedRetryUsed = False\<rparr>"

definition setTypedFallback :: "bytes \<Rightarrow> udpRelay \<Rightarrow> udpRelay" where
  "setTypedFallback pkt r = (if pkt = [] then r else r\<lparr>typedFallback := pkt, typedRetryUsed := False\<rparr>)"

definition takeTypedRetry :: "udpRelay \<Rightarrow> bytes \<times> udpRelay" where
  "takeTypedRetry r =
     (if typedRetryUsed r \<or> typedFallback r = [] then ([], r)
      else (typedFallback r, r\<lparr>typedRetryUsed := True, typedFallback := []\<rparr>))"

definition clearTypedFallback :: "udpRelay \<Rightarrow> udpRelay" where
  "clearTypedFallback r = r\<lparr>typedFallback := [], typedRetryUsed := True\<rparr>"

text \<open>\<open>None\<close> is a run-time panic of the datagram readers, which do not happen (see \<open>SoeProtocol\<close>).\<close>

definition noteDownlink :: "bytes \<Rightarrow> udpRelay \<Rightarrow> udpRelay option" where
  "noteDownlink pkt r =
     (case ParseSessionResponse pkt of None \<Rightarrow> None
      | Some resp \<Rightarrow>
          let r = (case resp of None \<Rightarrow> r | Some x \<Rightarrow> r\<lparr>crcBytes := CRCBytes x, crcKey := EncodeKey x\<rparr>) in
          (case LooksLikeLoginSuccess pkt of None \<Rightarrow> None
           | Some won \<Rightarrow> Some (if won then clearTypedFallback r else r)))"

definition stripBody :: "udpRelay \<Rightarrow> bytes \<Rightarrow> bytes" where
  "stripBody r pkt = StripForParse pkt (crcBytes r)"

definition wrapSpliced :: "udpRelay \<Rightarrow> bytes \<Rightarrow> bytes" where
  "wrapSpliced r body = RestoreCRC body (crcKey r) (crcBytes r)"

datatype relayed = ToServer bytes | ToClient bytes

text \<open>One datagram from the login server in \<open>relayReadLoop\<close>.\<close>

definition relay_down :: "bytes \<Rightarrow> udpRelay \<Rightarrow> (relayed \<times> udpRelay) option" where
  "relay_down pkt r =
     (case noteDownlink pkt r of None \<Rightarrow> None
      | Some r \<Rightarrow>
        (case LooksLikeLoginFailure pkt of None \<Rightarrow> None
         | Some failed \<Rightarrow>
            if failed then
              (case takeTypedRetry r of (retry, r') \<Rightarrow>
                 if retry \<noteq> [] then Some (ToServer retry, r') else Some (ToClient pkt, r'))
            else Some (ToClient pkt, r)))"

section \<open>What the validators let through\<close>

lemma rune_step:
  fixes a w l :: nat
  shows "0 < w \<Longrightarrow> w \<le> 4 \<Longrightarrow> 0 < l \<Longrightarrow> a \<le> l - w \<and> l - w \<le> 4 * a \<Longrightarrow> Suc a \<le> l \<and> l \<le> 4 * Suc a"
  by arith

lemma rune_count_bounds: "rune_count bs \<le> length bs \<and> length bs \<le> 4 * rune_count bs"
proof (induction bs rule: rune_count.induct)
  case (1 bs)
  show ?case
  proof (cases "bs = []")
    case True
    then show ?thesis by (simp add: rune_count.simps)
  next
    case False
    have "rune_width bs \<le> 4" by (cases bs) (auto simp: Let_def)
    moreover have "0 < length bs" using False by simp
    moreover have "rune_count bs = Suc (rune_count (drop (rune_width bs) bs))"
      using False by (subst rune_count.simps) simp
    ultimately show ?thesis
      using rune_step [OF rune_width_pos _ _ 1 [OF False, unfolded length_drop]] by metis
  qed
qed

lemma rune_count_ascii: "\<forall>b \<in> set bs. b < 0x80 \<Longrightarrow> rune_count bs = length bs"
proof (induction bs)
  case Nil
  then show ?case by (simp add: rune_count.simps)
next
  case (Cons b bs)
  have "rune_width (b # bs) = 1" using Cons.prems by (simp add: Let_def)
  with Cons show ?case by (subst rune_count.simps) simp
qed

text \<open>
  C24: the bounds behind the validators. An accepted login name, alias, tag or character name is not
  empty, has no NUL, LF or CR and at most 64 runes, hence at most 256 bytes; an accepted password is
  not empty, has no NUL and at most 128 runes, hence at most 512 bytes. On ASCII text runes are
  bytes, so an accepted name and password together always fit the 230 bytes of a login packet.
\<close>

theorem validated_credentials_bounded:
  "(validateUsername s = None \<or> validateAlias s = None \<or> validateTag s = None \<or> validateCharacter s = None \<longrightarrow>
      s \<noteq> [] \<and> set s \<inter> set control_chars = {} \<and> length s \<le> 256)
   \<and> (validatePassword p = None \<longrightarrow> p \<noteq> [] \<and> no_nul p \<and> length p \<le> 512)
   \<and> (validateUsername s = None \<and> validatePassword p = None \<and> (\<forall>c \<in> set (s @ p). of_char c < (128 :: nat)) \<longrightarrow>
        no_nul s \<and> length s + length p \<le> 230)"
proof -
  have b: "length x \<le> 4 * RuneCountInString x" for x
    using rune_count_bounds [of "map of_char x"] by (simp add: RuneCountInString_def)
  have a: "(\<forall>c \<in> set x. of_char c < (128 :: nat)) \<Longrightarrow> RuneCountInString x = length x" for x
    using rune_count_ascii [of "map of_char x"] by (simp add: RuneCountInString_def)
  have ctl: "\<not> ContainsAny s control_chars \<longleftrightarrow> set s \<inter> set control_chars = {}"
    by (auto simp: ContainsAny_def list_ex_iff)
  have names: "s \<noteq> [] \<and> RuneCountInString s \<le> 64 \<and> \<not> ContainsAny s control_chars"
    if "validateUsername s = None \<or> validateAlias s = None \<or> validateTag s = None \<or> validateCharacter s = None"
    using that by (auto simp: validateUsername_def validateAlias_def validateTag_def validateCharacter_def max_lens split: if_splits)
  have pw: "p \<noteq> [] \<and> RuneCountInString p \<le> 128 \<and> no_nul p" if "validatePassword p = None"
    using that by (auto simp: validatePassword_def max_lens no_nul_def split: if_splits)
  have "no_nul s" if "set s \<inter> set control_chars = {}"
    using that by (auto simp: no_nul_def control_chars_def)
  with names pw b [of s] b [of p] a [of s] a [of p] show ?thesis
    unfolding ctl by (intro conjI impI) (force dest: bspec)+
qed

theorem validated_credentials_bounded_witness:
  "validateUsername ''Bob'' = None \<and> validatePassword ''pw'' = None \<and> length ''Bob'' + length ''pw'' \<le> 230"
proof -
  have v: "validateUsername ''Bob'' = None" "validatePassword ''pw'' = None" by code_simp+
  have "\<forall>c \<in> set (''Bob'' @ ''pw''). of_char c < (128 :: nat)" by simp
  with v validated_credentials_bounded [of "''Bob''" "''pw''"] show ?thesis by blast
qed

text \<open>
  Beyond ASCII the validators admit credentials no login packet can carry: a name of 60 and a
  password of 100 two-byte runes (the letter e with an acute accent) are accepted and have 320 bytes.
\<close>

definition e_acute :: string where
  "e_acute = [CHR 0xC3, CHR 0xA9]"

lemma rune_count_e_acute: "RuneCountInString (concat (replicate n e_acute)) = n"
proof -
  have "rune_count (0xC3 # 0xA9 # bs) = Suc (rune_count bs)" for bs
    by (subst rune_count.simps) (simp add: continues_def Let_def)
  then have "rune_count (concat (replicate n [0xC3, 0xA9])) = n"
    by (induction n) (simp_all add: rune_count.simps [of "[]"])
  moreover have "map of_char (concat (replicate n e_acute)) = concat (replicate n [0xC3, 0xA9 :: nat])"
    by (simp add: map_concat e_acute_def)
  ultimately show ?thesis by (simp add: RuneCountInString_def)
qed

lemma validated_but_too_long:
  "\<exists>u p. validateUsername u = None \<and> validatePassword p = None \<and> 230 < length u + length p"
proof (intro exI conjI)
  let ?u = "concat (replicate 60 e_acute)" and ?p = "concat (replicate 100 e_acute)"
  have mem: "set (concat (replicate n e_acute)) \<subseteq> {CHR 0xC3, CHR 0xA9}" for n
    by (induction n) (auto simp: e_acute_def)
  have len: "length (concat (replicate n e_acute)) = 2 * n" for n
    by (induction n) (simp_all add: e_acute_def)
  have ne: "n \<noteq> 0 \<Longrightarrow> concat (replicate n e_acute) \<noteq> []" for n
    using len [of n] by (cases n) (auto simp: e_acute_def)
  have "\<not> ContainsAny ?u control_chars"
    using mem [of 60] by (auto simp: ContainsAny_def list_ex_iff control_chars_def)
  then show "validateUsername ?u = None"
    unfolding validateUsername_def rune_count_e_acute using ne [of 60] by (simp add: max_lens)
  have "CHR 0x00 \<notin> set ?p" using mem [of 100] by auto
  then show "validatePassword ?p = None"
    unfolding validatePassword_def rune_count_e_acute using ne [of 100] by (simp add: max_lens)
  show "230 < length ?u + length ?p" by (simp only: len)
qed

section \<open>The choice of the account\<close>

lemma IsBusy_pair: "IsBusy now a t = (Busy now a t, expireLocked now t)"
  by (simp add: Busy_def IsBusy_def Let_def)

lemma Busy_expire [simp]: "wf_tracker t \<Longrightarrow> Busy now a (expireLocked now t) = Busy now a t"
  by (simp add: Busy_iff_live)

lemma first_free_result:
  "wf_tracker t \<Longrightarrow> fst (first_free now cs t) =
     (case filter (\<lambda>c. \<not> Busy now (CandID c) t) cs of [] \<Rightarrow> 0 | c # _ \<Rightarrow> CandID c)
   \<and> live now (snd (first_free now cs t)) = live now t \<and> wf_tracker (snd (first_free now cs t))"
  by (induction cs arbitrary: t) (simp_all add: IsBusy_pair)

lemma pickLoginCandidate_facts:
  assumes "wf_tracker t" and "pickLoginCandidate now cands t = (chosen, t')"
  shows "chosen = (case filter Direct cands of
        c # _ \<Rightarrow> CandID c
      | [] \<Rightarrow> (case filter ByTag cands of
          [] \<Rightarrow> 0
        | [c] \<Rightarrow> CandID c
        | cs \<Rightarrow> (case filter (\<lambda>c. \<not> Busy now (CandID c) t) cs of [] \<Rightarrow> 0 | c # _ \<Rightarrow> CandID c)))
    \<and> (chosen \<noteq> 0 \<longrightarrow> (\<exists>c \<in> set cands. CandID c = chosen \<and> matched c))
    \<and> live now t' = live now t"
proof (cases "filter Direct cands")
  case (Cons c cs)
  then have "c \<in> set cands" "Direct c" by (auto dest: filter_ConsD)
  with Cons assms(2) show ?thesis by (auto simp: pickLoginCandidate_def Let_def matched_def)
next
  case Nil
  then have pool: "filter (\<lambda>c. \<not> Direct c \<and> ByTag c) cands = filter ByTag cands"
    by (auto simp: filter_empty_conv intro: filter_cong)
  have tagged: "c \<in> set cands \<and> matched c" if "c \<in> set (filter ByTag cands)" for c
    using that by (auto simp: matched_def)
  consider "filter ByTag cands = []" | c where "filter ByTag cands = [c]" | a b cs where "filter ByTag cands = a # b # cs"
    by (metis remdups_adj.cases)
  then show ?thesis
  proof cases
    case 1
    with Nil assms(2) show ?thesis by (auto simp: pickLoginCandidate_def Let_def pool)
  next
    case 2
    with Nil assms(2) tagged [of c] show ?thesis by (auto simp: pickLoginCandidate_def Let_def pool)
  next
    case 3
    with Nil assms(2) have ff: "first_free now (a # b # cs) t = (chosen, t')"
      by (simp add: pickLoginCandidate_def Let_def pool)
    from first_free_result [OF assms(1), of now "a # b # cs"]
    have res: "chosen = (case filter (\<lambda>c. \<not> Busy now (CandID c) t) (a # b # cs) of [] \<Rightarrow> 0 | c # _ \<Rightarrow> CandID c)"
      and lv: "live now t' = live now t" unfolding ff by simp_all
    have "\<exists>c \<in> set cands. CandID c = chosen \<and> matched c" if "chosen \<noteq> 0"
    proof -
      from that res obtain c ds where f: "filter (\<lambda>c. \<not> Busy now (CandID c) t) (a # b # cs) = c # ds" and "chosen = CandID c"
        by (auto split: list.splits)
      with filter_ConsD [OF f] 3 tagged [of c] show ?thesis by auto
    qed
    with res lv 3 Nil show ?thesis by simp
  qed
qed

definition tag_candidate :: "int \<Rightarrow> LoginCandidate" where
  "tag_candidate i = \<lparr>CandID = i, ByUser = False, ByTag = True, ByAlias = False, ByCharacter = False\<rparr>"

text \<open>
  C21: which account a login name opens. If some candidate matches by login name, alias or character,
  the first of these is chosen, busy or not; otherwise a single tagged account is chosen, busy or
  not, and of several tagged accounts the first that nobody plays, none if all are busy. Choosing
  does not change who is online.
\<close>

theorem pick_rotates_over_free_boxes:
  assumes "wf_tracker t" and "pickLoginCandidate now cands t = (chosen, t')"
  shows "chosen = (case filter Direct cands of
        c # _ \<Rightarrow> CandID c
      | [] \<Rightarrow> (case filter ByTag cands of
          [] \<Rightarrow> 0
        | [c] \<Rightarrow> CandID c
        | cs \<Rightarrow> (case filter (\<lambda>c. \<not> Busy now (CandID c) t) cs of [] \<Rightarrow> 0 | c # _ \<Rightarrow> CandID c)))
    \<and> (chosen \<noteq> 0 \<longrightarrow> (\<exists>c \<in> set cands. CandID c = chosen \<and> matched c))
    \<and> live now t' = live now t"
  using assms by (rule pickLoginCandidate_facts)

theorem pick_rotates_over_free_boxes_witness:
  "fst (pickLoginCandidate 10 [tag_candidate 1, tag_candidate 2] (Touch 5 1 ''Bob'' 7 (New 60))) = 2
   \<and> Busy 10 1 (Touch 5 1 ''Bob'' 7 (New 60))"
proof -
  let ?t = "Touch 5 1 ''Bob'' 7 (New 60)"
  obtain c t' where p: "pickLoginCandidate 10 [tag_candidate 1, tag_candidate 2] ?t = (c, t')"
    by (rule prod.exhaust)
  have b: "Busy 10 1 ?t" "\<not> Busy 10 2 ?t" by code_simp+
  have "wf_tracker ?t" by simp
  from pick_rotates_over_free_boxes [OF this p] b have "c = 2"
    by (simp add: tag_candidate_def Direct_def)
  with p b show ?thesis by simp
qed

section \<open>The relay retries once\<close>

definition pending :: "udpRelay \<Rightarrow> bool" where
  "pending r \<longleftrightarrow> \<not> typedRetryUsed r \<and> typedFallback r \<noteq> []"

datatype relay_event = Typed bytes | Down bytes

inductive relay_reach :: "relay_event list \<Rightarrow> udpRelay \<Rightarrow> relayed list \<Rightarrow> bool" where
  fresh: "relay_reach [] new_relay []"
| typed: "relay_reach es r out \<Longrightarrow> relay_reach (es @ [Typed pkt]) (setTypedFallback pkt r) out"
| down: "relay_reach es r out \<Longrightarrow> relay_down pkt r = Some (o', r') \<Longrightarrow> relay_reach (es @ [Down pkt]) r' (out @ [o'])"

definition typed_packets :: "relay_event list \<Rightarrow> bytes list" where
  "typed_packets es = concat (map (\<lambda>e. case e of Typed p \<Rightarrow> [p] | Down _ \<Rightarrow> []) es)"

definition retries :: "relayed list \<Rightarrow> bytes list" where
  "retries out = concat (map (\<lambda>e. case e of ToServer p \<Rightarrow> [p] | ToClient _ \<Rightarrow> []) out)"

definition waiting :: "udpRelay \<Rightarrow> bytes list" where
  "waiting r = (if pending r then [typedFallback r] else [])"

lemma noteDownlink_cases:
  obtains r' where "noteDownlink pkt r = Some r'" and "waiting r' = (if LooksLikeLoginSuccess pkt = Some True then [] else waiting r)"
proof -
  obtain resp where resp: "ParseSessionResponse pkt = Some resp" using ParseSessionResponse_total by blast
  obtain won where won: "LooksLikeLoginSuccess pkt = Some won" using LooksLikeLoginSuccess_iff by blast
  show thesis
    by (rule that [of "if won then clearTypedFallback (case resp of None \<Rightarrow> r | Some x \<Rightarrow> r\<lparr>crcBytes := CRCBytes x, crcKey := EncodeKey x\<rparr>)
        else (case resp of None \<Rightarrow> r | Some x \<Rightarrow> r\<lparr>crcBytes := CRCBytes x, crcKey := EncodeKey x\<rparr>)"])
      (auto simp: noteDownlink_def resp won waiting_def pending_def clearTypedFallback_def Let_def split: option.splits)
qed

lemma relay_down_cases:
  obtains (retry) p r' where "relay_down pkt r = Some (ToServer p, r')" and "waiting r = [p]" and "waiting r' = []"
      and "LooksLikeLoginFailure pkt = Some True" and "LooksLikeLoginSuccess pkt \<noteq> Some True"
    | (pass) r' where "relay_down pkt r = Some (ToClient pkt, r')"
      and "waiting r' = (if LooksLikeLoginSuccess pkt = Some True then [] else waiting r)"
      and "LooksLikeLoginFailure pkt = Some True \<longrightarrow> waiting r' = []"
proof -
  obtain r1 where n: "noteDownlink pkt r = Some r1"
    and w: "waiting r1 = (if LooksLikeLoginSuccess pkt = Some True then [] else waiting r)"
    by (rule noteDownlink_cases)
  obtain failed where f: "LooksLikeLoginFailure pkt = Some failed" using LooksLikeLoginFailure_total by blast
  show thesis
  proof (cases "failed \<and> pending r1")
    case True
    then have w1: "waiting r1 = [typedFallback r1]" by (simp add: waiting_def)
    from True n f have "relay_down pkt r = Some (ToServer (typedFallback r1), r1\<lparr>typedRetryUsed := True, typedFallback := []\<rparr>)"
      by (simp add: relay_down_def takeTypedRetry_def pending_def)
    then show thesis
      by (rule retry) (use w w1 True f in \<open>auto simp: waiting_def pending_def split: if_splits\<close>)
  next
    case False
    then have "relay_down pkt r = Some (ToClient pkt, r1)"
      using n f by (auto simp: relay_down_def takeTypedRetry_def pending_def)
    then show thesis
      by (rule pass) (use False f w in \<open>auto simp: waiting_def\<close>)
  qed
qed

lemma subseq_extend: "subseq (xs @ ys) zs \<Longrightarrow> subseq (xs @ [z]) (zs @ [z])"
  by (metis list_emb_append2 list_emb_append_mono subseq_order.dual_order.trans subseq_order.order_refl prefix_imp_subseq prefixI)

lemma subseq_front: "subseq (xs @ ys) zs \<Longrightarrow> subseq xs zs"
  by (rule subseq_order.trans [OF prefix_imp_subseq]) simp_all

lemma relay_reach_waiting:
  "relay_reach es r out \<Longrightarrow> subseq (retries out @ waiting r) (typed_packets es)"
proof (induction rule: relay_reach.induct)
  case fresh
  then show ?case by (simp add: retries_def waiting_def pending_def new_relay_def)
next
  case (typed es r out pkt)
  have tp: "typed_packets (es @ [Typed pkt]) = typed_packets es @ [pkt]" by (simp add: typed_packets_def)
  show ?case
  proof (cases "pkt = []")
    case True
    with list_emb_prefix [OF typed.IH] show ?thesis unfolding tp by (simp add: setTypedFallback_def)
  next
    case False
    then have "waiting (setTypedFallback pkt r) = [pkt]" by (simp add: setTypedFallback_def waiting_def pending_def)
    then show ?thesis unfolding tp using subseq_extend [OF typed.IH] by simp
  qed
next
  case (down es r out pkt o' r')
  have tp: "typed_packets (es @ [Down pkt]) = typed_packets es" by (simp add: typed_packets_def)
  from down.hyps(2) show ?case
    by (cases rule: relay_down_cases [of pkt r])
      (use down.IH in \<open>auto simp: tp retries_def split: if_splits dest: subseq_front\<close>)
qed

text \<open>
  C22: at most one retry per login. Along every run of a relay, the datagrams it sends to the login
  server on its own are, in order, some of the typed datagrams it was given, each at most once; so a
  wrong password is never tried again and again. After a datagram that announces success nothing is
  left to retry.
\<close>

theorem typed_retry_at_most_once:
  assumes "relay_reach es r out"
  shows "subseq (retries out) (typed_packets es)
    \<and> (LooksLikeLoginSuccess pkt = Some True \<longrightarrow> (\<exists>r'. relay_down pkt r = Some (ToClient pkt, r') \<and> \<not> pending r'))"
proof -
  have "subseq (retries out) (typed_packets es)"
    by (rule subseq_front [OF relay_reach_waiting [OF assms]])
  moreover have "\<exists>r'. relay_down pkt r = Some (ToClient pkt, r') \<and> \<not> pending r'" if "LooksLikeLoginSuccess pkt = Some True"
    by (cases rule: relay_down_cases [of pkt r]) (use that in \<open>auto simp: waiting_def split: if_splits\<close>)
  ultimately show ?thesis by blast
qed

lemma disconnect_verdicts:
  "LooksLikeLoginFailure [0, 5] = Some True" "LooksLikeLoginSuccess [0, 5] = Some False"
  "LooksLikeLoginFailure [0, 9] = Some False" "LooksLikeLoginSuccess [0, 9] = Some False"
  by code_simp+

theorem typed_retry_at_most_once_witness:
  "\<exists>r. relay_reach [Typed [1], Down [0, 5], Down [0, 5]] r [ToServer [1], ToClient [0, 5]]
     \<and> subseq (retries [ToServer [1], ToClient [0, 5]]) (typed_packets [Typed [1], Down [0, 5], Down [0, 5]])"
proof -
  have "relay_reach ([] @ [Typed [1]]) (setTypedFallback [1] new_relay) []"
    by (rule relay_reach.typed [OF relay_reach.fresh])
  moreover obtain r1 where "relay_down [0, 5] (setTypedFallback [1] new_relay) = Some (ToServer [1], r1)" "waiting r1 = []"
    by (cases rule: relay_down_cases [of "[0, 5]" "setTypedFallback [1] new_relay"])
      (auto simp: waiting_def pending_def setTypedFallback_def new_relay_def disconnect_verdicts)
  ultimately have r1: "relay_reach (([] @ [Typed [1]]) @ [Down [0, 5]]) r1 ([] @ [ToServer [1]])"
    by (intro relay_reach.down)
  obtain r2 where "relay_down [0, 5] r1 = Some (ToClient [0, 5], r2)"
    by (cases rule: relay_down_cases [of "[0, 5]" r1]) (use \<open>waiting r1 = []\<close> in auto)
  with r1 have "relay_reach ((([] @ [Typed [1]]) @ [Down [0, 5]]) @ [Down [0, 5]]) r2 (([] @ [ToServer [1]]) @ [ToClient [0, 5]])"
    by (rule relay_reach.down)
  then have r2: "relay_reach [Typed [1], Down [0, 5], Down [0, 5]] r2 [ToServer [1], ToClient [0, 5]]" by simp
  from typed_retry_at_most_once [OF r2] r2 show ?thesis by blast
qed

text \<open>A run of datagrams from the login server.\<close>

fun deliver :: "bytes list \<Rightarrow> udpRelay \<Rightarrow> (relayed list \<times> udpRelay) option" where
  "deliver [] r = Some ([], r)"
| "deliver (p # ps) r =
     (case relay_down p r of None \<Rightarrow> None
      | Some (x, r') \<Rightarrow> (case deliver ps r' of None \<Rightarrow> None | Some (xs, r'') \<Rightarrow> Some (x # xs, r'')))"

definition neutral :: "bytes \<Rightarrow> bool" where
  "neutral pkt \<longleftrightarrow> LooksLikeLoginFailure pkt = Some False \<and> LooksLikeLoginSuccess pkt \<noteq> Some True"

definition rejects :: "bytes \<Rightarrow> bool" where
  "rejects pkt \<longleftrightarrow> LooksLikeLoginFailure pkt = Some True \<and> LooksLikeLoginSuccess pkt \<noteq> Some True"

text \<open>
  C23: a rejected vault login is retried with what the client typed. When the typed datagram was kept
  and the login server, after any number of datagrams without a verdict, rejects the login, exactly
  that datagram is sent next and the rejection is not shown to the client; a second rejection is.
\<close>

theorem rejected_login_is_retried:
  assumes "typed \<noteq> []" and "list_all neutral ds" and "rejects f" and "rejects g"
  shows "\<exists>r'. deliver (ds @ [f, g]) (setTypedFallback typed r) = Some (map ToClient ds @ [ToServer typed, ToClient g], r')"
proof -
  have "\<exists>r'. deliver (ds @ [f, g]) q = Some (map ToClient ds @ [ToServer typed, ToClient g], r')"
    if "waiting q = [typed]" "list_all neutral ds" for q
    using that
  proof (induction ds arbitrary: q)
    case Nil
    from assms(3) obtain q1 where d1: "relay_down f q = Some (ToServer typed, q1)" and w1: "waiting q1 = []"
      by (cases rule: relay_down_cases [of f q]) (use Nil in \<open>auto simp: rejects_def\<close>)
    obtain q2 where "relay_down g q1 = Some (ToClient g, q2)"
      by (cases rule: relay_down_cases [of g q1]) (use w1 in auto)
    with d1 show ?case by simp
  next
    case (Cons d ds)
    from Cons.prems obtain q1 where "relay_down d q = Some (ToClient d, q1)" and "waiting q1 = [typed]"
      by (cases rule: relay_down_cases [of d q]) (auto simp: neutral_def)
    with Cons.IH [of q1] Cons.prems show ?case by auto
  qed
  moreover have "waiting (setTypedFallback typed r) = [typed]"
    using assms(1) by (simp add: setTypedFallback_def waiting_def pending_def)
  ultimately show ?thesis using assms(2) by blast
qed

theorem rejected_login_is_retried_witness:
  "\<exists>r'. deliver [[0, 9], [0, 5], [0, 5]] (setTypedFallback [1] new_relay)
     = Some ([ToClient [0, 9], ToServer [1], ToClient [0, 5]], r')"
  using rejected_login_is_retried [of "[1]" "[[0, 9]]" "[0, 5]" "[0, 5]" new_relay]
  by (simp add: neutral_def rejects_def disconnect_verdicts)

end
