(* ===== verification/Hub.thy ===== *)
theory Hub
  imports HubCore
begin

text \<open>
  internal/sso/hub.go: the state of the hub of desktop clients, its register of clients and the state
  it sends them. The handlers of messages are in \<open>HubRelay\<close> and \<open>HubMessages\<close>.

  A \<open>hub\<close> is the database, the presence tracker, the registered clients (\<open>h.clients\<close>), the WebSocket
  connections with the local variables of their \<open>ServeHTTP\<close> loop, and what was written: replies to
  connections, datagrams to the login server, rounds of listener calls. Handling one message, one
  datagram from the login server or one hang-up is one action over it; the goroutines of Go
  interleave between such actions. JSON and base64 are decoded already: a message that does not
  decode is one of the \<open>Bad...\<close> constructors, an undecodable payload is \<open>None\<close>.

  From outside the repository: \<open>uuids\<close> are the values of \<open>uuid.NewString\<close>, \<open>verdicts\<close> the answers of the
  rate limiters (golang.org/x/time/rate), \<open>sockets\<close> whether opening the next UDP socket succeeds; an
  exhausted list means yes. A write to a connection that is closed is lost. The clock of the world
  is the clock of the tracker. \<open>notices\<close> are the calls of \<open>ShareNotifier\<close>. Log lines and the keepalive
  pings are left out.
\<close>

section \<open>State\<close>

record wsClient =
  cl_id :: string
  cl_conn :: nat
  cl_user :: User
  cl_version :: string
  cl_relay :: "udpRelay option"

record conn =
  c_id :: nat
  c_open :: bool
  c_authed :: bool
  c_user :: User
  c_session :: "string option"

record ShareActivity =
  ActLogins :: "ShareLoginEntry list"
  ActOnline :: "ShareOnlineEntry list"

record StatePayload =
  PlState :: FullState
  PlIsAdmin :: bool
  PlUser :: User
  PlDirectory :: "DirectoryUser list option"
  PlGroups :: "GroupDetail list option"
  PlRoles :: "(string \<times> string) list option"
  PlActivity :: "ShareActivity option"
  PlAdmin :: "AdminState option"

datatype reply =
    ErrorMsg string
  | UnsupportedProtocol int int
  | LoginAuthDenied string string
  | LoginAuthOk string int
  | FullStateMsg StatePayload
  | ShareFailed string string
  | ShareDone string "int option"
  | AdminFailed string string
  | AdminDone string int
  | AdminUserDone string int
  | RelayDown bytes
  | RelayError string
  | SpliceResult string bytes "string option"
  | PongMsg

datatype message =
    InvalidJson
  | BadAuth
  | Auth string int string
  | GetState
  | BadLoginAuth | LoginAuth string string
  | BadLoginRelayUp | LoginRelayUp "bytes option" bool
  | BadLoginSplice string | LoginSplice string "bytes option"
  | BadHeartbeat | Heartbeat string bool
  | BadShare string
  | ShareAccount string string string "string list" "int list" "string list" "int list"
  | UnshareAccount string string
  | BadAdmin string
  | AdminAddAccount string string string "string option"
  | AdminUpdateAccount string int "string option" "bool option" "string option"
  | AdminAddAlias string string int | AdminAddTag string string int | AdminAddCharacter string string int
  | AdminRemoveAlias string string int | AdminRemoveTag string string int | AdminRemoveCharacter string string int
  | AdminRemoveAccount string int
  | AdminSetUserAccess string int bool
  | AdminSetUserRoles string
  | PongIn | PingIn | UnknownType

record hub =
  db :: world
  pres :: Tracker
  clients :: "wsClient list"
  conns :: "conn list"
  next_uuid :: nat
  uuids :: "nat \<Rightarrow> string"
  verdicts :: "bool list"
  sockets :: "bool list"
  outbox :: "(nat \<times> reply) list"
  upstream :: "(string \<times> bytes) list"
  notified :: nat
  notices :: "(int \<times> string \<times> string list \<times> int list) list"

type_synonym 'a hm = "(hub, 'a) action"

section \<open>Actions\<close>

definition lift :: "'a db \<Rightarrow> 'a hm" where
  "lift m h = (case m (db h) of (r, w) \<Rightarrow> (r, h\<lparr>db := w\<rparr>))"

definition gets :: "(hub \<Rightarrow> 'a) \<Rightarrow> 'a hm" where
  "gets f h = (Inr (f h), h)"

definition modify :: "(hub \<Rightarrow> hub) \<Rightarrow> unit hm" where
  "modify f h = (Inr (), f h)"

definition tracker :: "(int \<Rightarrow> Tracker \<Rightarrow> 'a \<times> Tracker) \<Rightarrow> 'a hm" where
  "tracker f h = (case f (clock (db h)) (pres h) of (x, t) \<Rightarrow> (Inr x, h\<lparr>pres := t\<rparr>))"

definition optional :: "'a hm \<Rightarrow> 'a option hm" where
  "optional m = attempt m (\<lambda>r. ret (case r of Inl _ \<Rightarrow> None | Inr x \<Rightarrow> Some x))"

definition conn_open :: "nat \<Rightarrow> hub \<Rightarrow> bool" where
  "conn_open cid h = (\<exists>c \<in> set (conns h). c_id c = cid \<and> c_open c)"

text \<open>A call of the store whose error is handled on the spot.\<close>

definition trying :: "'a db \<Rightarrow> (error \<Rightarrow> unit hm) \<Rightarrow> ('a \<Rightarrow> unit hm) \<Rightarrow> unit hm" where
  "trying m handle k = attempt (lift m) (\<lambda>r. case r of Inl e \<Rightarrow> handle e | Inr x \<Rightarrow> k x)"

definition writeJSON :: "nat \<Rightarrow> reply \<Rightarrow> unit hm" where
  "writeJSON cid r = modify (\<lambda>h. if conn_open cid h then h\<lparr>outbox := outbox h @ [(cid, r)]\<rparr> else h)"

definition notifyStateListeners :: "unit hm" where
  "notifyStateListeners = modify (\<lambda>h. h\<lparr>notified := notified h + 1\<rparr>)"

text \<open>\<open>h.limiterFor(userID).Allow()\<close>.\<close>

definition allow :: "bool hm" where
  "allow h = (case verdicts h of [] \<Rightarrow> (Inr True, h) | b # bs \<Rightarrow> (Inr b, h\<lparr>verdicts := bs\<rparr>))"

definition socket :: "bool hm" where
  "socket h = (case sockets h of [] \<Rightarrow> (Inr True, h) | b # bs \<Rightarrow> (Inr b, h\<lparr>sockets := bs\<rparr>))"

definition update_client :: "string \<Rightarrow> (wsClient \<Rightarrow> wsClient) \<Rightarrow> unit hm" where
  "update_client sid f = modify (\<lambda>h. h\<lparr>clients := map (\<lambda>c. if cl_id c = sid then f c else c) (clients h)\<rparr>)"

definition update_conn :: "nat \<Rightarrow> (conn \<Rightarrow> conn) \<Rightarrow> unit hm" where
  "update_conn cid f = modify (\<lambda>h. h\<lparr>conns := map (\<lambda>c. if c_id c = cid then f c else c) (conns h)\<rparr>)"

definition the_conn :: "nat \<Rightarrow> conn option hm" where
  "the_conn cid = gets (\<lambda>h. find (\<lambda>c. c_id c = cid) (conns h))"

definition fresh_uuid :: "string hm" where
  "fresh_uuid = andThen (gets (\<lambda>h. uuids h (next_uuid h))) (\<lambda>x.
     andThen (modify (\<lambda>h. h\<lparr>next_uuid := next_uuid h + 1\<rparr>)) (\<lambda>_. ret x))"

definition the_client :: "string \<Rightarrow> wsClient option hm" where
  "the_client sid = gets (\<lambda>h. find (\<lambda>c. cl_id c = sid) (clients h))"

section \<open>The register of clients\<close>

definition register :: "nat \<Rightarrow> User \<Rightarrow> string \<Rightarrow> wsClient hm" where
  "register cid user version =
     andThen fresh_uuid (\<lambda>sid.
     let cl = \<lparr>cl_id = sid, cl_conn = cid, cl_user = user, cl_version = version, cl_relay = None\<rparr> in
     andThen (modify (\<lambda>h. h\<lparr>clients := clients h @ [cl]\<rparr>)) (\<lambda>_.
     andThen (update_conn cid (\<lambda>c. c\<lparr>c_session := Some sid\<rparr>)) (\<lambda>_.
     andThen notifyStateListeners (\<lambda>_. ret cl))))"

definition unregister :: "string \<Rightarrow> unit hm" where
  "unregister sid =
     andThen (the_client sid) (\<lambda>c. case c of None \<Rightarrow> ret ()
     | Some _ \<Rightarrow> andThen (modify (\<lambda>h. h\<lparr>clients := filter (\<lambda>c. cl_id c \<noteq> sid) (clients h)\<rparr>)) (\<lambda>_. notifyStateListeners))"

text \<open>The end of \<open>ServeHTTP\<close>: the connection is closed and its client, if any, unregistered.\<close>

definition hang_up :: "nat \<Rightarrow> unit hm" where
  "hang_up cid =
     andThen (update_conn cid (\<lambda>c. c\<lparr>c_open := False\<rparr>)) (\<lambda>_.
     andThen (the_conn cid) (\<lambda>c. case c of None \<Rightarrow> ret ()
     | Some c \<Rightarrow> (case c_session c of None \<Rightarrow> ret () | Some sid \<Rightarrow> unregister sid)))"

definition disconnectUser :: "int \<Rightarrow> string \<Rightarrow> unit hm" where
  "disconnectUser userID reason =
     andThen (gets (\<lambda>h. filter (\<lambda>c. ID (cl_user c) = userID) (clients h))) (\<lambda>gone.
     andThen (modify (\<lambda>h. h\<lparr>clients := filter (\<lambda>c. ID (cl_user c) \<noteq> userID) (clients h)\<rparr>)) (\<lambda>_.
     andThen (for_each (\<lambda>c. andThen (writeJSON (cl_conn c) (ErrorMsg reason)) (\<lambda>_.
        update_conn (cl_conn c) (\<lambda>k. k\<lparr>c_open := False\<rparr>))) gone) (\<lambda>_.
     if gone = [] then ret () else notifyStateListeners)))"

record ConnectionInfo =
  InfoSessionID :: string
  InfoUserID :: int
  InfoDiscordID :: string
  InfoDisplayName :: string
  InfoClientVersion :: string
  InfoIsAdmin :: bool

definition Connections :: "HubConfig \<Rightarrow> hub \<Rightarrow> ConnectionInfo list" where
  "Connections cfg h = map (\<lambda>c. \<lparr>InfoSessionID = cl_id c, InfoUserID = ID (cl_user c), InfoDiscordID = DiscordID (cl_user c),
     InfoDisplayName = DisplayName (cl_user c), InfoClientVersion = cl_version c,
     InfoIsAdmin = userIsAdmin cfg (cl_user c)\<rparr>) (clients h)"

section \<open>Full state\<close>

definition online_entries :: "OnlineEntry list hm" where
  "online_entries = andThen (tracker Online)
     (\<lambda>es. ret (map (\<lambda>(a, c). \<lparr>OnlineAccountID = a, OnlineCharacter = c\<rparr>) es))"

definition presence_hint :: "entry \<Rightarrow> PresenceHint" where
  "presence_hint e = \<lparr>HintAccountID = AccountID e, HintCharacterName = CharacterName e,
     HintUserID = entry.EntryUserID e, HintLastSeen = LastSeen e\<rparr>"

definition buildShareActivity :: "Store \<Rightarrow> int \<Rightarrow> ShareActivity hm" where
  "buildShareActivity st ownerID =
     andThen (lift (ListOwnedShareLogins st ownerID 50)) (\<lambda>logins.
     andThen (tracker Snapshot) (\<lambda>snap.
     andThen (lift (BuildShareOnline st ownerID (map presence_hint snap))) (\<lambda>on.
     ret \<lparr>ActLogins = logins, ActOnline = on\<rparr>)))"

definition sendFullState :: "HubConfig \<Rightarrow> Store \<Rightarrow> wsClient \<Rightarrow> unit hm" where
  "sendFullState cfg st cl =
     attempt (if userIsAdmin cfg (cl_user cl)
        then andThen (lift (ListEQAccountMetas st None True)) (\<lambda>metas.
             andThen online_entries (\<lambda>on. ret \<lparr>FullAccounts = metas, FullOnline = on\<rparr>))
        else andThen online_entries (\<lambda>on. lift (FullStateForUser st (cl_user cl) on))) (\<lambda>r. case r of
       Inl _ \<Rightarrow> writeJSON (cl_conn cl) (ErrorMsg ''state error'')
     | Inr fs \<Rightarrow>
         andThen (optional (lift ListDirectoryUsers)) (\<lambda>dir.
         andThen (optional (lift ListGroupDetails)) (\<lambda>gs.
         andThen (optional (lift ListDiscordRoles)) (\<lambda>roles.
         andThen (optional (buildShareActivity st (ID (cl_user cl)))) (\<lambda>activity.
         andThen (if userIsAdmin cfg (cl_user cl) then optional (lift AdminState_of) else ret None) (\<lambda>admin.
         writeJSON (cl_conn cl) (FullStateMsg \<lparr>PlState = fs, PlIsAdmin = userIsAdmin cfg (cl_user cl), PlUser = cl_user cl,
           PlDirectory = dir, PlGroups = gs, PlRoles = roles, PlActivity = activity, PlAdmin = admin\<rparr>)))))))"

text \<open>The user of a client is read again before its state is sent; an error keeps the old one.\<close>

definition refresh_and_send :: "HubConfig \<Rightarrow> Store \<Rightarrow> wsClient \<Rightarrow> unit hm" where
  "refresh_and_send cfg st cl =
     attempt (lift (UserByID (ID (cl_user cl)))) (\<lambda>r. case r of
       Inl _ \<Rightarrow> sendFullState cfg st cl
     | Inr u \<Rightarrow> andThen (update_client (cl_id cl) (\<lambda>c. c\<lparr>cl_user := u\<rparr>)) (\<lambda>_.
         sendFullState cfg st (cl\<lparr>cl_user := u\<rparr>)))"

definition broadcastFullState :: "HubConfig \<Rightarrow> Store \<Rightarrow> unit hm" where
  "broadcastFullState cfg st =
     andThen (gets clients) (\<lambda>cls. andThen (for_each (refresh_and_send cfg st) cls) (\<lambda>_. notifyStateListeners))"

end
