(* ===== verification/HubRelay.thy ===== *)
theory HubRelay
  imports Hub
begin

text \<open>
  internal/sso/hub_relay.go: login packets on their way to the login server, and the answers.
\<close>

section \<open>Splicing credentials\<close>

definition maxRelayPayload :: nat where
  "maxRelayPayload = 8192"

text \<open>
  \<open>spliceLoginPacket\<close> returns the new packet (\<open>None\<close>: forward the original one), the reason to drop it
  (empty: none) and whether a rejected login is to be retried as typed. A panic of the parser or of
  the rewriter would be an error here; there is none (see \<open>LoginPacket\<close>).
\<close>

definition spliceLoginPacket :: "HubConfig \<Rightarrow> Store \<Rightarrow> User \<Rightarrow> bytes \<Rightarrow> (bytes option \<times> string \<times> bool) hm" where
  "spliceLoginPacket cfg st user body =
     (case ParseLoginPacket body of
        None \<Rightarrow> fail (Err ''panic'')
      | Some None \<Rightarrow> ret (None, [], False)
      | Some (Some lp) \<Rightarrow>
        andThen allow (\<lambda>ok. if \<not> ok then ret (None, ''rate_limited'', False) else
        attempt (lift (ResolveLoginCandidates st user (LoginPacket.Username lp))) (\<lambda>r. case r of
          Inl _ \<Rightarrow> ret (None, [], False)
        | Inr cands \<Rightarrow> if cands = [] then ret (None, [], False) else
            andThen (tracker (\<lambda>now. pickLoginCandidate now cands)) (\<lambda>chosen.
            if chosen = 0 then ret (None, ''all_busy'', False) else
            andThen (lift (DecryptCredentials st chosen)) (\<lambda>(realUser, password).
            case RewriteCredentials lp realUser password of
              None \<Rightarrow> fail (Err ''panic'')
            | Some (Inl e) \<Rightarrow> fail e
            | Some (Inr out) \<Rightarrow>
                andThen (tracker (\<lambda>now. ClearUserExcept now (ID user) chosen)) (\<lambda>_.
                andThen (lift (AuditAccount st (ID user) chosen ''login_relay'' (LoginPacket.Username lp))) (\<lambda>_.
                andThen (broadcastFullState cfg st) (\<lambda>_.
                ret (Some out, [], Password lp \<noteq> password)))))))))"

section \<open>Uplink\<close>

text \<open>\<open>relayFor\<close>: the relay of a client, opened on first use; \<open>None\<close> when no socket is to be had.\<close>

definition relayFor :: "wsClient \<Rightarrow> udpRelay option hm" where
  "relayFor client =
     (case cl_relay client of Some r \<Rightarrow> ret (Some r)
      | None \<Rightarrow> andThen socket (\<lambda>ok. if \<not> ok then ret None else
          andThen (update_client (cl_id client) (\<lambda>c. c\<lparr>cl_relay := Some new_relay\<rparr>)) (\<lambda>_. ret (Some new_relay))))"

text \<open>\<open>WriteToUDP\<close> on the socket of the client's relay.\<close>

definition WriteToUDP :: "string \<Rightarrow> bytes \<Rightarrow> unit hm" where
  "WriteToUDP sid pkt = modify (\<lambda>h. h\<lparr>upstream := upstream h @ [(sid, pkt)]\<rparr>)"

definition bad_payload :: "bytes option \<Rightarrow> bool" where
  "bad_payload payload = (case payload of None \<Rightarrow> True | Some pkt \<Rightarrow> pkt = [] \<or> length pkt > maxRelayPayload)"

definition handleLoginRelayUp :: "HubConfig \<Rightarrow> Store \<Rightarrow> wsClient \<Rightarrow> User \<Rightarrow> bytes option \<Rightarrow> bool \<Rightarrow> unit hm" where
  "handleLoginRelayUp cfg st client user payload wantSplice =
     (if bad_payload payload then writeJSON (cl_conn client) (RelayError ''bad_payload'') else
      let pkt = the payload in
      andThen (relayFor client) (\<lambda>rel. case rel of
        None \<Rightarrow> writeJSON (cl_conn client) (RelayError ''upstream_unavailable'')
      | Some r \<Rightarrow>
          if \<not> wantSplice then WriteToUDP (cl_id client) pkt else
          attempt (spliceLoginPacket cfg st user (stripBody r pkt)) (\<lambda>res. case res of
            Inl _ \<Rightarrow> writeJSON (cl_conn client) (RelayError ''internal'')
          | Inr (newPkt, dropReason, retryTyped) \<Rightarrow>
              if dropReason \<noteq> [] then ret () else
              (case newPkt of
                 None \<Rightarrow> WriteToUDP (cl_id client) pkt
               | Some body \<Rightarrow>
                   andThen (if retryTyped
                      then update_client (cl_id client) (\<lambda>c. c\<lparr>cl_relay := map_option (setTypedFallback pkt) (cl_relay c)\<rparr>)
                      else ret ()) (\<lambda>_.
                   WriteToUDP (cl_id client) (wrapSpliced r body))))))"

definition handleLoginSplice :: "HubConfig \<Rightarrow> Store \<Rightarrow> wsClient \<Rightarrow> User \<Rightarrow> string \<Rightarrow> bytes option \<Rightarrow> unit hm" where
  "handleLoginSplice cfg st client user reqID payload =
     (let reply = (\<lambda>p e. writeJSON (cl_conn client) (SpliceResult reqID p (if e = [] then None else Some e))) in
      if bad_payload payload then reply [] ''bad_payload'' else
      let pkt = the payload in
      attempt (spliceLoginPacket cfg st user pkt) (\<lambda>res. case res of
        Inl _ \<Rightarrow> reply [] ''internal''
      | Inr (newPkt, dropReason, _) \<Rightarrow>
          if dropReason \<noteq> [] then reply [] dropReason
          else reply (case newPkt of None \<Rightarrow> pkt | Some out \<Rightarrow> out) []))"

section \<open>Downlink\<close>

text \<open>A datagram from the login server on the socket of a registered client's relay.\<close>

definition relay_datagram :: "string \<Rightarrow> bytes \<Rightarrow> unit hm" where
  "relay_datagram sid pkt =
     andThen (the_client sid) (\<lambda>c. case c of None \<Rightarrow> ret () | Some c \<Rightarrow>
       (case cl_relay c of None \<Rightarrow> ret () | Some r \<Rightarrow>
         (case relay_down pkt r of
            None \<Rightarrow> fail (Err ''panic'')
          | Some (out, r') \<Rightarrow>
              andThen (update_client sid (\<lambda>c. c\<lparr>cl_relay := Some r'\<rparr>)) (\<lambda>_.
              case out of ToServer d \<Rightarrow> WriteToUDP sid d | ToClient d \<Rightarrow> writeJSON (cl_conn c) (RelayDown d)))))"

end
