(* ===== verification/HubMessages.thy ===== *)
theory HubMessages
  imports HubRelay
begin

text \<open>
  internal/sso/hub.go: the messages of desktop clients. \<open>serve\<close> is one turn of the loop of \<open>ServeHTTP\<close>.
\<close>

section \<open>Common parts\<close>

definition request_id :: "string \<Rightarrow> string hm" where
  "request_id r = (if r = [] then fresh_uuid else ret r)"

text \<open>The user and the client of the connection are read again; an error keeps the old ones.\<close>

definition refresh_user :: "nat \<Rightarrow> wsClient \<Rightarrow> User \<Rightarrow> User hm" where
  "refresh_user cid client user =
     attempt (lift (UserByID (ID user))) (\<lambda>r. case r of
       Inl _ \<Rightarrow> ret user
     | Inr u \<Rightarrow> andThen (update_conn cid (\<lambda>c. c\<lparr>c_user := u\<rparr>)) (\<lambda>_.
         andThen (update_client (cl_id client) (\<lambda>c. c\<lparr>cl_user := u\<rparr>)) (\<lambda>_. ret u)))"

text \<open>\<open>fmt.Sprintf\<close> with \<open>%v\<close> on a slice.\<close>

fun join_space :: "string list \<Rightarrow> string" where
  "join_space [] = []"
| "join_space [x] = x"
| "join_space (x # xs) = x @ '' '' @ join_space xs"

definition slice_text :: "string list \<Rightarrow> string" where
  "slice_text xs = ''['' @ join_space xs @ '']''"

section \<open>Private shares\<close>

definition share_error :: "error \<Rightarrow> string" where
  "share_error e =
     (let m = err_text e in
      if Contains m ''already exists'' then ''account_exists''
      else if Contains m ''password required'' then ''password_required''
      else if Contains m ''user not found'' then ''user_not_found''
      else if Contains m ''access revoked'' then ''user_revoked''
      else ''internal'')"

definition unshare_error :: "error \<Rightarrow> string" where
  "unshare_error e =
     (let m = err_text e in
      if Contains m ''not shared'' then ''not_shared''
      else if Contains m ''not your'' then ''forbidden''
      else ''internal'')"

definition share_account ::
  "HubConfig \<Rightarrow> Store \<Rightarrow> nat \<Rightarrow> User \<Rightarrow> string \<Rightarrow> string \<Rightarrow> string \<Rightarrow> string list \<Rightarrow> int list \<Rightarrow> string list \<Rightarrow> int list \<Rightarrow> unit hm"
where
  "share_account cfg st cid user reqID name password als userIDs roleIDs groupIDs =
     (let username = TrimSpace name; failed = (\<lambda>e. writeJSON cid (ShareFailed reqID e)) in
      case validateUsername username of Some e \<Rightarrow> failed e | None \<Rightarrow>
      (case (if TrimSpace password \<noteq> [] then validatePassword (TrimSpace password) else None) of Some e \<Rightarrow> failed e | None \<Rightarrow>
      trying (ShareLocalAccount st user username password als userIDs roleIDs groupIDs) (\<lambda>e. failed (share_error e)) (\<lambda>(i, newRecipients).
      andThen (lift (AuditAccount st (ID user) i ''share_account''
         (''account='' @ itoa i @ '' users='' @ slice_text (map itoa userIDs) @ '' roles='' @ slice_text roleIDs
          @ '' groups='' @ slice_text (map itoa groupIDs)))) (\<lambda>_.
      andThen (if newRecipients \<noteq> [] then modify (\<lambda>h. h\<lparr>notices := notices h @ [(ID user, username, als, newRecipients)]\<rparr>)
               else ret ()) (\<lambda>_.
      andThen (writeJSON cid (ShareDone reqID (Some i))) (\<lambda>_. broadcastFullState cfg st))))))"

definition unshare_account :: "HubConfig \<Rightarrow> Store \<Rightarrow> nat \<Rightarrow> User \<Rightarrow> string \<Rightarrow> string \<Rightarrow> unit hm" where
  "unshare_account cfg st cid user reqID name =
     (let username = TrimSpace name; failed = (\<lambda>e. writeJSON cid (ShareFailed reqID e)) in
      case validateUsername username of Some e \<Rightarrow> failed e | None \<Rightarrow>
      trying (UnshareLocalAccount st user username) (\<lambda>e. failed (unshare_error e)) (\<lambda>_.
      andThen (lift (Audit st (ID user) ''unshare_account'' (''username='' @ username))) (\<lambda>_.
      andThen (writeJSON cid (ShareDone reqID None)) (\<lambda>_. broadcastFullState cfg st))))"

definition handleShare :: "HubConfig \<Rightarrow> Store \<Rightarrow> conn \<Rightarrow> wsClient option \<Rightarrow> message \<Rightarrow> string \<Rightarrow> unit hm" where
  "handleShare cfg st c client msg rid =
     andThen (request_id rid) (\<lambda>reqID.
     let cid = c_id c; failed = (\<lambda>e. writeJSON cid (ShareFailed reqID e)) in
     case (if c_authed c then client else None) of None \<Rightarrow> failed ''unauthorized'' | Some cl \<Rightarrow>
     andThen (refresh_user cid cl (c_user c)) (\<lambda>user.
     if AccessRevoked user then failed ''access_revoked'' else
     (case msg of
        ShareAccount _ name password als us rs gs \<Rightarrow> share_account cfg st cid user reqID name password als us rs gs
      | UnshareAccount _ name \<Rightarrow> unshare_account cfg st cid user reqID name
      | _ \<Rightarrow> failed ''bad_request'')))"

section \<open>Admin messages\<close>

definition restricted_error :: "error \<Rightarrow> string" where
  "restricted_error e =
     (if e = ErrShareAccessManagedInGUI then ''share_access_managed_in_gui''
      else if e = ErrSharePasswordManagedInGUI then ''share_password_managed_in_gui''
      else if e = ErrShareNotOwner then ''share_not_owner''
      else ''not_found'')"

text \<open>\<open>rejectRestricted\<close>: the rest of the handler runs only when the account may be managed.\<close>

definition unless_restricted :: "Store \<Rightarrow> nat \<Rightarrow> User \<Rightarrow> string \<Rightarrow> int \<Rightarrow> bool \<Rightarrow> bool \<Rightarrow> unit hm \<Rightarrow> unit hm" where
  "unless_restricted st cid user reqID aid setAccess setPassword rest =
     trying (CheckRestrictedAccountManage st aid (ID user) setAccess setPassword)
       (\<lambda>e. writeJSON cid (AdminFailed reqID (restricted_error e))) (\<lambda>_. rest)"

text \<open>The end of every successful admin message about an account.\<close>

definition admin_done :: "HubConfig \<Rightarrow> Store \<Rightarrow> nat \<Rightarrow> User \<Rightarrow> string \<Rightarrow> int \<Rightarrow> string \<Rightarrow> string \<Rightarrow> unit hm" where
  "admin_done cfg st cid user reqID aid action detail =
     andThen (lift (AuditAccount st (ID user) aid action detail)) (\<lambda>_.
     andThen (writeJSON cid (AdminDone reqID aid)) (\<lambda>_. broadcastFullState cfg st))"

definition admin_add_account :: "HubConfig \<Rightarrow> Store \<Rightarrow> nat \<Rightarrow> User \<Rightarrow> string \<Rightarrow> string \<Rightarrow> string \<Rightarrow> string option \<Rightarrow> unit hm" where
  "admin_add_account cfg st cid user reqID name password role =
     (let username = TrimSpace name; failed = (\<lambda>e. writeJSON cid (AdminFailed reqID e)) in
      case validateUsername username of Some e \<Rightarrow> failed e | None \<Rightarrow>
      (case validatePassword password of Some e \<Rightarrow> failed e | None \<Rightarrow>
      trying (AddEQAccount st username password []) (\<lambda>_. failed ''internal'') (\<lambda>i.
      let finish = admin_done cfg st cid user reqID i ''admin_add_account'' (''id='' @ itoa i) in
      case role of None \<Rightarrow> finish
      | Some r \<Rightarrow> trying (SetEQRequiredRole i (TrimSpace r)) (\<lambda>_. failed ''internal'') (\<lambda>_. finish))))"

text \<open>The optional parts of an update are applied in turn; the first error ends the message.\<close>

definition admin_update_account ::
  "HubConfig \<Rightarrow> Store \<Rightarrow> nat \<Rightarrow> User \<Rightarrow> string \<Rightarrow> int \<Rightarrow> string option \<Rightarrow> bool option \<Rightarrow> string option \<Rightarrow> unit hm"
where
  "admin_update_account cfg st cid user reqID aid password disabled role =
     (let failed = (\<lambda>e. writeJSON cid (AdminFailed reqID e));
          setPassword = (case password of None \<Rightarrow> False | Some p \<Rightarrow> TrimSpace p \<noteq> []);
          changed = ((case password of None \<Rightarrow> False | Some p \<Rightarrow> p \<noteq> []) \<or> disabled \<noteq> None \<or> role \<noteq> None);
          finish = (if \<not> changed then failed ''nothing_to_update''
                    else admin_done cfg st cid user reqID aid ''admin_update_account'' (''account='' @ itoa aid));
          set_role = (case role of None \<Rightarrow> finish
            | Some r \<Rightarrow> trying (SetEQRequiredRole aid (TrimSpace r)) (\<lambda>_. failed ''internal'') (\<lambda>_. finish));
          set_disabled = (case disabled of None \<Rightarrow> set_role
            | Some b \<Rightarrow> trying (SetEQDisabled aid b) (\<lambda>_. failed ''internal'') (\<lambda>_. set_role));
          set_password = (case password of None \<Rightarrow> set_disabled
            | Some p \<Rightarrow> if p = [] then set_disabled else
                (case validatePassword p of Some e \<Rightarrow> failed e
                 | None \<Rightarrow> trying (SetEQPassword st aid p) (\<lambda>_. failed ''internal'') (\<lambda>_. set_disabled)))
      in if aid \<le> 0 then failed ''invalid_account''
         else unless_restricted st cid user reqID aid (role \<noteq> None) setPassword set_password)"

text \<open>
  The six messages that add or remove a login name of an account share their steps: check the name,
  check the id, check the guard, run the operation.
\<close>

definition admin_name ::
  "HubConfig \<Rightarrow> Store \<Rightarrow> nat \<Rightarrow> User \<Rightarrow> string \<Rightarrow> int \<Rightarrow> string option \<Rightarrow> unit db \<Rightarrow> (error \<Rightarrow> string) \<Rightarrow> string \<Rightarrow> string \<Rightarrow> unit hm"
where
  "admin_name cfg st cid user reqID aid invalid op err action detail =
     (let failed = (\<lambda>e. writeJSON cid (AdminFailed reqID e)) in
      case invalid of Some e \<Rightarrow> failed e | None \<Rightarrow>
      if aid \<le> 0 then failed ''invalid_account'' else
      unless_restricted st cid user reqID aid False False
        (trying op (\<lambda>e. failed (err e)) (\<lambda>_. admin_done cfg st cid user reqID aid action (detail @ '' account='' @ itoa aid))))"

definition alias_error :: "error \<Rightarrow> string" where
  "alias_error e = (if Contains (err_text e) ''already used'' then ''alias_taken'' else ''internal'')"

definition remove_error :: "error \<Rightarrow> string" where
  "remove_error e = (if Contains (err_text e) ''not found'' then ''not_found'' else ''internal'')"

definition admin_add_alias :: "HubConfig \<Rightarrow> Store \<Rightarrow> nat \<Rightarrow> User \<Rightarrow> string \<Rightarrow> string \<Rightarrow> int \<Rightarrow> unit hm" where
  "admin_add_alias cfg st cid user reqID a aid =
     (let n = TrimSpace a in admin_name cfg st cid user reqID aid (validateAlias n) (AddAlias n aid) alias_error
        ''admin_add_alias'' (''alias='' @ n))"

definition admin_add_tag :: "HubConfig \<Rightarrow> Store \<Rightarrow> nat \<Rightarrow> User \<Rightarrow> string \<Rightarrow> string \<Rightarrow> int \<Rightarrow> unit hm" where
  "admin_add_tag cfg st cid user reqID t aid =
     (let n = TrimSpace t in admin_name cfg st cid user reqID aid (validateTag n) (AddTag n aid) (\<lambda>_. ''internal'')
        ''admin_add_tag'' (''tag='' @ n))"

definition admin_remove_alias :: "HubConfig \<Rightarrow> Store \<Rightarrow> nat \<Rightarrow> User \<Rightarrow> string \<Rightarrow> string \<Rightarrow> int \<Rightarrow> unit hm" where
  "admin_remove_alias cfg st cid user reqID a aid =
     (let n = TrimSpace a in admin_name cfg st cid user reqID aid (validateAlias n) (RemoveAlias n aid) remove_error
        ''admin_remove_alias'' (''alias='' @ n))"

definition admin_remove_tag :: "HubConfig \<Rightarrow> Store \<Rightarrow> nat \<Rightarrow> User \<Rightarrow> string \<Rightarrow> string \<Rightarrow> int \<Rightarrow> unit hm" where
  "admin_remove_tag cfg st cid user reqID t aid =
     (let n = TrimSpace t in admin_name cfg st cid user reqID aid (validateTag n) (RemoveTag n aid) remove_error
        ''admin_remove_tag'' (''tag='' @ n))"

definition admin_add_character :: "HubConfig \<Rightarrow> Store \<Rightarrow> nat \<Rightarrow> User \<Rightarrow> string \<Rightarrow> string \<Rightarrow> int \<Rightarrow> unit hm" where
  "admin_add_character cfg st cid user reqID a aid =
     (let n = TrimSpace a in admin_name cfg st cid user reqID aid (validateCharacter n) (AddCharacter n aid) (\<lambda>_. ''internal'')
        ''admin_add_character'' (''name='' @ n))"

definition admin_remove_character :: "HubConfig \<Rightarrow> Store \<Rightarrow> nat \<Rightarrow> User \<Rightarrow> string \<Rightarrow> string \<Rightarrow> int \<Rightarrow> unit hm" where
  "admin_remove_character cfg st cid user reqID a aid =
     (let n = TrimSpace a in admin_name cfg st cid user reqID aid
        (if n = [] \<or> aid \<le> 0 then Some ''invalid_character'' else None) (RemoveCharacter n aid) remove_error
        ''admin_remove_character'' (''name='' @ n))"

definition admin_remove_account :: "HubConfig \<Rightarrow> Store \<Rightarrow> nat \<Rightarrow> User \<Rightarrow> string \<Rightarrow> int \<Rightarrow> unit hm" where
  "admin_remove_account cfg st cid user reqID aid =
     (let failed = (\<lambda>e. writeJSON cid (AdminFailed reqID e)) in
      if aid \<le> 0 then failed ''invalid_account'' else
      unless_restricted st cid user reqID aid False False
        (trying (DeleteEQAccount aid) (\<lambda>_. failed ''internal'') (\<lambda>_.
         andThen (tracker (\<lambda>_ t. ((), Clear aid t))) (\<lambda>_.
         admin_done cfg st cid user reqID aid ''admin_remove_account'' (''id='' @ itoa aid)))))"

definition bool_text :: "bool \<Rightarrow> string" where
  "bool_text b = (if b then ''true'' else ''false'')"

definition admin_set_user_access :: "HubConfig \<Rightarrow> Store \<Rightarrow> nat \<Rightarrow> User \<Rightarrow> string \<Rightarrow> int \<Rightarrow> bool \<Rightarrow> unit hm" where
  "admin_set_user_access cfg st cid user reqID uid revoked =
     (let failed = (\<lambda>e. writeJSON cid (AdminFailed reqID e)) in
      if uid \<le> 0 then failed ''invalid_user''
      else if uid = ID user \<and> revoked then failed ''cannot_revoke_self''
      else trying (SetUserAccessRevoked uid revoked) (\<lambda>_. failed ''internal'') (\<lambda>_.
        andThen (lift (Audit st (ID user) ''admin_set_user_access'' (''user='' @ itoa uid @ '' revoked='' @ bool_text revoked))) (\<lambda>_.
        andThen (if revoked then disconnectUser uid ''access revoked'' else ret ()) (\<lambda>_.
        andThen (writeJSON cid (AdminUserDone reqID uid)) (\<lambda>_. broadcastFullState cfg st)))))"

definition admin_message :: "HubConfig \<Rightarrow> Store \<Rightarrow> nat \<Rightarrow> User \<Rightarrow> string \<Rightarrow> message \<Rightarrow> unit hm" where
  "admin_message cfg st cid user reqID msg =
     (case msg of
        AdminAddAccount _ n p r \<Rightarrow> admin_add_account cfg st cid user reqID n p r
      | AdminUpdateAccount _ a p d r \<Rightarrow> admin_update_account cfg st cid user reqID a p d r
      | AdminAddAlias _ n a \<Rightarrow> admin_add_alias cfg st cid user reqID n a
      | AdminAddTag _ n a \<Rightarrow> admin_add_tag cfg st cid user reqID n a
      | AdminAddCharacter _ n a \<Rightarrow> admin_add_character cfg st cid user reqID n a
      | AdminRemoveAlias _ n a \<Rightarrow> admin_remove_alias cfg st cid user reqID n a
      | AdminRemoveTag _ n a \<Rightarrow> admin_remove_tag cfg st cid user reqID n a
      | AdminRemoveCharacter _ n a \<Rightarrow> admin_remove_character cfg st cid user reqID n a
      | AdminRemoveAccount _ a \<Rightarrow> admin_remove_account cfg st cid user reqID a
      | AdminSetUserAccess _ u r \<Rightarrow> admin_set_user_access cfg st cid user reqID u r
      | AdminSetUserRoles _ \<Rightarrow> writeJSON cid (AdminFailed reqID ''roles_managed_by_discord'')
      | _ \<Rightarrow> writeJSON cid (AdminFailed reqID ''bad_request''))"

definition handleAdmin :: "HubConfig \<Rightarrow> Store \<Rightarrow> conn \<Rightarrow> wsClient option \<Rightarrow> message \<Rightarrow> string \<Rightarrow> unit hm" where
  "handleAdmin cfg st c client msg rid =
     andThen (request_id rid) (\<lambda>reqID.
     let cid = c_id c; failed = (\<lambda>e. writeJSON cid (AdminFailed reqID e)) in
     case (if c_authed c then client else None) of None \<Rightarrow> failed ''unauthorized'' | Some cl \<Rightarrow>
     andThen (refresh_user cid cl (c_user c)) (\<lambda>user.
     if \<not> userIsAdmin cfg user then failed ''forbidden'' else
     andThen allow (\<lambda>ok. if \<not> ok then failed ''rate_limited''
     else admin_message cfg st cid user reqID msg)))"

section \<open>Sessions\<close>

text \<open>
  The two halves of a token login: the token is looked up; then the session is registered. Between
  them Go holds no lock.
\<close>

definition reject :: "nat \<Rightarrow> reply \<Rightarrow> unit hm" where
  "reject cid r = andThen (writeJSON cid r) (\<lambda>_. hang_up cid)"

definition authenticate :: "HubConfig \<Rightarrow> nat \<Rightarrow> string \<Rightarrow> int \<Rightarrow> User option hm" where
  "authenticate cfg cid token version =
     (if version \<noteq> ProtocolVersion cfg
        then andThen (reject cid (UnsupportedProtocol (ProtocolVersion cfg) version)) (\<lambda>_. ret None)
      else attempt (lift (UserByToken token)) (\<lambda>r. case r of
        Inl _ \<Rightarrow> andThen (reject cid (ErrorMsg ''unauthorized'')) (\<lambda>_. ret None)
      | Inr (u, _) \<Rightarrow> ret (Some u)))"

definition establish :: "HubConfig \<Rightarrow> Store \<Rightarrow> conn \<Rightarrow> User \<Rightarrow> string \<Rightarrow> unit hm" where
  "establish cfg st c user clientVersion =
     andThen (update_conn (c_id c) (\<lambda>k. k\<lparr>c_user := user, c_authed := True\<rparr>)) (\<lambda>_.
     andThen (case c_session c of None \<Rightarrow> ret () | Some sid \<Rightarrow> unregister sid) (\<lambda>_.
     andThen (register (c_id c) user (TrimSpace clientVersion)) (\<lambda>client.
     andThen (sendFullState cfg st client) (\<lambda>_.
     lift (Audit st (ID user) ''ws_auth'' clientVersion)))))"

definition handleAuth :: "HubConfig \<Rightarrow> Store \<Rightarrow> conn \<Rightarrow> string \<Rightarrow> int \<Rightarrow> string \<Rightarrow> unit hm" where
  "handleAuth cfg st c token version clientVersion =
     andThen (authenticate cfg (c_id c) token version) (\<lambda>u. case u of
       None \<Rightarrow> ret () | Some user \<Rightarrow> establish cfg st c user clientVersion)"

definition handleGetState :: "HubConfig \<Rightarrow> Store \<Rightarrow> conn \<Rightarrow> wsClient option \<Rightarrow> unit hm" where
  "handleGetState cfg st c client =
     (case (if c_authed c then client else None) of
        None \<Rightarrow> writeJSON (c_id c) (ErrorMsg ''unauthorized'')
      | Some cl \<Rightarrow> andThen (refresh_user (c_id c) cl (c_user c)) (\<lambda>_.
          andThen (the_client (cl_id cl)) (\<lambda>cl. case cl of None \<Rightarrow> ret () | Some cl \<Rightarrow> sendFullState cfg st cl)))"

definition handleLoginAuth :: "Store \<Rightarrow> conn \<Rightarrow> string \<Rightarrow> string \<Rightarrow> unit hm" where
  "handleLoginAuth st c reqID username =
     (let denied = (\<lambda>e. writeJSON (c_id c) (LoginAuthDenied reqID e)) in
      andThen allow (\<lambda>ok. if \<not> ok then denied ''rate_limited'' else
      trying (ResolveLoginCandidates st (c_user c) username) (\<lambda>_. denied ''not_found'') (\<lambda>cands.
      if cands = [] then denied ''not_found'' else
      andThen (tracker (\<lambda>now. pickLoginCandidate now cands)) (\<lambda>chosen.
      if chosen = 0 then denied ''all_busy'' else writeJSON (c_id c) (LoginAuthOk reqID chosen)))))"

definition handleHeartbeat :: "conn \<Rightarrow> string \<Rightarrow> bool \<Rightarrow> unit hm" where
  "handleHeartbeat c character offline =
     trying (AccountIDByCharacter character) (\<lambda>_. ret ()) (\<lambda>acctID.
     trying (AllowedAccountIDs (c_user c)) (\<lambda>_. ret ()) (\<lambda>allowed.
     if acctID \<notin> set allowed then ret () else
     andThen (if offline then tracker (\<lambda>_ t. ((), Clear acctID t))
              else andThen (tracker (\<lambda>now. ClearUserExcept now (ID (c_user c)) acctID)) (\<lambda>_.
                   tracker (\<lambda>now t. ((), Touch now acctID character (ID (c_user c)) t)))) (\<lambda>_.
     notifyStateListeners)))"

section \<open>One message\<close>

definition dispatch :: "HubConfig \<Rightarrow> Store \<Rightarrow> conn \<Rightarrow> wsClient option \<Rightarrow> message \<Rightarrow> unit hm" where
  "dispatch cfg st c client msg =
     (let cid = c_id c; authed = c_authed c; out = writeJSON cid;
          session = (if authed then client else None);
          with_session = (\<lambda>f. case session of None \<Rightarrow> out (ErrorMsg ''unauthorized'') | Some cl \<Rightarrow> f cl);
          share = handleShare cfg st c client msg; admin = handleAdmin cfg st c client msg
      in case msg of
        InvalidJson \<Rightarrow> out (ErrorMsg ''invalid json'')
      | BadAuth \<Rightarrow> out (ErrorMsg ''bad auth'')
      | Auth token version clientVersion \<Rightarrow> handleAuth cfg st c token version clientVersion
      | GetState \<Rightarrow> handleGetState cfg st c client
      | BadLoginAuth \<Rightarrow> if authed then ret () else out (ErrorMsg ''unauthorized'')
      | LoginAuth rid name \<Rightarrow> if authed then handleLoginAuth st c rid name else out (ErrorMsg ''unauthorized'')
      | BadLoginRelayUp \<Rightarrow> with_session (\<lambda>cl. out (RelayError ''bad_request''))
      | LoginRelayUp payload sp \<Rightarrow> with_session (\<lambda>cl. handleLoginRelayUp cfg st cl (c_user c) payload sp)
      | BadLoginSplice rid \<Rightarrow> with_session (\<lambda>cl. out (SpliceResult rid [] (Some ''bad_request'')))
      | LoginSplice rid payload \<Rightarrow> with_session (\<lambda>cl. handleLoginSplice cfg st cl (c_user c) rid payload)
      | BadHeartbeat \<Rightarrow> ret ()
      | Heartbeat character offline \<Rightarrow> if authed then handleHeartbeat c character offline else ret ()
      | BadShare rid \<Rightarrow> share rid
      | ShareAccount rid _ _ _ _ _ _ \<Rightarrow> share rid
      | UnshareAccount rid _ \<Rightarrow> share rid
      | BadAdmin rid \<Rightarrow> admin rid
      | AdminAddAccount rid _ _ _ \<Rightarrow> admin rid
      | AdminUpdateAccount rid _ _ _ _ \<Rightarrow> admin rid
      | AdminAddAlias rid _ _ \<Rightarrow> admin rid
      | AdminAddTag rid _ _ \<Rightarrow> admin rid
      | AdminAddCharacter rid _ _ \<Rightarrow> admin rid
      | AdminRemoveAlias rid _ _ \<Rightarrow> admin rid
      | AdminRemoveTag rid _ _ \<Rightarrow> admin rid
      | AdminRemoveCharacter rid _ _ \<Rightarrow> admin rid
      | AdminRemoveAccount rid _ \<Rightarrow> admin rid
      | AdminSetUserAccess rid _ _ \<Rightarrow> admin rid
      | AdminSetUserRoles rid \<Rightarrow> admin rid
      | PongIn \<Rightarrow> ret ()
      | PingIn \<Rightarrow> if authed then out PongMsg else ret ()
      | UnknownType \<Rightarrow> out (ErrorMsg ''unknown type''))"

text \<open>A message on a connection; none is read from a closed one.\<close>

definition serve :: "HubConfig \<Rightarrow> Store \<Rightarrow> nat \<Rightarrow> message \<Rightarrow> unit hm" where
  "serve cfg st cid msg =
     andThen (the_conn cid) (\<lambda>c. case c of None \<Rightarrow> ret () | Some c \<Rightarrow>
     if \<not> c_open c then ret () else
     andThen (case c_session c of None \<Rightarrow> ret None | Some sid \<Rightarrow> the_client sid) (\<lambda>client.
     dispatch cfg st c client msg))"

end
