(* ===== verification/HubLaws.thy ===== *)
theory HubLaws
  imports HubMessages StoreSteps
begin

text \<open>
  What an invariant of the hub must put up with. \<open>reading_law\<close> is the contract for sending state:
  output, the tracker, reading the store. \<open>hub_law\<close> adds the other primitive steps of the handlers: rate
  limiters, sockets, every store operation that revokes nobody, relays, and reading users again. From it follows once
  that every message other than a login and a revocation keeps the invariant. \<open>open_hub_law\<close> adds
  sessions that come and go and revocations: then every message keeps it.
\<close>

section \<open>Users with revoked access\<close>

definition banned :: "world \<Rightarrow> int set" where
  "banned w = ID ` {u \<in> set (users w). AccessRevoked u}"

definition revokes_nobody :: "'a db \<Rightarrow> bool" where
  "revokes_nobody m = (\<forall>s. banned (snd (m s)) \<subseteq> banned s)"

lemma frame_revokes_nobody: "frame users m \<Longrightarrow> revokes_nobody m"
  by (simp add: revokes_nobody_def banned_def frameD)

lemma banned_faults [simp]: "banned (s\<lparr>faults := fs\<rparr>) = banned s"
  by (simp add: banned_def)

lemma users_framed:
  "frame users (AddEQAccount st n p t)" "frame users (SetEQPassword st a p)" "frame users (SetEQDisabled a b)"
  "frame users (ReplaceAccountRoles a rs)" "frame users (ReplaceAccountUsers a us)" "frame users (ReplaceAccountGroups a gs)"
  "frame users (AddAlias n a)" "frame users (RemoveAlias n a)" "frame users (AddTag n a)" "frame users (RemoveTag n a)"
  "frame users (AddCharacter n a)" "frame users (RemoveCharacter n a)" "frame users (DeleteEQAccount a)"
  "frame users (UserByToken raw)"
  unfolding AddEQAccount_def SetEQPassword_def SetEQDisabled_def ReplaceAccountRoles_def ReplaceAccountUsers_def
    ReplaceAccountGroups_def AddAlias_def RemoveAlias_def AddTag_def RemoveTag_def AddCharacter_def RemoveCharacter_def
    DeleteEQAccount_def insert_account_def delete_account_def SealString_def Seal_def UserByToken_def UserByID_def Let_def
  by (intro frame_rules frame_stmt unseen_tables; simp add: frame_def)+

lemma users_framed_shares:
  "frame users (ShareLocalAccount st v n p als us rs gs)" "frame users (UnshareLocalAccount st v n)"
  "frame users (AuditAccount st u a n d)" "frame users (SetEQRequiredRole a r)"
proof -
  have r: "frame users (replaceAccountShares a us)" for a us
    unfolding replaceAccountShares_def by (intro frame_rules frame_add_share unseen_tables; simp)
  have p: "frame users (publish v i)" for i
    unfolding publish_def by (intro frame_rules unseen_tables) simp
  show "frame users (ShareLocalAccount st v n p als us rs gs)"
    unfolding ShareLocalAccount_def update_share_def create_share_def add_aliases_def Let_def
    by (intro frame_rules r p users_framed reads_frame [OF reads_share_columns] reads_frame [OF reads_FindEQAccountIDByUsername]
        reads_frame [OF reads_listings(4)] unseen_tables)
  show "frame users (UnshareLocalAccount st v n)"
    unfolding UnshareLocalAccount_def
    by (intro frame_rules users_framed reads_frame [OF reads_share_columns]
        reads_frame [OF reads_FindEQAccountIDByUsername] unseen_tables)
  show "frame users (AuditAccount st u a n d)" by (rule frame_AuditAccount) simp_all
  show "frame users (SetEQRequiredRole a r)"
    unfolding SetEQRequiredRole_def Let_def by (intro frame_rules users_framed)
qed

lemma SetUserAccessRevoked_cases:
  obtains (updated) s' where "SetUserAccessRevoked uid r s = (Inr (), s')"
      "users s' = map (\<lambda>u. if ID u = uid then u\<lparr>AccessRevoked := r\<rparr> else u) (users s)"
  | (failed) e s' where "SetUserAccessRevoked uid r s = (Inl e, s')" "users s' = users s"
proof (cases "SetUserAccessRevoked uid r s")
  case (Pair res s')
  show ?thesis
  proof (cases res)
    case (Inr x)
    with Pair updated SetUserAccessRevoked_users show ?thesis by simp
  next
    case (Inl e)
    with Pair have "users s' = users s"
      by (auto simp: SetUserAccessRevoked_def andThen_def exec_update_def stmt_def map_idI filter_empty_conv
          split: list.splits option.splits if_splits)
    with Pair Inl failed show ?thesis by simp
  qed
qed

lemma banned_SetUserAccessRevoked: "banned (snd (SetUserAccessRevoked uid r s)) \<subseteq> (if r then insert uid (banned s) else banned s)"
  by (cases rule: SetUserAccessRevoked_cases [of uid r s]) (auto simp: banned_def)

lemma granting_revokes_nobody: "revokes_nobody (SetUserAccessRevoked uid False)"
  using banned_SetUserAccessRevoked [of uid False] by (simp add: revokes_nobody_def)

lemmas nobody_revoked = users_framed [THEN frame_revokes_nobody] users_framed_shares [THEN frame_revokes_nobody] granting_revokes_nobody

section \<open>Actions of the hub\<close>

lemma snd_lift [simp]: "snd (lift m h) = h\<lparr>db := snd (m (db h))\<rparr>"
  by (simp add: lift_def split: prod.splits)

lemma fst_lift [simp]: "fst (lift m h) = fst (m (db h))"
  by (simp add: lift_def split: prod.splits)

lemma lift_eq: "lift m h = (fst (m (db h)), h\<lparr>db := snd (m (db h))\<rparr>)"
  by (simp add: prod_eq_iff)

lemma gets_apply [simp]: "gets f h = (Inr (f h), h)"
  by (simp add: gets_def)

lemma modify_apply [simp]: "modify f h = (Inr (), f h)"
  by (simp add: modify_def)

lemma tracker_eq: "tracker f h = (Inr (fst (f (clock (db h)) (pres h))), h\<lparr>pres := snd (f (clock (db h)) (pres h))\<rparr>)"
  by (simp add: tracker_def split: prod.splits)

lemma keeps_gets [keeps_rules]: "keeps I (gets f)"
  by (simp add: keeps_def)

lemma keeps_gets_andThen: "(\<And>h. I h \<Longrightarrow> I (snd (k (f h) h))) \<Longrightarrow> keeps I (andThen (gets f) k)"
  by (simp add: keeps_def andThen_def)

lemma keeps_modify: "(\<And>h. I h \<Longrightarrow> I (f h)) \<Longrightarrow> keeps I (modify f)"
  by (simp add: keeps_def)

lemma keeps_lift: "(\<And>h. I h \<Longrightarrow> I (h\<lparr>db := snd (m (db h))\<rparr>)) \<Longrightarrow> keeps I (lift m)"
  by (simp add: keeps_def)

lemma keeps_optional [keeps_rules]: "keeps I m \<Longrightarrow> keeps I (optional m)"
  unfolding optional_def by (intro keeps_rules)

lemma keeps_trying [keeps_rules]:
  "keeps I (lift m) \<Longrightarrow> (\<And>e. keeps I (f e)) \<Longrightarrow> (\<And>x. keeps I (g x)) \<Longrightarrow> keeps I (trying m f g)"
  unfolding trying_def by (intro keeps_rules)

lemma keeps_for_each_in: "(\<And>x. x \<in> set xs \<Longrightarrow> keeps I (f x)) \<Longrightarrow> keeps I (for_each f xs)"
  by (induction xs) (auto intro!: keeps_rules)

lemma keeps_relayed [keeps_rules]:
  "(\<And>d. keeps I (f d)) \<Longrightarrow> (\<And>d. keeps I (g d)) \<Longrightarrow> keeps I (case x of ToServer d \<Rightarrow> f d | ToClient d \<Rightarrow> g d)"
  by (cases x) auto

lemma reads_share_activity: "reads (ListOwnedShareLogins st o' n)" "reads (BuildShareOnline st o' hs)"
  unfolding ListOwnedShareLogins_def BuildShareOnline_def share_online_entry_def Let_def
  by (intro reads_rules)+

lemma reads_full_state:
  "reads (ListEQAccountMetas st None True)" "reads (FullStateForUser st u on)" "reads ListGroupDetails" "reads AdminState_of"
  unfolding ListEQAccountMetas_def ListGroupDetails_def AdminState_of_def Let_def by (intro reads_rules)+

lemma wf_listings: "wf_tracker t \<Longrightarrow> wf_tracker (snd (Online now t))" "wf_tracker t \<Longrightarrow> wf_tracker (snd (Snapshot now t))"
  by (simp_all add: Online_def Snapshot_def Let_def)

lemma wf_pick: "wf_tracker t \<Longrightarrow> wf_tracker (snd (pickLoginCandidate now cands t))"
  using first_free_result [of t now] by (auto simp: pickLoginCandidate_def Let_def simp del: first_free.simps split: list.splits)

section \<open>The contract\<close>

text \<open>Messages that neither open a session nor revoke a user's access.\<close>

fun calm :: "message \<Rightarrow> bool" where
  "calm (Auth t v w) \<longleftrightarrow> False"
| "calm (AdminSetUserAccess r u b) \<longleftrightarrow> \<not> b"
| "calm m \<longleftrightarrow> True"

locale reading_law =
  fixes I :: "hub \<Rightarrow> bool"
  assumes quiet_output: "I h \<Longrightarrow> I (h\<lparr>outbox := ob\<rparr>)" "I h \<Longrightarrow> I (h\<lparr>upstream := us\<rparr>)"
      "I h \<Longrightarrow> I (h\<lparr>notified := n\<rparr>)" "I h \<Longrightarrow> I (h\<lparr>notices := ns\<rparr>)"
    and tracker_moves: "I h \<Longrightarrow> (wf_tracker (pres h) \<Longrightarrow> wf_tracker t) \<Longrightarrow> I (h\<lparr>pres := t\<rparr>)"
    and store_reads: "I h \<Longrightarrow> I (h\<lparr>db := (db h)\<lparr>faults := fs\<rparr>\<rparr>)"
begin

lemma store_read: "reads m \<Longrightarrow> keeps I (lift m)"
  unfolding reads_def by (rule keeps_lift) (metis store_reads)

lemma writeJSON_kept: "keeps I (writeJSON cid r)"
  unfolding writeJSON_def by (rule keeps_modify) (simp add: quiet_output)

lemma notify_kept: "keeps I notifyStateListeners"
  unfolding notifyStateListeners_def by (rule keeps_modify) (simp add: quiet_output)

lemma tracker_kept: "(\<And>now t. wf_tracker t \<Longrightarrow> wf_tracker (snd (f now t))) \<Longrightarrow> keeps I (tracker f)"
  by (auto simp: keeps_def tracker_eq intro: tracker_moves)

lemma the_kept: "keeps I (the_conn cid)" "keeps I (the_client sid)"
  unfolding the_conn_def the_client_def by (intro keeps_rules)+

lemma buildShareActivity_kept: "keeps I (buildShareActivity st o')"
  unfolding buildShareActivity_def
  by (intro keeps_rules store_read reads_share_activity tracker_kept wf_listings)

lemma sendFullState_kept: "keeps I (sendFullState cfg st cl)"
  unfolding sendFullState_def online_entries_def
  by (intro keeps_rules writeJSON_kept store_read reads_full_state reads_activity buildShareActivity_kept tracker_kept wf_listings)

end

locale hub_law = reading_law I for I :: "hub \<Rightarrow> bool" +
  fixes st :: Store and session :: "string \<Rightarrow> int \<Rightarrow> bool" and login :: "nat \<Rightarrow> int \<Rightarrow> bool"
  assumes quiet_input: "I h \<Longrightarrow> I (h\<lparr>verdicts := bs\<rparr>)" "I h \<Longrightarrow> I (h\<lparr>sockets := ss\<rparr>)"
      "I h \<Longrightarrow> I (h\<lparr>next_uuid := next_uuid h + 1\<rparr>)"
    and store_moves: "m \<in> operations st \<Longrightarrow> revokes_nobody m \<Longrightarrow> I h \<Longrightarrow> I (h\<lparr>db := snd (m (db h))\<rparr>)"
    and relay_moves: "I h \<Longrightarrow> I (h\<lparr>clients := map (\<lambda>c. if cl_id c = sid then c\<lparr>cl_relay := r c\<rparr> else c) (clients h)\<rparr>)"
    and client_refreshed: "I h \<Longrightarrow> session sid (ID u) \<Longrightarrow>
      I (h\<lparr>clients := map (\<lambda>c. if cl_id c = sid then c\<lparr>cl_user := u\<rparr> else c) (clients h)\<rparr>)"
    and login_refreshed: "I h \<Longrightarrow> login cid (ID u) \<Longrightarrow>
      I (h\<lparr>conns := map (\<lambda>k. if c_id k = cid then k\<lparr>c_user := u\<rparr> else k) (conns h)\<rparr>)"
    and client_known: "I h \<Longrightarrow> c \<in> set (clients h) \<Longrightarrow> session (cl_id c) (ID (cl_user c))"
begin

lemma store_op: "ignore m \<in> operations st \<Longrightarrow> revokes_nobody m \<Longrightarrow> keeps I (lift m)"
  by (rule keeps_lift) (use store_moves [of "ignore m"] in \<open>simp add: revokes_nobody_def ignore_def attempt_def split_def\<close>)

lemma store_op_unit: "m \<in> operations st \<Longrightarrow> revokes_nobody m \<Longrightarrow> keeps I (lift m)"
  by (rule keeps_lift) (rule store_moves)

lemma Audit_kept: "keeps I (lift (Audit st u a d))" "keeps I (lift (AuditAccount st u i a d))"
  unfolding Audit_def by (intro store_op_unit operations.intros nobody_revoked)+

lemma allow_kept: "keeps I allow"
  by (auto simp: keeps_def allow_def quiet_input split: list.splits)

lemma socket_kept: "keeps I socket"
  by (auto simp: keeps_def socket_def quiet_input split: list.splits)

lemma uuid_kept: "keeps I fresh_uuid"
  unfolding fresh_uuid_def by (intro keeps_rules keeps_modify) (rule quiet_input)

lemma relay_kept: "keeps I (update_client sid (\<lambda>c. c\<lparr>cl_relay := r c\<rparr>))"
  unfolding update_client_def by (rule keeps_modify) (rule relay_moves)

lemmas basics_kept = keeps_rules Audit_kept writeJSON_kept notify_kept allow_kept socket_kept uuid_kept relay_kept the_kept

lemma refresh_and_send_kept:
  assumes "session (cl_id cl) (ID (cl_user cl))"
  shows "keeps I (refresh_and_send cfg st cl)"
proof (rule keepsI)
  fix h assume h: "I h"
  obtain r s' where r: "UserByID (ID (cl_user cl)) (db h) = (r, s')" by (cases "UserByID (ID (cl_user cl)) (db h)")
  have h': "I (h\<lparr>db := s'\<rparr>)"
    using keepsD [OF store_read [OF reads_activity(2)] h, of "ID (cl_user cl)"] by (simp add: r)
  show "I (snd (refresh_and_send cfg st cl h))"
  proof (cases r)
    case (Inl e)
    with keepsD [OF sendFullState_kept h'] show ?thesis
      by (simp add: refresh_and_send_def attempt_def lift_eq r)
  next
    case (Inr u)
    with r have "ID u = ID (cl_user cl)" by (auto elim: UserByID_InrD)
    with assms have "I (snd (update_client (cl_id cl) (\<lambda>c. c\<lparr>cl_user := u\<rparr>) (h\<lparr>db := s'\<rparr>)))"
      using client_refreshed [OF h'] by (simp add: update_client_def)
    from keepsD [OF sendFullState_kept this] show ?thesis
      using Inr by (simp add: refresh_and_send_def attempt_def lift_eq r andThen_def update_client_def)
  qed
qed

lemma broadcast_kept: "keeps I (broadcastFullState cfg st)"
  unfolding broadcastFullState_def
proof (rule keeps_gets_andThen)
  fix h assume h: "I h"
  have "keeps I (andThen (for_each (refresh_and_send cfg st) (clients h)) (\<lambda>_. notifyStateListeners))"
    by (intro basics_kept keeps_for_each_in refresh_and_send_kept client_known [OF h])
  then show "I (snd (andThen (for_each (refresh_and_send cfg st) (clients h)) (\<lambda>_. notifyStateListeners) h))"
    by (rule keepsD) (rule h)
qed

lemma refresh_user_kept:
  assumes "login cid (ID user)" and "session (cl_id client) (ID user)"
  shows "keeps I (refresh_user cid client user)"
proof (rule keepsI)
  fix h assume h: "I h"
  obtain r s' where r: "UserByID (ID user) (db h) = (r, s')" by (cases "UserByID (ID user) (db h)")
  have h': "I (h\<lparr>db := s'\<rparr>)"
    using keepsD [OF store_read [OF reads_activity(2)] h, of "ID user"] by (simp add: r)
  show "I (snd (refresh_user cid client user h))"
  proof (cases r)
    case (Inl e)
    with h' show ?thesis by (simp add: refresh_user_def attempt_def lift_eq r)
  next
    case (Inr u)
    with r have u: "ID u = ID user" by (auto elim: UserByID_InrD)
    have "I (snd (update_conn cid (\<lambda>c. c\<lparr>c_user := u\<rparr>) (h\<lparr>db := s'\<rparr>)))"
      using login_refreshed [OF h'] assms(1) u by (simp add: update_conn_def)
    then have "I (snd (update_client (cl_id client) (\<lambda>c. c\<lparr>cl_user := u\<rparr>) (snd (update_conn cid (\<lambda>c. c\<lparr>c_user := u\<rparr>) (h\<lparr>db := s'\<rparr>)))))"
      using client_refreshed assms(2) u by (simp add: update_client_def)
    then show ?thesis
      using Inr by (simp add: refresh_user_def attempt_def lift_eq r andThen_def update_client_def update_conn_def)
  qed
qed

section \<open>Handlers that open and close no session\<close>

lemma ResolveLoginCandidates_reads: "reads (ResolveLoginCandidates st u n)"
  unfolding ResolveLoginCandidates_def Let_def by (intro reads_rules)

lemma DecryptCredentials_reads: "reads (DecryptCredentials st i)"
  unfolding DecryptCredentials_def StoreAccounts.decryptCredentials_def by (intro reads_rules)

lemma splice_kept: "keeps I (spliceLoginPacket cfg st user body)"
  unfolding spliceLoginPacket_def
  by (intro basics_kept store_read ResolveLoginCandidates_reads DecryptCredentials_reads tracker_kept wf_pick broadcast_kept wf_ClearUserExcept)

lemma WriteToUDP_kept: "keeps I (WriteToUDP sid d)"
  unfolding WriteToUDP_def by (rule keeps_modify) (rule quiet_output)

lemma relayFor_kept: "keeps I (relayFor client)"
  unfolding relayFor_def by (intro basics_kept)

lemma handleLoginRelayUp_kept: "keeps I (handleLoginRelayUp cfg st client user payload sp)"
  unfolding handleLoginRelayUp_def Let_def by (intro basics_kept relayFor_kept WriteToUDP_kept splice_kept)

lemma handleLoginSplice_kept: "keeps I (handleLoginSplice cfg st client user rid payload)"
  unfolding handleLoginSplice_def Let_def by (intro basics_kept splice_kept)

lemma relay_datagram_kept: "keeps I (relay_datagram sid d)"
  unfolding relay_datagram_def by (intro basics_kept WriteToUDP_kept)

lemma handleLoginAuth_kept: "keeps I (handleLoginAuth st c rid n)"
  unfolding handleLoginAuth_def Let_def
  by (intro basics_kept store_read ResolveLoginCandidates_reads tracker_kept wf_pick)

lemma handleHeartbeat_kept: "keeps I (handleHeartbeat c n off)"
proof -
  have "reads (AccountIDByCharacter n)" unfolding AccountIDByCharacter_def by (rule reads_query_row)
  then show ?thesis
    unfolding handleHeartbeat_def
    by (intro basics_kept store_read reads_AllowedAccountIDs tracker_kept) simp_all
qed

lemma share_account_kept: "keeps I (share_account cfg st cid user rid n p als us rs gs)"
proof -
  have "keeps I (lift (ShareLocalAccount st v n p als us rs gs))" for v n p
    by (intro store_op operations.intros nobody_revoked)
  moreover have "keeps I (modify (\<lambda>h. h\<lparr>notices := notices h @ xs\<rparr>))" for xs
    by (rule keeps_modify) (rule quiet_output)
  ultimately show ?thesis
    unfolding share_account_def Let_def by (intro basics_kept broadcast_kept)
qed

lemma unshare_account_kept: "keeps I (unshare_account cfg st cid user rid n)"
  unfolding unshare_account_def Let_def
  by (intro basics_kept broadcast_kept store_op_unit operations.intros nobody_revoked)

lemma request_id_kept: "keeps I (request_id r)"
  unfolding request_id_def by (intro basics_kept)

lemma session_option_kept:
  "keeps I m \<Longrightarrow> (\<And>cl. b \<Longrightarrow> client = Some cl \<Longrightarrow> keeps I (f cl)) \<Longrightarrow>
   keeps I (case (if b then client else None) of None \<Rightarrow> m | Some cl \<Rightarrow> f cl)"
  by (cases client) auto

text \<open>The connection and its client, as the handlers find them, belong to a known user.\<close>

definition known :: "conn \<Rightarrow> wsClient option \<Rightarrow> bool" where
  "known c client \<longleftrightarrow>
     (c_authed c \<longrightarrow> login (c_id c) (ID (c_user c)) \<and> (\<forall>cl. client = Some cl \<longrightarrow> session (cl_id cl) (ID (c_user c))))"

lemma refresh_known: "known c client \<Longrightarrow> c_authed c \<Longrightarrow> client = Some cl \<Longrightarrow> keeps I (refresh_user (c_id c) cl (c_user c))"
  by (rule refresh_user_kept) (simp_all add: known_def)

lemma handleShare_kept: "known c client \<Longrightarrow> keeps I (handleShare cfg st c client msg rid)"
proof -
  assume k: "known c client"
  have "keeps I (case msg of ShareAccount x name password als us rs gs \<Rightarrow> share_account cfg st cid user reqID name password als us rs gs
      | UnshareAccount x name \<Rightarrow> unshare_account cfg st cid user reqID name
      | _ \<Rightarrow> writeJSON cid (ShareFailed reqID ''bad_request''))" for cid user reqID
    by (cases msg) (simp_all add: share_account_kept unshare_account_kept writeJSON_kept)
  with k show ?thesis
    unfolding handleShare_def Let_def by (intro session_option_kept basics_kept request_id_kept refresh_known)
qed

lemma handleGetState_kept: "known c client \<Longrightarrow> keeps I (handleGetState cfg st c client)"
  unfolding handleGetState_def by (intro session_option_kept basics_kept refresh_known sendFullState_kept)

section \<open>Admin messages\<close>

lemma admin_done_kept: "keeps I (admin_done cfg st cid user rid i a d)"
  unfolding admin_done_def by (intro basics_kept broadcast_kept)

lemma unless_restricted_kept: "keeps I m \<Longrightarrow> keeps I (unless_restricted st cid user rid i a p m)"
  unfolding unless_restricted_def by (intro basics_kept store_read reads_CheckRestrictedAccountManage)

lemmas admin_kept = basics_kept admin_done_kept unless_restricted_kept broadcast_kept

lemma admin_name_kept: "keeps I (lift op) \<Longrightarrow> keeps I (admin_name cfg st cid user rid i bad op err a d)"
  unfolding admin_name_def Let_def by (intro admin_kept)

lemma admin_names_kept:
  "keeps I (admin_add_alias cfg st cid user rid n i)" "keeps I (admin_remove_alias cfg st cid user rid n i)"
  "keeps I (admin_add_tag cfg st cid user rid n i)" "keeps I (admin_remove_tag cfg st cid user rid n i)"
  "keeps I (admin_add_character cfg st cid user rid n i)" "keeps I (admin_remove_character cfg st cid user rid n i)"
  unfolding admin_add_alias_def admin_remove_alias_def admin_add_tag_def admin_remove_tag_def admin_add_character_def
    admin_remove_character_def Let_def
  by (intro admin_name_kept store_op_unit operations.intros nobody_revoked)+

lemma admin_accounts_kept:
  "keeps I (admin_add_account cfg st cid user rid n p r)" "keeps I (admin_update_account cfg st cid user rid i q b r)"
  "keeps I (admin_remove_account cfg st cid user rid i)"
proof -
  have role: "keeps I (lift (SetEQRequiredRole i r))" for i r
    by (intro store_op_unit operations.intros nobody_revoked)
  show "keeps I (admin_add_account cfg st cid user rid n p r)"
    unfolding admin_add_account_def Let_def by (intro admin_kept role store_op operations.intros nobody_revoked)
  show "keeps I (admin_update_account cfg st cid user rid i q b r)"
    unfolding admin_update_account_def Let_def by (intro admin_kept role store_op_unit operations.intros nobody_revoked)
  show "keeps I (admin_remove_account cfg st cid user rid i)"
    unfolding admin_remove_account_def Let_def
    by (intro admin_kept store_op_unit operations.intros nobody_revoked tracker_kept) simp
qed

lemma admin_grant_kept: "keeps I (admin_set_user_access cfg st cid user rid uid False)"
proof -
  have "keeps I (lift (SetUserAccessRevoked uid False))"
    by (intro store_op_unit operations.intros nobody_revoked)
  then show ?thesis
    unfolding admin_set_user_access_def Let_def if_False by (intro admin_kept)
qed

lemma admin_message_kept: "calm msg \<Longrightarrow> keeps I (admin_message cfg st cid user rid msg)"
  by (cases msg) (simp_all add: admin_message_def admin_names_kept admin_accounts_kept admin_grant_kept writeJSON_kept)

lemma handleAdmin_kept: "calm msg \<Longrightarrow> known c client \<Longrightarrow> keeps I (handleAdmin cfg st c client msg rid)"
  unfolding handleAdmin_def Let_def
  by (intro session_option_kept basics_kept request_id_kept refresh_known admin_message_kept)

lemma dispatch_calm_kept:
  assumes "calm msg" and "known c client"
  shows "keeps I (dispatch cfg st c client msg)"
proof -
  note kept = writeJSON_kept handleShare_kept [OF assms(2)] handleAdmin_kept [OF _ assms(2)] handleGetState_kept [OF assms(2)]
    handleLoginAuth_kept handleHeartbeat_kept handleLoginRelayUp_kept handleLoginSplice_kept keeps_ret
  show ?thesis
    using assms(1) by (cases msg) (simp_all add: dispatch_def Let_def kept keeps_if keeps_option)
qed

end

section \<open>Invariants that ignore who is connected\<close>

locale open_hub_law = hub_law I st "\<lambda>_ _. True" "\<lambda>_ _. True" for I :: "hub \<Rightarrow> bool" and st :: Store +
  assumes any_clients: "I h \<Longrightarrow> I (h\<lparr>clients := cs\<rparr>)"
    and any_conns: "I h \<Longrightarrow> I (h\<lparr>conns := ks\<rparr>)"
    and revoked: "I h \<Longrightarrow> I (h\<lparr>db := snd (SetUserAccessRevoked u True (db h))\<rparr>)"
begin

lemma known_trivial: "known c client"
  by (simp add: known_def)

lemma update_conn_kept: "keeps I (update_conn cid f)"
  unfolding update_conn_def by (rule keeps_modify) (rule any_conns)

lemma clients_kept: "keeps I (modify (\<lambda>h. h\<lparr>clients := f h\<rparr>))"
  by (rule keeps_modify) (rule any_clients)

lemmas session_kept = basics_kept update_conn_kept clients_kept

lemma unregister_kept: "keeps I (unregister sid)"
  unfolding unregister_def by (intro session_kept)

lemma register_kept: "keeps I (register cid u v)"
  unfolding register_def Let_def by (intro session_kept)

lemma hang_up_kept: "keeps I (hang_up cid)"
  unfolding hang_up_def by (intro session_kept unregister_kept)

lemma disconnectUser_kept: "keeps I (disconnectUser u r)"
  unfolding disconnectUser_def by (intro session_kept)

lemma handleAuth_kept: "keeps I (handleAuth cfg st c t v w)"
  unfolding handleAuth_def authenticate_def establish_def reject_def
  by (intro session_kept hang_up_kept unregister_kept register_kept sendFullState_kept store_op operations.intros nobody_revoked)

lemma revoke_kept: "keeps I (lift (SetUserAccessRevoked u True))"
  by (rule keeps_lift) (rule revoked)

lemma admin_revoke_kept: "keeps I (admin_set_user_access cfg st cid user rid uid b)"
proof (cases b)
  case True
  then show ?thesis
    unfolding admin_set_user_access_def Let_def by (simp only:) (intro session_kept revoke_kept disconnectUser_kept broadcast_kept)
next
  case False
  then show ?thesis by (simp add: admin_grant_kept)
qed

lemma dispatch_kept: "keeps I (dispatch cfg st c client msg)"
proof (cases "calm msg")
  case True
  then show ?thesis by (rule dispatch_calm_kept) (rule known_trivial)
next
  case False
  have "keeps I (admin_message cfg st cid user rid msg)" for cid user rid
    using False by (cases msg) (simp_all add: admin_message_def admin_revoke_kept writeJSON_kept)
  then have "keeps I (handleAdmin cfg st c client msg rid)" for rid
    unfolding handleAdmin_def Let_def
    by (intro session_option_kept session_kept request_id_kept refresh_known known_trivial)
  with False show ?thesis by (cases msg) (simp_all add: dispatch_def Let_def handleAuth_kept)
qed

lemma serve_kept: "keeps I (serve cfg st cid msg)"
  unfolding serve_def by (intro session_kept dispatch_kept)

end

end
