(* ===== verification/WebSession.thy ===== *)
theory WebSession
  imports Vault
begin

text \<open>
  internal/web/session.go: the signed cookie of a web session and the signed state of the OAuth
  login. Both are texts with a MAC: fields joined by dots, the last of them HMAC-SHA256 of what comes
  before in base64 (the unpadded URL alphabet, which has no dot).

  \<open>now\<close> is \<open>time.Now().Unix()\<close>; the clock of the world counts the same seconds here. The JSON text of
  a session is made and read by encoding/json: \<open>marshal\<close> and \<open>unmarshal\<close> are parameters, and what is
  relied on is that reading gives back what was written. \<open>hmac.Equal\<close> is equality. Setting the
  cookie and its attributes is I/O.
\<close>

section \<open>Base64\<close>

definition b64_alphabet :: string where
  "b64_alphabet = ''ABCDEFGHIJKLMNOPQRSTUVWXYZabcdefghijklmnopqrstuvwxyz0123456789-_''"

definition b64_digit :: "nat \<Rightarrow> char" where
  "b64_digit n = b64_alphabet ! (n mod 64)"

definition b64_value :: "char \<Rightarrow> nat option" where
  "b64_value c = IndexByte b64_alphabet c"

text \<open>Three bytes are four digits; a tail of one or two bytes is two or three.\<close>

fun b64_digits :: "nat list \<Rightarrow> nat list" where
  "b64_digits (a # b # c # bs) =
     (let n = a * 65536 + b * 256 + c in [n div 262144, n div 4096 mod 64, n div 64 mod 64, n mod 64] @ b64_digits bs)"
| "b64_digits [a, b] = (let n = a * 65536 + b * 256 in [n div 262144, n div 4096 mod 64, n div 64 mod 64])"
| "b64_digits [a] = (let n = a * 65536 in [n div 262144, n div 4096 mod 64])"
| "b64_digits [] = []"

fun b64_bytes :: "nat list \<Rightarrow> nat list option" where
  "b64_bytes (p # q # r # s # ds) =
     (let n = p * 262144 + q * 4096 + r * 64 + s
      in map_option (\<lambda>bs. [n div 65536, n div 256 mod 256, n mod 256] @ bs) (b64_bytes ds))"
| "b64_bytes [p, q, r] = (let n = p * 262144 + q * 4096 + r * 64 in Some [n div 65536, n div 256 mod 256])"
| "b64_bytes [p, q] = (let n = p * 262144 + q * 4096 in Some [n div 65536])"
| "b64_bytes [p] = None"
| "b64_bytes [] = Some []"

definition EncodeToString :: "bytes \<Rightarrow> string" where
  "EncodeToString bs = map b64_digit (b64_digits (map unat bs))"

text \<open>The decoder skips line ends and does not look at the unused bits of the last digit.\<close>

definition DecodeString :: "string \<Rightarrow> bytes option" where
  "DecodeString s =
     (case those (map b64_value (filter (\<lambda>c. c \<noteq> CHR 0x0A \<and> c \<noteq> CHR 0x0D) s)) of
        None \<Rightarrow> None
      | Some ds \<Rightarrow> map_option (map word_of_nat) (b64_bytes ds))"

text \<open>\<open>strings.Split\<close> at a character.\<close>

fun split_on :: "'a \<Rightarrow> 'a list \<Rightarrow> 'a list list" where
  "split_on c [] = [[]]"
| "split_on c (x # xs) =
     (if x = c then [] # split_on c xs
      else case split_on c xs of [] \<Rightarrow> [[x]] | y # ys \<Rightarrow> (x # y) # ys)"

text \<open>\<open>strings.Join\<close> with a one-character separator.\<close>

fun join_on :: "'a \<Rightarrow> 'a list list \<Rightarrow> 'a list" where
  "join_on c [] = []"
| "join_on c [x] = x"
| "join_on c (x # xs) = x @ c # join_on c xs"

text \<open>\<open>fmt.Sscanf(s, "%d", &ts)\<close>: blanks, a sign, digits; what follows is not looked at.\<close>

definition is_digit :: "char \<Rightarrow> bool" where
  "is_digit c = (let n = (of_char c :: nat) in 48 \<le> n \<and> n \<le> 57)"

definition digits_value :: "string \<Rightarrow> nat" where
  "digits_value = foldl (\<lambda>n c. n * 10 + (of_char c - 48)) 0"

definition int64 :: "int \<Rightarrow> int option" where
  "int64 i = (if - (2 ^ 63) \<le> i \<and> i < 2 ^ 63 then Some i else None)"

definition signed :: "string \<Rightarrow> bool \<times> string" where
  "signed s = (case s of c # cs \<Rightarrow> if c = CHR ''-'' then (True, cs) else if c = CHR ''+'' then (False, cs) else (False, s)
     | [] \<Rightarrow> (False, s))"

definition Sscanf_d :: "string \<Rightarrow> int option" where
  "Sscanf_d s =
     (case signed (dropWhile (\<lambda>c. is_space c \<and> c \<noteq> CHR 0x0A) s) of (negative, rest) \<Rightarrow>
      let ds = takeWhile is_digit rest in
      if ds = [] then None else int64 (if negative then - int (digits_value ds) else int (digits_value ds)))"

section \<open>Sessions\<close>

record Session =
  SessUserID :: int
  SessDiscordID :: string
  SessDisplayName :: string
  SessRoleIDs :: "string list"
  ExpiresAt :: int

definition sessionTTL :: int where "sessionTTL = 12 * 60 * 60"

text \<open>The MAC both kinds of token end with.\<close>

definition sign :: "bytes \<Rightarrow> string \<Rightarrow> string" where
  "sign key payload = EncodeToString (hmac_sha256 key (bytes_of payload))"

definition signSession :: "bytes \<Rightarrow> (Session \<Rightarrow> error + bytes) \<Rightarrow> int \<Rightarrow> Session \<Rightarrow> error + string" where
  "signSession key marshal now sess =
     (let sess = (if ExpiresAt sess = 0 then sess\<lparr>ExpiresAt := now + sessionTTL\<rparr> else sess) in
      case marshal sess of Inl e \<Rightarrow> Inl e | Inr raw \<Rightarrow>
      let payload = EncodeToString raw in Inr (payload @ ''.'' @ sign key payload))"

definition parseSession :: "bytes \<Rightarrow> (bytes \<Rightarrow> error + Session) \<Rightarrow> int \<Rightarrow> string \<Rightarrow> error + Session" where
  "parseSession key unmarshal now token =
     (case split_on CHR ''.'' token of
        [payload, sig] \<Rightarrow>
          if sign key payload \<noteq> sig then Inl (Err ''bad signature'')
          else (case DecodeString payload of None \<Rightarrow> Inl (Err ''illegal base64 data'')
          | Some raw \<Rightarrow> (case unmarshal raw of Inl e \<Rightarrow> Inl e
          | Inr sess \<Rightarrow> if now > ExpiresAt sess then Inl (Err ''expired'') else Inr sess))
      | _ \<Rightarrow> Inl (Err ''invalid session''))"

text \<open>\<open>None\<close>: the request has no such cookie.\<close>

definition sessionFromRequest :: "bytes \<Rightarrow> (bytes \<Rightarrow> error + Session) \<Rightarrow> int \<Rightarrow> string option \<Rightarrow> error + Session" where
  "sessionFromRequest key unmarshal now cookie =
     (case cookie of None \<Rightarrow> Inl (Err ''no session'')
      | Some value \<Rightarrow> if value = [] then Inl (Err ''no session'') else parseSession key unmarshal now value)"

section \<open>OAuth state\<close>

definition oauthStateTTL :: int where "oauthStateTTL = 10 * 60"

definition randomState :: "string db" where
  "randomState = andThen (rand_read 24) (\<lambda>b. ret (EncodeToString b))"

definition makeOAuthState :: "bytes \<Rightarrow> string db" where
  "makeOAuthState key =
     andThen randomState (\<lambda>nonce s.
     let payload = nonce @ ''.'' @ itoa (clock s) in (Inr (payload @ ''.'' @ sign key payload), s))"

definition verifyOAuthState :: "bytes \<Rightarrow> int \<Rightarrow> string \<Rightarrow> error + unit" where
  "verifyOAuthState key now state =
     (case split_on CHR ''.'' state of
        [nonce, stamp, sig] \<Rightarrow>
          if sign key (nonce @ ''.'' @ stamp) \<noteq> sig then Inl (Err ''bad signature'')
          else (case Sscanf_d stamp of None \<Rightarrow> Inl (Err ''bad timestamp'')
          | Some ts \<Rightarrow> if ts \<le> 0 then Inl (Err ''bad timestamp'')
              else let age = now - ts in
                if age < - 60 \<or> age > oauthStateTTL then Inl (Err ''expired'') else Inr ())
      | _ \<Rightarrow> Inl (Err ''malformed''))"

section \<open>Reading back what was written\<close>

lemma b64_digits_less: "\<forall>b \<in> set bs. b < 256 \<Longrightarrow> d \<in> set (b64_digits bs) \<Longrightarrow> d < 64"
  by (induction bs rule: b64_digits.induct) (auto simp: Let_def)

lemma b64_group:
  fixes a b c :: nat
  assumes "b < 256" "c < 256"
  shows "(a * 65536 + b * 256 + c) div 65536 = a" "(a * 65536 + b * 256 + c) div 256 mod 256 = b" "(a * 65536 + b * 256 + c) mod 256 = c"
proof -
  have n: "a * 65536 + b * 256 + c = c + (a * 256 + b) * 256" by simp
  have d: "(c + (a * 256 + b) * 256) div 256 = b + a * 256"
    using assms(2) div_mult_self1 [of 256 c "a * 256 + b"] by simp
  show "(a * 65536 + b * 256 + c) mod 256 = c"
    unfolding n mod_mult_self1 using assms(2) by simp
  show "(a * 65536 + b * 256 + c) div 256 mod 256 = b"
    unfolding n d mod_mult_self1 using assms(1) by simp
  have "(a * 65536 + b * 256 + c) div 65536 = (c + (a * 256 + b) * 256) div 256 div 256"
    unfolding n by (simp add: div_mult2_eq [symmetric])
  then show "(a * 65536 + b * 256 + c) div 65536 = a"
    using assms(1) d div_mult_self1 [of 256 b a] by simp
qed

lemma b64_tails:
  fixes a b :: nat
  assumes "b < 256"
  shows "(a * 65536 + b * 256) div 65536 = a" "(a * 65536 + b * 256) div 256 mod 256 = b"
    "(a * 65536 + b * 256) mod 64 = 0" "a * 65536 mod 64 = 0" "a * 65536 div 64 mod 64 = 0" "a * 65536 div 65536 = a"
proof -
  show "(a * 65536 + b * 256) div 65536 = a" "(a * 65536 + b * 256) div 256 mod 256 = b"
    using b64_group [OF assms, of 0 a] by (simp_all only: add_0_right)
  have "(64 :: nat) dvd a * 65536 + b * 256" by (intro dvd_add dvd_mult) simp_all
  then show "(a * 65536 + b * 256) mod 64 = 0" by (simp only: dvd_eq_mod_eq_0)
  have "a * 65536 = a * 1024 * 64" by simp
  then have "a * 65536 div 64 = a * 1024" by (simp only: nonzero_mult_div_cancel_right)
  moreover have "(64 :: nat) dvd a * 1024" by (intro dvd_mult) simp
  ultimately show "a * 65536 div 64 mod 64 = 0" by (simp only: dvd_eq_mod_eq_0)
  have "(64 :: nat) dvd a * 65536" by (intro dvd_mult) simp
  then show "a * 65536 mod 64 = 0" by (simp only: dvd_eq_mod_eq_0)
  show "a * 65536 div 65536 = a" by simp
qed

lemma base_64:
  fixes n :: nat
  shows "n div 262144 * 262144 + n div 4096 mod 64 * 4096 + n div 64 mod 64 * 64 + n mod 64 = n"
proof -
  have "n = n div 64 * 64 + n mod 64" by simp
  moreover have "n div 64 = n div 4096 * 64 + n div 64 mod 64"
    using div_mult_mod_eq [of "n div 64" 64] by (simp add: div_mult2_eq [symmetric])
  moreover have "n div 4096 = n div 262144 * 64 + n div 4096 mod 64"
    using div_mult_mod_eq [of "n div 4096" 64] by (simp add: div_mult2_eq [symmetric])
  ultimately show ?thesis by linarith
qed

lemma b64_bytes_digits: "\<forall>b \<in> set bs. b < 256 \<Longrightarrow> b64_bytes (b64_digits bs) = Some bs"
proof (induction bs rule: b64_digits.induct)
  case (1 a b c bs)
  then show ?case using b64_group [of b c a] by (simp add: Let_def base_64 del: div_mult_self1 div_mult_self2)
next
  case (2 a b)
  define n where "n = a * 65536 + b * 256"
  have "n mod 64 = 0" "n div 65536 = a" "n div 256 mod 256 = b" using 2 b64_tails [of b a] by (simp_all only: n_def list.set insert_iff simp_thms)
  moreover from this(1) have "n div 262144 * 262144 + n div 4096 mod 64 * 4096 + n div 64 mod 64 * 64 = n"
    using base_64 [of n] by simp
  ultimately show ?case by (simp only: b64_digits.simps Let_def n_def [symmetric] b64_bytes.simps)
next
  case (3 a)
  define n where "n = a * 65536"
  have "n mod 64 = 0" "n div 64 mod 64 = 0" "n div 65536 = a" using b64_tails(4-6) [of 0 a] by (simp_all add: n_def)
  moreover from this(1,2) have "n div 262144 * 262144 + n div 4096 mod 64 * 4096 = n"
    using base_64 [of n] by simp
  ultimately show ?case by (simp only: b64_digits.simps Let_def n_def [symmetric] b64_bytes.simps)
qed simp

lemma length_b64_alphabet [simp]: "length b64_alphabet = 64"
  by (simp add: b64_alphabet_def)

lemma distinct_b64_alphabet: "distinct b64_alphabet"
  by (simp add: b64_alphabet_def)

lemma IndexByte_nth: "distinct xs \<Longrightarrow> i < length xs \<Longrightarrow> IndexByte xs (xs ! i) = Some i"
proof (induction xs arbitrary: i)
  case (Cons x xs)
  then show ?case by (cases i) auto
qed simp

lemma b64_value_digit: "d < 64 \<Longrightarrow> b64_value (b64_digit d) = Some d"
  by (simp add: b64_value_def b64_digit_def IndexByte_nth distinct_b64_alphabet)

lemma b64_digit_mem: "b64_digit d \<in> set b64_alphabet"
  by (simp add: b64_digit_def)

lemma b64_clean: "set (EncodeToString bs) \<subseteq> set b64_alphabet"
  using b64_digit_mem by (auto simp: EncodeToString_def)

lemma b64_alphabet_free: "CHR 0x0A \<notin> set b64_alphabet" "CHR 0x0D \<notin> set b64_alphabet" "CHR ''.'' \<notin> set b64_alphabet"
  by (simp_all add: b64_alphabet_def)

lemma no_dot_encoded [simp]: "CHR ''.'' \<notin> set (EncodeToString bs)"
  using b64_clean b64_alphabet_free by blast

lemma those_map_Some: "(\<And>x. x \<in> set xs \<Longrightarrow> f x = Some (g x)) \<Longrightarrow> those (map f xs) = Some (map g xs)"
  by (induction xs) auto

lemma unat_less_256: "unat (b :: 8 word) < 256"
  using unsigned_less [of b] by simp

lemma DecodeString_EncodeToString [simp]: "DecodeString (EncodeToString bs) = Some bs"
proof -
  let ?ds = "b64_digits (map unat bs)"
  have bs: "\<forall>b \<in> set (map unat bs). b < 256"
    by (auto simp: unat_less_256)
  have "filter (\<lambda>c. c \<noteq> CHR 0x0A \<and> c \<noteq> CHR 0x0D) (EncodeToString bs) = EncodeToString bs"
    using b64_clean [of bs] b64_alphabet_free by (intro filter_True) auto
  moreover have "those (map b64_value (EncodeToString bs)) = Some ?ds"
    using those_map_Some [of ?ds "b64_value \<circ> b64_digit" "\<lambda>d. d"] b64_value_digit b64_digits_less [OF bs]
    by (simp add: EncodeToString_def)
  ultimately show ?thesis
    using b64_bytes_digits [OF bs] by (simp add: DecodeString_def comp_def)
qed

lemma split_on_free: "c \<notin> set xs \<Longrightarrow> split_on c xs = [xs]"
  by (induction xs) auto

lemma split_on_field: "c \<notin> set xs \<Longrightarrow> split_on c (xs @ c # ys) = xs # split_on c ys"
  by (induction xs) auto

lemma split_on_not_Nil: "split_on c s \<noteq> []"
  by (cases s) (auto split: list.splits)

lemma join_split_on: "join_on c (split_on c s) = s"
proof (induction s)
  case (Cons x s)
  obtain y ys where "split_on c s = y # ys" using split_on_not_Nil [of c s] by (cases "split_on c s") auto
  with Cons show ?case by (cases ys) auto
qed simp

lemma split_onD: "split_on c s = [x, y] \<Longrightarrow> s = x @ c # y" "split_on c s = [x, y, z] \<Longrightarrow> s = x @ c # y @ c # z"
  using join_split_on [of c s] by auto

lemma is_digit_char [simp]: "(n :: nat) < 10 \<Longrightarrow> is_digit (char_of (48 + n))"
  by (simp add: is_digit_def Let_def)

lemma digits_of_digits: "list_all is_digit (digits_of n) \<and> digits_of n \<noteq> []"
proof (induction n rule: digits_of.induct)
  case (1 n)
  then show ?case by (subst digits_of.simps, subst (2) digits_of.simps) simp
qed

lemma digits_value_append: "digits_value (xs @ [c]) = digits_value xs * 10 + (of_char c - 48)"
  by (simp add: digits_value_def)

lemma digits_value_of: "digits_value (digits_of n) = n"
proof (induction n rule: digits_of.induct)
  case (1 n)
  show ?case
  proof (cases "n < 10")
    case True
    then show ?thesis by (subst digits_of.simps) (simp add: digits_value_def)
  next
    case False
    with 1 show ?thesis by (subst digits_of.simps) (simp add: digits_value_append)
  qed
qed

lemma digit_plain: "is_digit c \<Longrightarrow> \<not> is_space c \<and> c \<noteq> CHR ''-'' \<and> c \<noteq> CHR ''+'' \<and> c \<noteq> CHR ''.''"
  by (auto simp: is_digit_def is_space_def Let_def)

lemma Sscanf_itoa: "0 < n \<Longrightarrow> n < 2 ^ 63 \<Longrightarrow> Sscanf_d (itoa n) = Some n"
proof -
  assume n: "0 < n" "n < 2 ^ 63"
  obtain c cs where ds: "digits_of (nat n) = c # cs" and d: "\<forall>x \<in> set (c # cs). is_digit x"
    using digits_of_digits [of "nat n"] by (cases "digits_of (nat n)") (auto simp: list_all_iff)
  have "takeWhile is_digit (c # cs) = c # cs"
    using d takeWhile_eq_all_conv by metis
  moreover have "digits_value (c # cs) = nat n"
    using digits_value_of [of "nat n"] ds by simp
  moreover have "dropWhile (\<lambda>c. is_space c \<and> c \<noteq> CHR 0x0A) (c # cs) = c # cs" "signed (c # cs) = (False, c # cs)"
    using d digit_plain [of c] by (simp_all add: signed_def)
  ultimately show ?thesis
    using n by (simp only: Sscanf_d_def itoa_def ds) (simp add: int64_def Let_def)
qed

lemma no_dot_itoa: "0 < n \<Longrightarrow> CHR ''.'' \<notin> set (itoa n)"
  using digits_of_digits [of "nat n"] digit_plain by (auto simp: itoa_def list_all_iff)

section \<open>What is accepted\<close>

text \<open>
  C26: an OAuth state works for ten minutes. The state made at some time is accepted exactly from a
  minute before (clocks differ) to ten minutes after it, and answered with "expired" at any other
  time; and nothing is ever accepted that does not end with the MAC, under the server's key, of what
  comes before.
\<close>

theorem oauth_state_lives_ten_minutes:
  assumes "makeOAuthState key w = (Inr state, w')" and "0 < clock w" and "clock w < 2 ^ 63"
  shows "verifyOAuthState key now state
      = (if - 60 \<le> now - clock w \<and> now - clock w \<le> 600 then Inr () else Inl (Err ''expired''))
    \<and> (\<forall>other. verifyOAuthState key now other = Inr () \<longrightarrow> (\<exists>payload. other = payload @ ''.'' @ sign key payload))"
proof -
  obtain bs where state: "state = (EncodeToString bs @ ''.'' @ itoa (clock w)) @ ''.'' @ sign key (EncodeToString bs @ ''.'' @ itoa (clock w))"
    using assms(1) by (auto simp: makeOAuthState_def randomState_def rand_read_def andThen_def Let_def)
  have "split_on CHR ''.'' state = [EncodeToString bs, itoa (clock w), sign key (EncodeToString bs @ ''.'' @ itoa (clock w))]"
    unfolding state using no_dot_itoa [OF assms(2)] by (simp add: split_on_field split_on_free sign_def)
  then have "verifyOAuthState key now state
      = (if - 60 \<le> now - clock w \<and> now - clock w \<le> 600 then Inr () else Inl (Err ''expired''))"
    using assms(2,3) by (auto simp: verifyOAuthState_def Sscanf_itoa Let_def oauthStateTTL_def)
  moreover have "\<exists>payload. other = payload @ ''.'' @ sign key payload" if a: "verifyOAuthState key now other = Inr ()" for other
  proof -
    obtain nonce stamp sig where parts: "split_on CHR ''.'' other = [nonce, stamp, sig]" "sign key (nonce @ ''.'' @ stamp) = sig"
      using a by (simp add: verifyOAuthState_def split: list.splits if_splits)
    from split_onD(2) [OF parts(1)] parts(2) have "other = (nonce @ ''.'' @ stamp) @ ''.'' @ sign key (nonce @ ''.'' @ stamp)" by simp
    then show ?thesis by blast
  qed
  ultimately show ?thesis by blast
qed

theorem oauth_state_lives_ten_minutes_witness:
  "\<exists>state w'. makeOAuthState [1, 2] (empty_world\<lparr>clock := 1000\<rparr>) = (Inr state, w')
     \<and> verifyOAuthState [1, 2] 1600 state = Inr () \<and> verifyOAuthState [1, 2] 1601 state = Inl (Err ''expired'')"
proof -
  obtain state w' where m: "makeOAuthState [1, 2] (empty_world\<lparr>clock := 1000\<rparr>) = (Inr state, w')"
    by (simp add: makeOAuthState_def randomState_def rand_read_def andThen_def Let_def)
  note valid = oauth_state_lives_ten_minutes [OF m]
  have "verifyOAuthState [1, 2] 1600 state = Inr ()" "verifyOAuthState [1, 2] 1601 state = Inl (Err ''expired'')"
    using valid [of 1600] valid [of 1601] by simp_all
  with m show ?thesis by blast
qed

lemma signed_session_read:
  assumes "\<And>s raw. marshal s = Inr raw \<Longrightarrow> unmarshal raw = Inr s" and "signSession key marshal now sess = Inr token"
    and s: "s = (if ExpiresAt sess = 0 then sess\<lparr>ExpiresAt := now + sessionTTL\<rparr> else sess)"
  shows "parseSession key unmarshal later token = (if later \<le> ExpiresAt s then Inr s else Inl (Err ''expired''))" and "token \<noteq> []"
proof -
  obtain raw where raw: "marshal s = Inr raw" "token = EncodeToString raw @ ''.'' @ sign key (EncodeToString raw)"
    using assms(2) unfolding signSession_def Let_def s [symmetric] by (auto split: sum.splits)
  have "split_on CHR ''.'' token = [EncodeToString raw, sign key (EncodeToString raw)]"
    unfolding raw(2) by (simp add: split_on_field split_on_free sign_def)
  with assms(1) [OF raw(1)] show "parseSession key unmarshal later token = (if later \<le> ExpiresAt s then Inr s else Inl (Err ''expired''))"
    by (simp add: parseSession_def)
  show "token \<noteq> []" using raw(2) by simp
qed

text \<open>
  C27: a session cookie says what the server signed. A signed session is read back as it was, with an
  expiry of twelve hours when it had none, until that time and as expired afterwards; and whatever
  cookie is accepted carries the MAC of its own payload and has not expired. Relied on is that JSON
  text written by the server is read back as the same session.
\<close>

theorem session_cookie_roundtrip:
  assumes "\<And>s raw. marshal s = Inr raw \<Longrightarrow> unmarshal raw = Inr s" and "signSession key marshal now sess = Inr token"
  shows "(let s = (if ExpiresAt sess = 0 then sess\<lparr>ExpiresAt := now + 43200\<rparr> else sess) in
      parseSession key unmarshal later token = (if later \<le> ExpiresAt s then Inr s else Inl (Err ''expired'')))
    \<and> (\<forall>other s. parseSession key unmarshal later other = Inr s \<longrightarrow>
      (\<exists>payload raw. other = payload @ ''.'' @ sign key payload \<and> DecodeString payload = Some raw
        \<and> unmarshal raw = Inr s \<and> later \<le> ExpiresAt s))"
proof -
  define s where "s = (if ExpiresAt sess = 0 then sess\<lparr>ExpiresAt := now + 43200\<rparr> else sess)"
  have ttl: "sessionTTL = 43200" by (simp add: sessionTTL_def)
  have "parseSession key unmarshal later token = (if later \<le> ExpiresAt s then Inr s else Inl (Err ''expired''))"
    using signed_session_read(1) [OF assms] by (simp add: s_def ttl)
  moreover have "\<exists>payload raw. other = payload @ ''.'' @ sign key payload \<and> DecodeString payload = Some raw
        \<and> unmarshal raw = Inr t \<and> later \<le> ExpiresAt t" if a: "parseSession key unmarshal later other = Inr t" for other t
  proof -
    obtain payload sig where "split_on CHR ''.'' other = [payload, sig]" "sign key payload = sig"
      using a by (simp add: parseSession_def split: list.splits if_splits)
    with a split_onD(1) [of "CHR ''.''" other payload sig] show ?thesis
      by (auto simp: parseSession_def split: option.splits sum.splits if_splits)
  qed
  ultimately show ?thesis unfolding s_def Let_def by blast
qed

theorem session_cookie_roundtrip_witness:
  "let s0 = \<lparr>SessUserID = 7, SessDiscordID = ''42'', SessDisplayName = ''Ann'', SessRoleIDs = [], ExpiresAt = 500\<rparr>;
       text = bytes_of ''{}'';
       marshal = (\<lambda>s. if s = s0 then Inr text else Inl (Err ''json''));
       unmarshal = (\<lambda>raw. if raw = text then Inr s0 else Inl (Err ''json''))
   in \<exists>token. signSession [] marshal 0 s0 = Inr token \<and> parseSession [] unmarshal 500 token = Inr s0
     \<and> parseSession [] unmarshal 501 token = Inl (Err ''expired'')"
proof -
  define s0 where "s0 = \<lparr>SessUserID = 7, SessDiscordID = ''42'', SessDisplayName = ''Ann'', SessRoleIDs = [], ExpiresAt = 500\<rparr>"
  let ?text = "bytes_of ''{}''"
  let ?marshal = "\<lambda>s. if s = s0 then Inr ?text else Inl (Err ''json'')"
  let ?unmarshal = "\<lambda>raw. if raw = ?text then Inr s0 else Inl (Err ''json'')"
  have json: "\<And>s raw. ?marshal s = Inr raw \<Longrightarrow> ?unmarshal raw = Inr s" by (simp split: if_splits)
  obtain token where t: "signSession [] ?marshal 0 s0 = Inr token"
    by (simp add: signSession_def Let_def s0_def)
  note read = session_cookie_roundtrip [OF json t]
  have "ExpiresAt s0 = 500" by (simp add: s0_def)
  then have "parseSession [] ?unmarshal 500 token = Inr s0" "parseSession [] ?unmarshal 501 token = Inl (Err ''expired'')"
    using read [where later = 500] read [where later = 501] by (simp_all add: Let_def)
  with t show ?thesis unfolding s0_def [symmetric] Let_def by blast
qed

end
