(* ===== verification/WebAccess.thy ===== *)
theory WebAccess
  imports WebSession HubMessages
begin

text \<open>
  internal/web: who may use the web pages and what they see (access.go, accounts_access.go, the gates
  of server.go and denied.go, \<open>buildState\<close> of api.go).

  A request handler is an action over the hub, which holds the database and the presence tracker the
  web server shares with it; its result is an error answer (status and code) or a value that is
  written as JSON with status 200. The deadlines of the requests are not modelled: a query that runs
  out of time is one that fails.
\<close>

section \<open>The server\<close>

record Server =
  srv_store :: Store
  srv_hub :: HubConfig
  sessionKey :: bytes
  accessRoleID :: string
  bootstrapIDs :: "string list"
  adminRoleID :: string
  requireACL :: bool

type_synonym 'a answer = "(nat \<times> string) + 'a"

definition writeErr :: "nat \<Rightarrow> string \<Rightarrow> 'a answer hm" where
  "writeErr status code = ret (Inl (status, code))"

definition respond :: "'a \<Rightarrow> 'a answer hm" where
  "respond x = ret (Inr x)"

text \<open>A call of the store whose error is answered at once.\<close>

definition storing :: "'a db \<Rightarrow> (error \<Rightarrow> 'b answer hm) \<Rightarrow> ('a \<Rightarrow> 'b answer hm) \<Rightarrow> 'b answer hm" where
  "storing m handle k = attempt (lift m) (\<lambda>r. case r of Inl e \<Rightarrow> handle e | Inr x \<Rightarrow> k x)"

definition internal :: "error \<Rightarrow> 'a answer hm" where
  "internal e = writeErr 500 ''internal''"

section \<open>Access levels\<close>

text \<open>The level is \<open>''admin''\<close>, \<open>''readonly''\<close> or empty; a failing group query counts as no group.\<close>

definition webAccessLevel :: "Server \<Rightarrow> User \<Rightarrow> string db" where
  "webAccessLevel srv u =
     (if DiscordID u \<in> set (bootstrapIDs srv) then ret ''admin''
      else if adminRoleID srv \<noteq> [] \<and> adminRoleID srv \<in> set (RoleIDs u) then ret ''admin''
      else attempt (HighestWebRoleForUser u) (\<lambda>r.
        let groupLevel = (case r of Inl _ \<Rightarrow> [] | Inr g \<Rightarrow> g) in
        if groupLevel = ''admin'' then ret ''admin''
        else if groupLevel = ''readonly'' then ret ''readonly''
        else if accessRoleID srv \<noteq> [] \<and> accessRoleID srv \<noteq> adminRoleID srv \<and> accessRoleID srv \<in> set (RoleIDs u)
          then ret ''readonly''
        else ret []))"

definition canAccessWeb :: "Server \<Rightarrow> User \<Rightarrow> bool db" where
  "canAccessWeb srv u = andThen (webAccessLevel srv u) (\<lambda>l. ret (l \<noteq> []))"

definition isWebAdmin :: "Server \<Rightarrow> User \<Rightarrow> bool db" where
  "isWebAdmin srv u = andThen (webAccessLevel srv u) (\<lambda>l. ret (l = ''admin''))"

section \<open>Gates\<close>

text \<open>
  \<open>requireAuth\<close> hands the handler the user and his level, which Go puts into the request's context;
  \<open>unmarshal\<close> and \<open>cookie\<close> as in \<open>WebSession\<close>.
\<close>

definition requireAuth ::
  "Server \<Rightarrow> (bytes \<Rightarrow> error + Session) \<Rightarrow> string option \<Rightarrow> (User \<Rightarrow> string \<Rightarrow> 'a answer hm) \<Rightarrow> 'a answer hm"
where
  "requireAuth srv unmarshal cookie next =
     andThen (gets (\<lambda>h. clock (db h))) (\<lambda>now.
     case sessionFromRequest (sessionKey srv) unmarshal now cookie of Inl _ \<Rightarrow> writeErr 401 ''unauthorized''
     | Inr sess \<Rightarrow>
       storing (UserByID (SessUserID sess)) (\<lambda>_. writeErr 401 ''unauthorized'') (\<lambda>u.
       if AccessRevoked u then writeErr 403 ''access_revoked'' else
       storing (webAccessLevel srv u) internal (\<lambda>level.
       if level = [] then writeErr 403 ''forbidden'' else next u level)))"

definition requireAdmin ::
  "Server \<Rightarrow> (bytes \<Rightarrow> error + Session) \<Rightarrow> string option \<Rightarrow> (User \<Rightarrow> string \<Rightarrow> 'a answer hm) \<Rightarrow> 'a answer hm"
where
  "requireAdmin srv unmarshal cookie next =
     requireAuth srv unmarshal cookie (\<lambda>u level.
       storing (isWebAdmin srv u) internal (\<lambda>admin.
       if \<not> admin then writeErr 403 ''readonly'' else next u level))"

text \<open>\<open>rejectIfReadonly\<close>: the rest of the handler runs for admins only.\<close>

definition unless_readonly :: "Server \<Rightarrow> User \<Rightarrow> string \<Rightarrow> 'a answer hm \<Rightarrow> 'a answer hm" where
  "unless_readonly srv u level rest =
     (if level = ''admin'' then rest
      else storing (isWebAdmin srv u) internal (\<lambda>admin. if admin then rest else writeErr 403 ''readonly''))"

text \<open>\<open>rejectRestrictedAccountManage\<close>: the rest runs when the guard of private shares lets it.\<close>

definition unless_managed ::
  "Server \<Rightarrow> int \<Rightarrow> User \<Rightarrow> bool \<Rightarrow> bool \<Rightarrow> 'a answer hm \<Rightarrow> 'a answer hm"
where
  "unless_managed srv accountID u setAccess setPassword rest =
     storing (CheckRestrictedAccountManage (srv_store srv) accountID (ID u) setAccess setPassword)
       (\<lambda>e. if e = ErrShareAccessManagedInGUI then writeErr 403 ''share_access_managed_in_gui''
            else if e = ErrSharePasswordManagedInGUI then writeErr 403 ''share_password_managed_in_gui''
            else if e = ErrShareNotOwner then writeErr 403 ''share_not_owner''
            else writeErr 404 ''not_found'') (\<lambda>_. rest)"

section \<open>What a user sees\<close>

text \<open>Metadata that cannot be loaded is left out.\<close>

definition or_skip :: "'a db \<Rightarrow> 'a option db" where
  "or_skip m = attempt m (\<lambda>r. ret (case r of Inl _ \<Rightarrow> None | Inr x \<Rightarrow> Some x))"

definition webVisibleAccounts :: "Server \<Rightarrow> User \<Rightarrow> EQAccountMeta list db" where
  "webVisibleAccounts srv u =
     andThen (ListEQAccountMetas (srv_store srv) None True) (\<lambda>all.
     andThen (AllowedAccountIDs u) (\<lambda>allowed.
     andThen (isWebAdmin srv u) (\<lambda>admin.
     collect_each (\<lambda>a. let hasAccess = MetaID a \<in> set allowed in
       if Restricted a then
         if \<not> hasAccess then ret None else or_skip (LoadEQAccountMetaForViewer (srv_store srv) (MetaID a) u)
       else if hasAccess \<or> admin then ret (Some a) else ret None) all)))"

definition webVisibleShares :: "Server \<Rightarrow> User \<Rightarrow> EQAccountMeta list db" where
  "webVisibleShares srv u =
     andThen (ListEQAccountMetas (srv_store srv) None True) (\<lambda>all.
     andThen (isWebAdmin srv u) (\<lambda>admin.
     collect_each (\<lambda>a.
       if \<not> Restricted a then ret None
       else if OwnerUserID a = ID u then or_skip (LoadEQAccountMetaForViewer (srv_store srv) (MetaID a) u)
       else if admin then or_skip (LoadEQAccountMeta (srv_store srv) (MetaID a))
       else ret None) all))"

record WebState =
  WsAccounts :: "EQAccountMeta list"
  WsShares :: "EQAccountMeta list"
  WsOnline :: "OnlineEntry list"
  WsSessions :: "PresenceHint list"
  WsConnections :: "ConnectionInfo list"
  WsUsers :: "AdminUser list"
  WsRoles :: "(string \<times> string) list"
  WsGroups :: "GroupDetail list"

definition buildState :: "Server \<Rightarrow> User \<Rightarrow> WebState hm" where
  "buildState srv u =
     andThen (lift (isWebAdmin srv u)) (\<lambda>isAdmin.
     andThen (lift (webVisibleAccounts srv u)) (\<lambda>accts.
     andThen (lift (webVisibleShares srv u)) (\<lambda>shs.
     let visible = MetaID ` set (accts @ shs) in
     andThen online_entries (\<lambda>on.
     andThen (tracker Snapshot) (\<lambda>snap.
     let online = filter (\<lambda>e. isAdmin \<or> OnlineAccountID e \<in> visible) on;
         sess = map presence_hint (filter (\<lambda>e. isAdmin \<or> AccountID e \<in> visible) snap) in
     if isAdmin then
       andThen (lift AdminState_of) (\<lambda>adm.
       andThen (lift ListGroupDetails) (\<lambda>gs.
       andThen (gets (Connections (srv_hub srv))) (\<lambda>con.
       ret \<lparr>WsAccounts = accts, WsShares = shs, WsOnline = online, WsSessions = sess, WsConnections = con,
         WsUsers = AdminUsers adm, WsRoles = AdminRoles adm, WsGroups = gs\<rparr>)))
     else ret \<lparr>WsAccounts = accts, WsShares = shs, WsOnline = online, WsSessions = sess, WsConnections = [],
         WsUsers = [], WsRoles = [], WsGroups = []\<rparr>)))))"

end
