(* ===== verification/WebCsv.thy ===== *)
theory WebCsv
  imports WebAccess StoreSteps
begin

text \<open>
  internal/web/csv.go: import and export of accounts as CSV rows. The text of the file is made into
  records and back by encoding/csv: a file is its records here, \<open>Inl e\<close> one that does not parse. The
  functions of package strings are those on ASCII text.
\<close>

section \<open>Fields with several values\<close>

text \<open>\<open>strings.FieldsFunc\<close>: the non-empty runs between separators.\<close>

fun split_by :: "('a \<Rightarrow> bool) \<Rightarrow> 'a list \<Rightarrow> 'a list list" where
  "split_by P [] = [[]]"
| "split_by P (x # xs) =
     (if P x then [] # split_by P xs
      else case split_by P xs of [] \<Rightarrow> [[x]] | y # ys \<Rightarrow> (x # y) # ys)"

definition FieldsFunc :: "('a \<Rightarrow> bool) \<Rightarrow> 'a list \<Rightarrow> 'a list list" where
  "FieldsFunc P s = filter (\<lambda>f. f \<noteq> []) (split_by P s)"

text \<open>The loop that trims the parts and keeps the first of those that differ in case only.\<close>

fun keep_first :: "string set \<Rightarrow> string list \<Rightarrow> string list" where
  "keep_first seen [] = []"
| "keep_first seen (p # ps) =
     (let p = TrimSpace p; key = ToLower p in
      if p = [] \<or> key \<in> seen then keep_first seen ps else p # keep_first (insert key seen) ps)"

definition splitMulti :: "string \<Rightarrow> string list" where
  "splitMulti s =
     (let s = TrimSpace s in
      if s = [] then []
      else let sep = (if CHR ''|'' \<in> set s \<and> CHR '','' \<notin> set s then CHR ''|'' else CHR '','')
        in keep_first {} (FieldsFunc (\<lambda>r. r = sep \<or> r = CHR '';'') s))"

definition joinMulti :: "string list \<Rightarrow> string" where
  "joinMulti parts = join_on CHR '','' parts"

section \<open>Rows\<close>

record SSOCSVRow =
  CsvUsername :: string
  CsvPassword :: string
  CsvRole :: string
  CsvAliases :: "string list"
  CsvTags :: "string list"
  CsvCharacters :: "string list"
  CsvLine :: int

text \<open>The \<open>i\<close>-th column of a row, which is padded to six.\<close>

definition column :: "string list \<Rightarrow> nat \<Rightarrow> string" where
  "column row i = (if i < length row then row ! i else [])"

definition csv_row :: "int \<Rightarrow> string list \<Rightarrow> SSOCSVRow option" where
  "csv_row line row =
     (if row = [] then None
      else if line = 1 \<and> ToLower (TrimSpace (column row 0)) \<in> {''username'', ''account'', ''name''} then None
      else let username = TrimSpace (column row 0) in
        if username = [] then None
        else Some \<lparr>CsvUsername = username, CsvPassword = TrimSpace (column row 1), CsvRole = TrimSpace (column row 2),
          CsvAliases = splitMulti (column row 3), CsvTags = splitMulti (column row 4),
          CsvCharacters = splitMulti (column row 5), CsvLine = line\<rparr>)"

fun csv_rows :: "int \<Rightarrow> string list list \<Rightarrow> SSOCSVRow list" where
  "csv_rows line [] = []"
| "csv_rows line (row # rows) =
     (case csv_row line row of None \<Rightarrow> csv_rows (line + 1) rows | Some r \<Rightarrow> r # csv_rows (line + 1) rows)"

definition parseSSOAccountsCSV :: "error + string list list \<Rightarrow> error + SSOCSVRow list" where
  "parseSSOAccountsCSV file =
     (case file of Inl e \<Rightarrow> Inl (Err (''csv: '' @ err_text e))
      | Inr rows \<Rightarrow> let out = csv_rows 1 rows in
          if out = [] then Inl (Err ''no account rows found'') else Inr out)"

section \<open>Roles\<close>

definition isDiscordSnowflake :: "string \<Rightarrow> bool" where
  "isDiscordSnowflake s \<longleftrightarrow> 17 \<le> length s \<and> length s \<le> 20 \<and> list_all is_digit s"

definition resolveRoleID :: "string \<Rightarrow> (string \<times> string) list \<Rightarrow> error + string" where
  "resolveRoleID role roles =
     (let role = TrimSpace role in
      if role = [] then Inr []
      else case find (\<lambda>r. fst r = role) roles of Some r \<Rightarrow> Inr (fst r)
      | None \<Rightarrow> (case find (\<lambda>r. EqualFold (snd r) role) roles of Some r \<Rightarrow> Inr (fst r)
        | None \<Rightarrow> if isDiscordSnowflake role then Inr role
            else Inl (Err (''unknown role '' @ quoted role @ '' (use Discord role id or cached name)''))))"

definition roleLabel :: "string \<Rightarrow> (string \<times> string) list \<Rightarrow> string" where
  "roleLabel roleID roles =
     (let roleID = TrimSpace roleID in
      if roleID = [] then []
      else case find (\<lambda>r. fst r = roleID) roles of None \<Rightarrow> roleID
      | Some r \<Rightarrow> let n = TrimSpace (snd r) in if n \<noteq> [] then n else roleID)"

section \<open>Import\<close>

record SSOCSVImportResult =
  Added :: int
  Updated :: int
  Errors :: "string list"

definition note_error :: "string \<Rightarrow> SSOCSVImportResult \<Rightarrow> SSOCSVImportResult" where
  "note_error e res = res\<lparr>Errors := Errors res @ [e]\<rparr>"

definition at_row :: "SSOCSVRow \<Rightarrow> string \<Rightarrow> string" where
  "at_row row e = ''line '' @ itoa (CsvLine row) @ '' ('' @ CsvUsername row @ ''): '' @ e"

text \<open>A loop that threads a result, and a step whose error is only noted.\<close>

fun fold_each :: "('x \<Rightarrow> 'r \<Rightarrow> ('s, 'r) action) \<Rightarrow> 'x list \<Rightarrow> 'r \<Rightarrow> ('s, 'r) action" where
  "fold_each f [] r = ret r"
| "fold_each f (x # xs) r = andThen (f x r) (fold_each f xs)"

definition noting :: "unit db \<Rightarrow> (error \<Rightarrow> string) \<Rightarrow> SSOCSVImportResult \<Rightarrow> SSOCSVImportResult db" where
  "noting m text res = attempt m (\<lambda>r. ret (case r of Inl e \<Rightarrow> note_error (text e) res | Inr _ \<Rightarrow> res))"

text \<open>What is done to the account of a row, once it exists.\<close>

definition import_details :: "SSOCSVRow \<Rightarrow> int \<Rightarrow> string \<Rightarrow> SSOCSVImportResult \<Rightarrow> SSOCSVImportResult db" where
  "import_details row i roleID res =
     andThen (noting (SetEQRequiredRole i roleID) (\<lambda>e. at_row row (''role failed: '' @ err_text e)) res) (\<lambda>res.
     andThen (fold_each (\<lambda>al res. if EqualFold al (CsvUsername row) then ret res
        else noting (AddAlias al i) (\<lambda>e. at_row row (''alias '' @ quoted al @ '': '' @ err_text e)) res) (CsvAliases row) res) (\<lambda>res.
     andThen (fold_each (\<lambda>tag res.
        noting (AddTag tag i) (\<lambda>e. at_row row (''tag '' @ quoted tag @ '': '' @ err_text e)) res) (CsvTags row) res) (\<lambda>res.
     fold_each (\<lambda>ch res.
        noting (AddCharacter ch i) (\<lambda>e. at_row row (''character '' @ quoted ch @ '': '' @ err_text e)) res) (CsvCharacters row) res)))"

definition import_row :: "Store \<Rightarrow> (string \<times> string) list \<Rightarrow> SSOCSVRow \<Rightarrow> SSOCSVImportResult \<Rightarrow> SSOCSVImportResult db" where
  "import_row st roles row res =
     (let failed = (\<lambda>e. ret (note_error (at_row row e) res)) in
      case resolveRoleID (CsvRole row) roles of Inl e \<Rightarrow> failed (err_text e) | Inr roleID \<Rightarrow>
      attempt (FindEQAccountIDByUsername st (CsvUsername row)) (\<lambda>r. case r of Inl e \<Rightarrow> failed (err_text e)
      | Inr None \<Rightarrow>
          if CsvPassword row = [] then failed ''password required for new account''
          else attempt (AddEQAccount st (CsvUsername row) (CsvPassword row) []) (\<lambda>r. case r of
            Inl e \<Rightarrow> failed (''create failed: '' @ err_text e)
          | Inr i \<Rightarrow> import_details row i roleID (res\<lparr>Added := Added res + 1\<rparr>))
      | Inr (Some i) \<Rightarrow>
          attempt (if CsvPassword row \<noteq> [] then SetEQPassword st i (CsvPassword row) else ret ()) (\<lambda>r. case r of
            Inl e \<Rightarrow> failed (''password update failed: '' @ err_text e)
          | Inr _ \<Rightarrow> import_details row i roleID (res\<lparr>Updated := Updated res + 1\<rparr>))))"

definition importSSOAccountsCSV :: "Store \<Rightarrow> User \<Rightarrow> error + string list list \<Rightarrow> SSOCSVImportResult db" where
  "importSSOAccountsCSV st actor file =
     (case parseSSOAccountsCSV file of Inl e \<Rightarrow> fail e | Inr rows \<Rightarrow>
      andThen ListDiscordRoles (\<lambda>roles.
      andThen (fold_each (import_row st roles) rows \<lparr>Added = 0, Updated = 0, Errors = []\<rparr>) (\<lambda>res.
      andThen (Audit st (ID actor) ''web_import_accounts'' (''added='' @ itoa (Added res) @ '' updated='' @ itoa (Updated res)
        @ '' errors='' @ itoa (int (length (Errors res))))) (\<lambda>_.
      ret res))))"

section \<open>Export\<close>

definition csv_header :: "string list" where
  "csv_header = [''username'', ''password'', ''role'', ''aliases'', ''tags'', ''characters'']"

definition export_row :: "(string \<times> string) list \<Rightarrow> EQAccountMeta \<Rightarrow> string \<Rightarrow> string \<Rightarrow> string list" where
  "export_row roles m username password =
     [username, password,
      (case RequiredRoleIDs m of r # _ \<Rightarrow> roleLabel r roles
       | [] \<Rightarrow> if RequiredRoleID m \<noteq> [] then roleLabel (RequiredRoleID m) roles else []),
      joinMulti (filter (\<lambda>a. \<not> (a = [] \<or> EqualFold a username)) (map TrimSpace (Aliases m))),
      joinMulti (Tags m), joinMulti (Characters m)]"

text \<open>
  The records written. Private shares are left out, and accounts that do not decrypt when passwords
  are asked for.
\<close>

definition exportSSOAccountsCSV :: "Store \<Rightarrow> bool \<Rightarrow> string list list db" where
  "exportSSOAccountsCSV st includePasswords =
     andThen (ListEQAccountMetas st None True) (\<lambda>metas.
     andThen ListDiscordRoles (\<lambda>roles.
     andThen (collect_each (\<lambda>m.
        if Restricted m then ret None
        else if includePasswords then attempt (DecryptCredentialsAny st (MetaID m)) (\<lambda>r. case r of
            Inl _ \<Rightarrow> ret None | Inr (u, p) \<Rightarrow> ret (Some (export_row roles m u p)))
        else ret (Some (export_row roles m (Username m) []))) metas) (\<lambda>rows.
     ret (csv_header # rows))))"

section \<open>Fields with several values\<close>

definition clean_list :: "string list \<Rightarrow> bool" where
  "clean_list xs \<longleftrightarrow> distinct (map ToLower xs)
     \<and> (\<forall>x \<in> set xs. x \<noteq> [] \<and> TrimSpace x = x \<and> CHR '','' \<notin> set x \<and> CHR '';'' \<notin> set x)"

lemma set_TrimSpace: "set (TrimSpace s) \<subseteq> set s"
  unfolding TrimSpace_def by (metis set_dropWhileD set_rev subsetI)

lemma TrimSpace_ends: "TrimSpace x = x \<Longrightarrow> x \<noteq> [] \<Longrightarrow> \<not> is_space (hd x) \<and> \<not> is_space (last x)"
  using TrimSpace_hd [of x] TrimSpace_last [of x] by simp

lemma TrimSpace_stable: "s \<noteq> [] \<Longrightarrow> \<not> is_space (hd s) \<Longrightarrow> \<not> is_space (last s) \<Longrightarrow> TrimSpace s = s"
  unfolding TrimSpace_def by (rule dropWhile_rev_stable)

lemma split_by_free: "\<forall>x \<in> set xs. \<not> P x \<Longrightarrow> split_by P xs = [xs]"
  by (induction xs) auto

lemma split_by_field: "\<forall>x \<in> set xs. \<not> P x \<Longrightarrow> P c \<Longrightarrow> split_by P (xs @ c # ys) = xs # split_by P ys"
  by (induction xs) auto

lemma split_by_join: "xs \<noteq> [] \<Longrightarrow> P c \<Longrightarrow> \<forall>x \<in> set xs. \<forall>y \<in> set x. \<not> P y \<Longrightarrow> split_by P (join_on c xs) = xs"
  by (induction c xs rule: join_on.induct) (simp_all add: split_by_free split_by_field)

lemma split_by_parts: "x \<in> set (split_by P s) \<Longrightarrow> y \<in> set x \<Longrightarrow> y \<in> set s \<and> \<not> P y"
  by (induction s arbitrary: x) (fastforce split: if_splits list.splits)+

lemma join_on_ends: "xs \<noteq> [] \<Longrightarrow> \<forall>x \<in> set xs. x \<noteq> [] \<Longrightarrow>
  join_on c xs \<noteq> [] \<and> hd (join_on c xs) = hd (hd xs) \<and> last (join_on c xs) = last (last xs)"
  by (induction c xs rule: join_on.induct) auto

lemma set_join_on: "c \<in> set (join_on c (x # y # xs))"
  by simp

lemma keep_first_clean: "distinct (map ToLower xs) \<Longrightarrow> \<forall>x \<in> set xs. x \<noteq> [] \<and> TrimSpace x = x \<and> ToLower x \<notin> seen \<Longrightarrow> keep_first seen xs = xs"
proof (induction xs arbitrary: seen)
  case (Cons x xs)
  then have "keep_first (insert (ToLower x) seen) xs = xs" by (intro Cons.IH) (auto simp: image_iff)
  with Cons.prems show ?case by simp
qed simp

lemma keep_first_mem: "x \<in> set (keep_first seen ps) \<Longrightarrow> x \<noteq> [] \<and> TrimSpace x = x \<and> ToLower x \<notin> seen \<and> (\<exists>p \<in> set ps. set x \<subseteq> set p)"
proof (induction ps arbitrary: seen)
  case (Cons p ps)
  then show ?case using set_TrimSpace [of p] by (fastforce simp: Let_def split: if_splits)
qed simp

lemma keep_first_distinct: "distinct (map ToLower (keep_first seen ps))"
proof (induction ps arbitrary: seen)
  case (Cons p ps)
  then show ?case by (auto simp: Let_def dest: keep_first_mem)
qed simp

lemma splitMulti_clean: "clean_list (splitMulti s)"
proof -
  let ?t = "TrimSpace s"
  define sep where "sep = (if CHR ''|'' \<in> set ?t \<and> CHR '','' \<notin> set ?t then CHR ''|'' else CHR '','')"
  let ?P = "\<lambda>r. r = sep \<or> r = CHR '';''"
  have m: "splitMulti s = (if ?t = [] then [] else keep_first {} (FieldsFunc ?P ?t))"
    by (simp add: splitMulti_def sep_def Let_def)
  have "x \<noteq> [] \<and> TrimSpace x = x \<and> CHR '','' \<notin> set x \<and> CHR '';'' \<notin> set x" if x: "x \<in> set (keep_first {} (FieldsFunc ?P ?t))" for x
  proof -
    from keep_first_mem [OF x] obtain p where p: "x \<noteq> []" "TrimSpace x = x" "p \<in> set (split_by ?P ?t)" "set x \<subseteq> set p"
      by (auto simp: FieldsFunc_def)
    have part: "y \<in> set ?t \<and> y \<noteq> sep \<and> y \<noteq> CHR '';''" if "y \<in> set p" for y
      using split_by_parts [OF p(3) that] by simp
    have "CHR '','' \<notin> set p" using part by (metis sep_def)
    moreover have "CHR '';'' \<notin> set p" using part by blast
    ultimately show ?thesis using p by blast
  qed
  with keep_first_distinct [of "{}" "FieldsFunc ?P ?t"] show ?thesis
    unfolding m clean_list_def by (cases "?t = []") simp_all
qed

text \<open>
  The columns with several values survive a round trip through the file. What the import reads
  from such a column is always a clean list: names without surrounding blanks, commas and
  semicolons, none twice in any case; and a clean list is read back from the column the export writes
  for it, unless it is a single name with a bar in it.
\<close>

theorem csv_names_roundtrip:
  assumes "clean_list xs" and "\<And>x. xs = [x] \<Longrightarrow> CHR ''|'' \<notin> set x"
  shows "splitMulti (joinMulti xs) = xs \<and> clean_list (splitMulti s)"
proof (cases xs)
  case Nil
  then have "splitMulti (joinMulti xs) = xs" by (simp add: joinMulti_def splitMulti_def)
  then show ?thesis using splitMulti_clean by blast
next
  case (Cons y ys)
  let ?s = "joinMulti xs"
  have ne: "xs \<noteq> []" "\<forall>x \<in> set xs. x \<noteq> []" using assms(1) Cons by (auto simp: clean_list_def)
  note ends = join_on_ends [OF ne, of "CHR '',''"]
  have "y \<in> set xs" "last xs \<in> set xs" using Cons by simp_all
  then have "\<not> is_space (hd y)" "\<not> is_space (last (last xs))"
    using assms(1) TrimSpace_ends unfolding clean_list_def by blast+
  then have t: "TrimSpace ?s = ?s"
    using ends Cons by (intro TrimSpace_stable) (simp_all add: joinMulti_def)
  have sep: "\<not> (CHR ''|'' \<in> set ?s \<and> CHR '','' \<notin> set ?s)"
  proof (cases ys)
    case Nil
    with assms(2) Cons show ?thesis by (simp add: joinMulti_def)
  next
    case (Cons z zs)
    with \<open>xs = y # ys\<close> show ?thesis by (simp add: joinMulti_def)
  qed
  have "split_by (\<lambda>r. r = CHR '','' \<or> r = CHR '';'') ?s = xs"
    unfolding joinMulti_def using assms(1) ne(1) by (intro split_by_join) (auto simp: clean_list_def)
  then have "FieldsFunc (\<lambda>r. r = CHR '','' \<or> r = CHR '';'') ?s = xs"
    using ne(2) by (simp add: FieldsFunc_def)
  moreover have "keep_first {} xs = xs"
    using assms(1) by (intro keep_first_clean) (auto simp: clean_list_def)
  ultimately have "splitMulti ?s = xs"
    using ends unfolding splitMulti_def Let_def t if_not_P [OF sep] by (simp only: joinMulti_def if_False)
  then show ?thesis using splitMulti_clean by blast
qed

theorem csv_names_roundtrip_witness:
  "joinMulti [''Bob'', ''An|ne''] = ''Bob,An|ne'' \<and> splitMulti (joinMulti [''Bob'', ''An|ne'']) = [''Bob'', ''An|ne'']"
proof -
  have "clean_list [''Bob'', ''An|ne'']" by code_simp
  from csv_names_roundtrip [OF this, of "[]"] show ?thesis by (simp add: joinMulti_def)
qed

section \<open>What an import leaves alone\<close>

text \<open>The rest of what hangs on an account: its tags and its characters.\<close>

definition labels :: "int \<Rightarrow> world \<Rightarrow> name_row list \<times> name_row list" where
  "labels i s = (filter (\<lambda>n. n_account n = i) (tags s), filter (\<lambda>n. n_account n = i) (characters s))"

definition spared :: "int \<Rightarrow> world \<Rightarrow> world \<Rightarrow> bool" where
  "spared i s0 s \<longleftrightarrow> untouched i (footprint i s0) s \<and> labels i s = labels i s0"

lemma unseen_labels [simp]: "unseen (labels i)"
  by (simp add: unseen_def labels_def)

lemma keeps_spared: "keeps (untouched i (footprint i s0)) m \<Longrightarrow> frame (labels i) m \<Longrightarrow> keeps (spared i s0) m"
  by (auto simp: spared_def keeps_def frame_def)

lemma labels_update_account: "frame (labels i) (update_account j con refs f)"
  unfolding update_account_def by (rule frame_stmt) (auto simp: frame_def labels_def)

lemma labels_framed:
  "frame (labels i) (SetEQPassword st j p)" "frame (labels i) (ReplaceAccountRoles j rs)" "frame (labels i) (AddAlias n j)"
  "frame (labels i) (AddEQAccount st u p c)" "frame (labels i) (AuditAccount st v a n d)"
proof -
  have "frame (labels i) (insert_account uc b pc nc)" for uc b pc nc
    unfolding insert_account_def by (rule frame_stmt) (auto simp: frame_def labels_def Let_def)
  then show "frame (labels i) (AddEQAccount st u p c)"
    unfolding AddEQAccount_def SealString_def Seal_def Let_def by (intro frame_rules unseen_labels)
  show "frame (labels i) (AuditAccount st v a n d)"
    by (rule frame_AuditAccount) (simp_all add: labels_def)
qed (unfold SetEQPassword_def SealString_def Seal_def ReplaceAccountRoles_def AddAlias_def Let_def,
     (intro frame_rules unseen_labels labels_update_account; simp add: labels_def)+)

lemma labels_added: "j \<noteq> i \<Longrightarrow> frame (labels i) (AddTag n j)" "j \<noteq> i \<Longrightarrow> frame (labels i) (AddCharacter n j)"
proof -
  assume j: "j \<noteq> i"
  have t: "frame (labels i) (exec_insert tags tags_update viol (\<lambda>_. \<lparr>n_name = n, n_account = j\<rparr>))" for viol n
    unfolding exec_insert_def using j by (intro frame_stmt unseen_labels) (auto simp: frame_def labels_def split: option.splits)
  have c: "frame (labels i) (exec_insert characters characters_update viol (\<lambda>_. \<lparr>n_name = n, n_account = j\<rparr>))" for viol n
    unfolding exec_insert_def using j by (intro frame_stmt unseen_labels) (auto simp: frame_def labels_def split: option.splits)
  show "frame (labels i) (AddTag n j)" "frame (labels i) (AddCharacter n j)"
    unfolding AddTag_def AddCharacter_def Let_def by (intro frame_rules unseen_labels t c)+
qed

lemma untouched_added: "j \<noteq> i \<Longrightarrow> keeps (untouched i v) (AddTag n j)" "j \<noteq> i \<Longrightarrow> keeps (untouched i v) (AddCharacter n j)"
proof -
  have t: "keeps (untouched i v) (exec_insert tags tags_update viol row)" for viol row
    by (rule keeps_exec_insert) (auto intro: untouchedI simp: footprint_simps)
  have c: "keeps (untouched i v) (exec_insert characters characters_update viol row)" for viol row
    by (rule keeps_exec_insert) (auto intro: untouchedI simp: footprint_simps)
  show "keeps (untouched i v) (AddTag n j)" "keeps (untouched i v) (AddCharacter n j)"
    unfolding AddTag_def AddCharacter_def Let_def by (intro keeps_rules quiet_untouched t c)+
qed

lemma untouched_AuditAccount: "keeps (untouched i f) (AuditAccount st v a n d)"
proof -
  have "frame (\<lambda>s. (next_account s, footprint i s)) (AuditAccount st v a n d)"
    by (rule frame_AuditAccount) (simp_all add: footprint_simps unseen_def)
  from frame_keeps [OF this, of "\<lambda>(n, g). i < n \<and> g = f"] show ?thesis
    by (simp add: keeps_def untouched_def)
qed

lemma reads_spared: "reads m \<Longrightarrow> keeps (spared i s0) m"
  by (intro keeps_spared untouched_reads) (simp_all add: reads_frame)

lemma keeps_fold_each [keeps_rules]: "(\<And>x r. keeps I (f x r)) \<Longrightarrow> keeps I (fold_each f xs r)"
  by (induction xs arbitrary: r) (auto intro: keeps_rules)

lemma keeps_noting [keeps_rules]: "keeps I m \<Longrightarrow> keeps I (noting m t r)"
  unfolding noting_def by (intro keeps_rules)

lemma spared_operations:
  assumes "j \<noteq> i"
  shows "keeps (spared i s0) (SetEQPassword st j p)" "keeps (spared i s0) (ReplaceAccountRoles j rs)" "keeps (spared i s0) (AddAlias n j)"
    "keeps (spared i s0) (AddTag n j)" "keeps (spared i s0) (AddCharacter n j)"
  using assms by (auto intro!: keeps_spared untouched_operations labels_framed labels_added untouched_added)

lemma spared_import_details: "j \<noteq> i \<Longrightarrow> keeps (spared i s0) (import_details row j role res)"
  unfolding import_details_def SetEQRequiredRole_def Let_def by (intro keeps_rules spared_operations)

lemma Find_other:
  assumes "spared i s0 s" and "filter (\<lambda>a. a_id a = i) (accounts s0) = [a]"
    and "BlindIndex (StoreKey st) (ToLower (TrimSpace u)) \<noteq> a_username_blind a"
    and "FindEQAccountIDByUsername st u s = (Inr (Some j), s')"
  shows "j \<noteq> i"
proof
  assume ji: "j = i"
  from assms(4) obtain fs rest where "map a_id (filter (\<lambda>a. a_username_blind a = BlindIndex (StoreKey st) (ToLower (TrimSpace u))) (accounts (s\<lparr>faults := fs\<rparr>))) = j # rest"
    by (auto simp: FindEQAccountIDByUsername_def Let_def attempt_def split: if_splits prod.splits sum.splits dest!: query_row_InrD)
  then have "j \<in> set (map a_id (filter (\<lambda>a. a_username_blind a = BlindIndex (StoreKey st) (ToLower (TrimSpace u))) (accounts s)))"
    by simp
  then obtain b where b: "b \<in> set (accounts s)" "a_username_blind b = BlindIndex (StoreKey st) (ToLower (TrimSpace u))" "a_id b = j"
    by auto
  with ji have "b \<in> set (filter (\<lambda>a. a_id a = i) (accounts s))" by simp
  also have "filter (\<lambda>a. a_id a = i) (accounts s) = [a]"
    using assms(1,2) by (simp add: spared_def untouched_def footprint_def)
  finally show False using b(2) assms(3) by simp
qed

lemma spared_import_row:
  assumes a: "filter (\<lambda>a. a_id a = i) (accounts s0) = [a]"
    and u: "BlindIndex (StoreKey st) (ToLower (TrimSpace (CsvUsername row))) \<noteq> a_username_blind a"
  shows "keeps (spared i s0) (import_row st roles row res)"
proof (rule keepsI)
  fix s assume s: "spared i s0 s"
  obtain r s1 where f: "FindEQAccountIDByUsername st (CsvUsername row) s = (r, s1)" by (cases "FindEQAccountIDByUsername st (CsvUsername row) s")
  have s1: "spared i s0 s1" by (rule keeps_result [OF reads_spared [OF reads_FindEQAccountIDByUsername] s f])
  show "spared i s0 (snd (import_row st roles row res s))"
  proof (cases "resolveRoleID (CsvRole row) roles")
    case (Inl e)
    with s show ?thesis by (simp add: import_row_def Let_def)
  next
    case role: (Inr role)
    show ?thesis
    proof (cases r)
      case (Inl e)
      with s1 role f show ?thesis by (simp add: import_row_def Let_def attempt_def)
    next
      case found: (Inr x)
      show ?thesis
      proof (cases x)
        case None
        obtain r2 s2 where add: "AddEQAccount st (CsvUsername row) (CsvPassword row) [] s1 = (r2, s2)"
          by (cases "AddEQAccount st (CsvUsername row) (CsvPassword row) [] s1")
        have s2: "spared i s0 s2"
          by (rule keeps_result [OF keeps_spared [OF untouched_AddEQAccount labels_framed(4)] s1 add])
        have "spared i s0 (snd (import_details row j role res' s2))" if "r2 = Inr j" for j res'
        proof -
          from that add have "j = next_account s1" by (auto elim: AddEQAccount_InrD)
          with s1 have "j \<noteq> i" by (simp add: spared_def untouched_def)
          from keepsD [OF spared_import_details [OF this] s2] show ?thesis .
        qed
        with s1 s2 None role f found add show ?thesis
          by (simp add: import_row_def Let_def attempt_def split: sum.splits)
      next
        case (Some j)
        have j: "j \<noteq> i" using Find_other [OF s a u] f found Some by blast
        have "keeps (spared i s0) (attempt (if CsvPassword row \<noteq> [] then SetEQPassword st j (CsvPassword row) else ret ()) (\<lambda>r. case r of
            Inl e \<Rightarrow> ret (note_error (at_row row (''password update failed: '' @ err_text e)) res)
          | Inr _ \<Rightarrow> import_details row j role (res\<lparr>Updated := Updated res + 1\<rparr>)))"
          by (intro keeps_rules spared_operations spared_import_details j)
        from keepsD [OF this s1] show ?thesis
          by (simp only: import_row_def Let_def role sum.case attempt_def [of "FindEQAccountIDByUsername st (CsvUsername row)"]
              f prod.case found Some option.case)
      qed
    qed
  qed
qed

text \<open>
  C28: an import changes the accounts it names and no other. Whatever the file holds and wherever a
  statement fails, an account whose user name occurs in no row of the file keeps its row (credentials,
  disabled and restriction flags, owner), its grants, its recipients, its aliases, tags and characters.
\<close>

theorem import_touches_only_named:
  assumes "wf_world s" and "a \<in> set (accounts s)" and "parseSSOAccountsCSV file = Inr rows"
    and "\<forall>row \<in> set rows. BlindIndex (StoreKey st) (ToLower (TrimSpace (CsvUsername row))) \<noteq> a_username_blind a"
    and "importSSOAccountsCSV st actor file s = (r, s')"
  shows "footprint (a_id a) s' = footprint (a_id a) s \<and> labels (a_id a) s' = labels (a_id a) s"
proof -
  have a: "filter (\<lambda>b. a_id b = a_id a) (accounts s) = [a]"
    using assms(1,2) by (intro filter_unique_key) (simp_all add: wf_world_def wf_accounts_def)
  have s: "spared (a_id a) s s"
    using assms(1,2) by (simp add: spared_def untouched_def wf_world_def wf_accounts_def)
  have "keeps (spared (a_id a) s) (fold_each (import_row st roles) xs res)" if "set xs \<subseteq> set rows" for roles xs res
    using that
  proof (induction xs arbitrary: res)
    case (Cons x xs)
    with assms(4) show ?case by (auto intro!: keeps_andThen spared_import_row [OF a])
  qed (simp add: keeps_ret)
  moreover have audit: "keeps (spared (a_id a) s) (Audit st v n d)" for v n d
    unfolding Audit_def by (intro keeps_spared untouched_AuditAccount labels_framed)
  ultimately have "keeps (spared (a_id a) s) (importSSOAccountsCSV st actor file)"
    unfolding importSSOAccountsCSV_def assms(3) sum.case
    by (intro keeps_andThen keeps_ret audit reads_spared [OF reads_activity(6)]) blast
  from keeps_result [OF this s assms(5)] show ?thesis by (simp add: spared_def untouched_def)
qed

theorem import_touches_only_named_witness:
  "let run = importSSOAccountsCSV sample_store sample_user (Inr [[''bob'', ''pw'', '''', ''tank'', ''alt'']]) shared_world in
     (\<exists>s'. snd run = s' \<and> footprint 2 s' = footprint 2 shared_world \<and> labels 2 s' = labels 2 shared_world)"
proof -
  let ?file = "Inr [[''bob'', ''pw'', '''', ''tank'', ''alt'']]"
  let ?row = "\<lparr>CsvUsername = ''bob'', CsvPassword = ''pw'', CsvRole = [], CsvAliases = [''tank''], CsvTags = [''alt''], CsvCharacters = [], CsvLine = 1\<rparr>"
  have p: "parseSSOAccountsCSV ?file = Inr [?row]" by code_simp
  let ?a = "accounts shared_world ! 1"
  have a: "?a \<in> set (accounts shared_world)" "a_id ?a = 2" "a_username_blind ?a = ''b2''"
    by (simp_all add: shared_world_def)
  have "BlindIndex k n \<noteq> ''b2''" for k n
    using length_BlindIndex [of k n] by auto
  then have b: "\<forall>row \<in> set [?row]. BlindIndex (StoreKey sample_store) (ToLower (TrimSpace (CsvUsername row))) \<noteq> a_username_blind ?a"
    unfolding a(3) by simp
  obtain r s' where run: "importSSOAccountsCSV sample_store sample_user ?file shared_world = (r, s')" by (rule prod.exhaust)
  from import_touches_only_named [OF wf_shared_world a(1) p b run, unfolded a(2)] show ?thesis by (simp only: run Let_def snd_conv) blast
qed

section \<open>What an import reports\<close>

definition n_accounts :: "world \<Rightarrow> int" where
  "n_accounts s = int (length (accounts s))"

text \<open>A step that only adds to the errors of a result, and no account to the world.\<close>

definition minor :: "SSOCSVImportResult \<Rightarrow> SSOCSVImportResult db \<Rightarrow> bool" where
  "minor res m \<longleftrightarrow> (\<forall>s. \<exists>res' s'. m s = (Inr res', s') \<and> n_accounts s' = n_accounts s
     \<and> Added res' = Added res \<and> Updated res' = Updated res \<and> length (Errors res) \<le> length (Errors res'))"

lemma minor_ret: "minor res (ret res)"
  by (simp add: minor_def)

lemma minor_noting: "frame n_accounts m \<Longrightarrow> minor res (noting m t res)"
  unfolding minor_def
proof
  fix s assume m: "frame n_accounts m"
  obtain r s1 where r: "m s = (r, s1)" by (cases "m s")
  from frame_result [OF m r] have "n_accounts s1 = n_accounts s" .
  with r show "\<exists>res' s'. noting m t res s = (Inr res', s') \<and> n_accounts s' = n_accounts s
     \<and> Added res' = Added res \<and> Updated res' = Updated res \<and> length (Errors res) \<le> length (Errors res')"
    by (cases r) (simp_all add: noting_def attempt_def note_error_def)
qed

lemma minor_andThen: "minor res m \<Longrightarrow> (\<And>res'. minor res' (f res')) \<Longrightarrow> minor res (andThen m f)"
  unfolding minor_def
proof
  fix s
  assume m: "\<forall>s. \<exists>res' s'. m s = (Inr res', s') \<and> n_accounts s' = n_accounts s
     \<and> Added res' = Added res \<and> Updated res' = Updated res \<and> length (Errors res) \<le> length (Errors res')"
    and f: "\<And>res'. \<forall>s. \<exists>res'' s'. f res' s = (Inr res'', s') \<and> n_accounts s' = n_accounts s
     \<and> Added res'' = Added res' \<and> Updated res'' = Updated res' \<and> length (Errors res') \<le> length (Errors res'')"
  from m obtain r1 s1 where 1: "m s = (Inr r1, s1)" "n_accounts s1 = n_accounts s" "Added r1 = Added res" "Updated r1 = Updated res"
    "length (Errors res) \<le> length (Errors r1)" by blast
  from f [of r1] obtain r2 s2 where 2: "f r1 s1 = (Inr r2, s2)" "n_accounts s2 = n_accounts s1" "Added r2 = Added r1" "Updated r2 = Updated r1"
    "length (Errors r1) \<le> length (Errors r2)" by blast
  from 1 2 show "\<exists>res' s'. andThen m f s = (Inr res', s') \<and> n_accounts s' = n_accounts s
     \<and> Added res' = Added res \<and> Updated res' = Updated res \<and> length (Errors res) \<le> length (Errors res')"
    by (simp add: andThen_def)
qed

lemma minor_fold_each: "(\<And>x res. minor res (f x res)) \<Longrightarrow> minor res (fold_each f xs res)"
  by (induction xs arbitrary: res) (auto intro: minor_ret minor_andThen)

lemma accounts_framed:
  "frame n_accounts (SetEQPassword st j p)" "frame n_accounts (ReplaceAccountRoles j rs)" "frame n_accounts (AddAlias n j)"
  "frame n_accounts (AddTag n j)" "frame n_accounts (AddCharacter n j)" "frame n_accounts (AuditAccount st v a n d)"
proof -
  have q: "unseen n_accounts" by (simp add: unseen_def n_accounts_def)
  have u: "frame n_accounts (update_account j con refs f)" for j con refs f
    unfolding update_account_def by (intro frame_stmt q) (auto simp: frame_def n_accounts_def)
  show "frame n_accounts (AuditAccount st v a n d)" by (rule frame_AuditAccount) (simp_all add: q, simp add: n_accounts_def)
  show "frame n_accounts (SetEQPassword st j p)" "frame n_accounts (ReplaceAccountRoles j rs)" "frame n_accounts (AddAlias n j)"
    "frame n_accounts (AddTag n j)" "frame n_accounts (AddCharacter n j)"
    unfolding SetEQPassword_def SealString_def Seal_def ReplaceAccountRoles_def AddAlias_def AddTag_def AddCharacter_def Let_def
    by (intro frame_rules q u; simp add: n_accounts_def)+
qed

lemma import_details_minor: "minor res (import_details row i role res)"
  unfolding import_details_def SetEQRequiredRole_def Let_def
  by (intro minor_andThen minor_fold_each minor_noting frame_if accounts_framed)
    (simp add: minor_ret minor_noting accounts_framed)

lemma AuditAccount_ok: "fst (AuditAccount st u i a d s) = Inr ()"
  by (simp add: AuditAccount_def SealString_def Seal_def andThen_def attempt_def ignore_def rand_read_def ret_def split: prod.splits sum.splits)

text \<open>The balance of a row: counted once, or not counted and in error.\<close>

definition balanced :: "SSOCSVImportResult \<Rightarrow> world \<Rightarrow> SSOCSVImportResult \<Rightarrow> world \<Rightarrow> nat \<Rightarrow> bool" where
  "balanced res s res' s' n \<longleftrightarrow> n_accounts s' - Added res' = n_accounts s - Added res
     \<and> Added res' + Updated res' \<le> Added res + Updated res + int n
     \<and> Added res + Updated res + int (length (Errors res)) + int n \<le> Added res' + Updated res' + int (length (Errors res'))"

lemma balanced_trans: "balanced r0 s0 r1 s1 m \<Longrightarrow> balanced r1 s1 r2 s2 n \<Longrightarrow> balanced r0 s0 r2 s2 (m + n)"
  by (simp add: balanced_def)

lemma reads_n_accounts: "reads m \<Longrightarrow> m s = (r, s') \<Longrightarrow> n_accounts s' = n_accounts s"
  by (drule (1) readsD) (auto simp: n_accounts_def)

lemma import_row_balanced: "\<exists>res' s'. import_row st roles row res s = (Inr res', s') \<and> balanced res s res' s' 1"
proof (cases "resolveRoleID (CsvRole row) roles")
  case (Inl e)
  then show ?thesis by (simp add: import_row_def Let_def balanced_def note_error_def)
next
  case role: (Inr role)
  obtain r s1 where f: "FindEQAccountIDByUsername st (CsvUsername row) s = (r, s1)" by (cases "FindEQAccountIDByUsername st (CsvUsername row) s")
  have n1: "n_accounts s1 = n_accounts s" by (rule reads_n_accounts [OF reads_FindEQAccountIDByUsername f])
  have details: "\<exists>res' s'. import_details row i role res1 s2 = (Inr res', s') \<and> balanced res s res' s' 1"
    if "n_accounts s2 - Added res1 = n_accounts s - Added res" "Added res1 + Updated res1 = Added res + Updated res + 1" "Errors res1 = Errors res"
    for i res1 s2
    using import_details_minor [of res1 row i role, unfolded minor_def, rule_format, of s2] that by (auto simp: balanced_def)
  show ?thesis
  proof (cases r)
    case (Inl e)
    with role f n1 show ?thesis by (simp add: import_row_def Let_def attempt_def balanced_def note_error_def)
  next
    case found: (Inr x)
    show ?thesis
    proof (cases x)
      case None
      obtain r2 s2 where add: "AddEQAccount st (CsvUsername row) (CsvPassword row) [] s1 = (r2, s2)"
        by (cases "AddEQAccount st (CsvUsername row) (CsvPassword row) [] s1")
      have "n_accounts s2 = n_accounts s + 1" if "r2 = Inr i" for i
        using add n1 that by (auto elim!: AddEQAccount_InrD simp: n_accounts_def)
      moreover have "n_accounts s2 = n_accounts s" if "r2 = Inl e" for e
      proof -
        have "n_accounts s2 = n_accounts s1"
          using add that unfolding AddEQAccount_def Let_def by (auto simp: SealString_result andThen_def insert_account_def stmt_def n_accounts_def Let_def split: list.splits option.splits if_splits)
        with n1 show ?thesis by simp
      qed
      ultimately show ?thesis
        using role f found None add n1 details by (cases r2) (auto simp: import_row_def Let_def attempt_def balanced_def note_error_def)
    next
      case (Some i)
      define m where "m = (if CsvPassword row \<noteq> [] then SetEQPassword st i (CsvPassword row) else ret ())"
      obtain r2 s2 where pw: "m s1 = (r2, s2)" by (cases "m s1")
      have "frame n_accounts m" by (simp add: m_def accounts_framed frame_ret)
      from frame_result [OF this pw] n1 have n2: "n_accounts s2 = n_accounts s" by simp
      have run: "import_row st roles row res s = (case r2 of Inl e \<Rightarrow> ret (note_error (at_row row (''password update failed: '' @ err_text e)) res)
          | Inr _ \<Rightarrow> import_details row i role (res\<lparr>Updated := Updated res + 1\<rparr>)) s2"
        by (simp only: import_row_def Let_def role sum.case attempt_def f prod.case found Some option.case m_def [symmetric] pw)
      show ?thesis
        using n2 details by (cases r2) (auto simp: run balanced_def note_error_def)
    qed
  qed
qed

lemma import_rows_balanced:
  "\<exists>res' s'. fold_each (import_row st roles) rows res s = (Inr res', s') \<and> balanced res s res' s' (length rows)"
proof (induction rows arbitrary: res s)
  case (Cons row rows)
  obtain r1 s1 where 1: "import_row st roles row res s = (Inr r1, s1)" "balanced res s r1 s1 1"
    using import_row_balanced [of st roles row res s] by blast
  obtain r2 s2 where 2: "fold_each (import_row st roles) rows r1 s1 = (Inr r2, s2)" "balanced r1 s1 r2 s2 (length rows)"
    using Cons.IH [of r1 s1] by blast
  from 1 2 balanced_trans [OF 1(2) 2(2)] show ?case by (simp add: andThen_def)
qed (simp add: balanced_def)

text \<open>
  The report of an import adds up. An import of a file that parses ends with a report unless the
  role names cannot be read; the accounts it says were added are the accounts the vault has grown
  by, and each row is counted as added or as updated, or left an error, and never counted twice.
\<close>

theorem import_report_adds_up:
  assumes "parseSSOAccountsCSV file = Inr rows" and "importSSOAccountsCSV st actor file s = (r, s')"
  shows "(case r of Inr res \<Rightarrow> int (length (accounts s')) = int (length (accounts s)) + Added res
          \<and> Added res + Updated res \<le> int (length rows)
          \<and> int (length rows) \<le> Added res + Updated res + int (length (Errors res))
      | Inl e \<Rightarrow> fst (ListDiscordRoles s) = Inl e)"
proof -
  obtain r1 s1 where roles: "ListDiscordRoles s = (r1, s1)" by (cases "ListDiscordRoles s")
  have n1: "n_accounts s1 = n_accounts s" by (rule reads_n_accounts [OF reads_activity(6) roles])
  let ?r0 = "\<lparr>Added = 0, Updated = 0, Errors = []\<rparr>"
  show ?thesis
  proof (cases r1)
    case (Inl e)
    with assms roles show ?thesis by (auto simp: importSSOAccountsCSV_def andThen_def)
  next
    case (Inr xs)
    obtain res s2 where 2: "fold_each (import_row st xs) rows ?r0 s1 = (Inr res, s2)" "balanced ?r0 s1 res s2 (length rows)"
      using import_rows_balanced [of st xs rows ?r0 s1] by blast
    define d where "d = ''added='' @ itoa (Added res) @ '' updated='' @ itoa (Updated res) @ '' errors='' @ itoa (int (length (Errors res)))"
    have run: "importSSOAccountsCSV st actor file s = andThen (Audit st (ID actor) ''web_import_accounts'' d) (\<lambda>_. ret res) s2"
      by (simp only: importSSOAccountsCSV_def assms(1) sum.case andThen_def roles Inr prod.case 2(1) d_def)
    obtain s3 where 3: "Audit st (ID actor) ''web_import_accounts'' d s2 = (Inr (), s3)"
      using AuditAccount_ok [of st "ID actor" 0 "''web_import_accounts''" d s2] unfolding Audit_def by (metis prod.collapse)
    have "n_accounts s3 = n_accounts s2"
      using frame_result [OF accounts_framed(6) 3 [unfolded Audit_def]] .
    moreover have "r = Inr res" "s' = s3"
      using assms(2) unfolding run andThen_Inr [of "Audit st (ID actor) ''web_import_accounts'' d", OF 3] by simp_all
    ultimately have "r = Inr res" "n_accounts s' = n_accounts s2" by simp_all
    with 2(2) n1 show ?thesis by (simp add: balanced_def n_accounts_def)
  qed
qed

theorem import_report_adds_up_witness:
  "let file = Inr [[''username''], [''bob'']]; run = importSSOAccountsCSV sample_store sample_user file empty_world in
     parseSSOAccountsCSV file \<noteq> Inl (Err ''no account rows found'')
     \<and> (\<exists>res. fst run = Inr res \<and> Added res + Updated res \<le> 1 \<and> 1 \<le> Added res + Updated res + int (length (Errors res)))"
proof -
  let ?file = "Inr [[''username''], [''bob'']]"
  let ?row = "\<lparr>CsvUsername = ''bob'', CsvPassword = [], CsvRole = [], CsvAliases = [], CsvTags = [], CsvCharacters = [], CsvLine = 2\<rparr>"
  have p: "parseSSOAccountsCSV ?file = Inr [?row]" by code_simp
  have roles: "fst (ListDiscordRoles empty_world) = Inr []" by code_simp
  obtain r s' where run: "importSSOAccountsCSV sample_store sample_user ?file empty_world = (r, s')" by (rule prod.exhaust)
  from import_report_adds_up [OF p run] roles p run show ?thesis by (cases r) (auto simp: Let_def)
qed

end
