(* ===== verification/WebBackup.thy ===== *)
theory WebBackup
  imports WebCsv
begin

text \<open>
  internal/web/backup.go: the configuration as a portable file, with Discord ids and user names in
  place of database ids, and its restoration. The JSON text of a backup is read and written by
  encoding/json: a file is the \<open>ConfigBackup\<close> it decodes to, \<open>Inl e\<close> one that does not decode. The maps
  of the code are functions into \<open>option\<close>.
\<close>

section \<open>The file\<close>

definition configBackupVersion :: int where "configBackupVersion = 1"

record ConfigBackupUser =
  BuDiscordID :: string
  BuDisplayName :: string
  BuRoleIDs :: "string list"
  BuAccessRevoked :: bool

record ConfigBackupGroup =
  BgName :: string
  BgDescription :: string
  BgWebRole :: string
  BgDiscordCommands :: "string list"
  BgMemberDiscordIDs :: "string list"
  BgMemberRoleIDs :: "string list"
  BgAccountUsernames :: "string list"

record ConfigBackupAccount =
  BaUsername :: string
  BaPassword :: string
  BaDisabled :: bool
  BaRestricted :: bool
  BaOwnerDiscordID :: string
  BaSharedDiscordIDs :: "string list"
  BaRequiredRoleIDs :: "string list"
  BaRequiredUserDiscordIDs :: "string list"
  BaGroupNames :: "string list"
  BaAliases :: "string list"
  BaTags :: "string list"
  BaCharacters :: "string list"

record ConfigBackup =
  BakVersion :: int
  BakExportedAt :: int
  BakUsers :: "ConfigBackupUser list"
  BakGroups :: "ConfigBackupGroup list"
  BakAccounts :: "ConfigBackupAccount list"
  BakRoles :: "(string \<times> string) list"

section \<open>Export\<close>

text \<open>A Go map filled in a loop: the last entry of a key counts.\<close>

definition filled :: "('k \<times> 'v) list \<Rightarrow> 'k \<Rightarrow> 'v option" where
  "filled kvs = map_of (rev kvs)"

definition discord_ids :: "(int \<Rightarrow> User option) \<Rightarrow> int list \<Rightarrow> string list" where
  "discord_ids userByID uids =
     filter (\<lambda>d. d \<noteq> []) (map DiscordID (List.map_filter userByID uids))"

definition backup_user :: "User \<Rightarrow> ConfigBackupUser" where
  "backup_user u = \<lparr>BuDiscordID = DiscordID u, BuDisplayName = DisplayName u, BuRoleIDs = RoleIDs u, BuAccessRevoked = AccessRevoked u\<rparr>"

definition backup_account :: "(int \<Rightarrow> User option) \<Rightarrow> EQAccountMeta \<Rightarrow> string \<Rightarrow> string \<Rightarrow> ConfigBackupAccount" where
  "backup_account userByID m username password =
     \<lparr>BaUsername = username, BaPassword = password, BaDisabled = Disabled m, BaRestricted = Restricted m,
      BaOwnerDiscordID = (if OwnerUserID m > 0 then case userByID (OwnerUserID m) of None \<Rightarrow> [] | Some u \<Rightarrow> DiscordID u else []),
      BaSharedDiscordIDs = discord_ids userByID (SharedUserIDs m), BaRequiredRoleIDs = RequiredRoleIDs m,
      BaRequiredUserDiscordIDs = discord_ids userByID (RequiredUserIDs m), BaGroupNames = [],
      BaAliases = filter (\<lambda>a. \<not> (a = [] \<or> EqualFold a username)) (map TrimSpace (Aliases m)),
      BaTags = Tags m, BaCharacters = Characters m\<rparr>"

text \<open>Accounts that do not decrypt are left out when passwords are asked for.\<close>

definition backup_accounts :: "Store \<Rightarrow> bool \<Rightarrow> (int \<Rightarrow> User option) \<Rightarrow> EQAccountMeta list \<Rightarrow> ConfigBackupAccount list db" where
  "backup_accounts st includePasswords userByID =
     collect_each (\<lambda>m.
       if includePasswords then attempt (DecryptCredentialsAny st (MetaID m)) (\<lambda>r. case r of
           Inl _ \<Rightarrow> ret None | Inr (u, p) \<Rightarrow> ret (Some (backup_account userByID m u p)))
       else ret (Some (backup_account userByID m (Username m) [])))"

text \<open>The names of the groups of an account, from the first metadata with its user name.\<close>

definition with_group_names :: "EQAccountMeta list \<Rightarrow> (int \<Rightarrow> string option) \<Rightarrow> ConfigBackupAccount \<Rightarrow> ConfigBackupAccount" where
  "with_group_names metas groupNameByID acc =
     (case find (\<lambda>m. EqualFold (Username m) (BaUsername acc)) metas of None \<Rightarrow> acc
      | Some m \<Rightarrow> acc\<lparr>BaGroupNames := BaGroupNames acc @ List.map_filter groupNameByID (GroupIDs m)\<rparr>)"

definition backup_group :: "(int \<Rightarrow> string option) \<Rightarrow> GroupDetail \<Rightarrow> ConfigBackupGroup" where
  "backup_group acctNameByID g =
     \<lparr>BgName = gd_name g, BgDescription = gd_description g, BgWebRole = gd_web_role g,
      BgDiscordCommands = gd_discord_commands g,
      BgMemberDiscordIDs = filter (\<lambda>d. d \<noteq> []) (map gu_discord_id (gd_users g)),
      BgMemberRoleIDs = gd_role_ids g,
      BgAccountUsernames = filter (\<lambda>n. n \<noteq> []) (List.map_filter acctNameByID (gd_account_ids g))\<rparr>"

definition exportConfigBackup :: "Store \<Rightarrow> bool \<Rightarrow> ConfigBackup db" where
  "exportConfigBackup st includePasswords =
     andThen (\<lambda>s. (Inr (clock s), s)) (\<lambda>now.
     andThen ListUsersForRoleSync (\<lambda>us.
     let userByID = filled (map (\<lambda>u. (ID u, u)) us) in
     attempt ListDiscordRoles (\<lambda>roles.
     andThen (ListEQAccountMetas st None True) (\<lambda>metas.
     andThen (backup_accounts st includePasswords userByID metas) (\<lambda>accs.
     andThen ListGroupDetails (\<lambda>gs.
     ret \<lparr>BakVersion = configBackupVersion, BakExportedAt = now, BakUsers = map backup_user us,
       BakGroups = map (backup_group (filled (map (\<lambda>m. (MetaID m, Username m)) metas))) gs,
       BakAccounts = map (with_group_names metas (filled (map (\<lambda>g. (gd_id g, gd_name g)) gs))) accs,
       BakRoles = (case roles of Inl _ \<Rightarrow> [] | Inr rs \<Rightarrow> rs)\<rparr>))))))"

section \<open>Reading the file\<close>

definition decodeConfigBackup :: "error + ConfigBackup \<Rightarrow> error + ConfigBackup" where
  "decodeConfigBackup file =
     (case file of Inl e \<Rightarrow> Inl (Err (''invalid backup JSON: '' @ err_text e))
      | Inr bak \<Rightarrow> let bak = (if BakVersion bak \<le> 0 then bak\<lparr>BakVersion := 1\<rparr> else bak) in
          if BakVersion bak > configBackupVersion
          then Inl (Err (''unsupported backup version '' @ itoa (BakVersion bak) @ '' (max '' @ itoa configBackupVersion @ '')''))
          else Inr bak)"

section \<open>Restoration\<close>

record ConfigImportResult =
  UsersAdded :: int
  UsersUpdated :: int
  GroupsAdded :: int
  GroupsUpdated :: int
  AccountsAdded :: int
  AccountsUpdated :: int
  ImportErrors :: "string list"

definition import_error :: "string \<Rightarrow> ConfigImportResult \<Rightarrow> ConfigImportResult" where
  "import_error e res = res\<lparr>ImportErrors := ImportErrors res @ [e]\<rparr>"

text \<open>A step whose error is only noted.\<close>

definition logging :: "'a db \<Rightarrow> string \<Rightarrow> ConfigImportResult \<Rightarrow> ConfigImportResult db" where
  "logging m what res = attempt m (\<lambda>r. ret (case r of Inl e \<Rightarrow> import_error (what @ err_text e) res | Inr _ \<Rightarrow> res))"

type_synonym users_by_discord = "string \<Rightarrow> User option"

definition restore_user ::
  "nat \<times> ConfigBackupUser \<Rightarrow> ConfigImportResult \<times> users_by_discord \<Rightarrow> (ConfigImportResult \<times> users_by_discord) db"
where
  "restore_user = (\<lambda>(i, row) (res, us).
     let did = TrimSpace (BuDiscordID row) in
     if did = [] then ret (import_error (''users['' @ itoa (int i) @ '']: discord_id required'') res, us)
     else attempt (UserByDiscordID did) (\<lambda>existing.
       attempt (UpsertUser did (BuDisplayName row) (BuRoleIDs row)) (\<lambda>r. case r of
         Inl e \<Rightarrow> ret (import_error (''user '' @ did @ '': '' @ err_text e) res, us)
       | Inr u \<Rightarrow>
           andThen (ignore (SetUserRoles (ID u) (BuRoleIDs row))) (\<lambda>_.
           let res = (case existing of Inl _ \<Rightarrow> res\<lparr>UsersAdded := UsersAdded res + 1\<rparr>
                      | Inr _ \<Rightarrow> res\<lparr>UsersUpdated := UsersUpdated res + 1\<rparr>) in
           andThen (logging (SetUserAccessRevoked (ID u) (BuAccessRevoked row)) (''user '' @ did @ '' revoke: '') res) (\<lambda>res.
           ret (res, us(did \<mapsto> u\<lparr>RoleIDs := BuRoleIDs row, AccessRevoked := BuAccessRevoked row\<rparr>)))))))"

definition known_users :: "users_by_discord \<Rightarrow> users_by_discord db" where
  "known_users us =
     attempt ListUsersForRoleSync (\<lambda>r. ret (case r of Inl _ \<Rightarrow> us
       | Inr all \<Rightarrow> fold (\<lambda>u m. if m (DiscordID u) = None then m(DiscordID u \<mapsto> u) else m) all us))"

definition ids_of :: "users_by_discord \<Rightarrow> string list \<Rightarrow> int list" where
  "ids_of us ds = map ID (List.map_filter (us \<circ> TrimSpace) ds)"

text \<open>The names of an account are replaced: the old ones go, whatever happens; the first error ends it.\<close>

definition replaceAccountAliases :: "Store \<Rightarrow> int \<Rightarrow> string \<Rightarrow> string list \<Rightarrow> unit db" where
  "replaceAccountAliases st i username als =
     attempt (GetEQAccountMeta st i) (\<lambda>r.
     andThen (case r of Inl _ \<Rightarrow> ret ()
        | Inr m \<Rightarrow> for_each (\<lambda>al. if EqualFold al username then ret () else ignore (RemoveAlias al i)) (Aliases m)) (\<lambda>_.
     for_each (\<lambda>al. let al = TrimSpace al in if al = [] \<or> EqualFold al username then ret () else AddAlias al i) als))"

definition replaceAccountTags :: "Store \<Rightarrow> int \<Rightarrow> string list \<Rightarrow> unit db" where
  "replaceAccountTags st i ts =
     attempt (GetEQAccountMeta st i) (\<lambda>r.
     andThen (case r of Inl _ \<Rightarrow> ret () | Inr m \<Rightarrow> for_each (\<lambda>t. ignore (RemoveTag t i)) (Tags m)) (\<lambda>_.
     for_each (\<lambda>t. AddTag t i) ts))"

definition replaceAccountCharacters :: "Store \<Rightarrow> int \<Rightarrow> string list \<Rightarrow> unit db" where
  "replaceAccountCharacters st i cs =
     attempt (GetEQAccountMeta st i) (\<lambda>r.
     andThen (case r of Inl _ \<Rightarrow> ret () | Inr m \<Rightarrow> for_each (\<lambda>c. ignore (RemoveCharacter c i)) (Characters m)) (\<lambda>_.
     for_each (\<lambda>c. AddCharacter c i) cs))"

definition restore_names :: "Store \<Rightarrow> int \<Rightarrow> string \<Rightarrow> ConfigBackupAccount \<Rightarrow> ConfigImportResult \<Rightarrow> ConfigImportResult db" where
  "restore_names st i username row res =
     andThen (logging (replaceAccountAliases st i username (BaAliases row)) (''account '' @ username @ '' aliases: '') res) (\<lambda>res.
     andThen (logging (replaceAccountTags st i (BaTags row)) (''account '' @ username @ '' tags: '') res) (\<lambda>res.
     logging (replaceAccountCharacters st i (BaCharacters row)) (''account '' @ username @ '' characters: '') res))"

definition restore_share ::
  "Store \<Rightarrow> users_by_discord \<Rightarrow> string \<Rightarrow> int option \<Rightarrow> ConfigBackupAccount \<Rightarrow> ConfigImportResult \<Rightarrow> ConfigImportResult db"
where
  "restore_share st us username found row res =
     (let ownerDID = TrimSpace (BaOwnerDiscordID row);
          failed = (\<lambda>e. ret (import_error (''account '' @ username @ e) res)) in
      case (if ownerDID = [] then None else us ownerDID) of
        None \<Rightarrow> failed '': owner_discord_id required for restricted share''
      | Some owner \<Rightarrow>
          if found = None \<and> BaPassword row = [] then failed '': password required for new restricted account''
          else attempt (ShareLocalAccount st owner username (BaPassword row) (BaAliases row)
              (ids_of us (BaSharedDiscordIDs row)) (BaRequiredRoleIDs row) []) (\<lambda>r. case r of
            Inl e \<Rightarrow> failed ('' share: '' @ err_text e)
          | Inr (i, _) \<Rightarrow> restore_names st i username row
              (if found = None then res\<lparr>AccountsAdded := AccountsAdded res + 1\<rparr> else res\<lparr>AccountsUpdated := AccountsUpdated res + 1\<rparr>)))"

text \<open>The rest of an unrestricted account: its switch, its grants but groups, its names.\<close>

definition restore_open ::
  "Store \<Rightarrow> users_by_discord \<Rightarrow> string \<Rightarrow> int \<Rightarrow> ConfigBackupAccount \<Rightarrow> ConfigImportResult \<Rightarrow> ConfigImportResult db"
where
  "restore_open st us username i row res =
     andThen (ignore (SetEQDisabled i (BaDisabled row))) (\<lambda>_.
     andThen (logging (SetAccountAccess i (BaRequiredRoleIDs row) (ids_of us (BaRequiredUserDiscordIDs row)) [])
       (''account '' @ username @ '' access: '') res) (\<lambda>res.
     restore_names st i username row res))"

definition restore_account ::
  "Store \<Rightarrow> users_by_discord \<Rightarrow> nat \<times> ConfigBackupAccount \<Rightarrow> ConfigImportResult \<Rightarrow> ConfigImportResult db"
where
  "restore_account st us = (\<lambda>(n, row) res.
     let username = TrimSpace (BaUsername row);
         failed = (\<lambda>e. ret (import_error (''account '' @ username @ e) res)) in
     if username = [] then ret (import_error (''accounts['' @ itoa (int n) @ '']: username required'') res)
     else attempt (FindEQAccountIDByUsername st username) (\<lambda>r. case r of
       Inl e \<Rightarrow> failed ('': '' @ err_text e)
     | Inr found \<Rightarrow>
         if BaRestricted row then restore_share st us username found row res
         else (case found of
           None \<Rightarrow>
             if TrimSpace (BaPassword row) = [] then failed '': password required for new account''
             else attempt (AddEQAccount st username (BaPassword row) []) (\<lambda>r. case r of
               Inl e \<Rightarrow> failed ('' create: '' @ err_text e)
             | Inr i \<Rightarrow> restore_open st us username i row (res\<lparr>AccountsAdded := AccountsAdded res + 1\<rparr>))
         | Some i \<Rightarrow>
             attempt (if TrimSpace (BaPassword row) \<noteq> [] then SetEQPassword st i (BaPassword row) else ret ()) (\<lambda>r. case r of
               Inl e \<Rightarrow> failed ('' password: '' @ err_text e)
             | Inr _ \<Rightarrow> restore_open st us username i row (res\<lparr>AccountsUpdated := AccountsUpdated res + 1\<rparr>)))))"

type_synonym groups_by_name = "string \<Rightarrow> int option"

text \<open>The accounts of a group that are found.\<close>

definition account_ids_of :: "Store \<Rightarrow> string list \<Rightarrow> int list db" where
  "account_ids_of st = collect_each (\<lambda>n. attempt (FindEQAccountIDByUsername st n) (\<lambda>r. ret (case r of Inl _ \<Rightarrow> None | Inr x \<Rightarrow> x)))"

definition restore_group ::
  "Store \<Rightarrow> users_by_discord \<Rightarrow> nat \<times> ConfigBackupGroup \<Rightarrow> ConfigImportResult \<times> groups_by_name \<Rightarrow> (ConfigImportResult \<times> groups_by_name) db"
where
  "restore_group st us = (\<lambda>(n, row) (res, gs).
     let name = TrimSpace (BgName row);
         failed = (\<lambda>e. ret (import_error (''group '' @ name @ e) res, gs));
         members_and_accounts = (\<lambda>gid res.
           andThen (logging (ReplaceGroupMembership gid (ids_of us (BgMemberDiscordIDs row)) (BgMemberRoleIDs row)) (''group '' @ name @ '' members: '') res) (\<lambda>res.
           andThen (account_ids_of st (BgAccountUsernames row)) (\<lambda>acctIDs.
           andThen (logging (ReplaceGroupAccountLinks gid acctIDs) (''group '' @ name @ '' accounts: '') res) (\<lambda>res.
           ret (res, gs(ToLower name \<mapsto> gid)))))) in
     if name = [] then ret (import_error (''groups['' @ itoa (int n) @ '']: name required'') res, gs)
     else attempt (FindGroupIDByName name) (\<lambda>r. case r of
       Inl e \<Rightarrow> failed ('': '' @ err_text e)
     | Inr None \<Rightarrow>
         attempt (CreateGroup name (BgDescription row) (BgWebRole row) (BgDiscordCommands row)) (\<lambda>r. case r of
           Inl e \<Rightarrow> failed ('' create: '' @ err_text e)
         | Inr gid \<Rightarrow> members_and_accounts gid (res\<lparr>GroupsAdded := GroupsAdded res + 1\<rparr>))
     | Inr (Some gid) \<Rightarrow>
         attempt (UpdateGroupMeta gid name (BgDescription row) (BgWebRole row) (BgDiscordCommands row)) (\<lambda>r. case r of
           Inl e \<Rightarrow> failed ('' update: '' @ err_text e)
         | Inr _ \<Rightarrow> members_and_accounts gid (res\<lparr>GroupsUpdated := GroupsUpdated res + 1\<rparr>))))"

text \<open>The last pass: the group grants of the unrestricted accounts.\<close>

definition restore_grants :: "Store \<Rightarrow> users_by_discord \<Rightarrow> groups_by_name \<Rightarrow> ConfigBackupAccount \<Rightarrow> unit db" where
  "restore_grants st us gs row =
     (if BaRestricted row \<or> BaGroupNames row = [] then ret ()
      else attempt (FindEQAccountIDByUsername st (BaUsername row)) (\<lambda>r. case r of
        Inr (Some i) \<Rightarrow> ignore (SetAccountAccess i (BaRequiredRoleIDs row) (ids_of us (BaRequiredUserDiscordIDs row))
            (List.map_filter (gs \<circ> ToLower \<circ> TrimSpace) (BaGroupNames row)))
      | _ \<Rightarrow> ret ()))"

definition empty_import :: ConfigImportResult where
  "empty_import = \<lparr>UsersAdded = 0, UsersUpdated = 0, GroupsAdded = 0, GroupsUpdated = 0, AccountsAdded = 0, AccountsUpdated = 0,
     ImportErrors = []\<rparr>"

definition importConfigBackup :: "Store \<Rightarrow> error + ConfigBackup \<Rightarrow> ConfigImportResult db" where
  "importConfigBackup st file =
     (case decodeConfigBackup file of Inl e \<Rightarrow> fail e | Inr bak \<Rightarrow>
      andThen (if BakRoles bak \<noteq> [] then ignore (UpsertDiscordRoles (BakRoles bak)) else ret ()) (\<lambda>_.
      andThen (fold_each restore_user (List.enumerate 0 (BakUsers bak)) (empty_import, Map.empty)) (\<lambda>(res, us).
      andThen (known_users us) (\<lambda>us.
      andThen (fold_each (restore_account st us) (List.enumerate 0 (BakAccounts bak)) res) (\<lambda>res.
      andThen (fold_each (restore_group st us) (List.enumerate 0 (BakGroups bak)) (res, Map.empty)) (\<lambda>(res, gs).
      andThen (for_each (restore_grants st us gs) (BakAccounts bak)) (\<lambda>_.
      ret res)))))))"

end
