(* ===== verification/WebApi.thy ===== *)
theory WebApi
  imports WebBackup
begin

text \<open>
  internal/web/api.go: the JSON API of the web pages, with the routes and gates of server.go. One
  request is one action over the hub (\<open>web_api\<close>).

  The body of a request is decoded already: its fields are optional, \<open>None\<close> for a key that is absent
  or null; a body that does not decode into the structure of its handler is no body. The query
  parameters are given as text; an uploaded file as in \<open>WebCsv\<close> and \<open>WebBackup\<close>, \<open>rq_form\<close> being the
  error of reading the multipart form it comes in. The route of the metrics is left out.
\<close>

section \<open>Requests\<close>

datatype http_method = GET | POST | PATCH | DELETE | OtherMethod

record body =
  b_username :: "string option"
  b_password :: "string option"
  b_disabled :: "bool option"
  b_required_role_id :: "string option"
  b_required_role_ids :: "string list option"
  b_required_user_id :: "int option"
  b_required_user_ids :: "int list option"
  b_group_ids :: "int list option"
  b_access :: "string option"
  b_alias :: "string option"
  b_tag :: "string option"
  b_name :: "string option"
  b_revoked :: "bool option"
  b_description :: "string option"
  b_web_role :: "string option"
  b_discord_commands :: "string list option"
  b_user_ids :: "int list option"
  b_role_ids :: "string list option"
  b_account_ids :: "int list option"
  b_user_id :: "int option"
  b_role_id :: "string option"
  b_account_id :: "int option"

record request =
  rq_method :: http_method
  rq_path :: string
  rq_cookie :: "string option"
  rq_body :: "body option"
  rq_query :: "string \<Rightarrow> string"
  rq_form :: "string option"
  rq_csv :: "error + string list list"
  rq_backup :: "error + ConfigBackup"

datatype web_ok =
    Done
  | MeOk User string
  | StateOk WebState
  | AccountOk int
  | GroupOk int
  | ImportOk SSOCSVImportResult
  | ExportOk "string list list"
  | AuditOk "AuditEntry list" int int
  | BackupOk ConfigBackup
  | RestoreOk ConfigImportResult

definition field_or :: "'a \<Rightarrow> 'a option \<Rightarrow> 'a" where
  "field_or zero x = (case x of None \<Rightarrow> zero | Some v \<Rightarrow> v)"

text \<open>\<open>strings.Trim(rest, "/")\<close> and \<open>strings.Split\<close>; \<open>strconv.ParseInt(s, 10, 64)\<close>.\<close>

definition path_parts :: "string \<Rightarrow> string list" where
  "path_parts rest =
     (let drop_slashes = dropWhile (\<lambda>c. c = CHR ''/'') in split_on CHR ''/'' (rev (drop_slashes (rev (drop_slashes rest)))))"

definition ParseInt :: "string \<Rightarrow> int option" where
  "ParseInt s =
     (case signed s of (negative, ds) \<Rightarrow>
      if ds = [] \<or> \<not> list_all is_digit ds then None
      else int64 (if negative then - int (digits_value ds) else int (digits_value ds)))"

text \<open>What is left of \<open>strconv.Atoi\<close> and \<open>ParseInt\<close> when the error is dropped: zero, or the nearest bound.\<close>

definition int_or_bound :: "string \<Rightarrow> int" where
  "int_or_bound s =
     (case signed s of (negative, ds) \<Rightarrow>
      if ds = [] \<or> \<not> list_all is_digit ds then 0
      else max (- (2 ^ 63)) (min (2 ^ 63 - 1) (if negative then - int (digits_value ds) else int (digits_value ds))))"

text \<open>The end of a successful change: the audit row, the new state for every client, the answer.\<close>

definition changed_by :: "Server \<Rightarrow> unit db \<Rightarrow> web_ok \<Rightarrow> web_ok answer hm" where
  "changed_by srv audit x =
     andThen (lift audit) (\<lambda>_.
     andThen (broadcastFullState (srv_hub srv) (srv_store srv)) (\<lambda>_. respond x))"

section \<open>Reading\<close>

definition handleMe :: "User \<Rightarrow> string \<Rightarrow> request \<Rightarrow> web_ok answer hm" where
  "handleMe u level rq = (if rq_method rq \<noteq> GET then writeErr 405 ''method_not_allowed'' else respond (MeOk u level))"

definition handleState :: "Server \<Rightarrow> User \<Rightarrow> request \<Rightarrow> web_ok answer hm" where
  "handleState srv u rq =
     (if rq_method rq \<noteq> GET then writeErr 405 ''method_not_allowed''
      else attempt (buildState srv u) (\<lambda>r. case r of Inl e \<Rightarrow> internal e | Inr s \<Rightarrow> respond (StateOk s)))"

definition handleAccountsExport :: "Server \<Rightarrow> User \<Rightarrow> request \<Rightarrow> web_ok answer hm" where
  "handleAccountsExport srv u rq =
     (if rq_method rq \<noteq> GET then writeErr 405 ''method_not_allowed'' else
      let includePasswords = (rq_query rq ''include_passwords'' = ''1'') in
      storing (exportSSOAccountsCSV (srv_store srv) includePasswords) internal (\<lambda>rows.
      andThen (lift (Audit (srv_store srv) (ID u) ''web_export_accounts''
        (''rows='' @ itoa (int (length rows) - 1) @ '' include_passwords='' @ bool_text includePasswords))) (\<lambda>_.
      respond (ExportOk rows))))"

definition handleAudit :: "Server \<Rightarrow> request \<Rightarrow> web_ok answer hm" where
  "handleAudit srv rq =
     (if rq_method rq \<noteq> GET then writeErr 405 ''method_not_allowed'' else
      let n = int_or_bound (rq_query rq ''limit''); limit = (if n \<le> 0 then 100 else n); offset = int_or_bound (rq_query rq ''offset'') in
      storing (ListAccountAudits (srv_store srv) (int_or_bound (rq_query rq ''account_id'')) (int_or_bound (rq_query rq ''user_id'')) limit offset)
        internal (\<lambda>entries. respond (AuditOk entries limit offset)))"

section \<open>Accounts\<close>

text \<open>The file of an import: the body, or the form field of a multipart request.\<close>

definition with_form :: "request \<Rightarrow> web_ok answer hm \<Rightarrow> web_ok answer hm" where
  "with_form rq rest = (case rq_form rq of Some e \<Rightarrow> writeErr 400 e | None \<Rightarrow> rest)"

definition handleAccountsImport :: "Server \<Rightarrow> User \<Rightarrow> request \<Rightarrow> web_ok answer hm" where
  "handleAccountsImport srv u rq =
     (if rq_method rq \<noteq> POST then writeErr 405 ''method_not_allowed'' else
      with_form rq (storing (importSSOAccountsCSV (srv_store srv) u (rq_csv rq)) (\<lambda>e. writeErr 400 (err_text e)) (\<lambda>res.
        andThen (broadcastFullState (srv_hub srv) (srv_store srv)) (\<lambda>_. respond (ImportOk res)))))"

definition handleAccounts :: "Server \<Rightarrow> User \<Rightarrow> request \<Rightarrow> web_ok answer hm" where
  "handleAccounts srv u rq =
     (if rq_method rq \<noteq> POST then writeErr 405 ''method_not_allowed'' else
      case rq_body rq of None \<Rightarrow> writeErr 400 ''bad_request'' | Some b \<Rightarrow>
      let username = TrimSpace (field_or [] (b_username b)); password = field_or [] (b_password b);
          role = TrimSpace (field_or [] (b_required_role_id b)) in
      if username = [] \<or> password = [] then writeErr 400 ''username_password_required'' else
      storing (AddEQAccount (srv_store srv) username password []) internal (\<lambda>i.
      andThen (if role \<noteq> [] then lift (ignore (SetEQRequiredRole i role)) else ret ()) (\<lambda>_.
      changed_by srv (AuditAccount (srv_store srv) (ID u) i ''web_add_account'' (''username='' @ username)) (AccountOk i))))"

definition sets_access :: "body \<Rightarrow> bool" where
  "sets_access b \<longleftrightarrow> b_access b \<noteq> None \<or> b_required_role_id b \<noteq> None \<or> b_required_role_ids b \<noteq> None
     \<or> b_required_user_id b \<noteq> None \<or> b_required_user_ids b \<noteq> None \<or> b_group_ids b \<noteq> None"

text \<open>The grants asked for, over those the account has.\<close>

definition new_access :: "Server \<Rightarrow> int \<Rightarrow> body \<Rightarrow> (string list \<times> int list \<times> int list) db" where
  "new_access srv accountID b =
     (if (case b_access b of None \<Rightarrow> False | Some a \<Rightarrow> EqualFold (TrimSpace a) ''all'') then ret ([], [], [])
      else attempt (LoadEQAccountMeta (srv_store srv) accountID) (\<lambda>cur.
        ret ((case b_required_role_ids b of Some rs \<Rightarrow> rs
              | None \<Rightarrow> (case b_required_role_id b of Some r \<Rightarrow> if TrimSpace r \<noteq> [] then [TrimSpace r] else []
                | None \<Rightarrow> (case cur of Inl _ \<Rightarrow> [] | Inr m \<Rightarrow> RequiredRoleIDs m))),
             (case b_required_user_ids b of Some us \<Rightarrow> us
              | None \<Rightarrow> (case b_required_user_id b of Some v \<Rightarrow> if v > 0 then [v] else []
                | None \<Rightarrow> (case cur of Inl _ \<Rightarrow> [] | Inr m \<Rightarrow> RequiredUserIDs m))),
             (case b_group_ids b of Some gs \<Rightarrow> gs | None \<Rightarrow> (case cur of Inl _ \<Rightarrow> [] | Inr m \<Rightarrow> GroupIDs m)))))"

definition set_access :: "Server \<Rightarrow> int \<Rightarrow> body \<Rightarrow> web_ok answer hm \<Rightarrow> web_ok answer hm" where
  "set_access srv accountID b rest =
     andThen (lift (new_access srv accountID b)) (\<lambda>(rs, us, gs).
     let store_it = storing (SetAccountAccess accountID rs us gs) internal (\<lambda>_. rest) in
     if rs = [] \<and> us = [] \<and> gs = [] \<and> requireACL srv then
       storing (LoadEQAccountMeta (srv_store srv) accountID) (\<lambda>_. store_it) (\<lambda>m.
         if \<not> Restricted m then writeErr 400 ''account_acl_required'' else store_it)
     else store_it)"

definition account_patch :: "Server \<Rightarrow> User \<Rightarrow> int \<Rightarrow> request \<Rightarrow> web_ok answer hm" where
  "account_patch srv u accountID rq =
     (case rq_body rq of None \<Rightarrow> writeErr 400 ''bad_request'' | Some b \<Rightarrow>
      let setAccess = sets_access b; password = field_or [] (b_password b); setPassword = (TrimSpace password \<noteq> []);
          changed = (password \<noteq> [] \<or> b_disabled b \<noteq> None \<or> setAccess);
          finish = (if \<not> changed then writeErr 400 ''nothing_to_update''
            else changed_by srv (AuditAccount (srv_store srv) (ID u) accountID ''web_update_account'' (''account='' @ itoa accountID)) (AccountOk accountID));
          access = (if setAccess then set_access srv accountID b finish else finish);
          disabled = (case b_disabled b of None \<Rightarrow> access | Some d \<Rightarrow> storing (SetEQDisabled accountID d) internal (\<lambda>_. access))
      in unless_managed srv accountID u setAccess setPassword
        (if password \<noteq> [] then storing (SetEQPassword (srv_store srv) accountID password) internal (\<lambda>_. disabled) else disabled))"

definition account_delete :: "Server \<Rightarrow> User \<Rightarrow> int \<Rightarrow> web_ok answer hm" where
  "account_delete srv u accountID =
     unless_managed srv accountID u False False
       (storing (DeleteEQAccount accountID) internal (\<lambda>_.
        andThen (tracker (\<lambda>_ t. ((), Clear accountID t))) (\<lambda>_.
        changed_by srv (AuditAccount (srv_store srv) (ID u) accountID ''web_remove_account'' (''id='' @ itoa accountID)) Done)))"

text \<open>Adding or removing a login name; \<open>key\<close> is the field's name in the audit trail.\<close>

definition account_name ::
  "Server \<Rightarrow> User \<Rightarrow> int \<Rightarrow> bool \<Rightarrow> string option \<Rightarrow> string \<Rightarrow> (string \<Rightarrow> unit db) \<Rightarrow> (error \<Rightarrow> web_ok answer hm) \<Rightarrow>
   (string \<Rightarrow> unit db) \<Rightarrow> string \<Rightarrow> string \<Rightarrow> web_ok answer hm"
where
  "account_name srv u accountID removing field missing add add_error remove what key =
     (let n = TrimSpace (field_or [] field);
          audit = (\<lambda>verb. AuditAccount (srv_store srv) (ID u) accountID (''web_'' @ verb @ ''_'' @ what) (key @ ''='' @ n)) in
      if n = [] then writeErr 400 missing
      else if removing then
        storing (remove n) (\<lambda>e. if Contains (err_text e) ''not found'' then writeErr 404 ''not_found'' else internal e)
          (\<lambda>_. changed_by srv (audit ''remove'') Done)
      else storing (add n) add_error (\<lambda>_. changed_by srv (audit ''add'') Done))"

definition taken :: "string \<Rightarrow> error \<Rightarrow> web_ok answer hm" where
  "taken code e = (if Contains (err_text e) ''already used'' then writeErr 409 code else internal e)"

definition account_names_sub :: "Server \<Rightarrow> User \<Rightarrow> int \<Rightarrow> string \<Rightarrow> request \<Rightarrow> web_ok answer hm" where
  "account_names_sub srv u aid part rq =
     (let removing = (rq_method rq = DELETE) in
      if part = ''aliases'' then (case rq_body rq of None \<Rightarrow> writeErr 400 ''bad_request'' | Some b \<Rightarrow>
        account_name srv u aid removing (b_alias b) ''alias_required'' (\<lambda>n. AddAlias n aid) (taken ''alias_taken'')
          (\<lambda>n. RemoveAlias n aid) ''alias'' ''alias'')
      else if part = ''tags'' then (case rq_body rq of None \<Rightarrow> writeErr 400 ''bad_request'' | Some b \<Rightarrow>
        account_name srv u aid removing (b_tag b) ''tag_required'' (\<lambda>n. AddTag n aid) internal
          (\<lambda>n. RemoveTag n aid) ''tag'' ''tag'')
      else if part = ''characters'' then (case rq_body rq of None \<Rightarrow> writeErr 400 ''bad_request'' | Some b \<Rightarrow>
        account_name srv u aid removing (b_name b) ''name_required'' (\<lambda>n. AddCharacter n aid) (taken ''character_taken'')
          (\<lambda>n. RemoveCharacter n aid) ''character'' ''name'')
      else writeErr 404 ''not_found'')"

definition handleAccountSub :: "Server \<Rightarrow> User \<Rightarrow> string \<Rightarrow> string \<Rightarrow> request \<Rightarrow> web_ok answer hm" where
  "handleAccountSub srv u level rest rq =
     (case path_parts rest of [] \<Rightarrow> writeErr 404 ''not_found'' | p # parts \<Rightarrow>
      if p = [] then writeErr 404 ''not_found'' else
      case ParseInt p of None \<Rightarrow> writeErr 400 ''invalid_account'' | Some aid \<Rightarrow>
      if aid \<le> 0 then writeErr 400 ''invalid_account'' else
      (case parts of
         [] \<Rightarrow> (case rq_method rq of
             PATCH \<Rightarrow> unless_readonly srv u level (account_patch srv u aid rq)
           | DELETE \<Rightarrow> unless_readonly srv u level (account_delete srv u aid)
           | _ \<Rightarrow> writeErr 405 ''method_not_allowed'')
       | part # _ \<Rightarrow>
           if part \<in> {''aliases'', ''tags'', ''characters''} then
             if rq_method rq = POST \<or> rq_method rq = DELETE
             then unless_readonly srv u level (unless_managed srv aid u False False (account_names_sub srv u aid part rq))
             else writeErr 405 ''method_not_allowed''
           else if part = ''shares'' then writeErr 403 ''shares_managed_in_gui''
           else if rq_method rq \<noteq> POST then writeErr 405 ''method_not_allowed''
           else account_names_sub srv u aid part rq))"

section \<open>Users\<close>

definition web_set_user_access :: "Server \<Rightarrow> User \<Rightarrow> int \<Rightarrow> bool \<Rightarrow> web_ok answer hm" where
  "web_set_user_access srv actor userID revoked =
     (if revoked \<and> userID = ID actor then writeErr 400 ''cannot_revoke_self'' else
      storing (SetUserAccessRevoked userID revoked) internal (\<lambda>_.
      andThen (if revoked then disconnectUser userID ''access revoked'' else ret ()) (\<lambda>_.
      changed_by srv (Audit (srv_store srv) (ID actor) ''web_set_user_access'' (''user='' @ itoa userID)) Done)))"

definition handleUsers :: "Server \<Rightarrow> User \<Rightarrow> string \<Rightarrow> string \<Rightarrow> request \<Rightarrow> web_ok answer hm" where
  "handleUsers srv u level rest rq =
     (case path_parts rest of p # part # _ \<Rightarrow>
        (case ParseInt p of None \<Rightarrow> writeErr 400 ''invalid_user'' | Some userID \<Rightarrow>
         if userID \<le> 0 then writeErr 400 ''invalid_user'' else
         unless_readonly srv u level
           (if part = ''access'' then
              if rq_method rq \<noteq> PATCH then writeErr 405 ''method_not_allowed''
              else (case rq_body rq of None \<Rightarrow> writeErr 400 ''bad_request''
                | Some b \<Rightarrow> web_set_user_access srv u userID (field_or False (b_revoked b)))
            else if part = ''roles'' then writeErr 403 ''roles_managed_by_discord''
            else writeErr 404 ''not_found''))
      | _ \<Rightarrow> writeErr 404 ''not_found'')"

section \<open>Groups\<close>

definition handleGroups :: "Server \<Rightarrow> User \<Rightarrow> string \<Rightarrow> request \<Rightarrow> web_ok answer hm" where
  "handleGroups srv u level rq =
     (if rq_method rq \<noteq> POST then writeErr 405 ''method_not_allowed'' else
      unless_readonly srv u level (case rq_body rq of None \<Rightarrow> writeErr 400 ''bad_request'' | Some b \<Rightarrow>
      storing (CreateGroup (field_or [] (b_name b)) (field_or [] (b_description b)) (field_or [] (b_web_role b)) (field_or [] (b_discord_commands b)))
        (\<lambda>e. writeErr 400 (err_text e)) (\<lambda>gid.
      let finish = changed_by srv (Audit (srv_store srv) (ID u) ''web_create_group'' (''id='' @ itoa gid)) (GroupOk gid);
          link = (case b_account_ids b of None \<Rightarrow> finish | Some as \<Rightarrow> storing (ReplaceGroupAccountLinks gid as) internal (\<lambda>_. finish))
      in if b_user_ids b \<noteq> None \<or> b_role_ids b \<noteq> None
         then storing (ReplaceGroupMembership gid (field_or [] (b_user_ids b)) (field_or [] (b_role_ids b))) internal (\<lambda>_. link)
         else link)))"

definition group_delete :: "Server \<Rightarrow> User \<Rightarrow> int \<Rightarrow> web_ok answer hm" where
  "group_delete srv u gid =
     storing (DeleteGroup gid) (\<lambda>e.
       if Contains (err_text e) ''cannot be deleted'' then writeErr 400 ''protected_group''
       else if Contains (err_text e) ''not found'' then writeErr 404 ''not_found'' else internal e)
     (\<lambda>_. changed_by srv (Audit (srv_store srv) (ID u) ''web_delete_group'' (''id='' @ itoa gid)) Done)"

definition group_patch :: "Server \<Rightarrow> User \<Rightarrow> int \<Rightarrow> request \<Rightarrow> web_ok answer hm" where
  "group_patch srv u gid rq =
     (case rq_body rq of None \<Rightarrow> writeErr 400 ''bad_request'' | Some b \<Rightarrow>
      storing ListGroupDetails internal (\<lambda>details.
      case find (\<lambda>d. gd_id d = gid) details of None \<Rightarrow> writeErr 404 ''not_found'' | Some cur \<Rightarrow>
      let meta = (b_name b \<noteq> None \<or> b_description b \<noteq> None \<or> b_web_role b \<noteq> None \<or> b_discord_commands b \<noteq> None);
          membership = (b_user_ids b \<noteq> None \<or> b_role_ids b \<noteq> None);
          finish = (if \<not> (meta \<or> membership \<or> b_account_ids b \<noteq> None) then writeErr 400 ''nothing_to_update''
            else changed_by srv (Audit (srv_store srv) (ID u) ''web_update_group'' (''id='' @ itoa gid)) Done);
          set_links = (case b_account_ids b of None \<Rightarrow> finish | Some as \<Rightarrow> storing (ReplaceGroupAccountLinks gid as) internal (\<lambda>_. finish));
          set_members = (if membership
            then storing (ReplaceGroupMembership gid (field_or (gd_user_ids cur) (b_user_ids b)) (field_or (gd_role_ids cur) (b_role_ids b)))
              internal (\<lambda>_. set_links)
            else set_links)
      in if meta
         then storing (UpdateGroupMeta gid (field_or (gd_name cur) (b_name b)) (field_or (gd_description cur) (b_description b))
             (field_or (gd_web_role cur) (b_web_role b)) (field_or (gd_discord_commands cur) (b_discord_commands b)))
           (\<lambda>e. writeErr 400 (err_text e)) (\<lambda>_. set_members)
         else set_members))"

text \<open>A member or an account of a group: POST adds it, DELETE removes it.\<close>

definition group_item ::
  "Server \<Rightarrow> request \<Rightarrow> unit db \<Rightarrow> (error \<Rightarrow> web_ok answer hm) \<Rightarrow> unit db \<Rightarrow> unit db \<Rightarrow> unit db \<Rightarrow> web_ok answer hm"
where
  "group_item srv rq add add_error add_audit remove remove_audit =
     (case rq_method rq of
        POST \<Rightarrow> storing add add_error (\<lambda>_. changed_by srv add_audit Done)
      | DELETE \<Rightarrow> storing remove internal (\<lambda>_. changed_by srv remove_audit Done)
      | _ \<Rightarrow> writeErr 405 ''method_not_allowed'')"

definition group_part :: "Server \<Rightarrow> User \<Rightarrow> int \<Rightarrow> string \<Rightarrow> request \<Rightarrow> web_ok answer hm" where
  "group_part srv u gid part rq =
     (let st = srv_store srv; b = rq_body rq in
      if part = ''users'' then
        (let v = (case b of None \<Rightarrow> 0 | Some b \<Rightarrow> field_or 0 (b_user_id b));
             detail = ''group='' @ itoa gid @ '' user='' @ itoa v in
         if v \<le> 0 then writeErr 400 ''bad_request''
         else group_item srv rq (AddGroupUser gid v) internal (Audit st (ID u) ''web_group_add_user'' detail)
           (RemoveGroupUser gid v) (Audit st (ID u) ''web_group_remove_user'' detail))
      else if part = ''roles'' then
        (case b of None \<Rightarrow> writeErr 400 ''bad_request'' | Some b \<Rightarrow>
         let r = TrimSpace (field_or [] (b_role_id b)) in
         if r = [] then writeErr 400 ''role_required''
         else group_item srv rq (AddGroupRole gid r) (\<lambda>e. writeErr 400 (err_text e)) (Audit st (ID u) ''web_group_add_role'' r)
           (RemoveGroupRole gid r) (Audit st (ID u) ''web_group_remove_role'' r))
      else
        (let a = (case b of None \<Rightarrow> 0 | Some b \<Rightarrow> field_or 0 (b_account_id b));
             detail = ''group='' @ itoa gid @ '' account='' @ itoa a in
         if a \<le> 0 then writeErr 400 ''bad_request''
         else group_item srv rq (LinkAccountGroup a gid) internal (AuditAccount st (ID u) a ''web_group_link_account'' detail)
           (UnlinkAccountGroup a gid) (AuditAccount st (ID u) a ''web_group_unlink_account'' detail)))"

definition handleGroupSub :: "Server \<Rightarrow> User \<Rightarrow> string \<Rightarrow> string \<Rightarrow> request \<Rightarrow> web_ok answer hm" where
  "handleGroupSub srv u level rest rq =
     (case path_parts rest of [] \<Rightarrow> writeErr 404 ''not_found'' | p # parts \<Rightarrow>
      if p = [] then writeErr 404 ''not_found'' else
      case ParseInt p of None \<Rightarrow> writeErr 400 ''invalid_group'' | Some gid \<Rightarrow>
      if gid \<le> 0 then writeErr 400 ''invalid_group'' else
      (case parts of
         [] \<Rightarrow> (case rq_method rq of
             DELETE \<Rightarrow> unless_readonly srv u level (group_delete srv u gid)
           | PATCH \<Rightarrow> unless_readonly srv u level (group_patch srv u gid rq)
           | _ \<Rightarrow> writeErr 405 ''method_not_allowed'')
       | part # _ \<Rightarrow>
           if part \<in> {''users'', ''roles'', ''accounts''} then unless_readonly srv u level (group_part srv u gid part rq)
           else writeErr 404 ''not_found''))"

section \<open>Backup\<close>

definition backup_export :: "Server \<Rightarrow> User \<Rightarrow> bool \<Rightarrow> web_ok answer hm" where
  "backup_export srv u includePasswords =
     storing (exportConfigBackup (srv_store srv) includePasswords) (\<lambda>_. writeErr 500 ''export_failed'') (\<lambda>bak.
     andThen (lift (Audit (srv_store srv) (ID u) ''web_export_config''
       (''users='' @ itoa (int (length (BakUsers bak))) @ '' groups='' @ itoa (int (length (BakGroups bak)))
        @ '' accounts='' @ itoa (int (length (BakAccounts bak))) @ '' include_passwords='' @ bool_text includePasswords))) (\<lambda>_.
     respond (BackupOk bak)))"

definition slash :: "int \<Rightarrow> int \<Rightarrow> string" where
  "slash a b = itoa a @ ''/'' @ itoa b"

definition backup_restore :: "Server \<Rightarrow> User \<Rightarrow> request \<Rightarrow> web_ok answer hm" where
  "backup_restore srv u rq =
     with_form rq (storing (importConfigBackup (srv_store srv) (rq_backup rq)) (\<lambda>e. writeErr 400 (err_text e)) (\<lambda>res.
       changed_by srv (Audit (srv_store srv) (ID u) ''web_import_config''
         (''users='' @ slash (UsersAdded res) (UsersUpdated res) @ '' groups='' @ slash (GroupsAdded res) (GroupsUpdated res)
          @ '' accounts='' @ slash (AccountsAdded res) (AccountsUpdated res) @ '' errors='' @ itoa (int (length (ImportErrors res)))))
         (RestoreOk res)))"

definition handleSettingsBackup :: "Server \<Rightarrow> User \<Rightarrow> request \<Rightarrow> web_ok answer hm" where
  "handleSettingsBackup srv u rq =
     (case rq_method rq of
        GET \<Rightarrow> backup_export srv u (rq_query rq ''include_passwords'' = ''1'')
      | POST \<Rightarrow> backup_restore srv u rq
      | _ \<Rightarrow> writeErr 405 ''method_not_allowed'')"

section \<open>Routes\<close>

text \<open>The path is what follows \<open>/admin/api/\<close>.\<close>

definition web_api :: "Server \<Rightarrow> (bytes \<Rightarrow> error + Session) \<Rightarrow> request \<Rightarrow> web_ok answer hm" where
  "web_api srv unmarshal rq =
     (let p = rq_path rq; auth = requireAuth srv unmarshal (rq_cookie rq); admin = requireAdmin srv unmarshal (rq_cookie rq) in
      if p = ''me'' then auth (\<lambda>u level. handleMe u level rq)
      else if p = ''state'' then auth (\<lambda>u level. handleState srv u rq)
      else if p = ''accounts/import'' then admin (\<lambda>u level. handleAccountsImport srv u rq)
      else if p = ''accounts/export'' then admin (\<lambda>u level. handleAccountsExport srv u rq)
      else if p = ''accounts'' then admin (\<lambda>u level. handleAccounts srv u rq)
      else if HasPrefix p ''accounts/'' then auth (\<lambda>u level. handleAccountSub srv u level (drop 9 p) rq)
      else if HasPrefix p ''users/'' then auth (\<lambda>u level. handleUsers srv u level (drop 6 p) rq)
      else if p = ''groups'' then auth (\<lambda>u level. handleGroups srv u level rq)
      else if HasPrefix p ''groups/'' then auth (\<lambda>u level. handleGroupSub srv u level (drop 7 p) rq)
      else if p = ''audit'' then admin (\<lambda>u level. handleAudit srv rq)
      else if p = ''settings/backup'' then admin (\<lambda>u level. handleSettingsBackup srv u rq)
      else writeErr 404 ''not_found'')"

end
