(* ===== verification/WebLaws.thy ===== *)
theory WebLaws
  imports HubLaws WebApi
begin

text \<open>
  What the web pages may do to an invariant of the hub. A sequence of store operations, run from a
  handler, keeps what each of them keeps (\<open>lift_rules\<close>); the gates and the reading handlers keep every
  invariant of \<open>reading_law\<close>, the others those of \<open>hub_law\<close>, except the access switch and the
  restoration of a backup, which may revoke a user.
\<close>

named_theorems lift_rules

lemma keeps_lift_ret [lift_rules]: "keeps I (lift (ret x))"
  by (simp add: keeps_def lift_eq)

lemma keeps_lift_fail [lift_rules]: "keeps I (lift (fail e))"
  by (simp add: keeps_def lift_eq)

lemma keeps_lift_andThen [lift_rules]: "keeps I (lift m) \<Longrightarrow> (\<And>x. keeps I (lift (f x))) \<Longrightarrow> keeps I (lift (andThen m f))"
proof -
  assume m: "keeps I (lift m)" and f: "\<And>x. keeps I (lift (f x))"
  have "lift (andThen m f) = andThen (lift m) (\<lambda>x. lift (f x))"
    by (auto simp: fun_eq_iff lift_eq andThen_def split: prod.splits sum.splits)
  with m f show ?thesis by (simp add: keeps_andThen)
qed

lemma keeps_lift_attempt [lift_rules]: "keeps I (lift m) \<Longrightarrow> (\<And>r. keeps I (lift (f r))) \<Longrightarrow> keeps I (lift (attempt m f))"
proof -
  assume m: "keeps I (lift m)" and f: "\<And>r. keeps I (lift (f r))"
  have "I (h\<lparr>db := snd (attempt m f (db h))\<rparr>)" if "I h" for h
    using keepsD [OF f keepsD [OF m that], of "fst (m (db h))"] by (cases "m (db h)") (simp add: attempt_def)
  then show ?thesis by (rule keeps_lift)
qed

lemma keeps_lift_ignore [lift_rules]: "keeps I (lift m) \<Longrightarrow> keeps I (lift (ignore m))"
  unfolding ignore_def by (intro lift_rules)

lemma keeps_lift_if [lift_rules]: "(b \<Longrightarrow> keeps I (lift m)) \<Longrightarrow> (\<not> b \<Longrightarrow> keeps I (lift n)) \<Longrightarrow> keeps I (lift (if b then m else n))"
  by simp

lemma keeps_lift_option [lift_rules]:
  "(x = None \<Longrightarrow> keeps I (lift m)) \<Longrightarrow> (\<And>y. x = Some y \<Longrightarrow> keeps I (lift (f y))) \<Longrightarrow> keeps I (lift (case x of None \<Rightarrow> m | Some y \<Rightarrow> f y))"
  by (cases x) auto

lemma keeps_lift_sum [lift_rules]:
  "(\<And>e. x = Inl e \<Longrightarrow> keeps I (lift (f e))) \<Longrightarrow> (\<And>y. x = Inr y \<Longrightarrow> keeps I (lift (g y))) \<Longrightarrow> keeps I (lift (case x of Inl e \<Rightarrow> f e | Inr y \<Rightarrow> g y))"
  by (cases x) auto

lemma keeps_lift_prod [lift_rules]: "(\<And>a b. x = (a, b) \<Longrightarrow> keeps I (lift (f a b))) \<Longrightarrow> keeps I (lift (case x of (a, b) \<Rightarrow> f a b))"
  by (cases x) auto

lemma keeps_lift_for_each [lift_rules]: "(\<And>x. keeps I (lift (f x))) \<Longrightarrow> keeps I (lift (for_each f xs))"
  by (induction xs) (auto intro: lift_rules)

lemma keeps_lift_fold_each [lift_rules]: "(\<And>x r. keeps I (lift (f x r))) \<Longrightarrow> keeps I (lift (fold_each f xs r))"
  by (induction xs arbitrary: r) (auto intro: lift_rules)

lemma keeps_lift_noting [lift_rules]: "keeps I (lift m) \<Longrightarrow> keeps I (lift (noting m t r))"
  unfolding noting_def by (intro lift_rules)

lemma keeps_lift_logging [lift_rules]: "keeps I (lift m) \<Longrightarrow> keeps I (lift (logging m t r))"
  unfolding logging_def by (intro lift_rules)

lemma keeps_storing [keeps_rules]:
  "keeps I (lift m) \<Longrightarrow> (\<And>e. keeps I (f e)) \<Longrightarrow> (\<And>x. keeps I (g x)) \<Longrightarrow> keeps I (storing m f g)"
  unfolding storing_def by (intro keeps_rules)

lemma keeps_answers [keeps_rules]: "keeps I (writeErr n c)" "keeps I (respond x)" "keeps I (internal e)"
  unfolding writeErr_def respond_def internal_def by (intro keeps_rules)+

section \<open>Readers\<close>

lemma reads_or_skip [reads_rules]: "reads m \<Longrightarrow> reads (or_skip m)"
  unfolding or_skip_def by (intro reads_rules)

lemma reads_access [reads_rules]:
  "reads (HighestWebRoleForUser u)" "reads (webAccessLevel srv u)" "reads (isWebAdmin srv u)" "reads (canAccessWeb srv u)"
  unfolding canAccessWeb_def isWebAdmin_def webAccessLevel_def HighestWebRoleForUser_def ListGroupsForUser_def Let_def
  by (intro reads_rules)+

lemma reads_metas [reads_rules]:
  "reads (LoadEQAccountMeta st i)" "reads (LoadEQAccountMetaForViewer st i v)" "reads (GetEQAccountMeta st i)"
  "reads (ListEQAccountMetas st w b)" "reads (DecryptCredentialsAny st i)"
  unfolding LoadEQAccountMeta_def LoadEQAccountMetaForViewer_def GetEQAccountMeta_def ListEQAccountMetas_def
    DecryptCredentialsAny_def StoreAccounts.decryptCredentials_def
  by (intro reads_rules)+

lemma reads_visible [reads_rules]: "reads (webVisibleAccounts srv u)" "reads (webVisibleShares srv u)"
  unfolding webVisibleAccounts_def webVisibleShares_def Let_def by (intro reads_rules)+

lemma reads_pages [reads_rules]:
  "reads ListGroupDetails" "reads AdminState_of" "reads ListUsersForRoleSync" "reads (new_access srv i b)" "reads (ListAccountAudits st a v l off)"
  "reads (exportSSOAccountsCSV st p)"
  unfolding ListGroupDetails_def AdminState_of_def ListUsersForRoleSync_def new_access_def ListAccountAudits_def exportSSOAccountsCSV_def Let_def
  by (intro reads_rules)+

lemma reads_backup [reads_rules]: "reads (exportConfigBackup st p)"
proof -
  have "reads (\<lambda>s. (Inr (clock s), s))"
    unfolding reads_def by (metis snd_conv world.surjective world.update_convs(22))
  then show ?thesis
    unfolding exportConfigBackup_def backup_accounts_def Let_def by (intro reads_rules)
qed

context reading_law
begin

lemma requireAuth_kept: "(\<And>u level. keeps I (next u level)) \<Longrightarrow> keeps I (requireAuth srv unmarshal cookie next)"
  unfolding requireAuth_def by (intro keeps_rules store_read reads_rules)

lemma requireAdmin_kept: "(\<And>u level. keeps I (next u level)) \<Longrightarrow> keeps I (requireAdmin srv unmarshal cookie next)"
  unfolding requireAdmin_def by (intro requireAuth_kept keeps_rules store_read reads_rules)

lemma unless_readonly_kept: "keeps I rest \<Longrightarrow> keeps I (unless_readonly srv u level rest)"
  unfolding unless_readonly_def by (intro keeps_rules store_read reads_rules)

lemma unless_managed_kept: "keeps I rest \<Longrightarrow> keeps I (unless_managed srv i u a p rest)"
  unfolding unless_managed_def by (intro keeps_rules store_read reads_rules)

lemma buildState_kept: "keeps I (buildState srv u)"
  unfolding buildState_def Let_def online_entries_def
  by (intro keeps_rules store_read reads_rules tracker_kept wf_listings)

lemma readers_kept: "keeps I (handleMe u level rq)" "keeps I (handleState srv u rq)" "keeps I (handleAudit srv rq)"
  unfolding handleMe_def handleState_def handleAudit_def Let_def
  by (intro keeps_rules buildState_kept store_read reads_rules)+

lemma handleUsers_kept:
  "(\<And>uid b. keeps I (web_set_user_access srv u uid b)) \<Longrightarrow> keeps I (handleUsers srv u level rest rq)"
  unfolding handleUsers_def by (auto intro!: keeps_rules unless_readonly_kept split: list.splits)

end

section \<open>Writers\<close>

lemma users_framed_groups:
  "frame users (CreateGroup n d w c)" "frame users (UpdateGroupMeta g n d w c)" "frame users (DeleteGroup g)"
  "frame users (AddGroupUser g v)" "frame users (RemoveGroupUser g v)" "frame users (AddGroupRole g q)" "frame users (RemoveGroupRole g q)"
  "frame users (LinkAccountGroup a g)" "frame users (UnlinkAccountGroup a g)" "frame users (ReplaceGroupMembership g us rs)"
  "frame users (ReplaceGroupAccountLinks g as)" "frame users (SetAccountAccess a rs us gs)"
  unfolding CreateGroup_def UpdateGroupMeta_def DeleteGroup_def AddGroupUser_def RemoveGroupUser_def AddGroupRole_def RemoveGroupRole_def
    LinkAccountGroup_def UnlinkAccountGroup_def ReplaceGroupMembership_def ReplaceGroupAccountLinks_def SetAccountAccess_def
    FindGroupIDByName_def IsDefaultGroup_def insert_group_def update_group_def delete_group_def Let_def
  by (intro frame_rules frame_stmt unseen_tables users_framed; simp add: frame_def split: sum.splits option.splits)+

lemmas groups_revoke_nobody = users_framed_groups [THEN frame_revokes_nobody]

text \<open>
  The contract of the pages of one account: \<open>ok\<close> says of which accounts the operations keep the
  invariant.
\<close>

locale account_law = reading_law I for I :: "hub \<Rightarrow> bool" +
  fixes st :: Store and ok :: "int \<Rightarrow> bool"
  assumes account_moves: "ok i \<Longrightarrow> keeps I (lift (SetEQPassword st i p))" "ok i \<Longrightarrow> keeps I (lift (SetEQDisabled i b))"
      "ok i \<Longrightarrow> keeps I (lift (SetAccountAccess i rs us gs))" "ok i \<Longrightarrow> keeps I (lift (DeleteEQAccount i))"
      "ok i \<Longrightarrow> keeps I (lift (AddAlias n i))" "ok i \<Longrightarrow> keeps I (lift (AddTag n i))" "ok i \<Longrightarrow> keeps I (lift (AddCharacter n i))"
      "ok i \<Longrightarrow> keeps I (lift (RemoveAlias n i))" "ok i \<Longrightarrow> keeps I (lift (RemoveTag n i))"
      "ok i \<Longrightarrow> keeps I (lift (RemoveCharacter n i))"
    and trail_moves: "keeps I (lift (Audit st u a d))" "keeps I (lift (AuditAccount st u i a d))"
    and broadcast_moves: "keeps I (broadcastFullState cfg st)"
begin

lemma changed_by_kept: "srv_store srv = st \<Longrightarrow> keeps I (lift audit) \<Longrightarrow> keeps I (changed_by srv audit x)"
  unfolding changed_by_def by (simp only:) (intro keeps_rules broadcast_moves)

lemmas web_kept = keeps_rules unless_readonly_kept unless_managed_kept changed_by_kept trail_moves broadcast_moves

lemma set_access_kept: "ok i \<Longrightarrow> keeps I rest \<Longrightarrow> keeps I (set_access srv i b rest)"
  unfolding set_access_def Let_def by (intro web_kept account_moves store_read reads_rules)

lemma account_patch_kept: "ok i \<Longrightarrow> srv_store srv = st \<Longrightarrow> keeps I (account_patch srv u i rq)"
  unfolding account_patch_def Let_def by (simp only:) (intro web_kept set_access_kept account_moves)

lemma account_delete_kept: "ok i \<Longrightarrow> srv_store srv = st \<Longrightarrow> keeps I (account_delete srv u i)"
  unfolding account_delete_def by (simp only:) (intro web_kept account_moves tracker_kept; simp)

lemma account_names_kept: "ok i \<Longrightarrow> srv_store srv = st \<Longrightarrow> keeps I (account_names_sub srv u i part rq)"
  unfolding account_names_sub_def account_name_def taken_def Let_def by (simp only:) (intro web_kept account_moves)

lemma handleAccountSub_kept:
  assumes "srv_store srv = st" and refuses: "\<And>i a p (rest :: web_ok answer hm). \<not> ok i \<Longrightarrow> keeps I (unless_managed srv i u a p rest)"
  shows "keeps I (handleAccountSub srv u level rest rq)"
proof -
  have "keeps I (account_patch srv u i rq)" for i
  proof (cases "ok i")
    case True
    then show ?thesis using assms(1) by (rule account_patch_kept)
  next
    case False
    show ?thesis unfolding account_patch_def Let_def by (intro keeps_rules refuses [OF False])
  qed
  moreover have "keeps I (account_delete srv u i)" for i
  proof (cases "ok i")
    case True
    then show ?thesis using assms(1) by (rule account_delete_kept)
  next
    case False
    show ?thesis unfolding account_delete_def by (rule refuses [OF False])
  qed
  ultimately have "keeps I (case rq_method rq of PATCH \<Rightarrow> unless_readonly srv u level (account_patch srv u i rq)
           | DELETE \<Rightarrow> unless_readonly srv u level (account_delete srv u i) | _ \<Rightarrow> writeErr 405 ''method_not_allowed'')" for i
    by (cases "rq_method rq") (simp_all add: unless_readonly_kept keeps_answers)
  moreover have "keeps I (unless_managed srv i u False False (account_names_sub srv u i part rq))" for i part
    by (cases "ok i") (simp_all add: account_names_kept assms(1) unless_managed_kept refuses)
  moreover have "keeps I (account_names_sub srv u i part rq)" if "part \<notin> {''aliases'', ''tags'', ''characters''}" for i part
    using that by (simp add: account_names_sub_def Let_def keeps_answers)
  ultimately show ?thesis
    unfolding handleAccountSub_def by (auto intro!: keeps_rules unless_readonly_kept split: list.splits)
qed

end

context hub_law
begin

lemma details_kept:
  "keeps I (lift (SetEQPassword st i p))" "keeps I (lift (SetEQRequiredRole i r))" "keeps I (lift (AddAlias n i))"
  "keeps I (lift (AddTag n i))" "keeps I (lift (AddCharacter n i))" "keeps I (lift (RemoveAlias n i))" "keeps I (lift (RemoveTag n i))"
  "keeps I (lift (RemoveCharacter n i))" "keeps I (lift (SetEQDisabled i b))" "keeps I (lift (SetAccountAccess i rs us gs))"
  "keeps I (lift (DeleteEQAccount i))" "keeps I (lift (AddEQAccount st n p t))"
  by (intro store_op_unit store_op operations.intros nobody_revoked groups_revoke_nobody)+

end

sublocale hub_law \<subseteq> account_law I st "\<lambda>_. True"
  by unfold_locales (rule details_kept Audit_kept broadcast_kept)+

context hub_law
begin

lemma import_kept: "keeps I (lift (importSSOAccountsCSV st u file))"
  unfolding importSSOAccountsCSV_def import_row_def import_details_def Let_def
  by (intro lift_rules details_kept Audit_kept store_read reads_rules reads_FindEQAccountIDByUsername)

lemma group_ops_kept:
  "keeps I (lift (CreateGroup n d w c))" "keeps I (lift (UpdateGroupMeta g n d w c))" "keeps I (lift (DeleteGroup g))"
  "keeps I (lift (AddGroupUser g v))" "keeps I (lift (RemoveGroupUser g v))" "keeps I (lift (AddGroupRole g q))"
  "keeps I (lift (RemoveGroupRole g q))" "keeps I (lift (LinkAccountGroup a g))" "keeps I (lift (UnlinkAccountGroup a g))"
  "keeps I (lift (ReplaceGroupMembership g us rs))" "keeps I (lift (ReplaceGroupAccountLinks g as))"
  by (intro store_op_unit store_op operations.intros groups_revoke_nobody)+

lemma accounts_kept:
  assumes "srv_store srv = st"
  shows "keeps I (handleAccountsImport srv u rq)" "keeps I (handleAccountsExport srv u rq)" "keeps I (handleAccounts srv u rq)"
  unfolding handleAccountsImport_def handleAccountsExport_def handleAccounts_def with_form_def assms Let_def
  by (intro web_kept assms lift_rules import_kept details_kept store_read reads_rules)+

lemma handleGroups_kept: "srv_store srv = st \<Longrightarrow> keeps I (handleGroups srv u level rq)"
  unfolding handleGroups_def Let_def by (simp only:) (intro web_kept group_ops_kept)

lemma group_part_kept:
  assumes "srv_store srv = st"
  shows "keeps I (group_part srv u g part rq)"
proof -
  have "keeps I (group_item srv rq add e aa remove ra)" if "keeps I (lift add)" "\<And>x. keeps I (e x)" "keeps I (lift aa)" "keeps I (lift remove)" "keeps I (lift ra)"
    for add e aa remove ra
    unfolding group_item_def using that assms by (cases "rq_method rq") (auto intro: web_kept)
  note item = this
  show ?thesis
    unfolding group_part_def Let_def assms by (intro web_kept item group_ops_kept)
qed

lemma handleGroupSub_kept:
  assumes "srv_store srv = st"
  shows "keeps I (handleGroupSub srv u level rest rq)"
proof -
  have "keeps I (group_patch srv u g rq)" for g
    unfolding group_patch_def Let_def assms by (intro web_kept assms group_ops_kept store_read reads_rules)
  moreover have "keeps I (group_delete srv u g)" for g
    unfolding group_delete_def assms by (intro web_kept assms group_ops_kept)
  ultimately have "keeps I (case rq_method rq of DELETE \<Rightarrow> unless_readonly srv u level (group_delete srv u g)
           | PATCH \<Rightarrow> unless_readonly srv u level (group_patch srv u g rq) | _ \<Rightarrow> writeErr 405 ''method_not_allowed'')" for g
    by (cases "rq_method rq") (simp_all add: unless_readonly_kept keeps_answers)
  then show ?thesis
    unfolding handleGroupSub_def using assms
    by (auto intro!: web_kept group_part_kept split: list.splits)
qed

lemma backup_export_kept: "srv_store srv = st \<Longrightarrow> keeps I (backup_export srv u p)"
  unfolding backup_export_def by (simp only:) (intro web_kept store_read reads_rules)

end

section \<open>Requests\<close>

text \<open>The two requests that may revoke a user's access.\<close>

definition restores :: "request \<Rightarrow> bool" where
  "restores rq \<longleftrightarrow> rq_path rq = ''settings/backup'' \<and> rq_method rq = POST"

definition about_users :: "request \<Rightarrow> bool" where
  "about_users rq \<longleftrightarrow> HasPrefix (rq_path rq) ''users/''"

lemma HasPrefixD: "HasPrefix p x \<Longrightarrow> \<exists>q. p = x @ q"
  unfolding HasPrefix_def by (metis append_take_drop_id)

lemma users_route: "about_users rq \<Longrightarrow>
  web_api srv unmarshal rq = requireAuth srv unmarshal (rq_cookie rq) (\<lambda>u level. handleUsers srv u level (drop 6 (rq_path rq)) rq)"
  unfolding about_users_def by (drule HasPrefixD) (auto simp: web_api_def Let_def HasPrefix_def)

lemma restore_route: "restores rq \<Longrightarrow> web_api srv unmarshal rq = requireAdmin srv unmarshal (rq_cookie rq) (\<lambda>u level. backup_restore srv u rq)"
  by (simp add: restores_def web_api_def Let_def HasPrefix_def handleSettingsBackup_def)

context hub_law
begin

lemma web_api_calm_kept:
  assumes "srv_store srv = st" and "\<not> restores rq" and "\<not> about_users rq"
  shows "keeps I (web_api srv unmarshal rq)"
proof -
  have "keeps I (handleSettingsBackup srv u rq)" if "rq_path rq = ''settings/backup''" for u
    using that assms by (cases "rq_method rq") (simp_all add: handleSettingsBackup_def restores_def backup_export_kept keeps_answers)
  with assms(3) show ?thesis
    unfolding web_api_def Let_def about_users_def
    by (intro keeps_if requireAuth_kept requireAdmin_kept readers_kept accounts_kept [OF assms(1)] handleAccountSub_kept [OF assms(1)]
        handleGroups_kept [OF assms(1)] handleGroupSub_kept [OF assms(1)] keeps_answers) simp_all
qed

end

end
