(* ===== verification/HubSteps.thy ===== *)
theory HubSteps
  imports WebLaws
begin

text \<open>
  The hub as a state machine: connections open, send messages and hang up, the login server answers,
  the web pages change the store and revoke access, time passes and the database fails now and then.
  Every step keeps the store and the tracker well formed.
\<close>

section \<open>Steps\<close>

definition zero_user :: User where
  "zero_user = \<lparr>ID = 0, DiscordID = [], DisplayName = [], RoleIDs = [], AccessRevoked = False\<rparr>"

definition fresh_conn :: "nat \<Rightarrow> conn" where
  "fresh_conn cid = \<lparr>c_id = cid, c_open = True, c_authed = False, c_user = zero_user, c_session = None\<rparr>"

definition Accept :: "nat \<Rightarrow> unit hm" where
  "Accept cid = modify (\<lambda>h. if cid \<in> c_id ` set (conns h) then h else h\<lparr>conns := conns h @ [fresh_conn cid]\<rparr>)"

text \<open>
  A step of the web pages is a whole request (\<open>web_api\<close>) of any kind. The flag of a step says whether it
  is the restoration of a backup: alone of all steps it may revoke users without disconnecting them, see
  \<open>restore_keeps_sessions\<close> in \<open>Findings\<close>. The Discord bot and the OAuth login change the store only:
  their steps are store operations.
\<close>

inductive hub_step :: "HubConfig \<Rightarrow> Store \<Rightarrow> bool \<Rightarrow> hub \<Rightarrow> hub \<Rightarrow> bool" for cfg :: HubConfig and st :: Store where
  accept: "hub_step cfg st False h (snd (Accept cid h))"
| message: "hub_step cfg st False h (snd (serve cfg st cid msg h))"
| hangup: "hub_step cfg st False h (snd (hang_up cid h))"
| datagram: "hub_step cfg st False h (snd (relay_datagram sid pkt h))"
| web: "srv_hub srv = cfg \<Longrightarrow> srv_store srv = st \<Longrightarrow> hub_step cfg st (restores rq) h (snd (web_api srv unmarshal rq h))"
| web_store: "m \<in> operations st \<Longrightarrow> revokes_nobody m \<Longrightarrow> hub_step cfg st False h (snd (lift m h))"
| web_broadcast: "hub_step cfg st False h (snd (broadcastFullState cfg st h))"
| expiry: "hub_step cfg st False h (h\<lparr>pres := expireLocked now (pres h)\<rparr>)"
| world: "clock (db h) \<le> t \<Longrightarrow> hub_step cfg st False h (h\<lparr>db := (db h)\<lparr>clock := t, entropy := en, faults := fs\<rparr>\<rparr>)"
| environment: "hub_step cfg st False h (h\<lparr>verdicts := bs, sockets := ss\<rparr>)"

definition start_hub :: "world \<Rightarrow> int \<Rightarrow> (nat \<Rightarrow> string) \<Rightarrow> hub" where
  "start_hub w d us = \<lparr>db = w, pres = New d, clients = [], conns = [], next_uuid = 0, uuids = us, verdicts = [],
     sockets = [], outbox = [], upstream = [], notified = 0, notices = []\<rparr>"

text \<open>
  \<open>hub_reach cfg st R h\<close>: the hub can get to \<open>h\<close>, and \<open>R\<close> are the users whose revocation in \<open>h\<close> comes from
  a backup: a restoration revoked them, and nobody has given them access again since.
\<close>

definition by_backup :: "bool \<Rightarrow> int set \<Rightarrow> hub \<Rightarrow> hub \<Rightarrow> int set" where
  "by_backup restoring R h h' = (R \<union> (if restoring then banned (db h') - banned (db h) else {})) \<inter> banned (db h')"

inductive hub_reach :: "HubConfig \<Rightarrow> Store \<Rightarrow> int set \<Rightarrow> hub \<Rightarrow> bool" for cfg :: HubConfig and st :: Store where
  start: "served st w \<Longrightarrow> inj us \<Longrightarrow> hub_reach cfg st {} (start_hub w d us)"
| step: "hub_reach cfg st R h \<Longrightarrow> hub_step cfg st restoring h h' \<Longrightarrow> hub_reach cfg st (by_backup restoring R h h') h'"

section \<open>Restoring a backup\<close>

context reading_law
begin

lemma restore_kept:
  assumes op: "\<And>m. m \<in> operations st \<Longrightarrow> keeps I (lift m)" and srv: "srv_store srv = st"
    and out: "keeps I (broadcastFullState (srv_hub srv) st)"
  shows "keeps I (backup_restore srv u rq)"
proof -
  have ops: "keeps I (lift m)" if "ignore m \<in> operations st" for m :: "'x db"
  proof (rule keeps_lift)
    fix h assume "I h"
    from keepsD [OF op [OF that] this] show "I (h\<lparr>db := snd (m (db h))\<rparr>)"
      by (simp add: ignore_def attempt_def split_def)
  qed
  have reads: "reads (UserByDiscordID d)" "reads (GetEQAccountMeta st i)" "reads (FindGroupIDByName n)" for d i n
    unfolding UserByDiscordID_def FindGroupIDByName_def Let_def by (intro reads_rules)+
  have names: "keeps I (lift (restore_names st i n row res))" for i n row res
    unfolding restore_names_def replaceAccountAliases_def replaceAccountTags_def replaceAccountCharacters_def Let_def
    by (intro lift_rules op operations.intros store_read reads)
  have acc: "keeps I (lift (restore_account st us x res))" for us x res
    unfolding restore_account_def restore_share_def restore_open_def Let_def
    by (cases x; simp only: prod.case) (intro lift_rules names op ops operations.intros store_read reads_FindEQAccountIDByUsername)
  have usr: "keeps I (lift (restore_user x y))" for x y
    unfolding restore_user_def Let_def
    by (cases x; cases y; simp only: prod.case) (intro lift_rules op ops operations.intros store_read reads)
  have ids: "keeps I (lift (account_ids_of st ns))" for ns
    unfolding account_ids_of_def by (intro store_read reads_rules reads_FindEQAccountIDByUsername)
  have grp_ops: "keeps I (lift (CreateGroup n d w c))" "keeps I (lift (UpdateGroupMeta g n d w c))"
      "keeps I (lift (ReplaceGroupMembership g us rs))" "keeps I (lift (ReplaceGroupAccountLinks g acs))"
      "keeps I (lift (FindGroupIDByName n))" for n d w c g us rs acs
    by (rule ops, rule operations.intros, (rule op, rule operations.intros)+, rule store_read, rule reads)
  have grp: "keeps I (lift (restore_group st us x y))" for us x y
    unfolding restore_group_def Let_def by (cases x; cases y; simp only: prod.case) (intro lift_rules ids grp_ops)
  have last: "keeps I (lift (known_users us))" "keeps I (lift (restore_grants st us' gs row))" for us us' gs row
    unfolding known_users_def restore_grants_def
    by (intro lift_rules op operations.intros store_read reads_rules reads_FindEQAccountIDByUsername)+
  have "keeps I (lift (importConfigBackup st bak))" for bak
    unfolding importConfigBackup_def by (intro lift_rules acc usr grp last op operations.intros)
  moreover have "keeps I (lift (Audit st i a d))" for i a d
    unfolding Audit_def by (intro op operations.intros)
  ultimately show ?thesis
    unfolding backup_restore_def with_form_def changed_by_def srv by (intro keeps_rules out)
qed

end

section \<open>Store and tracker\<close>

definition sound :: "hub \<Rightarrow> bool" where
  "sound h \<longleftrightarrow> group_inv (db h) \<and> wf_tracker (pres h)"

lemma quiet_group_inv_clock: "group_inv (s\<lparr>clock := t\<rparr>) = group_inv s"
  by (simp add: group_inv_def default_locked_def wf_world_def id_sets)

interpretation sound: open_hub_law sound st for st
proof
  fix m h assume "m \<in> operations st" "sound h"
  then show "sound (h\<lparr>db := snd (m (db h))\<rparr>)"
    by (simp add: sound_def keepsD [OF operations_keep_inv])
next
  fix h u assume "sound h"
  then show "sound (h\<lparr>db := snd (SetUserAccessRevoked u True (db h))\<rparr>)"
    by (simp add: sound_def keepsD [OF operations_keep_inv [OF operations.intros(3)]])
qed (simp_all add: sound_def)

lemma op_sound: "m \<in> operations st \<Longrightarrow> keeps sound (lift m)"
  by (rule keeps_lift) (simp add: sound_def keepsD [OF operations_keep_inv])

lemma web_sound:
  assumes "srv_store srv = st"
  shows "keeps sound (web_api srv unmarshal rq)"
proof -
  consider "restores rq" | "\<not> restores rq" "about_users rq" | "\<not> restores rq" "\<not> about_users rq" by blast
  then show ?thesis
  proof cases
    case 1
    then show ?thesis
      unfolding restore_route [OF 1]
      by (intro sound.requireAdmin_kept sound.restore_kept [OF op_sound assms] sound.broadcast_kept)
  next
    case 2
    have "keeps sound (web_set_user_access srv u uid b)" for u uid b
      unfolding web_set_user_access_def assms
      by (intro keeps_rules sound.disconnectUser_kept sound.changed_by_kept [OF assms] sound.Audit_kept op_sound operations.intros)
    then show ?thesis
      unfolding users_route [OF 2(2)] by (intro sound.requireAuth_kept sound.handleUsers_kept)
  next
    case 3
    with assms show ?thesis by (intro sound.web_api_calm_kept)
  qed
qed

lemma hub_step_sound:
  assumes "hub_step cfg st restoring h h'" and "sound h"
  shows "sound h'"
  using assms
proof cases
  case (accept cid)
  with assms(2) show ?thesis by (simp add: Accept_def sound_def)
next
  case (message cid msg)
  with assms(2) show ?thesis by (simp add: keepsD [OF sound.serve_kept])
next
  case (hangup cid)
  with assms(2) show ?thesis by (simp add: keepsD [OF sound.hang_up_kept])
next
  case (datagram sid pkt)
  with assms(2) show ?thesis by (simp add: keepsD [OF sound.relay_datagram_kept])
next
  case (web srv rq unmarshal)
  with assms(2) show ?thesis by (simp add: keepsD [OF web_sound])
next
  case (web_store m)
  with sound.store_moves [OF web_store(3,4) assms(2)] show ?thesis by simp
next
  case web_broadcast
  with assms(2) show ?thesis by (simp add: keepsD [OF sound.broadcast_kept])
qed (use assms(2) in \<open>simp_all add: sound_def quiet_group_inv_clock\<close>)

end
