(* ===== verification/HubSessions.thy ===== *)
theory HubSessions
  imports HubSteps
begin

text \<open>
  Sessions of the hub. Proved of every reachable hub: a registered client is the session of one open
  connection, and no session belongs to a user whose access is revoked, other than by a restored backup.
\<close>

section \<open>Sessions\<close>

text \<open>The identities behind clients and connections: their session id, connection and user id.\<close>

definition sessions :: "hub \<Rightarrow> (string \<times> nat \<times> int) list" where
  "sessions h = map (\<lambda>c. (cl_id c, cl_conn c, ID (cl_user c))) (clients h)"

definition logins :: "hub \<Rightarrow> (nat \<times> bool \<times> bool \<times> int \<times> string option) list" where
  "logins h = map (\<lambda>k. (c_id k, c_open k, c_authed k, ID (c_user k), c_session k)) (conns h)"

text \<open>What a calm message leaves alone: identities stay, nobody new is revoked.\<close>

definition calm_from ::
  "(string \<times> nat \<times> int) list \<Rightarrow> (nat \<times> bool \<times> bool \<times> int \<times> string option) list \<Rightarrow> int set \<Rightarrow> nat \<Rightarrow> (nat \<Rightarrow> string) \<Rightarrow> hub \<Rightarrow> bool"
where
  "calm_from ss ls B n us h \<longleftrightarrow> sessions h = ss \<and> distinct (map fst ss) \<and> logins h = ls \<and> banned (db h) \<subseteq> B
     \<and> n \<le> next_uuid h \<and> uuids h = us"

definition session_of :: "(string \<times> nat \<times> int) list \<Rightarrow> string \<Rightarrow> int \<Rightarrow> bool" where
  "session_of ss sid u \<longleftrightarrow> (\<forall>x \<in> set ss. fst x = sid \<longrightarrow> snd (snd x) = u)"

definition login_of :: "(nat \<times> bool \<times> bool \<times> int \<times> string option) list \<Rightarrow> nat \<Rightarrow> int \<Rightarrow> bool" where
  "login_of ls cid u \<longleftrightarrow> (\<forall>(k, _, _, v, _) \<in> set ls. k = cid \<longrightarrow> v = u)"

interpretation calm: hub_law "calm_from ss ls B n us" st "session_of ss" "login_of ls" for ss ls B n us st
proof
  fix m h assume "revokes_nobody m" "calm_from ss ls B n us h"
  then show "calm_from ss ls B n us (h\<lparr>db := snd (m (db h))\<rparr>)"
    by (auto simp: calm_from_def sessions_def logins_def revokes_nobody_def)
next
  fix h sid and u :: User assume "calm_from ss ls B n us h" and u: "session_of ss sid (ID u)"
  moreover have "map (\<lambda>c. (cl_id c, cl_conn c, ID (cl_user c))) (map (\<lambda>c. if cl_id c = sid then c\<lparr>cl_user := u\<rparr> else c) cs)
      = map (\<lambda>c. (cl_id c, cl_conn c, ID (cl_user c))) cs" if "map (\<lambda>c. (cl_id c, cl_conn c, ID (cl_user c))) cs = ss" for cs :: "wsClient list"
    using u that by (auto simp: session_of_def)
  ultimately show "calm_from ss ls B n us (h\<lparr>clients := map (\<lambda>c. if cl_id c = sid then c\<lparr>cl_user := u\<rparr> else c) (clients h)\<rparr>)"
    by (simp add: calm_from_def sessions_def logins_def del: map_map)
next
  fix h cid and u :: User assume "calm_from ss ls B n us h" and u: "login_of ls cid (ID u)"
  moreover have "map (\<lambda>k. (c_id k, c_open k, c_authed k, ID (c_user k), c_session k)) (map (\<lambda>k. if c_id k = cid then k\<lparr>c_user := u\<rparr> else k) ks)
      = map (\<lambda>k. (c_id k, c_open k, c_authed k, ID (c_user k), c_session k)) ks"
    if "map (\<lambda>k. (c_id k, c_open k, c_authed k, ID (c_user k), c_session k)) ks = ls" for ks :: "conn list"
    using u that by (auto simp: login_of_def)
  ultimately show "calm_from ss ls B n us (h\<lparr>conns := map (\<lambda>k. if c_id k = cid then k\<lparr>c_user := u\<rparr> else k) (conns h)\<rparr>)"
    by (simp add: calm_from_def sessions_def logins_def del: map_map)
next
  fix h c assume "calm_from ss ls B n us h" and c: "c \<in> set (clients h)"
  then have s: "ss = map (\<lambda>c. (cl_id c, cl_conn c, ID (cl_user c))) (clients h)" and d: "distinct (map cl_id (clients h))"
    by (auto simp: calm_from_def sessions_def comp_def)
  show "session_of ss (cl_id c) (ID (cl_user c))"
    unfolding session_of_def s using unique_key_eq [OF d _ c] by auto
qed (auto simp: calm_from_def sessions_def logins_def comp_def if_distrib)

section \<open>The session invariant\<close>

text \<open>
  Session ids are those handed out; each belongs to one connection; the registered clients are the
  sessions of the open, authenticated connections, with the same user. No client belongs to a banned
  user, apart from those in \<open>X\<close>: whom a revocation in progress is about to disconnect, or whom a
  restored backup revoked.
\<close>

definition session_ids_ok :: "(nat \<Rightarrow> string) \<Rightarrow> nat \<Rightarrow> (nat \<times> bool \<times> bool \<times> int \<times> string option) set \<Rightarrow> bool" where
  "session_ids_ok us n L \<longleftrightarrow> (\<forall>k op a v sid. (k, op, a, v, Some sid) \<in> L \<longrightarrow> sid \<in> us ` {..<n})
     \<and> (\<forall>k op a v k' op' a' v' sid. (k, op, a, v, Some sid) \<in> L \<longrightarrow> (k', op', a', v', Some sid) \<in> L \<longrightarrow> k = k')"

definition registered_ok :: "(string \<times> nat \<times> int) set \<Rightarrow> (nat \<times> bool \<times> bool \<times> int \<times> string option) set \<Rightarrow> bool" where
  "registered_ok S L \<longleftrightarrow> (\<forall>sid k v. (sid, k, v) \<in> S \<longleftrightarrow> (k, True, True, v, Some sid) \<in> L) \<and> (\<forall>k v. (k, True, True, v, None) \<notin> L)"

definition sess_inv :: "int set \<Rightarrow> hub \<Rightarrow> bool" where
  "sess_inv X h \<longleftrightarrow> inj (uuids h) \<and> distinct (map fst (sessions h)) \<and> distinct (map fst (logins h))
     \<and> session_ids_ok (uuids h) (next_uuid h) (set (logins h)) \<and> registered_ok (set (sessions h)) (set (logins h))
     \<and> (\<forall>x \<in> set (sessions h). snd (snd x) \<in> banned (db h) \<longrightarrow> snd (snd x) \<in> X)"

lemma view_simps [simp]:
  "sessions (h\<lparr>db := w\<rparr>) = sessions h" "logins (h\<lparr>db := w\<rparr>) = logins h"
  "sessions (h\<lparr>outbox := ob\<rparr>) = sessions h" "logins (h\<lparr>outbox := ob\<rparr>) = logins h"
  "sessions (h\<lparr>notified := nn\<rparr>) = sessions h" "logins (h\<lparr>notified := nn\<rparr>) = logins h"
  "sessions (h\<lparr>next_uuid := n\<rparr>) = sessions h" "logins (h\<lparr>next_uuid := n\<rparr>) = logins h"
  "sessions (h\<lparr>conns := ks\<rparr>) = sessions h" "logins (h\<lparr>clients := cs\<rparr>) = logins h"
  by (simp_all add: sessions_def logins_def)

lemma session_ids_mono: "session_ids_ok us n L \<Longrightarrow> n \<le> n' \<Longrightarrow> session_ids_ok us n' L"
  unfolding session_ids_ok_def using image_mono [of "{..<n}" "{..<n'}" us] by auto

lemma sess_inv_calm:
  "sess_inv X h \<Longrightarrow> calm_from (sessions h) (logins h) (banned (db h)) (next_uuid h) (uuids h) h' \<Longrightarrow> sess_inv X h'"
  by (auto simp: sess_inv_def calm_from_def session_ids_mono)

lemma calm_self: "sess_inv X h \<Longrightarrow> calm_from (sessions h) (logins h) (banned (db h)) (next_uuid h) (uuids h) h"
  by (simp add: calm_from_def sess_inv_def)

lemma keeps_sess: "(\<And>ss ls B n us. keeps (calm_from ss ls B n us) m) \<Longrightarrow> keeps (sess_inv X) m"
  by (rule keepsI) (metis calm_self keepsD sess_inv_calm)

lemmas sess_kept =
  keeps_sess [OF calm.writeJSON_kept] keeps_sess [OF calm.Audit_kept(1)] keeps_sess [OF calm.Audit_kept(2)]
  keeps_sess [OF calm.sendFullState_kept] keeps_sess [OF calm.broadcast_kept] keeps_sess [OF calm.notify_kept]
  keeps_sess [OF calm.relay_datagram_kept]

subsection \<open>Hanging up\<close>

lemma find_SomeD: "find P xs = Some x \<Longrightarrow> x \<in> set xs \<and> P x"
  by (auto simp: find_Some_iff)

lemma find_NoneD: "find P xs = None \<Longrightarrow> x \<in> set xs \<Longrightarrow> \<not> P x"
  by (auto simp: find_None_iff)

definition closed :: "nat set \<Rightarrow> nat \<times> bool \<times> bool \<times> int \<times> string option \<Rightarrow> nat \<times> bool \<times> bool \<times> int \<times> string option" where
  "closed K y = (case y of (k, op, a, v, s) \<Rightarrow> (k, op \<and> k \<notin> K, a, v, s))"

lemma fst_closed [simp]: "fst (closed K y) = fst y"
  by (simp add: closed_def split: prod.splits)

lemma in_closed_live: "(k, True, True, v, s) \<in> closed K ` L \<longleftrightarrow> k \<notin> K \<and> (k, True, True, v, s) \<in> L"
  by (force simp: closed_def)

lemma session_ids_closed: "session_ids_ok us n L \<Longrightarrow> session_ids_ok us n (closed K ` L)"
  unfolding session_ids_ok_def closed_def by (auto simp: image_iff split: prod.splits)

lemma logins_close:
  "logins (snd (update_conn cid (\<lambda>c. c\<lparr>c_open := False\<rparr>) h)) = map (closed {cid}) (logins h)"
  by (simp add: update_conn_def logins_def closed_def comp_def)

lemma sess_inv_close:
  assumes inv: "sess_inv X h" and ss: "set (sessions h') = {x \<in> set (sessions h). fst (snd x) \<notin> K}"
    and ds: "distinct (map fst (sessions h'))" and ls: "logins h' = map (closed K) (logins h)"
    and rest: "uuids h' = uuids h" "next_uuid h' = next_uuid h" and b: "banned (db h') \<subseteq> banned (db h)"
  shows "sess_inv X h'"
proof -
  have "distinct (map fst (logins h'))"
    using inv by (simp add: ls sess_inv_def comp_def)
  moreover have "registered_ok (set (sessions h')) (set (logins h'))"
    using inv by (auto simp: registered_ok_def ss ls in_closed_live sess_inv_def)
  moreover have "session_ids_ok (uuids h') (next_uuid h') (set (logins h'))"
    using inv by (simp add: ls rest sess_inv_def session_ids_closed)
  moreover have "\<forall>x \<in> set (sessions h'). snd (snd x) \<in> banned (db h') \<longrightarrow> snd (snd x) \<in> X"
    using inv b unfolding ss sess_inv_def by blast
  ultimately show ?thesis
    using inv by (simp add: sess_inv_def ds rest)
qed

lemma andThen_ok: "fst (m s) = Inr x \<Longrightarrow> andThen m f s = f x (snd (m s))"
  by (cases "m s") (simp add: andThen_def)

lemma ok_unit:
  "fst (update_conn cid f h) = Inr ()" "fst (update_client sid g h) = Inr ()" "fst (writeJSON cid r h) = Inr ()"
  "fst (notifyStateListeners h) = Inr ()"
  by (simp_all add: update_conn_def update_client_def writeJSON_def notifyStateListeners_def)

lemma unregister_view:
  "sessions (snd (unregister sid h)) = filter (\<lambda>x. fst x \<noteq> sid) (sessions h)"
  "logins (snd (unregister sid h)) = logins h" "db (snd (unregister sid h)) = db h"
  "uuids (snd (unregister sid h)) = uuids h" "next_uuid (snd (unregister sid h)) = next_uuid h"
  "fst (unregister sid h) = Inr ()"
proof -
  have "filter (\<lambda>x. fst x \<noteq> sid) (sessions h) = map (\<lambda>c. (cl_id c, cl_conn c, ID (cl_user c))) (filter (\<lambda>c. cl_id c \<noteq> sid) (clients h))"
    by (simp add: sessions_def filter_map comp_def)
  moreover have "filter (\<lambda>c. cl_id c \<noteq> sid) (clients h) = clients h" if "find (\<lambda>c. cl_id c = sid) (clients h) = None"
    using that by (auto simp: find_None_iff filter_id_conv)
  ultimately show
    "sessions (snd (unregister sid h)) = filter (\<lambda>x. fst x \<noteq> sid) (sessions h)"
    "logins (snd (unregister sid h)) = logins h" "db (snd (unregister sid h)) = db h"
    "uuids (snd (unregister sid h)) = uuids h" "next_uuid (snd (unregister sid h)) = next_uuid h"
    "fst (unregister sid h) = Inr ()"
    by (auto simp: unregister_def the_client_def andThen_def notifyStateListeners_def sessions_def logins_def split: option.splits)
qed

lemma login_unique:
  "distinct (map fst ls) \<Longrightarrow> (k, y) \<in> set ls \<Longrightarrow> (k, z) \<in> set ls \<Longrightarrow> y = z"
  using unique_key_eq [of fst ls "(k, y)" "(k, z)"] by simp

text \<open>A connection that has a session id has no other session; without one it has none.\<close>

lemma conn_session:
  assumes inv: "sess_inv X h" and c: "c \<in> set (conns h)" and x: "x \<in> set (sessions h)"
  shows "(case c_session c of None \<Rightarrow> fst (snd x) \<noteq> c_id c | Some sid \<Rightarrow> fst x = sid \<longleftrightarrow> fst (snd x) = c_id c)"
proof -
  obtain sid k v where xx: "x = (sid, k, v)" by (cases x)
  have l: "(k, True, True, v, Some sid) \<in> set (logins h)"
    using inv x xx by (simp add: sess_inv_def registered_ok_def)
  have c': "(c_id c, c_open c, c_authed c, ID (c_user c), c_session c) \<in> set (logins h)"
    using c by (auto simp: logins_def)
  have d: "distinct (map fst (logins h))" using inv by (simp add: sess_inv_def)
  have same: "k = c_id c \<Longrightarrow> c_session c = Some sid"
    using login_unique [OF d, of k] l c' by (metis prod.inject)
  have "c_session c = Some sid \<Longrightarrow> k = c_id c"
    using inv l c' unfolding sess_inv_def session_ids_ok_def by metis
  with same show ?thesis by (cases "c_session c") (auto simp: xx)
qed

lemma hang_up_view:
  assumes inv: "sess_inv X h"
  shows "set (sessions (snd (hang_up cid h))) = {x \<in> set (sessions h). fst (snd x) \<notin> {cid}}"
    "distinct (map fst (sessions (snd (hang_up cid h))))"
    "logins (snd (hang_up cid h)) = map (closed {cid}) (logins h)"
    "uuids (snd (hang_up cid h)) = uuids h" "next_uuid (snd (hang_up cid h)) = next_uuid h"
    "db (snd (hang_up cid h)) = db h" "fst (hang_up cid h) = Inr ()"
proof -
  let ?h1 = "snd (update_conn cid (\<lambda>c. c\<lparr>c_open := False\<rparr>) h)"
  have h1: "sessions ?h1 = sessions h" "uuids ?h1 = uuids h" "next_uuid ?h1 = next_uuid h" "db ?h1 = db h"
    by (simp_all add: update_conn_def)
  have conns1: "conns ?h1 = map (\<lambda>c. if c_id c = cid then c\<lparr>c_open := False\<rparr> else c) (conns h)"
    by (simp add: update_conn_def)
  have ds: "distinct (map fst (sessions h))" using inv by (simp add: sess_inv_def)
  obtain f where f: "find (\<lambda>c. c_id c = cid) (conns ?h1) = f" by simp
  have run: "hang_up cid h = (case f of None \<Rightarrow> ret () | Some c \<Rightarrow>
      (case c_session c of None \<Rightarrow> ret () | Some sid \<Rightarrow> unregister sid)) ?h1"
    unfolding hang_up_def by (subst andThen_ok [of _ _ "()"]) (simp_all add: ok_unit the_conn_def andThen_def f)
  have origin: "\<exists>c \<in> set (conns h). c_id c = cid \<and> c_session c = c_session c'" if "f = Some c'" for c'
  proof -
    have "c' \<in> set (conns ?h1) \<and> c_id c' = cid" using find_SomeD [OF f [unfolded that]] by simp
    then obtain c where "c \<in> set (conns h)" "c' = (if c_id c = cid then c\<lparr>c_open := False\<rparr> else c)" "c_id c' = cid"
      by (simp only: conns1 set_map) blast
    then show ?thesis by (cases "c_id c = cid") auto
  qed
  have none: "x \<in> set (sessions h) \<Longrightarrow> fst (snd x) \<noteq> cid" if "f = None" for x
  proof -
    assume x: "x \<in> set (sessions h)"
    obtain sid k v where xx: "x = (sid, k, v)" by (cases x)
    with x inv have "(k, True, True, v, Some sid) \<in> set (logins h)" by (simp add: sess_inv_def registered_ok_def)
    then obtain c where "c \<in> set (conns h)" "c_id c = k" by (auto simp: logins_def)
    moreover have "c_id c \<noteq> cid" if "c \<in> set (conns h)" for c
    proof -
      have "(if c_id c = cid then c\<lparr>c_open := False\<rparr> else c) \<in> set (conns ?h1)"
        using that by (simp add: conns1)
      from find_NoneD [OF f [unfolded \<open>f = None\<close>] this] show ?thesis by auto
    qed
    ultimately show ?thesis using xx by auto
  qed
  show "logins (snd (hang_up cid h)) = map (closed {cid}) (logins h)" "uuids (snd (hang_up cid h)) = uuids h"
    "next_uuid (snd (hang_up cid h)) = next_uuid h" "db (snd (hang_up cid h)) = db h" "fst (hang_up cid h) = Inr ()"
    unfolding run by (auto simp: logins_close h1 unregister_view split: option.splits)
  have keep: "sessions (snd (hang_up cid h)) = (case f of None \<Rightarrow> sessions h | Some c \<Rightarrow>
      (case c_session c of None \<Rightarrow> sessions h | Some sid \<Rightarrow> filter (\<lambda>x. fst x \<noteq> sid) (sessions h)))"
    unfolding run by (auto simp: h1 unregister_view split: option.splits)
  show "distinct (map fst (sessions (snd (hang_up cid h))))"
    unfolding keep using ds by (auto simp: distinct_map_filter split: option.splits)
  show "set (sessions (snd (hang_up cid h))) = {x \<in> set (sessions h). fst (snd x) \<notin> {cid}}"
  proof (cases f)
    case None
    with none keep show ?thesis by auto
  next
    case (Some c')
    with origin obtain c where c: "c \<in> set (conns h)" "c_id c = cid" "c_session c = c_session c'" by blast
    show ?thesis
      using conn_session [OF inv c(1)] c(2,3) Some keep by (auto split: option.splits)
  qed
qed

lemma hang_up_sess: "keeps (sess_inv X) (hang_up cid)"
proof (rule keepsI)
  fix h assume h: "sess_inv X h"
  show "sess_inv X (snd (hang_up cid h))"
    by (rule sess_inv_close [OF h hang_up_view(1-5) [OF h]]) (simp add: hang_up_view(6) [OF h])
qed

subsection \<open>Disconnecting a user\<close>

definition close_all :: "string \<Rightarrow> wsClient list \<Rightarrow> unit hm" where
  "close_all reason = for_each (\<lambda>c. andThen (writeJSON (cl_conn c) (ErrorMsg reason))
     (\<lambda>_. update_conn (cl_conn c) (\<lambda>k. k\<lparr>c_open := False\<rparr>)))"

lemma closed_twice: "closed K (closed {k} y) = closed (insert k K) y"
  by (auto simp: closed_def split: prod.splits)

lemma closed_none: "closed {} = (\<lambda>y. y)"
  by (auto simp: closed_def fun_eq_iff)

lemma writeJSON_view [simp]:
  "sessions (snd (writeJSON cid r h)) = sessions h" "logins (snd (writeJSON cid r h)) = logins h" "db (snd (writeJSON cid r h)) = db h"
  "uuids (snd (writeJSON cid r h)) = uuids h" "next_uuid (snd (writeJSON cid r h)) = next_uuid h"
  by (simp_all add: writeJSON_def)

lemma update_conn_view [simp]:
  "sessions (snd (update_conn cid f h)) = sessions h" "db (snd (update_conn cid f h)) = db h"
  "uuids (snd (update_conn cid f h)) = uuids h" "next_uuid (snd (update_conn cid f h)) = next_uuid h"
  by (simp_all add: update_conn_def)

lemma close_all_view:
  "fst (close_all r xs h) = Inr () \<and> sessions (snd (close_all r xs h)) = sessions h
   \<and> logins (snd (close_all r xs h)) = map (closed (cl_conn ` set xs)) (logins h) \<and> db (snd (close_all r xs h)) = db h
   \<and> uuids (snd (close_all r xs h)) = uuids h \<and> next_uuid (snd (close_all r xs h)) = next_uuid h"
proof (induction xs arbitrary: h)
  case Nil
  then show ?case by (simp add: close_all_def closed_none)
next
  case (Cons c xs)
  let ?h = "snd (update_conn (cl_conn c) (\<lambda>k. k\<lparr>c_open := False\<rparr>) (snd (writeJSON (cl_conn c) (ErrorMsg r) h)))"
  have "close_all r (c # xs) h = close_all r xs ?h"
    unfolding close_all_def for_each.simps
    by (simp add: andThen_ok ok_unit)
  then show ?case
    using Cons.IH [of ?h] by (simp add: logins_close closed_twice comp_def)
qed

lemma disconnectUser_view:
  assumes inv: "sess_inv X h"
  shows "fst (disconnectUser uid r h) = Inr ()" "db (snd (disconnectUser uid r h)) = db h"
    "sess_inv (X - {uid}) (snd (disconnectUser uid r h))"
    "\<forall>x \<in> set (sessions (snd (disconnectUser uid r h))). snd (snd x) \<noteq> uid"
proof -
  let ?gone = "filter (\<lambda>c. ID (cl_user c) = uid) (clients h)"
  let ?h1 = "h\<lparr>clients := filter (\<lambda>c. ID (cl_user c) \<noteq> uid) (clients h)\<rparr>"
  let ?h2 = "snd (close_all r ?gone ?h1)"
  have run: "disconnectUser uid r h = (if ?gone = [] then ret () else notifyStateListeners) ?h2"
    using close_all_view [of r ?gone ?h1] unfolding disconnectUser_def close_all_def
    by (simp add: andThen_ok)
  have out: "sessions (snd (disconnectUser uid r h)) = sessions ?h2" "logins (snd (disconnectUser uid r h)) = logins ?h2"
    "db (snd (disconnectUser uid r h)) = db ?h2" "uuids (snd (disconnectUser uid r h)) = uuids ?h2"
    "next_uuid (snd (disconnectUser uid r h)) = next_uuid ?h2" "fst (disconnectUser uid r h) = Inr ()"
    unfolding run by (simp_all add: notifyStateListeners_def)
  show "fst (disconnectUser uid r h) = Inr ()" by (rule out)
  show db: "db (snd (disconnectUser uid r h)) = db h"
    unfolding out using close_all_view [of r ?gone ?h1] by simp
  have ss: "sessions (snd (disconnectUser uid r h)) = filter (\<lambda>x. snd (snd x) \<noteq> uid) (sessions h)"
    unfolding out using close_all_view [of r ?gone ?h1] by (simp add: sessions_def filter_map comp_def)
  then show "\<forall>x \<in> set (sessions (snd (disconnectUser uid r h))). snd (snd x) \<noteq> uid" by simp
  have ls: "logins (snd (disconnectUser uid r h)) = map (closed (cl_conn ` set ?gone)) (logins h)"
    unfolding out using close_all_view [of r ?gone ?h1] by simp
  have reg: "(sid, k, v) \<in> set (sessions h) \<Longrightarrow> (k, True, True, v, Some sid) \<in> set (logins h)" for sid k v
    using inv by (simp add: sess_inv_def registered_ok_def)
  have K: "k \<in> cl_conn ` set ?gone \<longleftrightarrow> v = uid" if x: "(sid, k, v) \<in> set (sessions h)" for sid k v
  proof
    assume "k \<in> cl_conn ` set ?gone"
    then obtain c where c: "c \<in> set (clients h)" "ID (cl_user c) = uid" "cl_conn c = k" by auto
    then have "(cl_id c, k, uid) \<in> set (sessions h)" by (auto simp: sessions_def)
    from reg [OF this] reg [OF x] show "v = uid"
      using login_unique [of "logins h" k] inv by (auto simp: sess_inv_def)
  next
    assume "v = uid"
    with x show "k \<in> cl_conn ` set ?gone" by (auto simp: sessions_def)
  qed
  have eq: "set (sessions (snd (disconnectUser uid r h))) = {x \<in> set (sessions h). fst (snd x) \<notin> cl_conn ` set ?gone}"
  proof (rule set_eqI)
    fix x show "x \<in> set (sessions (snd (disconnectUser uid r h))) \<longleftrightarrow> x \<in> {x \<in> set (sessions h). fst (snd x) \<notin> cl_conn ` set ?gone}"
      using K [of "fst x" "fst (snd x)" "snd (snd x)"] by (cases "x \<in> set (sessions h)") (simp_all add: ss)
  qed
  have "sess_inv X (snd (disconnectUser uid r h))"
  proof (rule sess_inv_close [OF inv eq _ ls])
    show "distinct (map fst (sessions (snd (disconnectUser uid r h))))"
      unfolding ss using inv by (simp add: sess_inv_def distinct_map_filter)
  qed (use close_all_view [of r ?gone ?h1] in \<open>simp_all add: out\<close>)
  then show "sess_inv (X - {uid}) (snd (disconnectUser uid r h))"
    unfolding sess_inv_def by (auto simp: ss)
qed

subsection \<open>Establishing a session\<close>

definition relogin :: "nat \<Rightarrow> int \<Rightarrow> string \<Rightarrow> nat \<times> bool \<times> bool \<times> int \<times> string option \<Rightarrow> nat \<times> bool \<times> bool \<times> int \<times> string option" where
  "relogin cid u sid y = (case y of (k, op, a, v, s) \<Rightarrow> if k = cid then (k, op, True, u, Some sid) else y)"

lemma fst_relogin [simp]: "fst (relogin cid u sid y) = fst y"
  by (cases y) (simp add: relogin_def)

lemma relogin_mem:
  assumes "distinct (map fst ls)" and "(cid, True, a0, v0, s0) \<in> set ls"
  shows "(k, op, a, v, s) \<in> relogin cid u sid ` set ls \<longleftrightarrow>
    (if k = cid then op \<and> a \<and> v = u \<and> s = Some sid else (k, op, a, v, s) \<in> set ls)"
proof (cases "k = cid")
  case True
  have uniq: "y = (cid, True, a0, v0, s0)" if "y \<in> set ls" "fst y = cid" for y
    using login_unique [OF assms(1), of cid "snd y" "(True, a0, v0, s0)"] that assms(2) by (cases y) auto
  have hit: "relogin cid u sid y = (cid, True, True, u, Some sid)" if "y \<in> set ls" "fst y = cid" for y
    unfolding uniq [OF that] by (simp add: relogin_def)
  have "x = (cid, True, True, u, Some sid)" if "x \<in> relogin cid u sid ` set ls" "fst x = cid" for x
  proof -
    from that(1) obtain y where y: "y \<in> set ls" "x = relogin cid u sid y" by blast
    with that(2) have "fst y = cid" by simp
    with hit [OF y(1)] y(2) show ?thesis by simp
  qed
  from this [of "(k, op, a, v, s)"] have "(k, op, a, v, s) \<in> relogin cid u sid ` set ls \<Longrightarrow> op \<and> a \<and> v = u \<and> s = Some sid"
    using True by simp
  moreover have "relogin cid u sid (cid, True, a0, v0, s0) = (cid, True, True, u, Some sid)" by (rule hit) (simp_all add: assms(2))
  then have "(cid, True, True, u, Some sid) \<in> relogin cid u sid ` set ls"
    using assms(2) by (intro image_eqI [of _ _ "(cid, True, a0, v0, s0)"]) simp_all
  ultimately show ?thesis using True by auto
next
  case False
  then have other: "(k, op, a, v, s) = relogin cid u sid y \<longleftrightarrow> (k, op, a, v, s) = y" for y
    by (auto simp: relogin_def split: prod.splits)
  show ?thesis unfolding image_iff other using False by simp
qed

lemma register_view:
  "fst (register cid u ver h) = Inr \<lparr>cl_id = uuids h (next_uuid h), cl_conn = cid, cl_user = u, cl_version = ver, cl_relay = None\<rparr>"
  "sessions (snd (register cid u ver h)) = sessions h @ [(uuids h (next_uuid h), cid, ID u)]"
  "conns (snd (register cid u ver h)) = map (\<lambda>c. if c_id c = cid then c\<lparr>c_session := Some (uuids h (next_uuid h))\<rparr> else c) (conns h)"
  "db (snd (register cid u ver h)) = db h" "uuids (snd (register cid u ver h)) = uuids h"
  "next_uuid (snd (register cid u ver h)) = next_uuid h + 1"
  by (simp_all add: register_def fresh_uuid_def andThen_def Let_def update_conn_def notifyStateListeners_def sessions_def)

text \<open>The state in which a login sends the first full state.\<close>

definition registered :: "conn \<Rightarrow> User \<Rightarrow> string \<Rightarrow> hub \<Rightarrow> hub" where
  "registered c u ver h =
     snd (register (c_id c) u ver
       (snd ((case c_session c of None \<Rightarrow> ret () | Some sid \<Rightarrow> unregister sid)
         (snd (update_conn (c_id c) (\<lambda>k. k\<lparr>c_user := u, c_authed := True\<rparr>) h)))))"

lemma unregister_conns: "conns (snd (unregister sid h)) = conns h"
  by (auto simp: unregister_def the_client_def andThen_def notifyStateListeners_def split: option.splits)

lemma registered_view:
  assumes inv: "sess_inv X h" and c: "c \<in> set (conns h)"
  shows "set (sessions (registered c u ver h)) = insert (uuids h (next_uuid h), c_id c, ID u) {x \<in> set (sessions h). fst (snd x) \<noteq> c_id c}"
    "map fst (sessions (registered c u ver h)) = map fst (filter (\<lambda>x. fst (snd x) \<noteq> c_id c) (sessions h)) @ [uuids h (next_uuid h)]"
    "logins (registered c u ver h) = map (relogin (c_id c) (ID u) (uuids h (next_uuid h))) (logins h)"
    "db (registered c u ver h) = db h" "uuids (registered c u ver h) = uuids h"
    "next_uuid (registered c u ver h) = next_uuid h + 1"
proof -
  let ?h1 = "snd (update_conn (c_id c) (\<lambda>k. k\<lparr>c_user := u, c_authed := True\<rparr>) h)"
  let ?h2 = "snd ((case c_session c of None \<Rightarrow> ret () | Some sid \<Rightarrow> unregister sid) ?h1)"
  have h2: "db ?h2 = db h" "uuids ?h2 = uuids h" "next_uuid ?h2 = next_uuid h" "conns ?h2 = conns ?h1"
    by (auto simp: unregister_view unregister_conns split: option.splits)
  have "sessions ?h2 = (case c_session c of None \<Rightarrow> sessions h | Some sid \<Rightarrow> filter (\<lambda>x. fst x \<noteq> sid) (sessions h))"
    by (auto simp: unregister_view split: option.splits)
  also have "\<dots> = filter (\<lambda>x. fst (snd x) \<noteq> c_id c) (sessions h)"
  proof (cases "c_session c")
    case None
    then show ?thesis using conn_session [OF inv c] by (auto simp: filter_id_conv)
  next
    case (Some sid)
    then show ?thesis using conn_session [OF inv c] by (auto intro!: filter_cong)
  qed
  finally have s2: "sessions ?h2 = filter (\<lambda>x. fst (snd x) \<noteq> c_id c) (sessions h)" .
  show "set (sessions (registered c u ver h)) = insert (uuids h (next_uuid h), c_id c, ID u) {x \<in> set (sessions h). fst (snd x) \<noteq> c_id c}"
    "map fst (sessions (registered c u ver h)) = map fst (filter (\<lambda>x. fst (snd x) \<noteq> c_id c) (sessions h)) @ [uuids h (next_uuid h)]"
    unfolding registered_def register_view h2 s2 by auto
  show "db (registered c u ver h) = db h" "uuids (registered c u ver h) = uuids h" "next_uuid (registered c u ver h) = next_uuid h + 1"
    unfolding registered_def register_view h2 by simp_all
  have "logins (registered c u ver h) = map (\<lambda>k. (c_id k, c_open k, c_authed k, ID (c_user k), c_session k)) (conns (registered c u ver h))"
    by (simp add: logins_def)
  also have "conns (registered c u ver h) = map (\<lambda>k. if c_id k = c_id c then k\<lparr>c_user := u, c_authed := True, c_session := Some (uuids h (next_uuid h))\<rparr> else k) (conns h)"
    unfolding registered_def register_view h2 by (simp add: update_conn_def comp_def)
  finally show "logins (registered c u ver h) = map (relogin (c_id c) (ID u) (uuids h (next_uuid h))) (logins h)"
    by (simp add: logins_def relogin_def)
qed

lemma registered_sess:
  assumes inv: "sess_inv X h" and c: "c \<in> set (conns h)" "c_open c" and u: "ID u \<in> banned (db h) \<Longrightarrow> ID u \<in> X"
  shows "sess_inv X (registered c u ver h)"
proof -
  let ?h = "registered c u ver h" and ?cid = "c_id c" and ?sid = "uuids h (next_uuid h)"
  note view = registered_view [OF inv c(1), of u ver]
  have d: "distinct (map fst (sessions h))" "distinct (map fst (logins h))" and i: "inj (uuids h)"
    and ids: "session_ids_ok (uuids h) (next_uuid h) (set (logins h))" and reg: "registered_ok (set (sessions h)) (set (logins h))"
    using inv by (simp_all add: sess_inv_def)
  have old: "(?cid, True, c_authed c, ID (c_user c), c_session c) \<in> set (logins h)"
    using c by (force simp: logins_def)
  note mem = relogin_mem [OF d(2) old, of _ _ _ _ _ "ID u" ?sid]
  have "?sid \<notin> uuids h ` {..<next_uuid h}"
    using i by (auto dest: injD)
  then have fresh: "(k, op, a, v, Some ?sid) \<notin> set (logins h)" for k op a v
    using ids unfolding session_ids_ok_def by blast
  then have unused: "?sid \<notin> fst ` set (sessions h)"
    using reg by (force simp: registered_ok_def)
  have "distinct (map fst (sessions ?h))"
    using d(1) unused by (auto simp: view(2) distinct_map_filter)
  moreover have "distinct (map fst (logins ?h))"
    using d(2) by (simp add: view(3) comp_def)
  moreover have "session_ids_ok (uuids ?h) (next_uuid ?h) (set (logins ?h))"
    using session_ids_mono [OF ids le_add1, of 1] fresh unfolding session_ids_ok_def view(3,5,6) set_map mem
    by (auto split: if_splits)
  moreover have "registered_ok (set (sessions ?h)) (set (logins ?h))"
    using reg fresh unfolding registered_ok_def view(1,3) set_map mem by auto
  moreover have "\<forall>x \<in> set (sessions ?h). snd (snd x) \<in> banned (db ?h) \<longrightarrow> snd (snd x) \<in> X"
    using inv u unfolding view(1,4) by (auto simp: sess_inv_def)
  ultimately show ?thesis using i by (simp add: sess_inv_def view(5))
qed

lemma establish_run:
  "establish cfg st c u ver h =
     andThen (sendFullState cfg st (projr (fst (register (c_id c) u (TrimSpace ver) h')))) (\<lambda>_. lift (Audit st (ID u) ''ws_auth'' ver))
       (registered c u (TrimSpace ver) h)"
  if "h' = snd ((case c_session c of None \<Rightarrow> ret () | Some sid \<Rightarrow> unregister sid)
         (snd (update_conn (c_id c) (\<lambda>k. k\<lparr>c_user := u, c_authed := True\<rparr>) h)))"
proof -
  have un: "fst ((case c_session c of None \<Rightarrow> ret () | Some sid \<Rightarrow> unregister sid) g) = Inr ()" for g
    by (simp add: unregister_view split: option.splits)
  show ?thesis
    unfolding establish_def registered_def that
    by (subst andThen_ok [of _ _ "()"], simp add: ok_unit, subst andThen_ok [of _ _ "()"], simp add: un,
        subst andThen_ok, rule register_view(1)) (simp add: register_view(1))
qed

lemma establish_sess:
  assumes "sess_inv X h" and "c \<in> set (conns h)" "c_open c" and "ID u \<in> banned (db h) \<Longrightarrow> ID u \<in> X"
  shows "sess_inv X (snd (establish cfg st c u ver h))"
  unfolding establish_run [OF refl]
  by (rule keepsD [OF keeps_andThen]) (rule sess_kept registered_sess [OF assms])+

lemma establish_sessions:
  assumes "sess_inv X h" and "c \<in> set (conns h)" "c_open c" and "ID u \<in> banned (db h) \<Longrightarrow> ID u \<in> X"
  shows "sessions (snd (establish cfg st c u ver h)) = sessions (registered c u (TrimSpace ver) h)"
    and "banned (db (snd (establish cfg st c u ver h))) \<subseteq> banned (db h)"
proof -
  let ?h = "registered c u (TrimSpace ver) h"
  have "calm_from (sessions ?h) (logins ?h) (banned (db ?h)) (next_uuid ?h) (uuids ?h) (snd (establish cfg st c u ver h))"
    unfolding establish_run [OF refl]
    by (rule keepsD [OF keeps_andThen]) (rule calm.sendFullState_kept calm.Audit_kept(1) calm_self registered_sess [OF assms])+
  then show "sessions (snd (establish cfg st c u ver h)) = sessions ?h"
    "banned (db (snd (establish cfg st c u ver h))) \<subseteq> banned (db h)"
    using registered_view(4) [OF assms(1,2)] by (simp_all add: calm_from_def)
qed

interpretation same_users: reading_law "\<lambda>h. users (db h) = us" for us
  by unfold_locales simp_all

lemma users_of_session:
  assumes "sess_inv X h" and "c \<in> set (conns h)" "c_open c"
  shows "users (db (snd (establish cfg st c u ver h))) = users (db h)"
proof -
  have "keeps (\<lambda>h. users (db h) = us) (lift (Audit st i a d))" for us i a d
    unfolding Audit_def by (rule keeps_lift) (simp add: frameD [OF users_framed_shares(3)])
  then have "keeps (\<lambda>h. users (db h) = us) (andThen (sendFullState cfg st cl) (\<lambda>_. lift (Audit st i a d)))" for us cl i a d
    by (intro keeps_andThen same_users.sendFullState_kept)
  from keepsD [OF this] show ?thesis
    unfolding establish_run [OF refl] using registered_view(4) [OF assms(1,2)] by simp
qed

lemma establish_registers:
  assumes "sess_inv X h" and "c \<in> set (conns h)" "c_open c"
  shows "\<exists>cl \<in> set (clients (snd (establish cfg st c u ver h))). ID (cl_user cl) = ID u"
proof -
  have inv: "sess_inv (insert (ID u) X) h" using assms(1) by (auto simp: sess_inv_def)
  then have "(uuids h (next_uuid h), c_id c, ID u) \<in> set (sessions (snd (establish cfg st c u ver h)))"
    using establish_sessions(1) [OF inv assms(2,3)] registered_view(1) [OF inv assms(2)] by simp
  then show ?thesis by (auto simp: sessions_def)
qed

text \<open>
  The second half of a login does not look at the user again: if his access was revoked, and his other
  sessions were disconnected, after the token was checked, he gets a session all the same.
\<close>

lemma late_session:
  assumes "sess_inv X h" and "c \<in> set (conns h)" "c_open c" and "ID u \<in> banned (db h)"
  shows "\<exists>cl \<in> set (clients (snd (establish cfg st c u ver h))). ID (cl_user cl) \<in> banned (db (snd (establish cfg st c u ver h)))"
proof -
  have "banned (db (snd (establish cfg st c u ver h))) = banned (db h)"
    by (simp only: banned_def users_of_session [OF assms(1-3)])
  with assms(4) establish_registers [OF assms(1-3), where u = u and cfg = cfg and st = st and ver = ver] show ?thesis by auto
qed

subsection \<open>Revoking access\<close>

lemma users_same_banned: "users s' = users s \<Longrightarrow> banned s' = banned s"
  by (simp add: banned_def)

lemma revoke_sess:
  assumes "\<And>e. keeps (sess_inv X) (f e)" and "\<And>h x. sess_inv (insert uid X) h \<Longrightarrow> sess_inv X (snd (g x h))"
  shows "keeps (sess_inv X) (attempt (lift (SetUserAccessRevoked uid True)) (\<lambda>r. case r of Inl e \<Rightarrow> f e | Inr x \<Rightarrow> g x))"
proof (rule keepsI)
  fix h assume h: "sess_inv X h"
  show "sess_inv X (snd (attempt (lift (SetUserAccessRevoked uid True)) (\<lambda>r. case r of Inl e \<Rightarrow> f e | Inr x \<Rightarrow> g x) h))"
  proof (cases rule: SetUserAccessRevoked_cases [of uid True "db h"])
    case (updated s')
    have "banned s' \<subseteq> insert uid (banned (db h))"
      using banned_SetUserAccessRevoked [of uid True "db h"] updated(1) by simp
    with h have "sess_inv (insert uid X) (h\<lparr>db := s'\<rparr>)"
      by (auto simp: sess_inv_def)
    from assms(2) [OF this] show ?thesis
      by (simp add: attempt_def lift_eq updated(1))
  next
    case (failed e s')
    from h have "sess_inv X (h\<lparr>db := s'\<rparr>)"
      by (simp add: sess_inv_def users_same_banned [OF failed(2)])
    from keepsD [OF assms(1) this] show ?thesis
      by (simp add: attempt_def lift_eq failed(1))
  qed
qed

lemma sess_inv_mono: "X \<subseteq> Y \<Longrightarrow> sess_inv X h \<Longrightarrow> sess_inv Y h"
  by (auto simp: sess_inv_def)

lemma disconnect_sess: "sess_inv (insert uid X) h \<Longrightarrow> sess_inv X (snd (disconnectUser uid r h))"
  using disconnectUser_view(3) [of "insert uid X" h uid r] sess_inv_mono [of "insert uid X - {uid}" X] by simp

lemma Audit_ok: "fst (lift (AuditAccount st u i a d) h) = Inr ()" "fst (lift (Audit st u a d) h) = Inr ()"
  by (simp_all add: Audit_def AuditAccount_def SealString_def Seal_def andThen_def attempt_def ignore_def rand_read_def ret_def split: prod.splits sum.splits)

lemma admin_revoke_sess: "keeps (sess_inv X) (admin_set_user_access cfg st cid user rid uid True)"
proof -
  have seq: "sess_inv X (snd (andThen (lift (Audit st u a d)) (\<lambda>_. andThen (disconnectUser uid r) (\<lambda>_. m)) h))"
    if "sess_inv (insert uid X) h" "keeps (sess_inv X) m" for h u a d r m
  proof -
    have 1: "sess_inv (insert uid X) (snd (lift (Audit st u a d) h))"
      by (rule keepsD [OF sess_kept(2) that(1)])
    show ?thesis
      using keepsD [OF that(2) disconnect_sess [OF 1]] disconnectUser_view(1) [OF 1]
      by (simp add: andThen_ok [OF Audit_ok(2)] andThen_ok)
  qed
  show ?thesis
    unfolding admin_set_user_access_def trying_def Let_def if_True
    by (intro keeps_if sess_kept revoke_sess) (rule seq, assumption, intro keeps_andThen sess_kept)
qed

interpretation sess: reading_law "sess_inv X" for X
  by unfold_locales (simp_all add: sess_inv_def sessions_def logins_def banned_def)

lemma web_access_sess:
  assumes "srv_store srv = st"
  shows "keeps (sess_inv X) (web_set_user_access srv actor uid b)"
proof -
  have done_kept: "keeps (sess_inv X) (changed_by srv (Audit st i a d) x)" for i a d x
    by (intro keeps_sess calm.changed_by_kept [OF assms] calm.Audit_kept)
  have seq: "sess_inv X (snd (andThen (disconnectUser uid r) (\<lambda>_. m) h))" if "sess_inv (insert uid X) h" "keeps (sess_inv X) m" for h r m
    using keepsD [OF that(2) disconnect_sess [OF that(1)]] disconnectUser_view(1) [OF that(1)] by (simp add: andThen_ok)
  have "keeps (sess_inv X) (web_set_user_access srv actor uid True)"
    unfolding web_set_user_access_def storing_def if_True assms
    by (intro keeps_if keeps_answers revoke_sess) (rule seq, assumption, rule done_kept)
  moreover have "keeps (sess_inv X) (lift (SetUserAccessRevoked uid False))"
    by (intro keeps_sess calm.store_op_unit operations.intros nobody_revoked)
  then have "keeps (sess_inv X) (web_set_user_access srv actor uid False)"
    unfolding web_set_user_access_def if_False assms by (intro keeps_if keeps_ret keeps_answers keeps_storing keeps_andThen done_kept)
  ultimately show ?thesis by (cases b) simp_all
qed

lemma web_sess:
  assumes "srv_store srv = st" and "\<not> restores rq"
  shows "keeps (sess_inv X) (web_api srv unmarshal rq)"
proof (cases "about_users rq")
  case True
  then show ?thesis
    unfolding users_route [OF True] by (intro sess.requireAuth_kept sess.handleUsers_kept web_access_sess [OF assms(1)])
next
  case False
  with assms show ?thesis by (intro keeps_sess calm.web_api_calm_kept)
qed

subsection \<open>Messages\<close>

text \<open>From a hub whose identities are those of \<open>h\<close> an action leads to a hub with the invariant.\<close>

definition lands :: "int set \<Rightarrow> hub \<Rightarrow> 'a hm \<Rightarrow> bool" where
  "lands X h m \<longleftrightarrow> (\<forall>h'. calm_from (sessions h) (logins h) (banned (db h)) (next_uuid h) (uuids h) h' \<longrightarrow> sess_inv X (snd (m h')))"

lemma lands_andThen:
  "sess_inv X h \<Longrightarrow> keeps (calm_from (sessions h) (logins h) (banned (db h)) (next_uuid h) (uuids h)) m \<Longrightarrow>
   (\<And>x. lands X h (f x)) \<Longrightarrow> lands X h (andThen m f)"
  unfolding lands_def
proof (intro allI impI)
  let ?C = "calm_from (sessions h) (logins h) (banned (db h)) (next_uuid h) (uuids h)"
  fix h' assume inv: "sess_inv X h" and m: "keeps ?C m" and f: "\<And>x. \<forall>h'. ?C h' \<longrightarrow> sess_inv X (snd (f x h'))" and h': "?C h'"
  obtain r h2 where run: "m h' = (r, h2)" by (cases "m h'")
  with keepsD [OF m h'] have h2: "?C h2" by simp
  show "sess_inv X (snd (andThen m f h'))"
    using f h2 sess_inv_calm [OF inv h2] by (cases r) (simp_all add: andThen_def run)
qed

lemma lands_kept: "sess_inv X h \<Longrightarrow> keeps (sess_inv X) m \<Longrightarrow> lands X h m"
  unfolding lands_def keeps_def using sess_inv_calm by blast

lemma lands_if: "(b \<Longrightarrow> lands X h m) \<Longrightarrow> (\<not> b \<Longrightarrow> lands X h n) \<Longrightarrow> lands X h (if b then m else n)"
  by simp

lemma lands_option: "(x = None \<Longrightarrow> lands X h m) \<Longrightarrow> (\<And>y. x = Some y \<Longrightarrow> lands X h (f y)) \<Longrightarrow> lands X h (case x of None \<Rightarrow> m | Some y \<Rightarrow> f y)"
  by (cases x) auto

lemma landsD: "lands X h m \<Longrightarrow> sess_inv X h \<Longrightarrow> sess_inv X (snd (m h))"
  unfolding lands_def by (blast intro: calm_self)

lemma UserByToken_not_banned:
  assumes "wf_world w" and "UserByToken raw w = (Inr (u, t), w')"
  shows "ID u \<notin> banned w" and "banned w' = banned w"
proof -
  from assms(2) have u: "u \<in> set (users w)" "\<not> AccessRevoked u" by (auto elim: UserByToken_InrD)
  have "distinct (map ID (users w))" using assms(1) by (simp add: wf_world_def wf_users_def)
  from unique_key_eq [OF this _ u(1)] u(2) show "ID u \<notin> banned w" by (auto simp: banned_def)
  show "banned w' = banned w"
    using frame_result [OF users_framed(14) assms(2)] by (simp add: banned_def)
qed

lemma reject_sess: "keeps (sess_inv X) (reject cid r)"
  unfolding reject_def by (intro keeps_andThen sess_kept hang_up_sess)

lemma reject_then:
  assumes "sess_inv X h" and none: "f None = ret ()"
  shows "sess_inv X (snd (andThen (andThen (reject cid r) (\<lambda>_. ret None)) f h))"
proof -
  obtain x h' where run: "reject cid r h = (x, h')" by (cases "reject cid r h")
  with keeps_result [OF reject_sess assms(1)] have "sess_inv X h'" by blast
  then show ?thesis by (cases x) (simp_all add: andThen_def run none)
qed

lemma handleAuth_sess:
  assumes inv: "sess_inv X h" and wf: "wf_world (db h)" and c: "c \<in> set (conns h)" "c_open c"
  shows "sess_inv X (snd (handleAuth cfg st c t v w h))"
proof (cases "v = ProtocolVersion cfg")
  case False
  then have "handleAuth cfg st c t v w h = andThen (andThen (reject (c_id c) (UnsupportedProtocol (ProtocolVersion cfg) v)) (\<lambda>_. ret None))
      (\<lambda>u. case u of None \<Rightarrow> ret () | Some user \<Rightarrow> establish cfg st c user w) h"
    by (simp add: handleAuth_def authenticate_def)
  then show ?thesis by (simp only:) (rule reject_then [OF inv], simp)
next
  case True
  obtain r w' where run: "UserByToken t (db h) = (r, w')" by (cases "UserByToken t (db h)")
  show ?thesis
  proof (cases r)
    case (Inl e)
    have us: "users w' = users (db h)" using frame_result [OF users_framed(14) run] .
    with inv have h': "sess_inv X (h\<lparr>db := w'\<rparr>)" by (simp add: sess_inv_def users_same_banned [OF us])
    have "handleAuth cfg st c t v w h = andThen (andThen (reject (c_id c) (ErrorMsg ''unauthorized'')) (\<lambda>_. ret None))
        (\<lambda>u. case u of None \<Rightarrow> ret () | Some user \<Rightarrow> establish cfg st c user w) (h\<lparr>db := w'\<rparr>)"
      using True Inl by (simp add: handleAuth_def authenticate_def andThen_def attempt_def lift_eq run)
    then show ?thesis by (simp only:) (rule reject_then [OF h'], simp)
  next
    case (Inr x)
    obtain u i where x: "x = (u, i)" by (cases x)
    note nb = UserByToken_not_banned [OF wf run [unfolded Inr x]]
    have "sess_inv X (h\<lparr>db := w'\<rparr>)" using inv nb(2) by (simp add: sess_inv_def)
    from establish_sess [OF this, of c u] c nb show ?thesis
      using True Inr x by (simp add: handleAuth_def authenticate_def andThen_def attempt_def lift_eq run)
  qed
qed

lemma known_conn:
  assumes inv: "sess_inv X h" and c: "c \<in> set (conns h)" "c_open c"
    and client: "\<And>cl. client = Some cl \<Longrightarrow> cl \<in> set (clients h) \<and> c_session c = Some (cl_id cl)"
  shows "calm.known (sessions h) (logins h) c client"
  unfolding calm.known_def
proof (intro impI conjI allI)
  assume a: "c_authed c"
  have l: "(c_id c, True, True, ID (c_user c), c_session c) \<in> set (logins h)"
    using c a by (force simp: logins_def)
  show "login_of (logins h) (c_id c) (ID (c_user c))"
    unfolding login_of_def using login_unique [of "logins h" "c_id c"] l inv by (fastforce simp: sess_inv_def)
  fix cl assume "client = Some cl"
  from client [OF this] have cl: "c_session c = Some (cl_id cl)" by simp
  with l inv have s: "(cl_id cl, c_id c, ID (c_user c)) \<in> set (sessions h)"
    by (simp add: sess_inv_def registered_ok_def)
  show "session_of (sessions h) (cl_id cl) (ID (c_user c))"
    unfolding session_of_def using unique_key_eq [of fst "sessions h" _ "(cl_id cl, c_id c, ID (c_user c))"] s inv
    by (fastforce simp: sess_inv_def)
qed

lemma serve_sess:
  assumes inv: "sess_inv X h" and wf: "wf_world (db h)"
  shows "sess_inv X (snd (serve cfg st cid msg h))"
proof (cases "find (\<lambda>c. c_id c = cid) (conns h)")
  case None
  with inv show ?thesis by (simp add: serve_def the_conn_def andThen_def)
next
  case (Some c)
  note c = find_SomeD [OF Some]
  define client where "client = (case c_session c of None \<Rightarrow> None | Some sid \<Rightarrow> find (\<lambda>x. cl_id x = sid) (clients h))"
  have run: "serve cfg st cid msg h = (if \<not> c_open c then ret () else dispatch cfg st c client msg) h"
    using Some by (simp add: serve_def the_conn_def the_client_def andThen_def client_def split: option.splits)
  show ?thesis
  proof (cases "c_open c")
    case False
    with inv show ?thesis by (simp add: run)
  next
    case True
    have cl: "client = Some cl \<Longrightarrow> cl \<in> set (clients h) \<and> c_session c = Some (cl_id cl)" for cl
      by (auto simp: client_def dest: find_SomeD split: option.splits)
    note k = known_conn [OF inv conjunct1 [OF c] True cl]
    let ?C = "calm_from (sessions h) (logins h) (banned (db h)) (next_uuid h) (uuids h)"
    have "sess_inv X (snd (dispatch cfg st c client msg h))"
    proof (cases "calm msg")
      case True
      from keepsD [OF calm.dispatch_calm_kept [OF this k] calm_self [OF inv]] show ?thesis
        by (rule sess_inv_calm [OF inv])
    next
      case nc: False
      show ?thesis
      proof (cases msg)
        case (Auth t v w)
        with handleAuth_sess [OF inv wf conjunct1 [OF c] True] show ?thesis by (simp add: dispatch_def Let_def)
      next
        case (AdminSetUserAccess rid uid b)
        with nc have b: "msg = AdminSetUserAccess rid uid True" by simp
        have last: "keeps (sess_inv X) (admin_message cfg st i u q msg)" for i u q
          by (simp add: b admin_message_def admin_revoke_sess)
        have "lands X h (handleAdmin cfg st c client msg rid)"
          unfolding handleAdmin_def Let_def
          by (intro lands_andThen [OF inv] lands_option lands_if calm.request_id_kept calm.allow_kept
              lands_kept [OF inv last] lands_kept [OF inv sess_kept(1)] calm.refresh_known [OF k])
            (simp_all split: if_splits)
        from landsD [OF this inv] b show ?thesis by (simp add: dispatch_def Let_def)
      qed (use nc in simp_all)
    qed
    with True show ?thesis by (simp add: run)
  qed
qed

section \<open>Reachable hubs\<close>

lemma Accept_sess: "keeps (sess_inv X) (Accept cid)"
proof (rule keepsI)
  fix h assume inv: "sess_inv X h"
  show "sess_inv X (snd (Accept cid h))"
  proof (cases "cid \<in> c_id ` set (conns h)")
    case True
    with inv show ?thesis by (simp add: Accept_def)
  next
    case False
    let ?h = "h\<lparr>conns := conns h @ [fresh_conn cid]\<rparr>"
    have ls: "logins ?h = logins h @ [(cid, True, False, 0, None)]"
      by (simp add: logins_def fresh_conn_def zero_user_def)
    have "cid \<notin> fst ` set (logins h)" using False by (force simp: logins_def)
    moreover have "session_ids_ok us n (insert (cid, True, False, 0, None) L)" if "session_ids_ok us n L" for us n L
      using that by (simp add: session_ids_ok_def)
    moreover have "registered_ok S (insert (cid, True, False, 0, None) L)" if "registered_ok S L" for S L
      using that by (simp add: registered_ok_def)
    ultimately show ?thesis
      using inv False by (simp add: Accept_def sess_inv_def ls)
  qed
qed

text \<open>A restored backup leaves all identities alone; the users it revokes keep their sessions.\<close>

lemma restore_calm:
  assumes "srv_store srv = st" and "restores rq"
  shows "keeps (calm_from ss ls UNIV n us) (web_api srv unmarshal rq)"
proof -
  have "keeps (calm_from ss ls UNIV n us) (lift m)" for m :: "'x db"
    by (rule keeps_lift) (simp add: calm_from_def)
  then show ?thesis
    unfolding restore_route [OF assms(2)] by (intro calm.requireAdmin_kept calm.restore_kept [OF _ assms(1)] calm.broadcast_kept)
qed

lemma by_backup_sess: "sess_inv (R \<union> (if b then banned (db h') - banned (db h) else {})) h' \<Longrightarrow> sess_inv (by_backup b R h h') h'"
  by (auto simp: sess_inv_def by_backup_def)

lemma restore_sess:
  assumes "srv_store srv = st" and "restores rq" and inv: "sess_inv X h" and h': "h' = snd (web_api srv unmarshal rq h)"
  shows "sess_inv (X \<union> (banned (db h') - banned (db h))) h'"
proof -
  have "calm_from (sessions h) (logins h) UNIV (next_uuid h) (uuids h) h"
    using inv by (simp add: calm_from_def sess_inv_def)
  from keepsD [OF restore_calm [OF assms(1,2)] this] inv show ?thesis
    unfolding h' by (auto simp: sess_inv_def calm_from_def session_ids_mono)
qed

lemma hub_step_sess:
  assumes "hub_step cfg st restoring h h'" and inv: "sess_inv X h" and "sound h"
  shows "sess_inv (X \<union> (if restoring then banned (db h') - banned (db h) else {})) h'"
proof -
  have "sess_inv X h'" if "\<not> restoring"
    using assms(1)
  proof cases
    case (accept cid)
    with inv show ?thesis by (simp add: keepsD [OF Accept_sess])
  next
    case (message cid msg)
    from assms(3) have "wf_world (db h)" by (simp add: sound_def group_inv_def)
    from serve_sess [OF inv this] message show ?thesis by simp
  next
    case (hangup cid)
    with inv show ?thesis by (simp add: keepsD [OF hang_up_sess])
  next
    case (datagram sid pkt)
    with inv show ?thesis by (simp add: keepsD [OF sess_kept(7)])
  next
    case (web srv rq unmarshal)
    with inv that show ?thesis by (simp add: keepsD [OF web_sess])
  next
    case (web_store m)
    have "keeps (sess_inv X) (lift m)" by (rule keeps_sess) (rule calm.store_op_unit [OF web_store(3,4)])
    from keepsD [OF this inv] web_store show ?thesis by simp
  next
    case web_broadcast
    with inv show ?thesis by (simp add: keepsD [OF sess_kept(5)])
  qed (use inv in \<open>simp_all add: sess_inv_def sessions_def logins_def banned_def\<close>)
  moreover have "sess_inv (X \<union> (banned (db h') - banned (db h))) h'" if restoring
    using assms(1)
  proof cases
    case (web srv rq unmarshal)
    with that have "restores rq" by simp
    from restore_sess [OF _ this inv] web show ?thesis by blast
  qed (use that in simp_all)
  ultimately show ?thesis by simp
qed

lemma served_group_inv: "served st w \<Longrightarrow> group_inv w"
  by (induction rule: served.induct) (auto intro: start_inv store_step_inv)

lemma hub_reach_inv:
  assumes "hub_reach cfg st R h"
  shows "sess_inv R h \<and> sound h"
  using assms
proof induction
  case (start w us d)
  then show ?case
    by (simp add: start_hub_def sound_def served_group_inv sess_inv_def sessions_def logins_def session_ids_ok_def registered_ok_def)
next
  case (step R h restoring h')
  then show ?case using by_backup_sess [OF hub_step_sess] hub_step_sound by blast
qed

section \<open>A reachable hub with a session\<close>

text \<open>Two users, one of them revoked, and a token of the other.\<close>

definition guild_world :: world where
  "guild_world = snd (SetUserAccessRevoked 2 True (snd (UpsertUser ''43'' ''Bob'' [] (snd (UpsertUser ''42'' ''Ann'' []
     (snd (EnsureDefaultGroup empty_world)))))))"

definition ann :: User where
  "ann = \<lparr>ID = 1, DiscordID = ''42'', DisplayName = ''Ann'', RoleIDs = [], AccessRevoked = False\<rparr>"

definition bob :: User where
  "bob = \<lparr>ID = 2, DiscordID = ''43'', DisplayName = ''Bob'', RoleIDs = [], AccessRevoked = True\<rparr>"

lemma guild_world_facts: "users guild_world = [ann, bob]" "tokens guild_world = []" "faults guild_world = []"
  by code_simp+

lemma empty_start: "empty_world = empty_world\<lparr>clock := 0, entropy := (\<lambda>_. 0)\<rparr>"
  by (simp add: empty_world_def)

lemma guild_world_served: "served st guild_world"
proof -
  have "served st (snd (EnsureDefaultGroup empty_world))"
    by (subst empty_start) (rule served_seeded)
  then have "served st (snd (ignore (UpsertUser ''42'' ''Ann'' []) (snd (EnsureDefaultGroup empty_world))))"
    by (rule served.step) (intro store_step.operation operations.intros)
  then have "served st (snd (ignore (UpsertUser ''43'' ''Bob'' []) (snd (ignore (UpsertUser ''42'' ''Ann'' []) (snd (EnsureDefaultGroup empty_world))))))"
    by (rule served.step) (intro store_step.operation operations.intros)
  then have "served st (snd (SetUserAccessRevoked 2 True (snd (ignore (UpsertUser ''43'' ''Bob'' []) (snd (ignore (UpsertUser ''42'' ''Ann'' []) (snd (EnsureDefaultGroup empty_world))))))))"
    by (rule served.step) (intro store_step.operation operations.intros)
  then show ?thesis by (simp only: guild_world_def ignore_apply snd_conv)
qed

lemma served_wf: "served st w \<Longrightarrow> wf_world w"
  by (drule served_group_inv) (simp add: group_inv_def)

lemma token_for_ann:
  obtains raw w i w' where "served st w" "users w = [ann, bob]" "UserByToken raw w = (Inr (ann, i), w')"
proof -
  have a: "ann \<in> set (users guild_world)" "\<not> AccessRevoked ann" "\<And>raw. HashToken raw \<notin> t_hash ` set (tokens guild_world)"
    by (simp_all add: guild_world_facts ann_def)
  note wf = served_wf [OF guild_world_served]
  obtain raw tid w where ct: "CreateToken st (ID ann) guild_world = (Inr (raw, tid), w)" "faults w = []"
    by (rule CreateToken_succeeds [OF wf a(1,2) guild_world_facts(3) a(3)])
  note act = CreateToken_active [OF ct(1)]
  have us: "users w = [ann, bob]" using act(6) guild_world_facts(1) by simp
  have "served st (snd (ignore (CreateToken st (ID ann)) guild_world))"
    by (rule served.step [OF guild_world_served]) (intro store_step.operation operations.intros)
  then have sv: "served st w" by (simp add: ct(1))
  have "UserByID (ID ann) w = (Inr ann, w)"
    using us by (intro UserByID_found served_wf [OF sv] ct(2)) simp
  then have "fst (UserByToken raw w) = Inr (ann, tid)"
    using act(2,4,5) a(2) ct(2) by (simp add: UserByToken_def query_row_no_faults)
  then obtain w' where "UserByToken raw w = (Inr (ann, tid), w')" by (metis prod.collapse)
  with sv us show thesis by (rule that)
qed

definition quiet_hub :: HubConfig where
  "quiet_hub = \<lparr>AdminRoleID = [], BootstrapAdminIDs = [], ProtocolVersion = 1, ratePerMin = 30\<rparr>"

lemma calm_run: "hub_reach cfg st {} h \<Longrightarrow> hub_step cfg st False h h' \<Longrightarrow> hub_reach cfg st {} h'"
  using hub_reach.step [of cfg st "{}" h False h'] by (simp add: by_backup_def)

lemma session_exists:
  obtains h cl where "hub_reach quiet_hub sample_store {} h" "users (db h) = [ann, bob]" "cl \<in> set (clients h)" "ID (cl_user cl) = 1"
proof -
  obtain raw w i w' where w: "served sample_store w" "users w = [ann, bob]" "UserByToken raw w = (Inr (ann, i), w')"
    by (rule token_for_ann)
  let ?us = "\<lambda>n :: nat. replicate n CHR ''u''"
  have us: "inj ?us" by (rule injI) (metis length_replicate)
  let ?h0 = "start_hub w 60 ?us" and ?c = "fresh_conn 7"
  let ?h1 = "snd (Accept 7 ?h0)"
  have r0: "hub_reach quiet_hub sample_store {} ?h0" by (rule hub_reach.start [OF w(1) us])
  have r1: "hub_reach quiet_hub sample_store {} ?h1" by (rule calm_run [OF r0 hub_step.accept])
  let ?h2 = "snd (serve quiet_hub sample_store 7 (Auth raw 1 ''1.0'') ?h1)"
  have r2: "hub_reach quiet_hub sample_store {} ?h2" by (rule calm_run [OF r1 hub_step.message])
  have h1: "conns ?h1 = [?c]" "db ?h1 = w" by (simp_all add: Accept_def start_hub_def)
  let ?g = "?h1\<lparr>db := w'\<rparr>"
  have wf: "wf_world w" by (rule served_wf [OF w(1)])
  note nb = UserByToken_not_banned [OF wf w(3)]
  have run: "?h2 = snd (establish quiet_hub sample_store ?c ann ''1.0'' ?g)"
    using w(3) h1 by (simp add: serve_def the_conn_def andThen_def fresh_conn_def dispatch_def Let_def handleAuth_def
        authenticate_def attempt_def lift_eq quiet_hub_def)
  have "sess_inv {} ?h1" using hub_reach_inv [OF r1] by simp
  then have inv: "sess_inv {} ?g" using nb(2) h1(2) by (simp add: sess_inv_def)
  have c: "?c \<in> set (conns ?g)" "c_open ?c" using h1 by (simp_all add: fresh_conn_def)
  have "\<exists>cl \<in> set (clients ?h2). ID (cl_user cl) = ID ann"
    unfolding run by (rule establish_registers [OF inv c])
  then obtain cl where cl: "cl \<in> set (clients ?h2)" "ID (cl_user cl) = 1" by (auto simp: ann_def)
  from users_of_session [OF inv c, where u = ann] have "users (db ?h2) = [ann, bob]"
    using run frame_result [OF users_framed(14) w(3)] w(2) by simp
  with r2 cl show thesis by (intro that)
qed

text \<open>
  C1: the hub keeps its books. In every reachable hub, whatever messages, hang-ups, answers of the
  login server, web requests (restorations of a backup included) and database failures came in whatever
  order, the store satisfies its invariant, the presence tracker has one entry per account, session ids
  are distinct, and a client is registered exactly as the current session of one open, authenticated
  connection of the same user. Each request, message or hang-up is one step; operations interleave
  between steps.
\<close>

theorem hub_invariant:
  assumes "hub_reach cfg st R h"
  shows "wf_world (db h) \<and> default_locked (db h) \<and> wf_tracker (pres h)
    \<and> distinct (map cl_id (clients h)) \<and> distinct (map c_id (conns h))
    \<and> (\<forall>cl \<in> set (clients h). \<exists>k \<in> set (conns h). c_id k = cl_conn cl \<and> c_open k \<and> c_authed k
          \<and> c_session k = Some (cl_id cl) \<and> ID (c_user k) = ID (cl_user cl))
    \<and> (\<forall>k \<in> set (conns h). c_open k \<and> c_authed k \<longrightarrow>
          (\<exists>cl \<in> set (clients h). cl_conn cl = c_id k \<and> c_session k = Some (cl_id cl) \<and> ID (cl_user cl) = ID (c_user k)))"
proof -
  have inv: "sess_inv R h" and "sound h" using hub_reach_inv [OF assms] by simp_all
  then have "wf_world (db h) \<and> default_locked (db h) \<and> wf_tracker (pres h)" by (simp add: sound_def group_inv_def)
  moreover have "distinct (map cl_id (clients h)) \<and> distinct (map c_id (conns h))"
    using inv by (simp add: sess_inv_def sessions_def logins_def comp_def)
  moreover have "\<exists>k \<in> set (conns h). c_id k = cl_conn cl \<and> c_open k \<and> c_authed k
          \<and> c_session k = Some (cl_id cl) \<and> ID (c_user k) = ID (cl_user cl)" if "cl \<in> set (clients h)" for cl
  proof -
    from that have "(cl_id cl, cl_conn cl, ID (cl_user cl)) \<in> set (sessions h)" by (auto simp: sessions_def)
    with inv have "(cl_conn cl, True, True, ID (cl_user cl), Some (cl_id cl)) \<in> set (logins h)"
      by (simp add: sess_inv_def registered_ok_def)
    then show ?thesis unfolding logins_def by auto
  qed
  moreover have "\<exists>cl \<in> set (clients h). cl_conn cl = c_id k \<and> c_session k = Some (cl_id cl) \<and> ID (cl_user cl) = ID (c_user k)"
    if "k \<in> set (conns h)" "c_open k" "c_authed k" for k
  proof -
    from that have k: "(c_id k, True, True, ID (c_user k), c_session k) \<in> set (logins h)" by (force simp: logins_def)
    with inv obtain sid where sid: "c_session k = Some sid" by (cases "c_session k") (auto simp: sess_inv_def registered_ok_def)
    with k inv have "(sid, c_id k, ID (c_user k)) \<in> set (sessions h)" by (simp add: sess_inv_def registered_ok_def)
    then show ?thesis unfolding sessions_def sid by auto
  qed
  ultimately show ?thesis by blast
qed

theorem hub_invariant_witness:
  "\<exists>h cl k. hub_reach quiet_hub sample_store {} h \<and> cl \<in> set (clients h) \<and> k \<in> set (conns h) \<and> c_id k = cl_conn cl \<and> c_open k"
proof -
  obtain h cl where h: "hub_reach quiet_hub sample_store {} h" "cl \<in> set (clients h)"
    by (rule session_exists)
  with hub_invariant [OF h(1)] show ?thesis by blast
qed

text \<open>
  C2: revoking a user's access ends his sessions. In every reachable hub no registered client and no
  open authenticated connection belongs to a user whose access is revoked, unless it was the restoration
  of a backup that revoked him (the users \<open>R\<close>): that request revokes in the store and disconnects nobody,
  see \<open>restore_keeps_sessions\<close>. Whoever is revoked over a WebSocket message or by the access switch of the
  web pages is disconnected in the same step, whatever statement fails, and cannot come back by token.
  A token login is one step here; between its two halves Go lets a revocation slip in, see \<open>late_session\<close>.
\<close>

theorem revoked_users_have_no_session:
  assumes "hub_reach cfg st R h" and "u \<in> set (users (db h))" and "AccessRevoked u" and "ID u \<notin> R"
  shows "(\<forall>cl \<in> set (clients h). ID (cl_user cl) \<noteq> ID u)
    \<and> (\<forall>k \<in> set (conns h). c_open k \<and> c_authed k \<longrightarrow> ID (c_user k) \<noteq> ID u)"
proof -
  have inv: "sess_inv R h" using hub_reach_inv [OF assms(1)] by simp
  have u: "ID u \<in> banned (db h)" using assms(2,3) by (auto simp: banned_def)
  have "ID (cl_user cl) \<noteq> ID u" if "cl \<in> set (clients h)" for cl
  proof -
    from that have "(cl_id cl, cl_conn cl, ID (cl_user cl)) \<in> set (sessions h)" by (auto simp: sessions_def)
    with inv u assms(4) show ?thesis by (auto simp: sess_inv_def)
  qed
  moreover have "ID (c_user k) \<noteq> ID u" if k: "k \<in> set (conns h)" "c_open k" "c_authed k" for k
  proof -
    from k have l: "(c_id k, True, True, ID (c_user k), c_session k) \<in> set (logins h)" by (force simp: logins_def)
    with inv obtain sid where sid: "c_session k = Some sid" by (cases "c_session k") (auto simp: sess_inv_def registered_ok_def)
    with l inv have "(sid, c_id k, ID (c_user k)) \<in> set (sessions h)" by (simp add: sess_inv_def registered_ok_def)
    with inv u assms(4) show ?thesis by (auto simp: sess_inv_def)
  qed
  ultimately show ?thesis by blast
qed

theorem revoked_users_have_no_session_witness:
  "\<exists>h cl. hub_reach quiet_hub sample_store {} h \<and> bob \<in> set (users (db h)) \<and> cl \<in> set (clients h) \<and> ID (cl_user cl) \<noteq> ID bob"
proof -
  obtain h cl where h: "hub_reach quiet_hub sample_store {} h" "users (db h) = [ann, bob]" "cl \<in> set (clients h)"
    by (rule session_exists)
  then have "bob \<in> set (users (db h))" "AccessRevoked bob" by (simp_all add: bob_def)
  with revoked_users_have_no_session [OF h(1) this] h show ?thesis by blast
qed

end
