(* ===== verification/HubSafety.thy ===== *)
theory HubSafety
  imports HubSessions
begin

text \<open>
  What clients and the login server get from the hub: credentials of the vault only for accounts the
  user may use, admin operations only for admins, and a full state without other people's accounts.
\<close>

section \<open>Spliced logins\<close>

lemma DecryptCredentials_InrD:
  assumes "DecryptCredentials st i s = (Inr (u, p), s')"
  shows "\<exists>a \<in> set (accounts s). a_id a = i \<and> OpenString (StoreAEAD st) (a_username_cipher a) ''eq_accounts.username'' = Inr u
    \<and> OpenString (StoreAEAD st) (a_password_cipher a) ''eq_accounts.password'' = Inr p"
proof -
  from assms obtain uc pc s1 where q: "query_row (\<lambda>s. map (\<lambda>a. (a_username_cipher a, a_password_cipher a))
        (filter (\<lambda>a. a_id a = i \<and> (False \<or> \<not> a_disabled a)) (accounts s))) s = (Inr (uc, pc), s1)"
    and o1: "OpenString (StoreAEAD st) uc ''eq_accounts.username'' = Inr u" "OpenString (StoreAEAD st) pc ''eq_accounts.password'' = Inr p"
    unfolding DecryptCredentials_def StoreAccounts.decryptCredentials_def
    by (auto elim!: andThen_InrE split: sum.splits prod.splits)
  from query_row_InrD [OF q] obtain fs xs where s1: "s1 = s\<lparr>faults := fs\<rparr>"
    and "map (\<lambda>a. (a_username_cipher a, a_password_cipher a)) (filter (\<lambda>a. a_id a = i \<and> (False \<or> \<not> a_disabled a)) (accounts s1)) = (uc, pc) # xs"
    by (elim exE conjE) (rule that)
  then have "(uc, pc) \<in> set (map (\<lambda>a. (a_username_cipher a, a_password_cipher a)) (filter (\<lambda>a. a_id a = i \<and> (False \<or> \<not> a_disabled a)) (accounts s1)))"
    by (simp only: list.set_intros)
  then show ?thesis using o1 by (auto simp: s1)
qed

text \<open>A packet the hub may send to the login server in place of \<open>body\<close>: the credentials of an account
  that the typed name stands for and that the user may use. \<open>differs\<close> says whether the typed password is another one.\<close>

definition authorized_login :: "world \<Rightarrow> Store \<Rightarrow> User \<Rightarrow> bytes \<Rightarrow> bytes \<Rightarrow> bool \<Rightarrow> bool" where
  "authorized_login w st user body out differs \<longleftrightarrow>
     (\<exists>lp a u p. ParseLoginPacket body = Some (Some lp) \<and> a \<in> set (accounts w) \<and> may_use w (ID user) a
        \<and> stands_for w st (LoginPacket.Username lp) a
        \<and> OpenString (StoreAEAD st) (a_username_cipher a) ''eq_accounts.username'' = Inr u
        \<and> OpenString (StoreAEAD st) (a_password_cipher a) ''eq_accounts.password'' = Inr p
        \<and> RewriteCredentials lp u p = Some (Inr out) \<and> differs = (LoginPacket.Password lp \<noteq> p))"

lemma chosen_candidate:
  assumes "wf_world w" and "ResolveLoginCandidates st user name w = (Inr cands, w')" and "c \<in> set cands"
  shows "\<exists>a \<in> set (accounts w). may_use w (ID user) a \<and> a_id a = CandID c \<and> stands_for w st name a"
proof -
  note f = ResolveLoginCandidates_facts [OF assms(1,2)]
  have "TrimSpace name \<noteq> []" using f assms(3) by auto
  with f assms(3) obtain a where "matched c" "a \<in> set (accounts w)" "may_use w (ID user) a"
      "c = candidate w (TrimSpace name) (BlindIndex (StoreKey st) (ToLower (TrimSpace name))) a" by blast
  with candidate_stands_for [OF this(4)] show ?thesis by auto
qed

lemma lift_readD: "reads m \<Longrightarrow> lift m h = (r, h') \<Longrightarrow> \<exists>fs. m (db h) = (r, (db h)\<lparr>faults := fs\<rparr>) \<and> h' = h\<lparr>db := (db h)\<lparr>faults := fs\<rparr>\<rparr>"
  by (cases "m (db h)") (auto simp: lift_def dest: readsD)

lemma splice_authorized:
  assumes wf: "wf_world (db h)" and tr: "wf_tracker (pres h)"
    and run: "spliceLoginPacket cfg st user body h = (Inr (Some out, dropped, retry), h')"
  shows "authorized_login (db h) st user body out retry \<and> dropped = []"
proof -
  from run obtain lp where lp: "ParseLoginPacket body = Some (Some lp)"
    by (auto simp: spliceLoginPacket_def split: option.splits)
  define rest where "rest = (\<lambda>cands. andThen (tracker (\<lambda>now. pickLoginCandidate now cands)) (\<lambda>chosen.
            if chosen = 0 then ret (None, ''all_busy'', False) else
            andThen (lift (DecryptCredentials st chosen)) (\<lambda>(realUser, password).
            case RewriteCredentials lp realUser password of
              None \<Rightarrow> fail (Err ''panic'')
            | Some (Inl e) \<Rightarrow> fail e
            | Some (Inr out) \<Rightarrow>
                andThen (tracker (\<lambda>now. ClearUserExcept now (ID user) chosen)) (\<lambda>_.
                andThen (lift (AuditAccount st (ID user) chosen ''login_relay'' (LoginPacket.Username lp))) (\<lambda>_.
                andThen (broadcastFullState cfg st) (\<lambda>_.
                ret (Some out, [], LoginPacket.Password lp \<noteq> password)))))))"
  obtain ok h1 where al: "allow h = (Inr ok, h1)" and h1: "db h1 = db h" "pres h1 = pres h"
    by (cases "verdicts h") (auto simp: allow_def)
  obtain r h2 where rl: "lift (ResolveLoginCandidates st user (LoginPacket.Username lp)) h1 = (r, h2)"
    by (cases "lift (ResolveLoginCandidates st user (LoginPacket.Username lp)) h1")
  have run1: "(if \<not> ok then ret (None, ''rate_limited'', False) else
        attempt (lift (ResolveLoginCandidates st user (LoginPacket.Username lp))) (\<lambda>r. case r of
          Inl _ \<Rightarrow> ret (None, [], False)
        | Inr cands \<Rightarrow> if cands = [] then ret (None, [], False) else rest cands)) h1 = (Inr (Some out, dropped, retry), h')"
    using run al unfolding rest_def by (cases ok) (simp_all add: spliceLoginPacket_def lp)
  then have ok: "ok" by (auto split: if_splits)
  with run1 obtain cands where cands: "r = Inr cands" and run2: "rest cands h2 = (Inr (Some out, dropped, retry), h')"
    by (auto simp: attempt_def rl split: sum.splits if_splits)
  have rd: "reads (ResolveLoginCandidates st user (LoginPacket.Username lp))"
    unfolding ResolveLoginCandidates_def Let_def by (intro reads_rules)
  from lift_readD [OF rd rl] obtain fs where q1: "ResolveLoginCandidates st user (LoginPacket.Username lp) (db h1) = (r, (db h1)\<lparr>faults := fs\<rparr>)"
    and h2': "h2 = h1\<lparr>db := (db h1)\<lparr>faults := fs\<rparr>\<rparr>" by blast
  have q: "ResolveLoginCandidates st user (LoginPacket.Username lp) (db h) = (Inr cands, (db h)\<lparr>faults := fs\<rparr>)"
    and h2: "db h2 = (db h)\<lparr>faults := fs\<rparr>" "pres h2 = pres h"
    using q1 cands h1 h2' by simp_all
  obtain chosen t' where pick: "pickLoginCandidate (clock (db h2)) cands (pres h2) = (chosen, t')"
    by (cases "pickLoginCandidate (clock (db h2)) cands (pres h2)")
  from run2 have nz: "chosen \<noteq> 0"
    by (auto simp: rest_def andThen_def tracker_eq pick split: if_splits)
  have "wf_tracker (pres h2)" using tr h2 by simp
  from pickLoginCandidate_facts [OF this pick] nz obtain c where c: "c \<in> set cands" "CandID c = chosen" by blast
  from chosen_candidate [OF wf q c(1)] obtain a where a: "a \<in> set (accounts (db h))" "may_use (db h) (ID user) a" "a_id a = chosen"
    and m: "stands_for (db h) st (LoginPacket.Username lp) a"
    using c(2) by blast
  let ?h3 = "h2\<lparr>pres := t'\<rparr>"
  obtain cr h4 where dc: "lift (DecryptCredentials st chosen) ?h3 = (cr, h4)" by (cases "lift (DecryptCredentials st chosen) ?h3")
  from run2 nz obtain u p where up: "cr = Inr (u, p)" and rw: "RewriteCredentials lp u p = Some (Inr out)" and dr: "dropped = []"
      and rt: "retry = (LoginPacket.Password lp \<noteq> p)"
    by (auto simp: rest_def tracker_eq pick andThen_def dc split: sum.splits prod.splits option.splits if_splits)
  have "DecryptCredentials st chosen (db h2) = (Inr (u, p), snd (DecryptCredentials st chosen (db h2)))"
    using dc up by (auto simp: lift_def split: prod.splits)
  from DecryptCredentials_InrD [OF this] h2 obtain b where b: "b \<in> set (accounts (db h))" "a_id b = chosen"
      "OpenString (StoreAEAD st) (a_username_cipher b) ''eq_accounts.username'' = Inr u"
      "OpenString (StoreAEAD st) (a_password_cipher b) ''eq_accounts.password'' = Inr p" by auto
  have "distinct (map a_id (accounts (db h)))" using wf by (simp add: wf_world_def wf_accounts_def)
  from unique_key_eq [OF this a(1) b(1)] a(3) b(2) have "b = a" by simp
  with lp a m b rw dr rt show ?thesis unfolding authorized_login_def by blast
qed

text \<open>The relays of the registered clients, and what the hub does with the one of the sender.\<close>

definition relays :: "hub \<Rightarrow> (string \<times> udpRelay option) list" where
  "relays h = map (\<lambda>c. (cl_id c, cl_relay c)) (clients h)"

definition relay_of :: "wsClient \<Rightarrow> udpRelay" where
  "relay_of client = (case cl_relay client of None \<Rightarrow> new_relay | Some r \<Rightarrow> r)"

definition opened :: "wsClient \<Rightarrow> (string \<times> udpRelay option) list \<Rightarrow> (string \<times> udpRelay option) list" where
  "opened client rs = (case cl_relay client of Some _ \<Rightarrow> rs
     | None \<Rightarrow> map (\<lambda>(i, r). (i, if i = cl_id client then Some new_relay else r)) rs)"

definition kept_for_retry :: "string \<Rightarrow> bytes \<Rightarrow> (string \<times> udpRelay option) list \<Rightarrow> (string \<times> udpRelay option) list" where
  "kept_for_retry sid pkt rs = map (\<lambda>(i, r). (i, if i = sid
     then map_option (\<lambda>r. r\<lparr>typedFallback := pkt, typedRetryUsed := False\<rparr>) r else r)) rs"

lemma frame_upstream_basics [frame_rules]:
  "frame upstream (lift m)" "frame upstream (tracker f)" "frame upstream allow" "frame upstream socket"
  "frame upstream (writeJSON cid r)" "frame upstream notifyStateListeners" "frame upstream (update_client sid g)"
  "frame upstream (update_conn cid k)" "frame upstream (gets e)"
  by (auto simp: frame_def lift_def tracker_def allow_def socket_def writeJSON_def notifyStateListeners_def update_client_def
      update_conn_def split: prod.splits list.splits)

lemma frame_relays_basics [frame_rules]:
  "frame relays (lift m)" "frame relays (tracker f)" "frame relays allow"
  "frame relays (writeJSON cid r)" "frame relays notifyStateListeners" "frame relays (gets e)"
  "frame relays (update_client sid (\<lambda>c. c\<lparr>cl_user := v\<rparr>))"
  by (auto simp: frame_def relays_def lift_def tracker_def allow_def writeJSON_def notifyStateListeners_def update_client_def
      split: prod.splits list.splits)

lemma frame_optional [frame_rules]: "frame f m \<Longrightarrow> frame f (optional m)"
  unfolding optional_def by (intro frame_rules)

lemma frame_splice:
  "frame upstream (spliceLoginPacket cfg st user body)" "frame relays (spliceLoginPacket cfg st user body)"
proof -
  have "frame upstream (broadcastFullState cfg st)"
    unfolding broadcastFullState_def refresh_and_send_def sendFullState_def online_entries_def buildShareActivity_def
    by (intro frame_rules)
  then show "frame upstream (spliceLoginPacket cfg st user body)"
    unfolding spliceLoginPacket_def by (intro frame_rules)
  have "frame relays (broadcastFullState cfg st)"
    unfolding broadcastFullState_def refresh_and_send_def sendFullState_def online_entries_def buildShareActivity_def
    by (intro frame_rules)
  then show "frame relays (spliceLoginPacket cfg st user body)"
    unfolding spliceLoginPacket_def by (intro frame_rules)
qed

lemma relayFor_state:
  assumes "relayFor client h = (Inr rel, h')"
  shows "db h' = db h" "pres h' = pres h" "upstream h' = upstream h"
    "rel = None \<Longrightarrow> relays h' = relays h" "rel = Some r \<Longrightarrow> r = relay_of client \<and> relays h' = opened client (relays h)"
  using assms
  by (auto simp: relayFor_def socket_def update_client_def andThen_def relays_def relay_of_def opened_def
      split: option.splits list.splits if_splits)

lemma relayFor_ok:
  obtains rel h' where "relayFor client h = (Inr rel, h')"
proof -
  have "fst (relayFor client h) \<noteq> Inl e" for e
    by (auto simp: relayFor_def andThen_def socket_def update_client_def split: option.splits list.splits if_splits)
  with that show thesis by (cases "relayFor client h"; cases "fst (relayFor client h)") auto
qed

lemma setTypedFallback_nonempty: "pkt \<noteq> [] \<Longrightarrow> setTypedFallback pkt = (\<lambda>r. r\<lparr>typedFallback := pkt, typedRetryUsed := False\<rparr>)"
  by (simp add: setTypedFallback_def fun_eq_iff)

lemma arm_fallback: "pkt \<noteq> [] \<Longrightarrow>
   relays (h\<lparr>clients := map (\<lambda>c. if cl_id c = sid then c\<lparr>cl_relay := map_option (setTypedFallback pkt) (cl_relay c)\<rparr> else c) (clients h)\<rparr>)
   = kept_for_retry sid pkt (relays h)"
  by (auto simp: relays_def kept_for_retry_def setTypedFallback_nonempty)

lemma relays_frame [simp]: "relays (h\<lparr>upstream := x\<rparr>) = relays h" "relays (h\<lparr>outbox := y\<rparr>) = relays h"
  by (simp_all add: relays_def)

lemma relay_up_not_spliced:
  assumes "\<not> bad_payload (Some pkt)" and "relayFor client h = (Inr (Some rl), h1)"
    and "spliceLoginPacket cfg st user (stripBody rl pkt) h1 = (res, h2)" and "\<nexists>body d retry. res = Inr (Some body, d, retry)"
    and "handleLoginRelayUp cfg st client user (Some pkt) True h = (r, h')"
  shows "(upstream h' = upstream h2 \<or> upstream h' = upstream h2 @ [(cl_id client, pkt)]) \<and> relays h' = relays h2"
proof (cases res)
  case (Inl e)
  with assms show ?thesis
    by (auto simp: handleLoginRelayUp_def Let_def andThen_def attempt_def writeJSON_def)
next
  case (Inr x)
  with assms(4) obtain d retry where "res = Inr (None, d, retry)" by (cases x; cases "fst x") auto
  with assms show ?thesis
    by (cases "d = []") (auto simp: handleLoginRelayUp_def Let_def andThen_def attempt_def WriteToUDP_def)
qed

text \<open>What the hub does with the result of the splice.\<close>

lemma relay_up_spliced:
  assumes "\<not> bad_payload (Some pkt)" and "relayFor client h = (Inr (Some rl), h1)"
    and "spliceLoginPacket cfg st user (stripBody rl pkt) h1 = (Inr (Some body, [], retry), h2)"
    and "handleLoginRelayUp cfg st client user (Some pkt) True h = (r, h')"
  shows "upstream h' = upstream h2 @ [(cl_id client, wrapSpliced rl body)]
    \<and> relays h' = (if retry then kept_for_retry (cl_id client) pkt (relays h2) else relays h2)"
proof -
  have "pkt \<noteq> []" using assms(1) by (auto simp: bad_payload_def)
  with assms show ?thesis
    by (cases retry) (auto simp: handleLoginRelayUp_def Let_def andThen_def attempt_def WriteToUDP_def update_client_def arm_fallback)
qed

section \<open>Sending state never fails\<close>

definition succeeds :: "('s, 'a) action \<Rightarrow> bool" where
  "succeeds m \<longleftrightarrow> (\<forall>s. \<exists>x s'. m s = (Inr x, s'))"

lemma succeeds_rules:
  "succeeds (ret x)" "succeeds (gets e)" "succeeds (modify g)" "succeeds (tracker f)" "succeeds (optional m)"
  "succeeds (writeJSON cid r)" "succeeds notifyStateListeners" "succeeds (update_client sid k)"
  by (auto simp: succeeds_def tracker_eq writeJSON_def notifyStateListeners_def update_client_def optional_def attempt_def
      split: prod.splits)

lemma succeeds_andThen: "succeeds m \<Longrightarrow> (\<And>x. succeeds (f x)) \<Longrightarrow> succeeds (andThen m f)"
  unfolding succeeds_def andThen_def by (metis (no_types, lifting) old.prod.case old.sum.simps(6))

lemma succeeds_attempt: "(\<And>r. succeeds (f r)) \<Longrightarrow> succeeds (attempt m f)"
  by (simp add: succeeds_def attempt_def split: prod.splits)

lemma succeeds_for_each: "(\<And>x. succeeds (f x)) \<Longrightarrow> succeeds (for_each f xs)"
  by (induction xs) (simp_all add: succeeds_rules(1) succeeds_andThen)

lemma broadcast_succeeds: "succeeds (broadcastFullState cfg st)"
proof -
  have "succeeds (sendFullState cfg st cl)" for cl
    unfolding sendFullState_def
    by (intro succeeds_attempt) (auto split: sum.splits intro!: succeeds_andThen succeeds_rules)
  then have "succeeds (refresh_and_send cfg st cl)" for cl
    unfolding refresh_and_send_def
    by (intro succeeds_attempt) (auto split: sum.splits intro!: succeeds_andThen succeeds_rules)
  then show ?thesis
    unfolding broadcastFullState_def by (intro succeeds_andThen succeeds_for_each succeeds_rules)
qed

text \<open>A login whose name is the login name of the only account is spliced.\<close>

lemma only_element: "set xs = {x} \<Longrightarrow> distinct xs \<Longrightarrow> xs = [x]"
  by (cases xs) (auto simp: subset_singleton_iff)

lemma splice_run:
  assumes wf: "wf_world (db h)" and tr: "wf_tracker (pres h)" and no: "faults (db h) = []" and v: "verdicts h = []"
    and lp: "ParseLoginPacket body = Some (Some lp)" and name: "TrimSpace (LoginPacket.Username lp) \<noteq> []"
    and acc: "accounts (db h) = [a]" "may_use (db h) (ID user) a" "a_id a \<noteq> 0" "\<not> a_disabled a"
    and login: "login_name_is st (LoginPacket.Username lp) a"
    and sealed: "seals (StoreAEAD st) ''eq_accounts.username'' u (a_username_cipher a)"
      "seals (StoreAEAD st) ''eq_accounts.password'' p (a_password_cipher a)"
    and out: "RewriteCredentials lp u p = Some (Inr out)"
  obtains h' where "spliceLoginPacket cfg st user body h = (Inr (Some out, [], LoginPacket.Password lp \<noteq> p), h')"
proof -
  obtain cs where cs: "ResolveLoginCandidates st user (LoginPacket.Username lp) (db h) = (Inr cs, db h)"
    using ResolveLoginCandidates_no_faults [OF no] by blast
  let ?c = "candidate (db h) (TrimSpace (LoginPacket.Username lp)) (BlindIndex (StoreKey st) (ToLower (TrimSpace (LoginPacket.Username lp)))) a"
  have c: "CandID ?c = a_id a" "ByUser ?c" using login by (simp_all add: candidate_def login_name_is_def)
  then have "matched ?c" "Direct ?c" by (simp_all add: matched_def Direct_def)
  have f: "distinct (map CandID cs)" "set cs = {c. matched c \<and> (\<exists>b \<in> set (accounts (db h)). may_use (db h) (ID user) b
      \<and> c = candidate (db h) (TrimSpace (LoginPacket.Username lp)) (BlindIndex (StoreKey st) (ToLower (TrimSpace (LoginPacket.Username lp)))) b)}"
    using ResolveLoginCandidates_facts [OF wf cs] name by blast+
  have "set cs = {?c}" unfolding f(2) acc(1) using acc(2) \<open>matched ?c\<close> by (simp only: list.set) blast
  moreover have "distinct cs" using f(1) by (simp only: distinct_map)
  ultimately have only: "cs = [?c]" by (rule only_element)
  then have pick: "pickLoginCandidate (clock (db h)) cs (pres h) = (a_id a, pres h)"
    using \<open>Direct ?c\<close> c by (simp add: pickLoginCandidate_def)
  have dec: "DecryptCredentials st (a_id a) (db h) = (Inr (u, p), db h)"
    using decrypt_found [OF wf _ _ no sealed, of False] acc(1,4) by (simp add: DecryptCredentials_def)
  obtain h1 where h1: "lift (AuditAccount st (ID user) (a_id a) ''login_relay'' (LoginPacket.Username lp))
      (h\<lparr>pres := snd (ClearUserExcept (clock (db h)) (ID user) (a_id a) (pres h))\<rparr>) = (Inr (), h1)"
    using Audit_ok(1) by (metis prod.collapse)
  obtain h2 where h2: "broadcastFullState cfg st h1 = (Inr (), h2)"
    using broadcast_succeeds [of cfg st] unfolding succeeds_def by auto
  have "spliceLoginPacket cfg st user body h = (Inr (Some out, [], LoginPacket.Password lp \<noteq> p), h2)"
    using only acc(3) pick h1 [unfolded lift_def]
    by (simp add: spliceLoginPacket_def lp allow_def v andThen_def attempt_def lift_def cs dec tracker_eq out h2)
  then show thesis by (rule that)
qed

text \<open>
  C3: what reaches the login server. Whatever a client sends up with \<open>login_relay_up\<close>, the hub forwards
  at most one datagram: the client's own, or its login packet with the typed name and password
  replaced by the vault's credentials of an account that the typed name stands for and that the user
  may use right now, framed with the checksum of this client's session. No vault secret goes upstream
  otherwise. The relays of the clients change in two ways only: the relay of this client is opened
  on first use, and after a splice whose password is not the typed one it keeps the client's own
  datagram, not used yet, for the case that the login server rejects the login.
\<close>

theorem uplink_sends_typed_or_authorized:
  assumes wf: "wf_world (db h)" and tr: "wf_tracker (pres h)"
    and run: "handleLoginRelayUp cfg st client user payload wantSplice h = (r, h')"
  shows "upstream h' = upstream h \<and> (relays h' = relays h \<or> relays h' = opened client (relays h))
    \<or> (\<exists>pkt. payload = Some pkt \<and> upstream h' = upstream h @ [(cl_id client, pkt)] \<and> relays h' = opened client (relays h))
    \<or> (\<exists>pkt body differs. payload = Some pkt \<and> wantSplice
          \<and> authorized_login (db h) st user (StripForParse pkt (crcBytes (relay_of client))) body differs
          \<and> upstream h' = upstream h @
              [(cl_id client, RestoreCRC body (crcKey (relay_of client)) (crcBytes (relay_of client)))]
          \<and> relays h' = (if differs then kept_for_retry (cl_id client) pkt (opened client (relays h))
                         else opened client (relays h)))"
proof (cases "bad_payload payload")
  case True
  with run show ?thesis
    by (simp add: handleLoginRelayUp_def Let_def writeJSON_def relays_def split: if_splits) auto
next
  case False
  then obtain pkt where pkt: "payload = Some pkt" by (cases payload) (auto simp: bad_payload_def)
  obtain rel h1 where rel: "relayFor client h = (Inr rel, h1)" by (rule relayFor_ok)
  note h1 = relayFor_state [OF rel]
  show ?thesis
  proof (cases rel)
    case None
    with False rel run have "upstream h' = upstream h1 \<and> relays h' = relays h1"
      by (auto simp: handleLoginRelayUp_def Let_def andThen_def writeJSON_def relays_def split: if_splits)
    with h1 None show ?thesis by simp
  next
    case (Some rl)
    note rl = h1(5) [OF Some]
    show ?thesis
    proof (cases wantSplice)
      case False
      with \<open>\<not> bad_payload payload\<close> rel Some run pkt have "upstream h' = upstream h1 @ [(cl_id client, pkt)] \<and> relays h' = relays h1"
        by (auto simp: handleLoginRelayUp_def Let_def andThen_def WriteToUDP_def)
      with h1(3) rl pkt show ?thesis by simp
    next
      case True
      have bad': "\<not> bad_payload (Some pkt)" and run': "handleLoginRelayUp cfg st client user (Some pkt) True h = (r, h')"
        using run True pkt \<open>\<not> bad_payload payload\<close> by simp_all
      obtain res h2 where sp: "spliceLoginPacket cfg st user (stripBody rl pkt) h1 = (res, h2)"
        by (cases "spliceLoginPacket cfg st user (stripBody rl pkt) h1")
      have h2: "upstream h2 = upstream h" "relays h2 = opened client (relays h)"
        using frame_result [OF frame_splice(1) sp] frame_result [OF frame_splice(2) sp] h1(3) rl by simp_all
      show ?thesis
      proof (cases "\<exists>body d retry. res = Inr (Some body, d, retry)")
        case hit: True
        then obtain body d retry where res: "res = Inr (Some body, d, retry)" by blast
        from splice_authorized [OF _ _ sp [unfolded res]] wf tr h1
        have ok: "authorized_login (db h) st user (stripBody rl pkt) body retry" "d = []" by simp_all
        from relay_up_spliced [OF bad' rel [unfolded Some] sp [unfolded res ok(2)] run']
        have "upstream h' = upstream h2 @ [(cl_id client, wrapSpliced rl body)]
          \<and> relays h' = (if retry then kept_for_retry (cl_id client) pkt (relays h2) else relays h2)" by blast
        with h2 rl have "upstream h' = upstream h @ [(cl_id client, RestoreCRC body (crcKey (relay_of client)) (crcBytes (relay_of client)))]"
          "relays h' = (if retry then kept_for_retry (cl_id client) pkt (opened client (relays h)) else opened client (relays h))"
          by (simp_all only: wrapSpliced_def)
        moreover have "authorized_login (db h) st user (StripForParse pkt (crcBytes (relay_of client))) body retry"
          using ok(1) rl by (simp only: stripBody_def)
        ultimately show ?thesis using pkt True by blast
      next
        case miss: False
        from relay_up_not_spliced [OF bad' rel [unfolded Some] sp miss run']
        have "(upstream h' = upstream h2 \<or> upstream h' = upstream h2 @ [(cl_id client, pkt)]) \<and> relays h' = relays h2"
          by blast
        then show ?thesis unfolding h2 using pkt by blast
      qed
    qed
  qed
qed

definition vault_hub :: "world \<Rightarrow> hub" where
  "vault_hub w = (start_hub w 60 (\<lambda>n. replicate n CHR ''u''))\<lparr>clients :=
     [\<lparr>cl_id = ''s'', cl_conn = 7, cl_user = sample_user, cl_version = [], cl_relay = Some new_relay\<rparr>]\<rparr>"

text \<open>The vault has the account \<open>user\<close> with the password \<open>s3cret\<close>; the client types \<open>user\<close> and \<open>pass\<close>.\<close>

theorem uplink_sends_typed_or_authorized_witness:
  "\<exists>w i body. AddEQAccount sample_store ''user'' ''s3cret'' [] sample_world = (Inr i, w)
    \<and> authorized_login w sample_store sample_user sample_login body True
    \<and> upstream (snd (handleLoginRelayUp quiet_hub sample_store (hd (clients (vault_hub w))) sample_user
        (Some sample_login) True (vault_hub w))) = [(''s'', body)]
    \<and> relays (snd (handleLoginRelayUp quiet_hub sample_store (hd (clients (vault_hub w))) sample_user
        (Some sample_login) True (vault_hub w))) = [(''s'', Some (new_relay\<lparr>typedFallback := sample_login\<rparr>))]"
proof -
  let ?key = "BlindIndex (StoreKey sample_store) (ToLower (TrimSpace ''user''))"
  have s: "faults sample_world = []" "?key \<notin> a_username_blind ` set (accounts sample_world)"
    by (simp_all add: sample_world_def empty_world_def)
  obtain i w where add: "AddEQAccount sample_store ''user'' ''s3cret'' [] sample_world = (Inr i, w)" and no: "faults w = []"
    by (rule AddEQAccount_succeeds [OF s])
  obtain uc pc nc fs en where uc: "seals (StoreAEAD sample_store) ''eq_accounts.username'' ''user'' uc"
    and pc: "seals (StoreAEAD sample_store) ''eq_accounts.password'' ''s3cret'' pc"
    and w: "w = sample_world\<lparr>entropy := en, faults := fs, next_account := next_account sample_world + 1, accounts := accounts sample_world @
      [\<lparr>a_id = next_account sample_world, a_username_cipher = uc, a_username_blind = ?key,
        a_password_cipher = pc, a_notes_cipher = nc, a_disabled = False, a_required_role = [],
        a_required_user = None, a_restricted = False, a_owner = None, a_updated_at = clock sample_world\<rparr>]\<rparr>"
    by (rule AddEQAccount_InrD [OF add])
  define a where "a = hd (accounts w)"
  have acc: "accounts w = [a]" by (simp add: a_def w sample_world_def empty_world_def)
  have a: "a_id a = 1" "\<not> a_disabled a" "\<not> a_restricted a" "a_username_blind a = ?key" "a_username_cipher a = uc" "a_password_cipher a = pc"
    by (simp_all add: a_def w sample_world_def empty_world_def)
  have use: "may_use w (ID sample_user) a"
    using a(2,3) by (simp add: may_use_def audience_def named_users_def grants_def user_grants_def role_grants_def
        group_grants_def w sample_world_def empty_world_def)
  have wf: "wf_world w" using keeps_result [OF keeps_AddEQAccount wf_sample_world add] .
  let ?h = "vault_hub w" and ?lp = "packet_of sample_login ''user'' ''pass''"
  let ?cl = "hd (clients ?h)"
  let ?h' = "snd (handleLoginRelayUp quiet_hub sample_store ?cl sample_user (Some sample_login) True ?h)"
  have h: "db ?h = w" "pres ?h = New 60" "verdicts ?h = []" "upstream ?h = []" "cl_id ?cl = ''s''" "cl_relay ?cl = Some new_relay"
    "relays ?h = [(''s'', Some new_relay)]"
    by (simp_all add: vault_hub_def start_hub_def relays_def)
  have n: "LoginPacket.Username ?lp = ''user''" "LoginPacket.Password ?lp = ''pass''" by (simp_all add: packet_of_def)
  have "TrimSpace ''user'' \<noteq> []" by code_simp
  moreover have "length ''user'' + length ''s3cret'' \<le> 230" by simp
  moreover obtain ct where "PackCredentials ''user'' ''s3cret'' = Inr ct" using PackCredentials_total by blast
  ultimately have name: "TrimSpace (LoginPacket.Username ?lp) \<noteq> []"
    and out: "RewriteCredentials ?lp ''user'' ''s3cret'' = Some (Inr (spliced sample_login ct))"
    using RewriteCredentials_parsed [OF sample_login_parses] by (simp_all add: n)
  have strip: "stripBody new_relay sample_login = sample_login" "\<not> bad_payload (Some sample_login)" by code_simp+
  have login: "login_name_is sample_store (LoginPacket.Username ?lp) a" by (simp only: login_name_is_def n a(4))
  obtain h2 where "spliceLoginPacket quiet_hub sample_store sample_user sample_login ?h
      = (Inr (Some (spliced sample_login ct), [], LoginPacket.Password ?lp \<noteq> ''s3cret''), h2)"
    by (rule splice_run [of ?h sample_login ?lp a sample_user sample_store "''user''" "''s3cret''"])
      (use wf no acc use a login name out uc pc sample_login_parses in \<open>simp_all only: h wf_New not_False_eq_True one_neq_zero\<close>)
  then have run: "spliceLoginPacket quiet_hub sample_store sample_user (stripBody new_relay sample_login) ?h
      = (Inr (Some (spliced sample_login ct), [], True), h2)" by (simp add: strip n)
  have rel: "relayFor ?cl ?h = (Inr (Some new_relay), ?h)" by (simp add: relayFor_def h)
  from relay_up_spliced [OF strip(2) rel run prod.collapse [symmetric]] frame_result [OF frame_splice(2) run]
  have armed: "relays ?h' = [(''s'', Some (new_relay\<lparr>typedFallback := sample_login\<rparr>))]"
    by (simp add: h kept_for_retry_def new_relay_def)
  have ne: "sample_login \<noteq> []" by (simp add: sample_login_def)
  have shape: "opened ?cl rs = rs" "relay_of ?cl = new_relay" for rs by (simp_all add: opened_def relay_of_def h)
  have unarmed: "relays ?h' \<noteq> relays ?h" using ne by (simp add: armed h new_relay_def)
  have "wf_world (db ?h)" "wf_tracker (pres ?h)" using wf by (simp_all add: h)
  note up = uplink_sends_typed_or_authorized [OF this prod.collapse [symmetric],
      of quiet_hub sample_store ?cl sample_user "Some sample_login" True, unfolded shape h(1,4,5) option.inject append_Nil]
  from up unarmed obtain body differs where "authorized_login w sample_store sample_user (StripForParse sample_login (crcBytes new_relay)) body differs"
    "upstream ?h' = [(''s'', RestoreCRC body (crcKey new_relay) (crcBytes new_relay))]"
    "relays ?h' = (if differs then kept_for_retry ''s'' sample_login (relays ?h) else relays ?h)"
    by blast
  moreover have "StripForParse sample_login (crcBytes new_relay) = sample_login" using strip(1) by (simp add: stripBody_def)
  moreover have "RestoreCRC body (crcKey new_relay) (crcBytes new_relay) = body" by (simp add: RestoreCRC_def new_relay_def)
  ultimately show ?thesis using add armed unarmed by (cases differs) auto
qed

section \<open>Admin messages\<close>

fun admin_request :: "message \<Rightarrow> string option" where
  "admin_request (BadAdmin rid) = Some rid"
| "admin_request (AdminAddAccount rid _ _ _) = Some rid"
| "admin_request (AdminUpdateAccount rid _ _ _ _) = Some rid"
| "admin_request (AdminAddAlias rid _ _) = Some rid"
| "admin_request (AdminAddTag rid _ _) = Some rid"
| "admin_request (AdminAddCharacter rid _ _) = Some rid"
| "admin_request (AdminRemoveAlias rid _ _) = Some rid"
| "admin_request (AdminRemoveTag rid _ _) = Some rid"
| "admin_request (AdminRemoveCharacter rid _ _) = Some rid"
| "admin_request (AdminRemoveAccount rid _) = Some rid"
| "admin_request (AdminSetUserAccess rid _ _) = Some rid"
| "admin_request (AdminSetUserRoles rid) = Some rid"
| "admin_request _ = None"

text \<open>A message of a user who is no admin: only the reply is written.\<close>

definition refused :: "hub \<Rightarrow> nat \<Rightarrow> hub \<Rightarrow> bool" where
  "refused h cid h' \<longleftrightarrow> db h' = (db h)\<lparr>faults := faults (db h')\<rparr> \<and> pres h' = pres h \<and> upstream h' = upstream h
     \<and> notices h' = notices h
     \<and> map cl_id (clients h') = map cl_id (clients h) \<and> map c_open (conns h') = map c_open (conns h)
     \<and> (\<exists>rid e. e \<in> {''unauthorized'', ''forbidden''} \<and> outbox h' = outbox h @ [(cid, AdminFailed rid e)])"

lemma refresh_user_view:
  assumes "refresh_user cid cl user h = (x, h')"
  shows "\<exists>fs u. x = Inr u \<and> (u = user \<or> u \<in> set (users (db h)) \<and> ID u = ID user) \<and> db h' = (db h)\<lparr>faults := fs\<rparr>
    \<and> pres h' = pres h \<and> upstream h' = upstream h \<and> notices h' = notices h \<and> outbox h' = outbox h
    \<and> map cl_id (clients h') = map cl_id (clients h)
    \<and> map (\<lambda>k. (c_id k, c_open k)) (conns h') = map (\<lambda>k. (c_id k, c_open k)) (conns h)"
proof -
  obtain r h1 where l: "lift (UserByID (ID user)) h = (r, h1)" by (cases "lift (UserByID (ID user)) h")
  from lift_readD [OF reads_activity(2) l] obtain fs where r: "UserByID (ID user) (db h) = (r, (db h)\<lparr>faults := fs\<rparr>)"
    and h1: "h1 = h\<lparr>db := (db h)\<lparr>faults := fs\<rparr>\<rparr>" by blast
  show ?thesis
  proof (cases r)
    case (Inl e)
    then have "x = Inr user" "h' = h1" using assms by (simp_all add: refresh_user_def attempt_def l)
    then show ?thesis using h1 by auto
  next
    case (Inr u)
    with r have u: "u \<in> set (users (db h))" "ID u = ID user" by (auto elim: UserByID_InrD)
    from Inr assms have "x = Inr u"
      "h' = h1\<lparr>conns := map (\<lambda>c. if c_id c = cid then c\<lparr>c_user := u\<rparr> else c) (conns h1),
           clients := map (\<lambda>c. if cl_id c = cl_id cl then c\<lparr>cl_user := u\<rparr> else c) (clients h1)\<rparr>"
      by (auto simp: refresh_user_def attempt_def l andThen_def update_conn_def update_client_def)
    then show ?thesis using h1 u by (auto simp: comp_def)
  qed
qed

lemma writeJSON_sent: "conn_open cid h \<Longrightarrow> writeJSON cid r h = (Inr (), h\<lparr>outbox := outbox h @ [(cid, r)]\<rparr>)"
  by (simp add: writeJSON_def)

lemma conn_open_alt: "conn_open cid h \<longleftrightarrow> (cid, True) \<in> set (map (\<lambda>k. (c_id k, c_open k)) (conns h))"
  by (auto simp: conn_open_def)

lemma same_faults [simp]: "(w :: world)\<lparr>faults := faults w\<rparr> = w"
  by (cases w) simp

lemma handleAdmin_refused:
  assumes op: "conn_open (c_id c) h"
    and no: "\<And>u. u = c_user c \<or> u \<in> set (users (db h)) \<and> ID u = ID (c_user c) \<Longrightarrow> \<not> userIsAdmin cfg u"
  shows "refused h (c_id c) (snd (handleAdmin cfg st c client msg rid h))"
proof -
  obtain reqID h1 where rq: "request_id rid h = (Inr reqID, h1)" and h1: "h1 = h \<or> h1 = h\<lparr>next_uuid := next_uuid h + 1\<rparr>"
    by (cases "rid = []") (auto simp: request_id_def fresh_uuid_def andThen_def)
  have op1: "conn_open (c_id c) h1" using op h1 by (auto simp: conn_open_def)
  let ?fail = "\<lambda>e. writeJSON (c_id c) (AdminFailed reqID e)"
  show ?thesis
  proof (cases "if c_authed c then client else None")
    case None
    then have "handleAdmin cfg st c client msg rid h = ?fail ''unauthorized'' h1"
      by (simp add: handleAdmin_def rq Let_def)
    then show ?thesis
      using h1 by (auto simp: refused_def writeJSON_sent [OF op1])
  next
    case (Some cl)
    obtain x h2 where rf: "refresh_user (c_id c) cl (c_user c) h1 = (x, h2)" by (cases "refresh_user (c_id c) cl (c_user c) h1")
    have d1: "db h1 = db h" "pres h1 = pres h" "upstream h1 = upstream h" "notices h1 = notices h" "outbox h1 = outbox h"
      "clients h1 = clients h" "conns h1 = conns h" using h1 by auto
    from refresh_user_view [OF rf] obtain fs u where x: "x = Inr u" and u: "u = c_user c \<or> u \<in> set (users (db h)) \<and> ID u = ID (c_user c)"
      and h2: "db h2 = (db h)\<lparr>faults := fs\<rparr>" "pres h2 = pres h" "upstream h2 = upstream h" "notices h2 = notices h" "outbox h2 = outbox h"
        "map cl_id (clients h2) = map cl_id (clients h)"
        "map (\<lambda>k. (c_id k, c_open k)) (conns h2) = map (\<lambda>k. (c_id k, c_open k)) (conns h)"
      unfolding d1 by blast
    have op2: "conn_open (c_id c) h2" using op unfolding conn_open_alt h2(7) .
    have "map c_open (conns h2) = map snd (map (\<lambda>k. (c_id k, c_open k)) (conns h2))" by simp
    also have "\<dots> = map c_open (conns h)" unfolding h2(7) by simp
    finally have ops: "map c_open (conns h2) = map c_open (conns h)" .
    have "handleAdmin cfg st c client msg rid h = ?fail ''forbidden'' h2"
      using no [OF u] by (simp add: handleAdmin_def rq Let_def Some rf x)
    then show ?thesis
      using h2 ops by (auto simp: refused_def writeJSON_sent [OF op2])
  qed
qed

text \<open>
  C4: only admins change anything through admin messages. When neither the user of the connection nor
  his row in the database is an admin, every admin message, well formed or not, leaves the tables,
  the tracker, the upstream and the sessions as they are; the client gets exactly one reply, which
  says \<open>forbidden\<close> (or \<open>unauthorized\<close> without a session).
\<close>

theorem admin_messages_need_an_admin:
  assumes "find (\<lambda>c. c_id c = cid) (conns h) = Some c" and "c_open c" and "admin_request msg = Some rid"
    and "\<forall>u. u = c_user c \<or> u \<in> set (users (db h)) \<and> ID u = ID (c_user c) \<longrightarrow> \<not> userIsAdmin cfg u"
  shows "refused h cid (snd (serve cfg st cid msg h))"
proof -
  define client where "client = (case c_session c of None \<Rightarrow> None | Some sid \<Rightarrow> find (\<lambda>x. cl_id x = sid) (clients h))"
  note c = find_SomeD [OF assms(1)]
  have run: "serve cfg st cid msg h = dispatch cfg st c client msg h"
    using assms(1,2) by (simp add: serve_def the_conn_def the_client_def andThen_def client_def split: option.splits)
  also have "\<dots> = handleAdmin cfg st c client msg rid h"
    using assms(3) by (cases msg) (simp_all add: dispatch_def Let_def)
  finally have "serve cfg st cid msg h = handleAdmin cfg st c client msg rid h" .
  moreover have "conn_open (c_id c) h" using c assms(2) by (auto simp: conn_open_def)
  ultimately show ?thesis using handleAdmin_refused [of c h cfg st client msg rid] assms(4) c by simp
qed

theorem admin_messages_need_an_admin_witness:
  "let h = snd (Accept 7 (start_hub sample_world 60 (\<lambda>n. replicate n CHR ''u'')));
       h' = snd (serve quiet_hub sample_store 7 (AdminSetUserAccess ''r1'' 1 True) h)
   in refused h 7 h'"
  unfolding Let_def
  by (rule admin_messages_need_an_admin [of _ _ "fresh_conn 7"])
    (auto simp: Accept_def start_hub_def fresh_conn_def zero_user_def userIsAdmin_def quiet_hub_def)

text \<open>
  The guard of private shares is asked about a password of blanks as if no password were set, but the
  password is set all the same.
\<close>

lemma blank_password_passes_guard:
  assumes "0 < aid"
  shows "admin_update_account cfg st cid user rid aid (Some '' '') None None =
    unless_restricted st cid user rid aid False False
      (trying (SetEQPassword st aid '' '') (\<lambda>_. writeJSON cid (AdminFailed rid ''internal''))
        (\<lambda>_. admin_done cfg st cid user rid aid ''admin_update_account'' (''account='' @ itoa aid)))"
proof -
  have "TrimSpace '' '' = []" "validatePassword '' '' = None" by code_simp+
  then show ?thesis using assms by (simp add: admin_update_account_def Let_def)
qed

section \<open>Full state\<close>

text \<open>So far only the store was read: the same tables, connections and replies.\<close>

definition only_read :: "hub \<Rightarrow> hub \<Rightarrow> bool" where
  "only_read h h' \<longleftrightarrow> outbox h' = outbox h \<and> conns h' = conns h \<and> (\<exists>fs. db h' = (db h)\<lparr>faults := fs\<rparr>)"

lemma only_read_lift: "reads m \<Longrightarrow> keeps (only_read h) (lift m)"
proof (rule keepsI)
  fix h' assume m: "reads m" and r: "only_read h h'"
  obtain x h2 where l: "lift m h' = (x, h2)" by (cases "lift m h'")
  from lift_readD [OF m l] r show "only_read h (snd (lift m h'))" by (auto simp: only_read_def l)
qed

lemma only_read_tracker: "keeps (only_read h) (tracker f)"
  by (simp add: keeps_def tracker_eq only_read_def)

text \<open>The outcome of a listing of the store, read from the tables of \<open>w\<close>: nothing when a statement of it fails.\<close>

definition listed :: "'a db \<Rightarrow> world \<Rightarrow> 'a option \<Rightarrow> bool" where
  "listed m w x \<longleftrightarrow> (\<exists>fs. x = (case fst (m (w\<lparr>faults := fs\<rparr>)) of Inl _ \<Rightarrow> None | Inr y \<Rightarrow> Some y))"

lemma optional_reads:
  assumes "reads m" and "only_read h h1"
  obtains x h2 where "optional (lift m) h1 = (Inr x, h2)" and "only_read h h2" and "listed m (db h) x"
proof -
  obtain r h2 where l: "lift m h1 = (r, h2)" by (cases "lift m h1")
  from assms(2) obtain fs where "db h1 = (db h)\<lparr>faults := fs\<rparr>" by (auto simp: only_read_def)
  with l have "fst (m ((db h)\<lparr>faults := fs\<rparr>)) = r" by (auto simp: lift_eq)
  then have "listed m (db h) (case r of Inl _ \<Rightarrow> None | Inr y \<Rightarrow> Some y)" unfolding listed_def by blast
  then show thesis
    using that [of _ h2] keepsD [OF only_read_lift [OF assms(1)] assms(2)] l by (simp add: optional_def attempt_def)
qed

text \<open>The activity on private shares is about accounts this user owns.\<close>

definition activity_of :: "world \<Rightarrow> int \<Rightarrow> ShareActivity \<Rightarrow> bool" where
  "activity_of w i act \<longleftrightarrow>
     (\<forall>e \<in> set (ActLogins act). \<exists>a \<in> set (accounts w). a_restricted a \<and> a_owner a = Some i \<and> LoginAccountID e = a_id a)
   \<and> (\<forall>e \<in> set (ActOnline act). \<exists>a \<in> set (accounts w). a_restricted a \<and> a_owner a = Some i \<and> ShAccountID e = a_id a)"

lemma activity_owned:
  assumes run: "buildShareActivity st i h1 = (Inr act, h2)" and o: "only_read h h1"
  shows "activity_of (db h) i act"
proof -
  from run obtain logins k1 snap k2 on k3 where l: "lift (ListOwnedShareLogins st i 50) h1 = (Inr logins, k1)"
    and t: "tracker Snapshot k1 = (Inr snap, k2)" and b: "lift (BuildShareOnline st i (map presence_hint snap)) k2 = (Inr on, k3)"
    and act: "act = \<lparr>ActLogins = logins, ActOnline = on\<rparr>"
    unfolding buildShareActivity_def by (elim andThen_InrE) (simp add: ret_def)
  from o obtain fs where d1: "db h1 = (db h)\<lparr>faults := fs\<rparr>" by (auto simp: only_read_def)
  have "only_read h k2"
    using keepsD [OF only_read_tracker keepsD [OF only_read_lift [OF reads_share_activity(1)] o]] l t by (metis snd_conv)
  then obtain gs where d2: "db k2 = (db h)\<lparr>faults := gs\<rparr>" by (auto simp: only_read_def)
  obtain s1 where q1: "ListOwnedShareLogins st i 50 ((db h)\<lparr>faults := fs\<rparr>) = (Inr logins, s1)"
    using l d1 by (cases "ListOwnedShareLogins st i 50 (db h1)") (auto simp: lift_def)
  obtain s2 where q2: "BuildShareOnline st i (map presence_hint snap) ((db h)\<lparr>faults := gs\<rparr>) = (Inr on, s2)"
    using b d2 by (cases "BuildShareOnline st i (map presence_hint snap) (db k2)") (auto simp: lift_def)
  have "\<exists>a \<in> set (accounts (db h)). a_restricted a \<and> a_owner a = Some i \<and> LoginAccountID e = a_id a" if e: "e \<in> set logins" for e
  proof -
    from owned_logins [OF q1] e obtain r where "LoginAccountID e = opt_id (l_account r)" "owned_login i ((db h)\<lparr>faults := fs\<rparr>) r" by blast
    then show ?thesis by (auto simp: owned_login_def owned_restricted_def opt_id_def)
  qed
  moreover have "\<exists>a \<in> set (accounts (db h)). a_restricted a \<and> a_owner a = Some i \<and> ShAccountID e = a_id a" if e: "e \<in> set on" for e
    using share_online_owned [OF q2 e] by (auto simp: owned_restricted_def)
  ultimately show ?thesis by (simp add: activity_of_def act)
qed

lemma send_payload:
  assumes "only_read h h1"
  shows "\<exists>dir gs roles act h2. only_read h h2 \<and> listed ListDirectoryUsers (db h) dir \<and> listed ListGroupDetails (db h) gs
    \<and> listed ListDiscordRoles (db h) roles \<and> (\<forall>x. act = Some x \<longrightarrow> activity_of (db h) i x) \<and>
    andThen (optional (lift ListDirectoryUsers)) (\<lambda>dir. andThen (optional (lift ListGroupDetails)) (\<lambda>gs.
      andThen (optional (lift ListDiscordRoles)) (\<lambda>roles. andThen (optional (buildShareActivity st i)) (\<lambda>act. k dir gs roles act)))) h1
    = k dir gs roles act h2"
proof -
  obtain dir h2 where 1: "optional (lift ListDirectoryUsers) h1 = (Inr dir, h2)" "only_read h h2" "listed ListDirectoryUsers (db h) dir"
    by (rule optional_reads [OF reads_activity(5) assms])
  obtain gs h3 where 2: "optional (lift ListGroupDetails) h2 = (Inr gs, h3)" "only_read h h3" "listed ListGroupDetails (db h) gs"
    by (rule optional_reads [OF reads_full_state(3) 1(2)])
  obtain roles h4 where 3: "optional (lift ListDiscordRoles) h3 = (Inr roles, h4)" "only_read h h4" "listed ListDiscordRoles (db h) roles"
    by (rule optional_reads [OF reads_activity(6) 2(2)])
  obtain r h5 where b: "buildShareActivity st i h4 = (r, h5)" by (cases "buildShareActivity st i h4")
  have "keeps (only_read h) (buildShareActivity st i)"
    unfolding buildShareActivity_def by (intro keeps_rules only_read_lift only_read_tracker reads_share_activity)
  from keepsD [OF this 3(2)] b have o: "only_read h h5" by simp
  define act where "act = (case r of Inl _ \<Rightarrow> None | Inr x \<Rightarrow> Some x)"
  have 4: "optional (buildShareActivity st i) h4 = (Inr act, h5)" by (simp add: optional_def attempt_def b act_def)
  have "\<forall>x. act = Some x \<longrightarrow> activity_of (db h) i x"
    using activity_owned [OF _ 3(2)] b by (auto simp: act_def split: sum.splits)
  then show ?thesis using 1 2 3 4 o
    by (intro exI [of _ dir] exI [of _ gs] exI [of _ roles] exI [of _ act] exI [of _ h5]) (simp add: andThen_def)
qed

lemma full_state_private:
  assumes "wf_world w" and "FullStateForUser st u on w = (Inr fs, w')"
  shows "list_all (\<lambda>m. \<exists>a \<in> set (accounts w). a_id a = MetaID m \<and> may_use w (ID u) a
          \<and> (SharedUserIDs m = [] \<or> a_restricted a \<and> a_owner a = Some (ID u))) (FullAccounts fs)
     \<and> list_all (\<lambda>e. \<exists>a \<in> set (accounts w). a_id a = OnlineAccountID e \<and> may_use w (ID u) a) (FullOnline fs)"
  using FullStateForUser_facts [OF assms] unfolding list_all_iff by auto

text \<open>
  What may be shown to a user who is no admin. The guild's groups with their members, its role names and
  its users are for everybody; what concerns accounts is not.
\<close>

definition private_payload :: "world \<Rightarrow> User \<Rightarrow> StatePayload \<Rightarrow> bool" where
  "private_payload w u p \<longleftrightarrow> \<not> PlIsAdmin p \<and> PlAdmin p = None \<and> PlUser p = u
     \<and> (\<forall>m \<in> set (FullAccounts (PlState p)). \<exists>a \<in> set (accounts w). a_id a = MetaID m \<and> may_use w (ID u) a
          \<and> (SharedUserIDs m = [] \<or> a_restricted a \<and> a_owner a = Some (ID u)))
     \<and> (\<forall>e \<in> set (FullOnline (PlState p)). \<exists>a \<in> set (accounts w). a_id a = OnlineAccountID e \<and> may_use w (ID u) a)
     \<and> (\<forall>dir. PlDirectory p = Some dir \<longrightarrow> (\<forall>e \<in> set dir. \<exists>v \<in> set (users w). \<not> AccessRevoked v
          \<and> e = \<lparr>DirID = ID v, DirDiscordID = DiscordID v, DirDisplayName = DisplayName v\<rparr>))
     \<and> listed ListGroupDetails w (PlGroups p) \<and> listed ListDiscordRoles w (PlRoles p)
     \<and> (\<forall>act. PlActivity p = Some act \<longrightarrow> activity_of w (ID u) act)"

lemma directory_listed:
  assumes "listed ListDirectoryUsers w (Some dir)" and "e \<in> set dir"
  shows "\<exists>v \<in> set (users w). \<not> AccessRevoked v \<and> e = \<lparr>DirID = ID v, DirDiscordID = DiscordID v, DirDisplayName = DisplayName v\<rparr>"
proof -
  from assms(1) obtain fs where "Some dir = (case fst (ListDirectoryUsers (w\<lparr>faults := fs\<rparr>)) of Inl _ \<Rightarrow> None | Inr y \<Rightarrow> Some y)"
    unfolding listed_def by blast
  then obtain s' where run: "ListDirectoryUsers (w\<lparr>faults := fs\<rparr>) = (Inr dir, s')"
    by (cases "ListDirectoryUsers (w\<lparr>faults := fs\<rparr>)"; cases "fst (ListDirectoryUsers (w\<lparr>faults := fs\<rparr>))") simp_all
  from query_InrD [OF run [unfolded ListDirectoryUsers_def]] assms(2) show ?thesis by auto
qed

text \<open>The online characters, as \<open>sendFullState\<close> reads them.\<close>

definition online_now :: "hub \<Rightarrow> OnlineEntry list" where
  "online_now h = map (\<lambda>(a, c). \<lparr>OnlineAccountID = a, OnlineCharacter = c\<rparr>) (fst (Online (clock (db h)) (pres h)))"



end
