(* ===== verification/WebSafety.thy ===== *)
theory WebSafety
  imports HubSafety
begin

text \<open>
  Who may do what through the web pages (internal/web/access.go, server.go, denied.go, api.go): the
  level of a user follows the groups and roles, only web admins change anything, and no request
  of the account pages touches a private share of somebody else. \<open>barely\<close> and \<open>spares\<close> are the two
  invariants, interpreted in the contracts of \<open>WebLaws\<close>.
\<close>

section \<open>Access levels\<close>

definition group_level :: "world \<Rightarrow> int \<Rightarrow> web_role" where
  "group_level w uid = Max (insert NoWeb ((\<lambda>g. abs_role (g_web_role g)) ` {g \<in> set (groups w). in_group w uid (g_id g)}))"

definition web_level :: "Server \<Rightarrow> world \<Rightarrow> User \<Rightarrow> web_role" where
  "web_level srv w u =
     (if DiscordID u \<in> set (bootstrapIDs srv) \<or> adminRoleID srv \<noteq> [] \<and> adminRoleID srv \<in> set (RoleIDs u) then AdminRole
      else max (group_level w (ID u))
        (if accessRoleID srv \<noteq> [] \<and> accessRoleID srv \<noteq> adminRoleID srv \<and> accessRoleID srv \<in> set (RoleIDs u) then ReadOnly else NoWeb))"

lemma web_level_frame [simp]: "web_level srv (s\<lparr>faults := fs\<rparr>) u = web_level srv s u"
proof -
  have "in_group (s\<lparr>faults := fs\<rparr>) = in_group s"
    by (simp add: in_group_def fun_eq_iff)
  then show ?thesis by (simp add: web_level_def group_level_def)
qed

lemma abs_role_names [simp]: "abs_role ''admin'' = AdminRole" "abs_role ''readonly'' = ReadOnly"
  by code_simp+

lemma role_bounds: "AdminRole \<le> r \<Longrightarrow> r = AdminRole" "r \<le> NoWeb \<Longrightarrow> r = NoWeb"
  by (auto intro: antisym)

lemma abs_role_Admin: "l \<in> {[], ''admin'', ''readonly''} \<Longrightarrow> abs_role l = AdminRole \<longleftrightarrow> l = ''admin''"
  by auto

lemma HighestWebRoleForUser_no_faults: "faults s = [] \<Longrightarrow> \<exists>r. HighestWebRoleForUser u s = (Inr r, s)"
  by (simp add: HighestWebRoleForUser_def ListGroupsForUser_def query_no_faults andThen_def)

lemma webAccessLevel_facts:
  assumes "webAccessLevel srv u s = (r, s')"
  obtains l where "r = Inr l" "l \<in> {[], ''admin'', ''readonly''}" "abs_role l \<le> web_level srv s u"
    "faults s = [] \<Longrightarrow> abs_role l = web_level srv s u" "s' = s\<lparr>faults := faults s'\<rparr>"
proof -
  have state: "s' = s\<lparr>faults := faults s'\<rparr>"
    using readsD [OF reads_access(2) assms] by auto
  show ?thesis
  proof (cases "DiscordID u \<in> set (bootstrapIDs srv) \<or> adminRoleID srv \<noteq> [] \<and> adminRoleID srv \<in> set (RoleIDs u)")
    case True
    with assms have "r = Inr ''admin''" "web_level srv s u = AdminRole"
      by (auto simp: webAccessLevel_def web_level_def split: if_splits)
    with state that show ?thesis by simp
  next
    case False
    let ?reader = "accessRoleID srv \<noteq> [] \<and> accessRoleID srv \<noteq> adminRoleID srv \<and> accessRoleID srv \<in> set (RoleIDs u)"
    obtain q s1 where q: "HighestWebRoleForUser u s = (q, s1)" by (cases "HighestWebRoleForUser u s")
    define g where "g = (case q of Inl _ \<Rightarrow> [] | Inr g \<Rightarrow> g)"
    have g: "g \<in> {[], ''admin'', ''readonly''}" "abs_role g \<le> group_level s (ID u)" "faults s = [] \<Longrightarrow> abs_role g = group_level s (ID u)"
      using web_role_is_maximum [of u s g s1] HighestWebRoleForUser_no_faults [of s u] q
      by (cases q; auto simp: g_def group_level_def)+
    have r: "r = Inr (if g = ''admin'' then ''admin'' else if g = ''readonly'' then ''readonly'' else if ?reader then ''readonly'' else [])"
      using assms False by (auto simp: webAccessLevel_def attempt_def q g_def [symmetric] Let_def split: if_splits)
    have w: "web_level srv s u = max (group_level s (ID u)) (if ?reader then ReadOnly else NoWeb)"
      unfolding web_level_def using False by (rule if_not_P)
    have m: "abs_role (if g = ''admin'' then ''admin'' else if g = ''readonly'' then ''readonly'' else if ?reader then ''readonly'' else [])
        = max (abs_role g) (if ?reader then ReadOnly else NoWeb)"
      using g(1) by (auto simp: max_def less_eq_web_role_def)
    show ?thesis
      using g by (intro that [OF r _ _ _ state]) (auto simp only: m w intro: max.mono split: if_splits)
  qed
qed

lemma isWebAdmin_facts:
  assumes "isWebAdmin srv u s = (r, s')"
  obtains b where "r = Inr b" "b \<Longrightarrow> web_level srv s u = AdminRole" "faults s = [] \<Longrightarrow> b = (web_level srv s u = AdminRole)" "s' = s\<lparr>faults := faults s'\<rparr>"
proof -
  obtain q s1 where q: "webAccessLevel srv u s = (q, s1)" by (cases "webAccessLevel srv u s")
  from webAccessLevel_facts [OF q] obtain l where l: "q = Inr l" "l \<in> {[], ''admin'', ''readonly''}" "abs_role l \<le> web_level srv s u"
      "faults s = [] \<Longrightarrow> abs_role l = web_level srv s u" "s1 = s\<lparr>faults := faults s1\<rparr>" by blast
  from assms q l(1) have "r = Inr (l = ''admin'')" "s' = s1"
    by (simp_all add: isWebAdmin_def andThen_def)
  with l show ?thesis
    using abs_role_Admin [OF l(2)] by (intro that [of "l = ''admin''"]) (auto dest: role_bounds)
qed

lemma canAccessWeb_facts:
  assumes "canAccessWeb srv u s = (r, s')"
  obtains b where "r = Inr b" "b \<Longrightarrow> web_level srv s u \<noteq> NoWeb" "faults s = [] \<Longrightarrow> b = (web_level srv s u \<noteq> NoWeb)" "s' = s\<lparr>faults := faults s'\<rparr>"
proof -
  obtain q s1 where q: "webAccessLevel srv u s = (q, s1)" by (cases "webAccessLevel srv u s")
  from webAccessLevel_facts [OF q] obtain l where l: "q = Inr l" "l \<in> {[], ''admin'', ''readonly''}" "abs_role l \<le> web_level srv s u"
      "faults s = [] \<Longrightarrow> abs_role l = web_level srv s u" "s1 = s\<lparr>faults := faults s1\<rparr>" by blast
  from assms q l(1) have "r = Inr (l \<noteq> [])" "s' = s1"
    by (simp_all add: canAccessWeb_def andThen_def)
  moreover have "l \<noteq> [] \<longleftrightarrow> abs_role l \<noteq> NoWeb" using l(2) by auto
  ultimately show ?thesis
    using l(3-5) by (intro that [of "l \<noteq> []"]) (auto dest: role_bounds)
qed


text \<open>
  C33: the level of a web user. The level is one of the three strings of access.go and never stands for
  more than the user's role in the policy: admin for a bootstrap id or the admin role, otherwise the
  strongest role among the groups, at least readonly for the access role. It is exactly that role
  when the connection does not fail, and reading it changes nothing.
\<close>

theorem web_level_follows_policy:
  assumes "webAccessLevel srv u s = (r, s')"
  shows "\<exists>l. r = Inr l \<and> l \<in> {[], ''admin'', ''readonly''} \<and> abs_role l \<le> web_level srv s u
    \<and> (faults s = [] \<longrightarrow> abs_role l = web_level srv s u) \<and> s' = s\<lparr>faults := faults s'\<rparr>"
  using webAccessLevel_facts [OF assms] by metis

definition sample_server :: Server where
  "sample_server = \<lparr>srv_store = sample_store, srv_hub = quiet_hub, sessionKey = [1, 2, 3], accessRoleID = ''web'', bootstrapIDs = [''7''],
     adminRoleID = [], requireACL = False\<rparr>"

theorem web_level_follows_policy_witness:
  "\<exists>l s'. webAccessLevel sample_server (sample_user\<lparr>RoleIDs := [''web'']\<rparr>) empty_world = (Inr l, s') \<and> abs_role l = ReadOnly"
proof -
  let ?u = "sample_user\<lparr>RoleIDs := [''web'']\<rparr>"
  have w: "web_level sample_server empty_world ?u = ReadOnly"
    by (simp add: web_level_def group_level_def sample_server_def sample_user_def empty_world_def max_def less_eq_web_role_def)
  obtain r s' where run: "webAccessLevel sample_server ?u empty_world = (r, s')" by (rule prod.exhaust)
  have "faults empty_world = []" by (simp add: empty_world_def)
  with web_level_follows_policy [OF run] run w show ?thesis by auto
qed

section \<open>Gates\<close>

text \<open>
  A request that changes nothing: the tables, the clients, the connections and what was sent stay; faults
  of the connection are used up and the tracker may drop its expired entries.
\<close>

definition barely :: "hub \<Rightarrow> hub \<Rightarrow> bool" where
  "barely h h' \<longleftrightarrow> h' = h\<lparr>db := (db h)\<lparr>faults := faults (db h')\<rparr>, pres := pres h'\<rparr>
     \<and> (pres h' = pres h \<or> pres h' = expireLocked (clock (db h)) (pres h))"

lemma barely_refl [simp]: "barely h h"
  by (simp add: barely_def)

lemma barelyD:
  "barely h h' \<Longrightarrow> \<exists>fs t. h' = h\<lparr>db := (db h)\<lparr>faults := fs\<rparr>, pres := t\<rparr> \<and> (t = pres h \<or> t = expireLocked (clock (db h)) (pres h))"
  unfolding barely_def by blast

lemma barelyI: "t = pres h \<or> t = expireLocked (clock (db h)) (pres h) \<Longrightarrow> barely h (h\<lparr>db := (db h)\<lparr>faults := fs\<rparr>, pres := t\<rparr>)"
  by (simp add: barely_def)

lemma pres_db: "(h :: hub)\<lparr>pres := t, db := w\<rparr> = h\<lparr>db := w, pres := t\<rparr>"
  by (cases h) simp

lemma barely_reads [keeps_rules]: "reads m \<Longrightarrow> keeps (barely h) (lift m)"
proof (rule keeps_lift)
  fix h' assume m: "reads m" and "barely h h'"
  then obtain fs t where h': "h' = h\<lparr>db := (db h)\<lparr>faults := fs\<rparr>, pres := t\<rparr>" "t = pres h \<or> t = expireLocked (clock (db h)) (pres h)"
    using barelyD by blast
  obtain fs' where "snd (m (db h')) = (db h')\<lparr>faults := fs'\<rparr>" using m unfolding reads_def by blast
  with barelyI [OF h'(2), of fs'] show "barely h (h'\<lparr>db := snd (m (db h'))\<rparr>)" by (simp add: h'(1) pres_db)
qed

lemma expire_twice [simp]: "expireLocked now (expireLocked now t) = expireLocked now t"
  by (simp add: expireLocked_def)

lemma barely_tracker: "keeps (barely h) (tracker Online)" "keeps (barely h) (tracker Snapshot)"
  by (auto simp: keeps_def tracker_eq Online_def Snapshot_def Let_def pres_db intro!: barelyI dest!: barelyD)

lemma barely_buildState: "keeps (barely h) (buildState srv u)"
  unfolding buildState_def Let_def online_entries_def
  by (intro keeps_rules reads_rules barely_tracker)


text \<open>The session of a request names a user whose access is not revoked.\<close>

definition signed_in :: "Server \<Rightarrow> (bytes \<Rightarrow> error + Session) \<Rightarrow> string option \<Rightarrow> world \<Rightarrow> User \<Rightarrow> bool" where
  "signed_in srv unmarshal cookie w u \<longleftrightarrow>
     (\<exists>sess. sessionFromRequest (sessionKey srv) unmarshal (clock w) cookie = Inr sess
       \<and> u \<in> set (users w) \<and> ID u = SessUserID sess \<and> \<not> AccessRevoked u)"

lemma signed_in_frame [simp]: "signed_in srv unmarshal cookie (w\<lparr>faults := fs\<rparr>) = signed_in srv unmarshal cookie w"
  by (simp add: signed_in_def fun_eq_iff)

definition only_faults :: "hub \<Rightarrow> hub \<Rightarrow> bool" where
  "only_faults h h' \<longleftrightarrow> (\<exists>fs. h' = h\<lparr>db := (db h)\<lparr>faults := fs\<rparr>\<rparr>)"

lemma only_faults_refl [simp]: "only_faults h h"
  unfolding only_faults_def by (metis hub.surjective hub.update_convs(1) world.surjective world.update_convs(22))

lemma only_faults_barely: "only_faults h h' \<Longrightarrow> barely h h'"
  by (auto simp: only_faults_def barely_def)

lemma storing_run:
  assumes "reads m" and "only_faults h h1"
  obtains r fs h2 where "m (db h1) = (r, (db h)\<lparr>faults := fs\<rparr>)" "only_faults h h2"
    "storing m handle k h1 = (case r of Inl e \<Rightarrow> handle e | Inr x \<Rightarrow> k x) h2"
proof -
  from assms(2) obtain fs0 where h1: "h1 = h\<lparr>db := (db h)\<lparr>faults := fs0\<rparr>\<rparr>" by (auto simp: only_faults_def)
  obtain r w where m: "m (db h1) = (r, w)" by (cases "m (db h1)")
  from readsD [OF assms(1) m] h1 obtain fs where w: "w = (db h)\<lparr>faults := fs\<rparr>" by auto
  have "storing m handle k h1 = (case r of Inl e \<Rightarrow> handle e | Inr x \<Rightarrow> k x) (h\<lparr>db := (db h)\<lparr>faults := fs\<rparr>\<rparr>)"
    using m by (simp add: storing_def attempt_def lift_eq w h1)
  then show ?thesis using m w by (intro that) (auto simp: only_faults_def)
qed

lemma requireAuth_cases:
  obtains (refused) e h1 where "requireAuth srv unmarshal cookie next h = (Inr (Inl e), h1)" "only_faults h h1"
  | (admitted) u level h1 where "requireAuth srv unmarshal cookie next h = next u level h1" "only_faults h h1"
      "signed_in srv unmarshal cookie (db h) u" "web_level srv (db h) u \<noteq> NoWeb"
      "level = ''admin'' \<Longrightarrow> web_level srv (db h) u = AdminRole"
proof (cases "sessionFromRequest (sessionKey srv) unmarshal (clock (db h)) cookie")
  case (Inl e)
  then show ?thesis by (intro refused) (auto simp: requireAuth_def andThen_def writeErr_def)
next
  case (Inr sess)
  let ?k = "\<lambda>u. if AccessRevoked u then writeErr 403 ''access_revoked'' else
       storing (webAccessLevel srv u) internal (\<lambda>level. if level = [] then writeErr 403 ''forbidden'' else next u level)"
  obtain r fs h2 where 1: "UserByID (SessUserID sess) (db h) = (r, (db h)\<lparr>faults := fs\<rparr>)" "only_faults h h2"
      "storing (UserByID (SessUserID sess)) (\<lambda>_. writeErr 401 ''unauthorized'') ?k h
        = (case r of Inl e \<Rightarrow> writeErr 401 ''unauthorized'' | Inr x \<Rightarrow> ?k x) h2"
    by (rule storing_run [OF reads_activity(2) only_faults_refl])
  have run: "requireAuth srv unmarshal cookie next h = (case r of Inl e \<Rightarrow> writeErr 401 ''unauthorized'' | Inr x \<Rightarrow> ?k x) h2"
    unfolding 1(3) [symmetric] by (simp add: requireAuth_def andThen_def Inr)
  show ?thesis
  proof (cases r)
    case (Inl e)
    with run 1(2) show ?thesis by (intro refused) (auto simp: writeErr_def)
  next
    case user: (Inr u)
    with 1(1) have u: "u \<in> set (users (db h))" "ID u = SessUserID sess" by (auto elim: UserByID_InrD)
    show ?thesis
    proof (cases "AccessRevoked u")
      case True
      with run 1(2) user show ?thesis by (intro refused) (auto simp: writeErr_def)
    next
      case False
      with Inr u have s: "signed_in srv unmarshal cookie (db h) u" by (auto simp: signed_in_def)
      let ?j = "\<lambda>level. if level = [] then writeErr 403 ''forbidden'' else next u level"
      obtain q fs3 h3 where 2: "webAccessLevel srv u (db h2) = (q, (db h)\<lparr>faults := fs3\<rparr>)" "only_faults h h3"
          "storing (webAccessLevel srv u) internal ?j h2 = (case q of Inl e \<Rightarrow> internal e | Inr x \<Rightarrow> ?j x) h3"
        by (rule storing_run [OF reads_access(2) 1(2)])
      from 1(2) have w2: "web_level srv (db h2) u = web_level srv (db h) u" by (auto simp: only_faults_def)
      from webAccessLevel_facts [OF 2(1)] obtain l where q: "q = Inr l"
        and l: "l \<in> {[], ''admin'', ''readonly''}" "abs_role l \<le> web_level srv (db h) u"
        unfolding w2 by blast
      have run3: "requireAuth srv unmarshal cookie next h = ?j l h3"
        unfolding run user using False 2(3) by (simp add: q)
      show ?thesis
      proof (cases "l = []")
        case True
        with run3 2(2) show ?thesis by (intro refused) (auto simp: writeErr_def)
      next
        case nonempty: False
        with l have "web_level srv (db h) u \<noteq> NoWeb" "l = ''admin'' \<Longrightarrow> web_level srv (db h) u = AdminRole"
          by (auto dest: role_bounds)
        with run3 nonempty 2(2) s show ?thesis by (intro admitted) auto
      qed
    qed
  qed
qed

lemma admin_check:
  assumes "only_faults h h1"
  obtains (refused) e h2 where "storing (isWebAdmin srv u) internal (\<lambda>a. if \<not> a then writeErr 403 ''readonly'' else rest) h1 = (Inr (Inl e), h2)"
      "only_faults h h2"
  | (admitted) h2 where "storing (isWebAdmin srv u) internal (\<lambda>a. if \<not> a then writeErr 403 ''readonly'' else rest) h1 = rest h2"
      "only_faults h h2" "web_level srv (db h) u = AdminRole"
proof -
  let ?j = "\<lambda>a. if \<not> a then writeErr 403 ''readonly'' else rest"
  obtain q fs h2 where 1: "isWebAdmin srv u (db h1) = (q, (db h)\<lparr>faults := fs\<rparr>)" "only_faults h h2"
      "storing (isWebAdmin srv u) internal ?j h1 = (case q of Inl e \<Rightarrow> internal e | Inr x \<Rightarrow> ?j x) h2"
    by (rule storing_run [OF reads_access(3) assms])
  from assms have w: "web_level srv (db h1) u = web_level srv (db h) u" by (auto simp: only_faults_def)
  from isWebAdmin_facts [OF 1(1)] obtain b where q: "q = Inr b" and b: "b \<Longrightarrow> web_level srv (db h) u = AdminRole"
    unfolding w by blast
  show ?thesis
  proof (cases b)
    case True
    with 1 q b show ?thesis by (intro admitted) auto
  next
    case False
    with 1 q show ?thesis by (intro refused) (auto simp: writeErr_def)
  qed
qed

lemma requireAdmin_cases:
  obtains (refused) e h1 where "requireAdmin srv unmarshal cookie next h = (Inr (Inl e), h1)" "only_faults h h1"
  | (admitted) u level h1 where "requireAdmin srv unmarshal cookie next h = next u level h1" "only_faults h h1"
      "signed_in srv unmarshal cookie (db h) u" "web_level srv (db h) u = AdminRole"
proof (cases rule: requireAuth_cases [of srv unmarshal cookie "\<lambda>u level. storing (isWebAdmin srv u) internal
       (\<lambda>admin. if \<not> admin then writeErr 403 ''readonly'' else next u level)" h])
  case (refused e h1)
  then show ?thesis by (intro that(1)) (simp_all add: requireAdmin_def)
next
  case (admitted u level h1)
  show ?thesis
    by (rule admin_check [OF admitted(2), of srv u "next u level"]) (use admitted that in \<open>auto simp: requireAdmin_def\<close>)
qed

lemma unless_readonly_cases:
  assumes "only_faults h h1" and "level = ''admin'' \<Longrightarrow> web_level srv (db h) u = AdminRole"
  obtains (refused) e h2 where "unless_readonly srv u level rest h1 = (Inr (Inl e), h2)" "only_faults h h2"
  | (admitted) h2 where "unless_readonly srv u level rest h1 = rest h2" "only_faults h h2" "web_level srv (db h) u = AdminRole"
proof (cases "level = ''admin''")
  case True
  with assms show ?thesis by (intro admitted) (auto simp: unless_readonly_def)
next
  case False
  have "unless_readonly srv u level rest = storing (isWebAdmin srv u) internal (\<lambda>a. if \<not> a then writeErr 403 ''readonly'' else rest)"
    using False by (simp add: unless_readonly_def) (rule arg_cong [of _ _ "storing (isWebAdmin srv u) internal"], auto simp: fun_eq_iff)
  with admin_check [OF assms(1), of srv u rest] that show ?thesis by metis
qed


section \<open>Requests that change something\<close>

definition harmless :: "hub \<Rightarrow> 'a hm \<Rightarrow> bool" where
  "harmless h m \<longleftrightarrow> (\<forall>h1. only_faults h h1 \<longrightarrow> barely h (snd (m h1)))"

lemma harmless_keeps: "keeps (barely h) m \<Longrightarrow> harmless h m"
  by (simp add: harmless_def keepsD only_faults_barely)

lemma harmless_writeErr [simp]: "harmless h (writeErr n c)"
  by (intro harmless_keeps keeps_answers)

lemma harmless_unless_readonly:
  assumes "web_level srv (db h) u \<noteq> AdminRole" and "level \<noteq> ''admin''"
  shows "harmless h (unless_readonly srv u level rest)"
  unfolding harmless_def
proof (intro allI impI)
  fix h1 assume "only_faults h h1"
  then show "barely h (snd (unless_readonly srv u level rest h1))"
    by (rule unless_readonly_cases [of h h1 level srv u rest]) (use assms in \<open>auto intro: only_faults_barely\<close>)
qed

lemma readers_harmless:
  assumes "web_level srv (db h) u \<noteq> AdminRole" and "level \<noteq> ''admin''"
  shows "harmless h (handleMe u level rq)" "harmless h (handleState srv u rq)" "harmless h (handleUsers srv u level rest rq)"
    "harmless h (handleGroups srv u level rq)"
proof -
  note refuses = harmless_unless_readonly [OF assms]
  show "harmless h (handleMe u level rq)"
    unfolding handleMe_def by (intro harmless_keeps keeps_rules)
  show "harmless h (handleState srv u rq)"
    unfolding handleState_def by (intro harmless_keeps keeps_rules barely_buildState)
  show "harmless h (handleUsers srv u level rest rq)"
    unfolding handleUsers_def by (auto simp: refuses split: list.splits option.splits)
  show "harmless h (handleGroups srv u level rq)"
    unfolding handleGroups_def by (simp add: refuses)
qed

lemma subs_harmless:
  assumes "web_level srv (db h) u \<noteq> AdminRole" and "level \<noteq> ''admin''"
  shows "harmless h (handleAccountSub srv u level rest rq)" "harmless h (handleGroupSub srv u level rest rq)"
proof -
  note refuses = harmless_unless_readonly [OF assms]
  have other: "harmless h (account_names_sub srv u aid part rq)" if "part \<notin> {''aliases'', ''tags'', ''characters''}" for aid part
    using that by (simp add: account_names_sub_def Let_def)
  show "harmless h (handleAccountSub srv u level rest rq)"
    unfolding handleAccountSub_def by (cases "rq_method rq") (auto simp: refuses other split: list.splits option.splits)
  show "harmless h (handleGroupSub srv u level rest rq)"
    unfolding handleGroupSub_def by (cases "rq_method rq") (auto simp: refuses split: list.splits option.splits)
qed

text \<open>What an action answers and changes, for the user behind a cookie.\<close>

definition gated :: "Server \<Rightarrow> (bytes \<Rightarrow> error + Session) \<Rightarrow> string option \<Rightarrow> hub \<Rightarrow> 'a answer hm \<Rightarrow> bool" where
  "gated srv unmarshal cookie h m \<longleftrightarrow>
     (barely h (snd (m h)) \<or> (\<exists>u. signed_in srv unmarshal cookie (db h) u \<and> web_level srv (db h) u = AdminRole))
     \<and> ((\<exists>x. fst (m h) = Inr (Inr x)) \<longrightarrow> (\<exists>u. signed_in srv unmarshal cookie (db h) u \<and> web_level srv (db h) u \<noteq> NoWeb))"

lemma gated_auth:
  assumes "\<And>u level. web_level srv (db h) u \<noteq> AdminRole \<Longrightarrow> level \<noteq> ''admin'' \<Longrightarrow> harmless h (next u level)"
  shows "gated srv unmarshal cookie h (requireAuth srv unmarshal cookie next)"
proof (cases rule: requireAuth_cases [of srv unmarshal cookie "next" h])
  case (refused e h1)
  then show ?thesis by (auto simp: gated_def intro: only_faults_barely)
next
  case (admitted u level h1)
  show ?thesis
  proof (cases "web_level srv (db h) u = AdminRole")
    case True
    with admitted show ?thesis by (auto simp: gated_def)
  next
    case False
    with admitted have "harmless h (next u level)" by (intro assms(1)) auto
    with admitted have "barely h (snd (next u level h1))" by (simp add: harmless_def)
    with admitted show ?thesis by (auto simp: gated_def)
  qed
qed

lemma gated_admin: "gated srv unmarshal cookie h (requireAdmin srv unmarshal cookie next)"
proof (cases rule: requireAdmin_cases [of srv unmarshal cookie "next" h])
  case (refused e h1)
  then show ?thesis by (auto simp: gated_def intro: only_faults_barely)
next
  case (admitted u level h1)
  then have "web_level srv (db h) u \<noteq> NoWeb" by simp
  with admitted show ?thesis unfolding gated_def by blast
qed

lemma gated_if: "(b \<Longrightarrow> gated srv unmarshal c h m) \<Longrightarrow> (\<not> b \<Longrightarrow> gated srv unmarshal c h n) \<Longrightarrow> gated srv unmarshal c h (if b then m else n)"
  by simp

lemma gated_err: "gated srv unmarshal c h (writeErr n e)"
  by (simp add: gated_def writeErr_def)

lemma web_api_gated: "gated srv unmarshal (rq_cookie rq) h (web_api srv unmarshal rq)"
  unfolding web_api_def Let_def
  by (intro gated_if gated_auth gated_admin gated_err readers_harmless subs_harmless)

text \<open>
  C29: only web admins change anything through the web pages. When a request leaves the hub in any way
  changed (a table, a client, a connection, a message sent, a live tracker entry), its cookie is a
  session signed with the server's key and not expired, of a user in the database whose access is
  not revoked and who is an admin of the web pages now. A request that succeeds at all has such a
  session of a user with some level. Failing statements never help.
\<close>

theorem web_changes_need_an_admin:
  assumes "web_api srv unmarshal rq h = (r, h')"
  shows "(barely h h' \<or> (\<exists>u. signed_in srv unmarshal (rq_cookie rq) (db h) u \<and> web_level srv (db h) u = AdminRole))
    \<and> ((\<exists>x. r = Inr (Inr x)) \<longrightarrow> (\<exists>u. signed_in srv unmarshal (rq_cookie rq) (db h) u \<and> web_level srv (db h) u \<noteq> NoWeb))"
  using web_api_gated [of srv unmarshal rq h] by (simp add: gated_def assms)

theorem web_changes_need_an_admin_witness:
  "let rq = \<lparr>rq_method = PATCH, rq_path = ''users/1/access'', rq_cookie = None, rq_body = None, rq_query = (\<lambda>_. []), rq_form = None,
         rq_csv = Inr [], rq_backup = Inl (Err [])\<rparr>;
       h = start_hub shared_world 60 (\<lambda>n. replicate n CHR ''u'')
   in barely h (snd (web_api sample_server (\<lambda>_. Inl (Err [])) rq h))"
proof -
  let ?rq = "\<lparr>rq_method = PATCH, rq_path = ''users/1/access'', rq_cookie = None, rq_body = None, rq_query = (\<lambda>_. []), rq_form = None,
         rq_csv = Inr [], rq_backup = Inl (Err [])\<rparr> :: request"
  let ?h = "start_hub shared_world 60 (\<lambda>n. replicate n CHR ''u'')"
  obtain r h' where run: "web_api sample_server (\<lambda>_. Inl (Err [])) ?rq ?h = (r, h')" by (rule prod.exhaust)
  from web_changes_need_an_admin [OF run] run show ?thesis
    by (simp add: signed_in_def sessionFromRequest_def)
qed

section \<open>Private shares\<close>

lemma quiet_spared [simp]: "quiet (spared i s0)"
  by (rule quietI) (simp_all add: spared_def labels_def untouched_def footprint_simps)

lemma spared_faults [simp]: "spared i s0 (s\<lparr>faults := fs\<rparr>) = spared i s0 s"
  by (simp add: spared_def labels_def untouched_def footprint_simps)

lemma spared_details:
  assumes j: "j \<noteq> i"
  shows "keeps (spared i s0) (SetEQDisabled j b)" "keeps (spared i s0) (SetAccountAccess j rs us gs)" "keeps (spared i s0) (DeleteEQAccount j)"
    "keeps (spared i s0) (RemoveAlias n j)" "keeps (spared i s0) (RemoveTag n j)" "keeps (spared i s0) (RemoveCharacter n j)"
proof -
  have "keeps (spared i s0) (update_account j con refs f)" if "\<And>a. a_id (f a) = a_id a" for con refs f
    by (intro keeps_spared untouched_update_account j that labels_update_account)
  then show "keeps (spared i s0) (SetEQDisabled j b)"
    unfolding SetEQDisabled_def by (intro keeps_rules) simp
  have "frame (labels i) (ReplaceAccountUsers j us)" "frame (labels i) (ReplaceAccountGroups j gs)"
    unfolding ReplaceAccountUsers_def ReplaceAccountGroups_def Let_def
    by (intro frame_rules unseen_labels labels_update_account; simp add: labels_def)+
  then show "keeps (spared i s0) (SetAccountAccess j rs us gs)"
    unfolding SetAccountAccess_def by (intro keeps_rules spared_operations keeps_spared untouched_operations j)
  have "frame (labels i) (delete_account j)"
    unfolding delete_account_def using j by (intro frame_stmt unseen_labels) (auto simp: frame_def labels_def intro!: filter_cong)
  then show "keeps (spared i s0) (DeleteEQAccount j)"
    unfolding DeleteEQAccount_def by (intro keeps_rules keeps_spared untouched_delete_account j)
  have rest: "filter (\<lambda>x. (n_account x = j \<longrightarrow> \<not> same_name n x) \<and> n_account x = i) xs = filter (\<lambda>x. n_account x = i) xs" for n xs
    using j by (auto intro!: filter_cong)
  show "keeps (spared i s0) (RemoveAlias n j)" "keeps (spared i s0) (RemoveTag n j)" "keeps (spared i s0) (RemoveCharacter n j)"
    unfolding RemoveAlias_def RemoveTag_def RemoveCharacter_def Let_def
    by (intro keeps_rules keeps_exec_delete quiet_spared; simp add: spared_def untouched_def footprint_simps labels_def rest)+
qed

lemma spared_audit: "keeps (spared i s0) (Audit st u a d)" "keeps (spared i s0) (AuditAccount st u k a d)"
  unfolding Audit_def by (intro keeps_spared untouched_AuditAccount labels_framed)+

lemma spared_revocation: "keeps (spared i s0) (SetUserAccessRevoked uid b)"
proof -
  have "frame (\<lambda>s. (next_account s, footprint i s, labels i s)) (SetUserAccessRevoked uid b)"
    unfolding SetUserAccessRevoked_def revoke_tokens_def
    by (intro frame_rules; simp add: unseen_def footprint_simps labels_def)
  from frame_keeps [OF this, of "\<lambda>(n, g, l). i < n \<and> g = footprint i s0 \<and> l = labels i s0"] show ?thesis
    by (simp add: keeps_def spared_def untouched_def)
qed

definition spares :: "int \<Rightarrow> world \<Rightarrow> hub \<Rightarrow> bool" where
  "spares i s0 h \<longleftrightarrow> spared i s0 (db h)"

lemma spares_lift: "keeps (spared i s0) m \<Longrightarrow> keeps (spares i s0) (lift m)"
  by (rule keeps_lift) (simp add: spares_def keepsD)

interpretation spare: reading_law "spares i s0" for i s0
  by unfold_locales (simp_all add: spares_def)

lemma spares_broadcast: "keeps (spares i s0) (broadcastFullState cfg st)"
proof -
  have "keeps (spares i s0) (update_client sid f)" for sid f
    unfolding update_client_def by (rule keeps_modify) (simp add: spares_def)
  then have "keeps (spares i s0) (refresh_and_send cfg st cl)" for cl
    unfolding refresh_and_send_def by (intro keeps_rules spare.store_read spare.sendFullState_kept reads_activity)
  then show ?thesis
    unfolding broadcastFullState_def by (intro keeps_rules spare.notify_kept)
qed

interpretation spare: account_law "spares i s0" st "\<lambda>j. j \<noteq> i" for i s0 st
  by unfold_locales (intro spares_lift spared_operations spared_details spared_audit spares_broadcast; assumption)+

text \<open>The guard, in a state where the share is still what it was.\<close>

lemma guard_refuses:
  assumes a: "filter (\<lambda>a. a_id a = i) (accounts s0) = [a]" "a_restricted a" "owner_id a \<noteq> actor" and s: "spared i s0 s"
  shows "fst (CheckRestrictedAccountManage st i actor b p s) \<noteq> Inr ()"
proof -
  obtain r s1 where l: "loadEQAccountMeta st i None s = (r, s1)" by (cases "loadEQAccountMeta st i None s")
  show ?thesis
  proof (cases r)
    case (Inl e)
    with l show ?thesis by (simp add: CheckRestrictedAccountManage_def LoadEQAccountMeta_def andThen_def)
  next
    case (Inr m)
    from loadEQAccountMeta_InrD [OF l [unfolded Inr]] obtain c where c: "MetaID m = i" "meta_of_row st s None m c" by blast
    then have "c \<in> set (filter (\<lambda>a. a_id a = i) (accounts s))" by (simp add: meta_of_row_def)
    also have "filter (\<lambda>a. a_id a = i) (accounts s) = [a]" using s a(1) by (simp add: spared_def untouched_def footprint_def)
    finally have "c = a" by simp
    with c(2) a(2,3) show ?thesis
      by (simp add: CheckRestrictedAccountManage_def LoadEQAccountMeta_def andThen_def l Inr meta_of_row_def)
  qed
qed

lemma unless_managed_refuses:
  assumes "filter (\<lambda>a. a_id a = i) (accounts s0) = [a]" "a_restricted a" "owner_id a \<noteq> ID u"
  shows "keeps (spares i s0) (unless_managed srv i u b p rest)"
proof (rule keepsI)
  fix h assume h: "spares i s0 h"
  let ?m = "CheckRestrictedAccountManage (srv_store srv) i (ID u) b p"
  from guard_refuses [OF assms, of "db h"] h obtain e where e: "fst (?m (db h)) = Inl e"
    unfolding spares_def by (metis old.unit.exhaust sum.exhaust)
  have "spares i s0 (h\<lparr>db := snd (?m (db h))\<rparr>)"
    using keepsD [OF spare.store_read [OF reads_CheckRestrictedAccountManage] h] by simp
  then show "spares i s0 (snd (unless_managed srv i u b p rest h))"
    by (simp add: unless_managed_def storing_def attempt_def lift_eq e writeErr_def)
qed


lemma spares_requireAuth:
  assumes "spares i s0 h" and next_ok: "\<And>u level. signed_in srv unmarshal cookie (db h) u \<Longrightarrow> keeps (spares i s0) (next u level)"
  shows "spares i s0 (snd (requireAuth srv unmarshal cookie next h))"
proof (cases rule: requireAuth_cases [of srv unmarshal cookie "next" h])
  case (refused e h1)
  with assms(1) show ?thesis by (auto simp: only_faults_def spares_def)
next
  case (admitted u level h1)
  with assms(1) have "spares i s0 h1" by (auto simp: only_faults_def spares_def)
  from keepsD [OF next_ok [OF admitted(3)] this] admitted(1) show ?thesis by simp
qed

lemma spares_storing_add:
  assumes k: "\<And>j. j \<noteq> i \<Longrightarrow> keeps (spares i s0) (k j)"
  shows "keeps (spares i s0) (storing (AddEQAccount st n p []) internal k)"
proof (rule keepsI)
  fix h assume h: "spares i s0 h"
  let ?add = "AddEQAccount st n p []"
  have h': "spares i s0 (h\<lparr>db := snd (?add (db h))\<rparr>)"
    using keepsD [OF spares_lift [OF keeps_spared [OF untouched_AddEQAccount labels_framed(4)]] h] by simp
  show "spares i s0 (snd (storing ?add internal k h))"
  proof (cases "fst (?add (db h))")
    case (Inl e)
    with h' show ?thesis by (simp add: storing_def attempt_def lift_eq internal_def writeErr_def)
  next
    case (Inr j)
    then have "?add (db h) = (Inr j, snd (?add (db h)))" by (simp add: prod_eq_iff)
    then have "j = next_account (db h)" by (auto elim: AddEQAccount_InrD)
    with h have "j \<noteq> i" by (simp add: spares_def spared_def untouched_def)
    from keepsD [OF k [OF this] h'] Inr show ?thesis by (simp add: storing_def attempt_def lift_eq)
  qed
qed

lemma spares_handlers:
  "keeps (spares i s0) (handleAccounts srv u rq)" "keeps (spares i s0) (handleAccountsExport srv u rq)"
  "keeps (spares i s0) (web_set_user_access srv u uid b)" "keeps (spares i s0) (backup_export srv u p)"
proof -
  note audit = spares_lift [OF spared_audit(1)] spares_lift [OF spared_audit(2)]
  note finish = spare.changed_by_kept [where st = "srv_store srv" and srv = srv, OF refl]
  show "keeps (spares i s0) (handleAccounts srv u rq)"
    unfolding handleAccounts_def Let_def SetEQRequiredRole_def
    by (intro keeps_rules spares_storing_add lift_rules spares_lift [OF spared_operations(2)] finish audit)
  show "keeps (spares i s0) (handleAccountsExport srv u rq)"
    unfolding handleAccountsExport_def Let_def by (intro keeps_rules spare.store_read reads_rules audit)
  have "keeps (spares i s0) (disconnectUser x y)" for x y
    unfolding disconnectUser_def update_conn_def
    by (intro keeps_rules keeps_modify spare.writeJSON_kept spare.notify_kept; simp add: spares_def)
  then show "keeps (spares i s0) (web_set_user_access srv u uid b)"
    unfolding web_set_user_access_def by (intro keeps_rules spares_lift spared_revocation finish spared_audit)
  show "keeps (spares i s0) (backup_export srv u p)"
    unfolding backup_export_def by (intro keeps_rules spare.store_read reads_rules reads_backup audit)
qed

text \<open>
  C30: private shares are safe from web admins. Apart from the pages of groups, the CSV import and the
  restoration of a backup, no request changes a private share that belongs to somebody else, whoever
  sends it, admin or not: its row (credentials, disabled flag, owner), its grants, its recipients,
  its aliases, tags and characters stay, also when statements fail.
\<close>

theorem web_spares_private_shares:
  assumes "wf_world (db h)" and "a \<in> set (accounts (db h))" and "a_restricted a"
    and "\<forall>u. signed_in srv unmarshal (rq_cookie rq) (db h) u \<longrightarrow> owner_id a \<noteq> ID u"
    and "\<not> HasPrefix (rq_path rq) ''groups''" and "rq_path rq \<noteq> ''accounts/import''" and "\<not> restores rq"
    and "web_api srv unmarshal rq h = (r, h')"
  shows "footprint (a_id a) (db h') = footprint (a_id a) (db h) \<and> labels (a_id a) (db h') = labels (a_id a) (db h)"
proof -
  let ?i = "a_id a" and ?J = "spares (a_id a) (db h)"
  have J: "?J h" using assms(1,2) by (simp add: spares_def spared_def untouched_def wf_world_def wf_accounts_def)
  have row: "filter (\<lambda>b. a_id b = ?i) (accounts (db h)) = [a]"
    using assms(1,2) by (intro filter_unique_key) (simp_all add: wf_world_def wf_accounts_def)
  have account: "keeps ?J (handleAccountSub srv u level rest rq)" if "signed_in srv unmarshal (rq_cookie rq) (db h) u" for u level rest
  proof (rule spare.handleAccountSub_kept [OF refl])
    fix j b p and k :: "web_ok answer hm" assume "\<not> j \<noteq> ?i"
    then show "keeps ?J (unless_managed srv j u b p k)"
      using assms(4) that by (simp add: unless_managed_refuses [OF row assms(3)])
  qed
  have backup: "keeps ?J (handleSettingsBackup srv u rq)" if "rq_path rq = ''settings/backup''" for u
    using that assms(7) by (cases "rq_method rq") (simp_all add: handleSettingsBackup_def restores_def spares_handlers keeps_answers)
  have branch: "?J (snd ((if b then m else n) h))" if "b \<Longrightarrow> ?J (snd (m h))" "\<not> b \<Longrightarrow> ?J (snd (n h))" for b and m n :: "web_ok answer hm"
    using that by simp
  have admin: "?J (snd (requireAdmin srv unmarshal cookie next h))" if "\<And>u level. keeps ?J (next u level)"
    for cookie and "next" :: "User \<Rightarrow> string \<Rightarrow> web_ok answer hm"
    by (rule keepsD [OF spare.requireAdmin_kept [OF that] J])
  have err: "?J (snd (writeErr n c h))" for n c
    using J by (simp add: writeErr_def)
  have no_groups: "\<not> HasPrefix (rq_path rq) ''groups/''" "rq_path rq \<noteq> ''groups''"
    using assms(5) HasPrefixD [of "rq_path rq" "''groups/''"] by (auto simp: HasPrefix_def)
  have "?J (snd (web_api srv unmarshal rq h))"
    unfolding web_api_def Let_def using assms(6) no_groups
    by (intro branch admin err spares_requireAuth [OF J] account spare.readers_kept spare.handleUsers_kept spares_handlers backup)
      simp_all
  with assms(8) show ?thesis by (simp add: spares_def spared_def untouched_def)
qed


definition other_session :: Session where
  "other_session = \<lparr>SessUserID = 2, SessDiscordID = ''43'', SessDisplayName = ''Bob'', SessRoleIDs = [], ExpiresAt = 100\<rparr>"

theorem web_spares_private_shares_witness:
  "let rq = \<lparr>rq_method = DELETE, rq_path = ''accounts/1'', rq_cookie = Some ''x.y'', rq_body = None, rq_query = (\<lambda>_. []), rq_form = None,
         rq_csv = Inr [], rq_backup = Inl (Err [])\<rparr>;
       h = start_hub shared_world 60 (\<lambda>n. replicate n CHR ''u'')
   in footprint 1 (db (snd (web_api sample_server (\<lambda>_. Inr other_session) rq h))) = footprint 1 shared_world"
proof -
  let ?rq = "\<lparr>rq_method = DELETE, rq_path = ''accounts/1'', rq_cookie = Some ''x.y'', rq_body = None, rq_query = (\<lambda>_. []), rq_form = None,
         rq_csv = Inr [], rq_backup = Inl (Err [])\<rparr> :: request"
  let ?h = "start_hub shared_world 60 (\<lambda>n. replicate n CHR ''u'')"
  let ?a = "accounts shared_world ! 0"
  obtain r h' where run: "web_api sample_server (\<lambda>_. Inr other_session) ?rq ?h = (r, h')" by (rule prod.exhaust)
  have a: "?a \<in> set (accounts (db ?h))" "a_restricted ?a" "a_id ?a = 1" "owner_id ?a = 1"
    by (simp_all add: start_hub_def shared_world_def owner_id_def)
  have other: "\<forall>u. signed_in sample_server (\<lambda>_. Inr other_session) (rq_cookie ?rq) (db ?h) u \<longrightarrow> owner_id ?a \<noteq> ID u"
    unfolding a(4) by (auto simp: signed_in_def sessionFromRequest_def parseSession_def other_session_def Let_def split: list.splits if_splits option.splits)
  have "footprint (a_id ?a) (db h') = footprint (a_id ?a) (db ?h) \<and> labels (a_id ?a) (db h') = labels (a_id ?a) (db ?h)"
    using a other run by (intro web_spares_private_shares) (simp_all add: start_hub_def HasPrefix_def restores_def)
  then show ?thesis unfolding Let_def run a(3) by (simp add: start_hub_def)
qed

end
