(* ===== verification/WebPages.thy ===== *)
theory WebPages
  imports WebSafety
begin

text \<open>
  What a web page shows (internal/web/accounts_access.go, \<open>buildState\<close> of api.go): accounts the user may
  use, private shares of his own, and the lists of the admin pages for web admins only.
\<close>

section \<open>What the pages show\<close>

text \<open>An element of a collected list comes from an element of the list, in a state with the same tables.\<close>

lemma collect_reads_origin:
  assumes "\<And>x. reads (f x)" and "collect_each f xs (s\<lparr>faults := fs0\<rparr>) = (Inr ys, s')" and "y \<in> set ys"
  shows "\<exists>x fs s1. x \<in> set xs \<and> f x (s\<lparr>faults := fs\<rparr>) = (Inr (Some y), s1)"
  using assms(2,3)
proof (induction xs arbitrary: fs0 ys)
  case (Cons x xs)
  from Cons.prems(1) obtain o1 s1 ys1 where x: "f x (s\<lparr>faults := fs0\<rparr>) = (Inr o1, s1)"
    and rest: "collect_each f xs s1 = (Inr ys1, s')" and ys: "ys = (case o1 of None \<Rightarrow> ys1 | Some v \<Rightarrow> v # ys1)"
    by (auto elim!: andThen_InrE)
  from readsD [OF assms(1) x] obtain fs1 where s1: "s1 = s\<lparr>faults := fs1\<rparr>" by auto
  from Cons.IH [OF rest [unfolded s1]] x ys Cons.prems(2) show ?case
    by (cases o1) force+
qed simp

lemma or_skip_Some: "or_skip m s = (Inr (Some y), s') \<Longrightarrow> m s = (Inr y, s')"
  by (auto simp: or_skip_def attempt_def split: prod.splits sum.splits)

lemma ListEQAccountMetas_all:
  assumes "ListEQAccountMetas st None True s = (Inr ms, s')" and "m \<in> set ms"
  shows "\<exists>a. meta_of_row st s None m a"
proof -
  from assms(1) obtain ids s1 out s2 where q: "query (\<lambda>s. sort (map a_id (filter (\<lambda>a. True \<or> \<not> a_disabled a) (accounts s)))) s = (Inr ids, s1)"
    and l: "load_all st None ids s1 = (Inr out, s2)" and ms: "ms = sort_key meta_order out"
    unfolding ListEQAccountMetas_def option.case by (elim andThen_InrE) simp
  obtain fs where "s1 = s\<lparr>faults := fs\<rparr>" using readsD [OF reads_query q] by blast
  with load_all_InrD [OF l] assms(2) ms show ?thesis by simp
qed

definition web_admin :: "Server \<Rightarrow> world \<Rightarrow> User \<Rightarrow> bool" where
  "web_admin srv w u \<longleftrightarrow> web_level srv w u = AdminRole"

definition may_see :: "Server \<Rightarrow> world \<Rightarrow> User \<Rightarrow> account_row \<Rightarrow> bool" where
  "may_see srv w u a \<longleftrightarrow> may_use w (ID u) a \<or> \<not> a_restricted a \<and> web_admin srv w u"

lemma meta_row_id: "wf_world s \<Longrightarrow> meta_of_row st s v m a \<Longrightarrow> meta_of_row st' s v' m' a' \<Longrightarrow> MetaID m = MetaID m' \<Longrightarrow> a = a'"
  using unique_key_eq [of a_id "accounts s" a a'] by (auto simp: meta_of_row_def wf_world_def wf_accounts_def)

lemma visible_accounts:
  assumes wf: "wf_world s" and run: "webVisibleAccounts srv u s = (Inr ms, s')" and m: "m \<in> set ms"
  shows "\<exists>a \<in> set (accounts s). a_id a = MetaID m \<and> may_see srv s u a \<and> (a_restricted a \<and> SharedUserIDs m \<noteq> [] \<longrightarrow> a_owner a = Some (ID u))"
proof -
  let ?f = "\<lambda>allowed admin a. let hasAccess = MetaID a \<in> set allowed in
       if Restricted a then
         if \<not> hasAccess then ret None else or_skip (LoadEQAccountMetaForViewer (srv_store srv) (MetaID a) u)
       else if hasAccess \<or> admin then ret (Some a) else ret None"
  from run obtain all s1 allowed s2 admin s3 where 1: "ListEQAccountMetas (srv_store srv) None True s = (Inr all, s1)"
    and 2: "AllowedAccountIDs u s1 = (Inr allowed, s2)" and 3: "isWebAdmin srv u s2 = (Inr admin, s3)"
    and 4: "collect_each (?f allowed admin) all s3 = (Inr ms, s')"
    unfolding webVisibleAccounts_def by (elim andThen_InrE) (rule that)
  obtain fs1 where s1: "s1 = s\<lparr>faults := fs1\<rparr>" using readsD [OF reads_full_state(1) 1] by blast
  obtain fs2 where s2: "s2 = s\<lparr>faults := fs2\<rparr>" using readsD [OF reads_AllowedAccountIDs 2] s1 by auto
  obtain fs3 where s3: "s3 = s\<lparr>faults := fs3\<rparr>" using readsD [OF reads_access(3) 3] s2 by auto
  have ids: "set allowed = a_id ` {a \<in> set (accounts s). may_use s (ID u) a}"
    using allowed_ids(2) [OF _ 2] wf by (simp add: s1 quiet_simps)
  have adm: "admin \<longrightarrow> web_admin srv s u"
    using isWebAdmin_facts [OF 3] by (auto simp: s2 web_admin_def)
  have rd: "reads (?f allowed admin a)" for a
    unfolding Let_def by (intro reads_rules)
  from collect_reads_origin [of "?f allowed admin", OF rd 4 [unfolded s3] m] obtain a fs s4 where a: "a \<in> set all"
    and fa: "?f allowed admin a (s\<lparr>faults := fs\<rparr>) = (Inr (Some m), s4)" by blast
  from ListEQAccountMetas_all [OF 1 a] obtain c where c: "meta_of_row (srv_store srv) s None a c" by blast
  show ?thesis
  proof (cases "Restricted a")
    case True
    with fa have acc: "MetaID a \<in> set allowed" and "or_skip (LoadEQAccountMetaForViewer (srv_store srv) (MetaID a) u) (s\<lparr>faults := fs\<rparr>) = (Inr (Some m), s4)"
      by (auto simp: Let_def split: if_splits)
    from or_skip_Some [OF this(2)] have "loadEQAccountMeta (srv_store srv) (MetaID a) (Some u) (s\<lparr>faults := fs\<rparr>) = (Inr m, s4)"
      by (simp add: LoadEQAccountMetaForViewer_def)
    from loadEQAccountMeta_InrD [OF this] obtain d where d: "MetaID m = MetaID a" "meta_of_row (srv_store srv) s (Some u) m d" by auto
    from meta_row_id [OF wf d(2) c d(1)] have "d = c" .
    with c d acc have "may_use s (ID u) c" by (intro may_use_by_id [OF wf]) (auto simp: meta_of_row_def ids)
    with c d \<open>d = c\<close> show ?thesis by (intro bexI [of _ c]) (auto simp: meta_of_row_def may_see_def)
  next
    case False
    with fa have "m = a" and acc: "MetaID a \<in> set allowed \<or> admin"
      by (auto simp: Let_def split: if_splits)
    with c False adm have "may_see srv s u c"
      using may_use_by_id [OF wf, of c "ID u"] by (auto simp: meta_of_row_def ids may_see_def)
    with c False \<open>m = a\<close> show ?thesis by (intro bexI [of _ c]) (auto simp: meta_of_row_def)
  qed
qed


lemma visible_shares:
  assumes wf: "wf_world s" and run: "webVisibleShares srv u s = (Inr ms, s')" and m: "m \<in> set ms"
  shows "\<exists>a \<in> set (accounts s). a_id a = MetaID m \<and> a_restricted a \<and> (owner_id a = ID u \<or> web_admin srv s u)
    \<and> (SharedUserIDs m \<noteq> [] \<longrightarrow> SharedUserIDs m = sort (map snd (filter (\<lambda>sh. fst sh = MetaID m) (shares s))))"
proof -
  let ?f = "\<lambda>admin a. if \<not> Restricted a then ret None
       else if OwnerUserID a = ID u then or_skip (LoadEQAccountMetaForViewer (srv_store srv) (MetaID a) u)
       else if admin then or_skip (LoadEQAccountMeta (srv_store srv) (MetaID a)) else ret None"
  from run obtain all s1 admin s2 where 1: "ListEQAccountMetas (srv_store srv) None True s = (Inr all, s1)"
    and 2: "isWebAdmin srv u s1 = (Inr admin, s2)" and 3: "collect_each (?f admin) all s2 = (Inr ms, s')"
    unfolding webVisibleShares_def by (elim andThen_InrE) (rule that)
  obtain fs1 where s1: "s1 = s\<lparr>faults := fs1\<rparr>" using readsD [OF reads_full_state(1) 1] by blast
  obtain fs2 where s2: "s2 = s\<lparr>faults := fs2\<rparr>" using readsD [OF reads_access(3) 2] s1 by auto
  have adm: "admin \<longrightarrow> web_admin srv s u"
    using isWebAdmin_facts [OF 2] by (auto simp: s1 web_admin_def)
  have rd: "reads (?f admin a)" for a
    by (intro reads_rules)
  from collect_reads_origin [of "?f admin", OF rd 3 [unfolded s2] m] obtain a fs s4 where a: "a \<in> set all"
    and fa: "?f admin a (s\<lparr>faults := fs\<rparr>) = (Inr (Some m), s4)" by blast
  from ListEQAccountMetas_all [OF 1 a] obtain c where c: "meta_of_row (srv_store srv) s None a c" by blast
  from fa have restricted: "Restricted a" and who: "OwnerUserID a = ID u \<or> admin"
    and load: "\<exists>v. loadEQAccountMeta (srv_store srv) (MetaID a) v (s\<lparr>faults := fs\<rparr>) = (Inr m, s4)"
    by (auto simp: LoadEQAccountMetaForViewer_def LoadEQAccountMeta_def split: if_splits dest!: or_skip_Some)
  from load obtain v where v: "loadEQAccountMeta (srv_store srv) (MetaID a) v (s\<lparr>faults := fs\<rparr>) = (Inr m, s4)" by blast
  from loadEQAccountMeta_InrD [OF v] obtain d where d: "MetaID m = MetaID a" "meta_of_row (srv_store srv) s v m d" by auto
  from d(2) have "SharedUserIDs m \<noteq> [] \<longrightarrow> SharedUserIDs m = sort (map snd (filter (\<lambda>sh. fst sh = MetaID m) (shares s)))"
    by (simp add: meta_of_row_def)
  with d(1) c restricted who adm show ?thesis by (intro bexI [of _ c]) (auto simp: meta_of_row_def)
qed

text \<open>The entry of an account the user sees on a page.\<close>

definition on_page :: "Server \<Rightarrow> world \<Rightarrow> User \<Rightarrow> int \<Rightarrow> bool" where
  "on_page srv w u i \<longleftrightarrow> (\<exists>a \<in> set (accounts w). a_id a = i \<and> (may_see srv w u a \<or> a_restricted a \<and> owner_id a = ID u))"

lemma lift_Inr:
  assumes "lift m h = (Inr x, h')" and "reads m" and "db h = w\<lparr>faults := fs0\<rparr>"
  shows "\<exists>fs. m (w\<lparr>faults := fs0\<rparr>) = (Inr x, w\<lparr>faults := fs\<rparr>) \<and> db h' = w\<lparr>faults := fs\<rparr>"
proof -
  obtain r w' where m: "m (db h) = (r, w')" by (cases "m (db h)")
  with readsD [OF assms(2) m] assms(1,3) show ?thesis by (auto simp: lift_def)
qed

text \<open>What a page may hold.\<close>

definition page_allowed :: "Server \<Rightarrow> world \<Rightarrow> User \<Rightarrow> WebState \<Rightarrow> bool" where
  "page_allowed srv w u ws \<longleftrightarrow>
    (\<forall>m \<in> set (WsAccounts ws). \<exists>a \<in> set (accounts w). a_id a = MetaID m \<and> may_see srv w u a
      \<and> (a_restricted a \<and> SharedUserIDs m \<noteq> [] \<longrightarrow> a_owner a = Some (ID u)))
    \<and> (\<forall>m \<in> set (WsShares ws). \<exists>a \<in> set (accounts w). a_id a = MetaID m \<and> a_restricted a
        \<and> (owner_id a = ID u \<or> web_admin srv w u)
        \<and> (SharedUserIDs m \<noteq> [] \<longrightarrow> SharedUserIDs m = sort (map snd (filter (\<lambda>sh. fst sh = MetaID m) (shares w)))))
    \<and> (\<not> web_admin srv w u \<longrightarrow> WsConnections ws = [] \<and> WsUsers ws = [] \<and> WsRoles ws = [] \<and> WsGroups ws = []
        \<and> (\<forall>e \<in> set (WsOnline ws). on_page srv w u (OnlineAccountID e))
        \<and> (\<forall>e \<in> set (WsSessions ws). on_page srv w u (HintAccountID e)))"

lemma buildState_allowed:
  assumes "wf_world (db h)" and "buildState srv u h = (Inr ws, h')"
  shows "page_allowed srv (db h) u ws"
proof -
  let ?w = "db h"
  let ?rest = "\<lambda>isAdmin accts shs. let visible = MetaID ` set (accts @ shs) in
     andThen online_entries (\<lambda>on.
     andThen (tracker Snapshot) (\<lambda>snap.
     let online = filter (\<lambda>e. isAdmin \<or> OnlineAccountID e \<in> visible) on;
         sess = map presence_hint (filter (\<lambda>e. isAdmin \<or> AccountID e \<in> visible) snap) in
     if isAdmin then
       andThen (lift AdminState_of) (\<lambda>adm.
       andThen (lift ListGroupDetails) (\<lambda>gs.
       andThen (gets (Connections (srv_hub srv))) (\<lambda>con.
       ret \<lparr>WsAccounts = accts, WsShares = shs, WsOnline = online, WsSessions = sess, WsConnections = con,
         WsUsers = AdminUsers adm, WsRoles = AdminRoles adm, WsGroups = gs\<rparr>)))
     else ret \<lparr>WsAccounts = accts, WsShares = shs, WsOnline = online, WsSessions = sess, WsConnections = [],
         WsUsers = [], WsRoles = [], WsGroups = []\<rparr>))"
  from assms(2) obtain isAdmin h1 accts h2 shs h3 where 1: "lift (isWebAdmin srv u) h = (Inr isAdmin, h1)"
    and 2: "lift (webVisibleAccounts srv u) h1 = (Inr accts, h2)" and 3: "lift (webVisibleShares srv u) h2 = (Inr shs, h3)"
    and 4: "?rest isAdmin accts shs h3 = (Inr ws, h')"
    unfolding buildState_def by (elim andThen_InrE) (rule that)
  have w: "db h = ?w\<lparr>faults := faults ?w\<rparr>" by simp
  from lift_Inr [OF 1 reads_access(3) w] obtain fs1 where a1: "isWebAdmin srv u ?w = (Inr isAdmin, ?w\<lparr>faults := fs1\<rparr>)" "db h1 = ?w\<lparr>faults := fs1\<rparr>" by auto
  from lift_Inr [OF 2 reads_visible(1) a1(2)] obtain fs2 where a2: "webVisibleAccounts srv u (?w\<lparr>faults := fs1\<rparr>) = (Inr accts, ?w\<lparr>faults := fs2\<rparr>)" "db h2 = ?w\<lparr>faults := fs2\<rparr>" by auto
  from lift_Inr [OF 3 reads_visible(2) a2(2)] obtain fs3 where a3: "webVisibleShares srv u (?w\<lparr>faults := fs2\<rparr>) = (Inr shs, ?w\<lparr>faults := fs3\<rparr>)" by auto
  have adm: "isAdmin \<longrightarrow> web_admin srv ?w u"
    using isWebAdmin_facts [OF a1(1)] by (auto simp: web_admin_def)
  have same: "may_see srv (?w\<lparr>faults := fs\<rparr>) = may_see srv ?w" "web_admin srv (?w\<lparr>faults := fs\<rparr>) = web_admin srv ?w" for fs
    by (simp_all add: may_see_def web_admin_def fun_eq_iff)
  have wf: "wf_world (?w\<lparr>faults := fs\<rparr>)" for fs using assms(1) by simp
  note va = visible_accounts [OF wf a2(1), unfolded same, simplified]
  note vs = visible_shares [OF wf a3(1), unfolded same, simplified]
  have parts: "WsAccounts ws = accts" "WsShares ws = shs"
    using 4 by (auto simp: Let_def split: if_splits elim!: andThen_InrE)
  have seen: "on_page srv ?w u i" if "i \<in> MetaID ` set (accts @ shs)" "\<not> web_admin srv ?w u" for i
    using that va vs unfolding on_page_def by fastforce
  have plain: "WsConnections ws = [] \<and> WsUsers ws = [] \<and> WsRoles ws = [] \<and> WsGroups ws = []
      \<and> (\<forall>e \<in> set (WsOnline ws). OnlineAccountID e \<in> MetaID ` set (accts @ shs))
      \<and> (\<forall>e \<in> set (WsSessions ws). HintAccountID e \<in> MetaID ` set (accts @ shs))" if "\<not> isAdmin"
    using 4 that by (auto simp: Let_def presence_hint_def elim!: andThen_InrE)
  show ?thesis
    using va vs adm plain seen unfolding page_allowed_def parts by blast
qed

lemma page_allowed_frame [simp]: "page_allowed srv (w\<lparr>faults := fs\<rparr>) u = page_allowed srv w u"
  by (simp add: page_allowed_def fun_eq_iff may_see_def web_admin_def on_page_def)


definition sample_session :: Session where
  "sample_session = \<lparr>SessUserID = 1, SessDiscordID = ''77'', SessDisplayName = ''Ann'', SessRoleIDs = [], ExpiresAt = 100\<rparr>"

text \<open>A cookie the server has signed for \<open>sample_session\<close>; its JSON text is one byte here.\<close>

definition sample_token :: string where
  "sample_token = (case signSession [1, 2, 3] (\<lambda>_. Inr [0]) 0 sample_session of Inr t \<Rightarrow> t | Inl _ \<Rightarrow> [])"

lemma sample_token_read:
  "sessionFromRequest [1, 2, 3] (\<lambda>_. Inr sample_session) now (Some sample_token) = (if now \<le> 100 then Inr sample_session else Inl (Err ''expired''))"
proof -
  let ?marshal = "\<lambda>x. if x = sample_session then Inr [0] else Inl (Err [])"
  have s: "sample_session = (if ExpiresAt sample_session = 0 then sample_session\<lparr>ExpiresAt := 0 + sessionTTL\<rparr> else sample_session)"
    by (simp add: sample_session_def)
  have "signSession [1, 2, 3] ?marshal 0 sample_session = Inr sample_token"
    unfolding sample_token_def signSession_def s [symmetric] Let_def by simp
  have json: "(\<lambda>_. Inr sample_session) raw = (Inr x :: error + Session)" if "?marshal x = Inr raw" for x raw
    using that by (simp split: if_splits)
  note read = signed_session_read [OF json \<open>signSession [1, 2, 3] ?marshal 0 sample_session = Inr sample_token\<close> s]
  have "parseSession [1, 2, 3] (\<lambda>_. Inr sample_session) now sample_token = (if now \<le> ExpiresAt sample_session then Inr sample_session else Inl (Err ''expired''))"
    "sample_token \<noteq> []"
    by (rule read, assumption)+
  then show ?thesis by (simp add: sessionFromRequest_def sample_session_def)
qed

definition admin_server :: Server where
  "admin_server = sample_server\<lparr>bootstrapIDs := [''77'']\<rparr>"

definition state_request :: request where
  "state_request = \<lparr>rq_method = GET, rq_path = ''state'', rq_cookie = Some sample_token, rq_body = None, rq_query = (\<lambda>_. []), rq_form = None,
     rq_csv = Inr [], rq_backup = Inl (Err [])\<rparr>"

lemma admin_admitted:
  assumes "UserByID 1 (db h) = (Inr u, db h)" and "DiscordID u = ''77''" and "\<not> AccessRevoked u" and "clock (db h) \<le> 100"
  shows "requireAuth admin_server (\<lambda>_. Inr sample_session) (Some sample_token) next h = next u ''admin'' h"
proof -
  have key: "sessionKey admin_server = [1, 2, 3]" by (simp add: admin_server_def sample_server_def)
  have "SessUserID sample_session = 1" by (simp add: sample_session_def)
  moreover have "webAccessLevel admin_server u (db h) = (Inr ''admin'', db h)"
    using assms(2) by (simp add: webAccessLevel_def admin_server_def ret_def)
  ultimately show ?thesis
    using assms by (simp add: requireAuth_def andThen_def gets_def key sample_token_read storing_def attempt_def lift_def)
qed


end
