(* ===== verification/WebLogin.thy ===== *)
theory WebLogin
  imports WebSafety
begin

text \<open>
  internal/web: signing in with Discord (oauth.go), the session cookie (session.go), the page for
  those who are refused (denied.go) and the gate of the user interface (server.go).

  Discord's HTTP interface is outside the repository: \<open>DiscordAPI\<close> holds what its three calls answer, the
  status and the body or the error of the transport, and the decoders of their JSON bodies. A page
  is what the handler answers: a plain error, a redirect with what it does to the session cookie, the
  page of a refusal, or the file served. The log lines and the deadlines of the requests are left out.
\<close>

section \<open>Query strings\<close>

text \<open>\<open>url.QueryEscape\<close> and \<open>url.Values.Encode\<close>, whose keys come sorted.\<close>

definition unreserved :: "char \<Rightarrow> bool" where
  "unreserved c \<longleftrightarrow> list_ex (\<lambda>(lo, hi). lo \<le> c \<and> c \<le> hi) [(CHR ''a'', CHR ''z''), (CHR ''A'', CHR ''Z''), (CHR ''0'', CHR ''9'')]
     \<or> c \<in> set ''-_.~''"

definition hex_upper :: "nat \<Rightarrow> char" where
  "hex_upper n = ''0123456789ABCDEF'' ! n"

definition escape_char :: "char \<Rightarrow> string" where
  "escape_char c =
     (if unreserved c then [c] else if c = CHR '' '' then ''+''
      else [CHR ''%'', hex_upper (of_char c div 16), hex_upper (of_char c mod 16)])"

definition QueryEscape :: "string \<Rightarrow> string" where
  "QueryEscape s = concat (map escape_char s)"

fun query_pairs :: "(string \<times> string) list \<Rightarrow> string" where
  "query_pairs [] = []"
| "query_pairs [(k, v)] = QueryEscape k @ ''='' @ QueryEscape v"
| "query_pairs ((k, v) # kvs) = QueryEscape k @ ''='' @ QueryEscape v @ ''&'' @ query_pairs kvs"

definition EncodeValues :: "(string \<times> string) list \<Rightarrow> string" where
  "EncodeValues kvs = query_pairs (sort_key fst kvs)"

section \<open>Pages\<close>

datatype cookie_change = KeepCookie | SetCookie string bool int | ClearCookie

datatype page =
    HttpError nat string
  | Redirect string cookie_change
  | DeniedPage string string
  | ServeFile string
  | NotFoundPage

record Site =
  site_server :: Server
  publicURL :: string
  clientID :: string
  clientSecret :: string
  guildID :: string

definition BasePath :: string where "BasePath = ''/admin''"
definition AppName :: string where "AppName = ''Alfred Identity Management''"
definition discordAuthURL :: string where "discordAuthURL = ''https://discord.com/api/oauth2/authorize''"

definition method_not_allowed :: "page db" where
  "method_not_allowed = ret (HttpError 405 ''method not allowed'')"

text \<open>A call whose error becomes a page.\<close>

definition or_page :: "'a db \<Rightarrow> page \<Rightarrow> ('a \<Rightarrow> page db) \<Rightarrow> page db" where
  "or_page m p k = attempt m (\<lambda>r. case r of Inl _ \<Rightarrow> ret p | Inr x \<Rightarrow> k x)"

definition the_clock :: "int db" where
  "the_clock s = (Inr (clock s), s)"

definition redirectURI :: "Site \<Rightarrow> string" where
  "redirectURI site = publicURL site @ BasePath @ ''/oauth/callback''"

definition setSessionCookie :: "Site \<Rightarrow> (Session \<Rightarrow> error + bytes) \<Rightarrow> Session \<Rightarrow> cookie_change db" where
  "setSessionCookie site marshal sess =
     andThen the_clock (\<lambda>now.
     case signSession (sessionKey (site_server site)) marshal now sess of Inl e \<Rightarrow> fail e
     | Inr tok \<Rightarrow> ret (SetCookie tok (HasPrefix (publicURL site) ''https://'') sessionTTL))"

definition clearSessionCookie :: cookie_change where
  "clearSessionCookie = ClearCookie"

section \<open>Signing in\<close>

definition handleLogin :: "Site \<Rightarrow> request \<Rightarrow> page db" where
  "handleLogin site rq =
     (if rq_method rq \<noteq> GET then method_not_allowed else
      or_page (makeOAuthState (sessionKey (site_server site))) (HttpError 500 ''internal error'') (\<lambda>state.
        ret (Redirect (discordAuthURL @ ''?'' @ EncodeValues
          [(''client_id'', clientID site), (''response_type'', ''code''), (''redirect_uri'', redirectURI site),
           (''scope'', ''identify guilds.members.read''), (''state'', state)]) KeepCookie)))"

record discordUser =
  du_id :: string
  du_username :: string
  du_global_name :: string

text \<open>The form of the token request is the argument of \<open>token_call\<close>.\<close>

record DiscordAPI =
  token_call :: "(string \<times> string) list \<Rightarrow> error + nat \<times> string"
  identity_call :: "string \<Rightarrow> error + nat \<times> string"
  member_call :: "string \<Rightarrow> string \<Rightarrow> error + nat \<times> string"
  token_json :: "string \<Rightarrow> error + string"
  user_json :: "string \<Rightarrow> error + discordUser"
  member_json :: "string \<Rightarrow> error + string list"

definition fetched :: "string \<Rightarrow> error + nat \<times> string \<Rightarrow> (string \<Rightarrow> error + 'a) \<Rightarrow> error + 'a" where
  "fetched what reply decode =
     (case reply of Inl e \<Rightarrow> Inl e | Inr (status, text) \<Rightarrow>
      if status \<ge> 300 then Inl (Err (what @ '' status '' @ itoa (int status) @ '': '' @ text)) else decode text)"

definition exchangeCode :: "Site \<Rightarrow> DiscordAPI \<Rightarrow> string \<Rightarrow> error + string" where
  "exchangeCode site api code =
     (case fetched ''token'' (token_call api
        [(''client_id'', clientID site), (''client_secret'', clientSecret site), (''grant_type'', ''authorization_code''),
         (''code'', code), (''redirect_uri'', redirectURI site)]) (token_json api) of
        Inl e \<Rightarrow> Inl e
      | Inr tok \<Rightarrow> if tok = [] then Inl (Err ''empty access token'') else Inr tok)"

definition fetchIdentity :: "DiscordAPI \<Rightarrow> string \<Rightarrow> error + discordUser" where
  "fetchIdentity api accessToken =
     (case fetched ''identity'' (identity_call api accessToken) (user_json api) of
        Inl e \<Rightarrow> Inl e
      | Inr u \<Rightarrow> if du_id u = [] then Inl (Err ''empty user id'') else Inr u)"

definition fetchGuildMemberRoles :: "Site \<Rightarrow> DiscordAPI \<Rightarrow> string \<Rightarrow> error + string list" where
  "fetchGuildMemberRoles site api accessToken =
     fetched ''member'' (member_call api (guildID site) accessToken) (member_json api)"

definition deny_to :: "string \<Rightarrow> page db" where
  "deny_to reason = ret (Redirect (BasePath @ ''/denied?reason='' @ reason) clearSessionCookie)"

definition new_session :: "User \<Rightarrow> Session" where
  "new_session u = \<lparr>SessUserID = ID u, SessDiscordID = DiscordID u, SessDisplayName = DisplayName u, SessRoleIDs = RoleIDs u, ExpiresAt = 0\<rparr>"

definition sign_in :: "Site \<Rightarrow> (Session \<Rightarrow> error + bytes) \<Rightarrow> string \<Rightarrow> string \<Rightarrow> string list \<Rightarrow> page db" where
  "sign_in site marshal discordID display roles =
     or_page (UpsertUser discordID display roles) (HttpError 500 ''internal error'') (\<lambda>u.
     or_page (EnsureUserInDefaultGroupIfNone u) (HttpError 500 ''internal error'') (\<lambda>_.
     if AccessRevoked u then deny_to ''revoked'' else
     or_page (canAccessWeb (site_server site) u) (HttpError 500 ''internal error'') (\<lambda>allowed.
     if \<not> allowed then deny_to ''not_authorized'' else
     or_page (setSessionCookie site marshal (new_session u)) (HttpError 500 ''session error'') (\<lambda>c.
     ret (Redirect (BasePath @ ''/'') c)))))"

definition handleOAuthCallback :: "Site \<Rightarrow> (Session \<Rightarrow> error + bytes) \<Rightarrow> DiscordAPI \<Rightarrow> request \<Rightarrow> page db" where
  "handleOAuthCallback site marshal api rq =
     (if rq_method rq \<noteq> GET then method_not_allowed
      else if rq_query rq ''error'' \<noteq> [] then ret (HttpError 403 (''Discord login denied: '' @ rq_query rq ''error''))
      else let state = rq_query rq ''state''; code = rq_query rq ''code'' in
      if code = [] then ret (HttpError 400 ''missing OAuth code'') else
      andThen the_clock (\<lambda>now.
      case verifyOAuthState (sessionKey (site_server site)) now state of
        Inl _ \<Rightarrow> ret (HttpError 400 ''invalid OAuth state'')
      | Inr _ \<Rightarrow>
      (case exchangeCode site api code of Inl _ \<Rightarrow> ret (HttpError 502 ''oauth token exchange failed'')
      | Inr tok \<Rightarrow>
      (case fetchIdentity api tok of Inl _ \<Rightarrow> ret (HttpError 502 ''failed to load Discord profile'')
      | Inr identity \<Rightarrow>
      (case fetchGuildMemberRoles site api tok of
        Inl _ \<Rightarrow> ret (HttpError 403 ''you must be a member of the configured Discord guild'')
      | Inr roles \<Rightarrow>
        sign_in site marshal (du_id identity) (if du_global_name identity = [] then du_username identity else du_global_name identity) roles)))))"

definition handleLogout :: "request \<Rightarrow> page db" where
  "handleLogout rq =
     (if rq_method rq \<noteq> POST \<and> rq_method rq \<noteq> GET then method_not_allowed
      else ret (Redirect (BasePath @ ''/login'') clearSessionCookie))"

definition handleDenied :: "request \<Rightarrow> page db" where
  "handleDenied rq =
     (if rq_method rq \<noteq> GET then method_not_allowed else
      let reason = rq_query rq ''reason'' in
      ret (if reason = ''revoked'' then DeniedPage ''SSO access revoked''
             ''Your SSO access has been revoked. Contact a guild admin if you think this is a mistake.''
           else if reason = ''not_authorized'' then DeniedPage ''Not authorized''
             ''You must be a member of an access group that grants web UI access (admin or read-only), or hold the Discord admin role. Ask a guild admin to add you to a group with web access enabled.''
           else DeniedPage ''Access denied'' (''Your Discord account is not allowed to use '' @ AppName @ ''.'')))"

section \<open>The user interface\<close>

text \<open>\<open>spaHandler\<close>; \<open>rq_path\<close> is here what follows \<open>/admin\<close>. \<open>ServeFile\<close> names the file handed to the file server.\<close>

definition elsewhere :: "string \<Rightarrow> bool" where
  "elsewhere path \<longleftrightarrow> HasPrefix path ''/api'' \<or> path \<in> {''/login'', ''/logout'', ''/denied'', ''/ws''} \<or> HasPrefix path ''/oauth''"

definition spaHandler :: "Site \<Rightarrow> (bytes \<Rightarrow> error + Session) \<Rightarrow> request \<Rightarrow> page db" where
  "spaHandler site unmarshal rq =
     (let path = (if rq_path rq = [] then ''/'' else rq_path rq);
          denied = deny_to ''not_authorized'' in
      if elsewhere path then ret NotFoundPage else
      andThen the_clock (\<lambda>now.
      case sessionFromRequest (sessionKey (site_server site)) unmarshal now (rq_cookie rq) of
        Inl _ \<Rightarrow> ret (Redirect (BasePath @ ''/login'') KeepCookie)
      | Inr sess \<Rightarrow>
        attempt (UserByID (SessUserID sess)) (\<lambda>r. case r of Inl _ \<Rightarrow> denied
        | Inr u \<Rightarrow> if AccessRevoked u then denied else
          attempt (canAccessWeb (site_server site) u) (\<lambda>a. if a \<noteq> Inr True then denied
          else ret (ServeFile (if path \<noteq> ''/'' \<and> CHR ''.'' \<notin> set (tl path) then ''/'' else path))))))"

section \<open>What a login needs\<close>

lemma or_pageE:
  assumes "or_page m p k s = (Inr q, s')" and "p \<noteq> q"
  obtains x s1 where "m s = (Inr x, s1)" "k x s1 = (Inr q, s')"
  using assms by (auto simp: or_page_def attempt_def ret_def split: prod.splits sum.splits)

lemma or_page_run: "m s = (Inr x, s1) \<Longrightarrow> or_page m p k s = k x s1"
  by (simp add: or_page_def attempt_def)

lemma clock_kept:
  "frame clock (UpsertUser d n rs)" "frame clock (EnsureUserInDefaultGroupIfNone u)"
proof -
  have q: "unseen clock" by (simp add: unseen_def)
  have [frame_rules]: "frame clock (update_group g f)" for g f
    unfolding update_group_def by (intro frame_stmt q) (simp add: frame_def)
  show "frame clock (UpsertUser d n rs)" "frame clock (EnsureUserInDefaultGroupIfNone u)"
    unfolding UpsertUser_def upsert_user_def EnsureUserInDefaultGroupIfNone_def EnsureDefaultGroup_def AddGroupUser_def
      CreateGroup_def insert_group_def FindGroupIDByName_def ListGroupsForUser_def syncDefaultGroupBasePerms_def Let_def
    by (intro frame_rules frame_stmt q; simp add: frame_def Let_def update_group_def stmt_def split: list.splits option.splits)+
qed

lemma sign_in_cookie:
  assumes "sign_in site marshal d n roles s = (Inr (Redirect target (SetCookie tok secure age)), s')"
  obtains u where "u \<in> set (users s')" "DiscordID u = d" "\<not> AccessRevoked u" "web_level (site_server site) s' u \<noteq> NoWeb"
    "signSession (sessionKey (site_server site)) marshal (clock s) (new_session u) = Inr tok" "clock s' = clock s" "target = ''/admin/''"
proof -
  from assms obtain u s1 s2 where 1: "UpsertUser d n roles s = (Inr u, s1)" and 2: "EnsureUserInDefaultGroupIfNone u s1 = (Inr (), s2)"
    and 3: "(if AccessRevoked u then deny_to ''revoked'' else
     or_page (canAccessWeb (site_server site) u) (HttpError 500 ''internal error'') (\<lambda>allowed.
     if \<not> allowed then deny_to ''not_authorized'' else
     or_page (setSessionCookie site marshal (new_session u)) (HttpError 500 ''session error'') (\<lambda>c.
     ret (Redirect (BasePath @ ''/'') c)))) s2 = (Inr (Redirect target (SetCookie tok secure age)), s')"
    unfolding sign_in_def by (elim or_pageE) auto
  from 3 have live: "\<not> AccessRevoked u" by (auto simp: deny_to_def clearSessionCookie_def)
  with 3 obtain s3 where 4: "canAccessWeb (site_server site) u s2 = (Inr True, s3)"
    and 5: "or_page (setSessionCookie site marshal (new_session u)) (HttpError 500 ''session error'') (\<lambda>c. ret (Redirect (BasePath @ ''/'') c)) s3
       = (Inr (Redirect target (SetCookie tok secure age)), s')"
    by (auto simp: deny_to_def clearSessionCookie_def split: if_splits elim!: or_pageE)
  from 5 obtain c s4 where 6: "setSessionCookie site marshal (new_session u) s3 = (Inr c, s4)" "s' = s4" "target = ''/admin/''" "c = SetCookie tok secure age"
    by (auto simp: BasePath_def elim: or_pageE)
  from canAccessWeb_facts [OF 4] have lvl: "web_level (site_server site) s2 u \<noteq> NoWeb" "s3 = s2\<lparr>faults := faults s3\<rparr>" by auto
  have s4: "s4 = s3" "signSession (sessionKey (site_server site)) marshal (clock s3) (new_session u) = Inr tok"
    using 6(1,4) by (auto simp: setSessionCookie_def andThen_def the_clock_def split: sum.splits)
  have c: "clock s3 = clock s"
    using frame_result [OF clock_kept(1) 1] frame_result [OF clock_kept(2) 2] by (subst lvl(2)) simp
  have "users s' = users s1" using frame_result [OF assigning_spares_tokens(3) 2] 6(2) s4(1) by (subst (asm) lvl(2)) simp
  then show ?thesis
    using UpsertUser_result [OF 1] live lvl(1) s4 6 c
    by (intro that [of u]) (simp_all, metis lvl(2) web_level_frame)
qed

text \<open>
  C32: who gets a session. If the OAuth callback sets a session cookie, the state is one the server has signed in
  the last ten minutes, Discord has exchanged the code and named the user, and answered for his
  membership of the guild; he is stored under that Discord id, his access is not revoked and the policy
  gives him web access. The cookie then signs in exactly this user.
\<close>

theorem login_needs_membership:
  assumes "\<And>x raw. marshal x = Inr raw \<Longrightarrow> unmarshal raw = Inr x"
    and "handleOAuthCallback site marshal api rq s = (Inr (Redirect target (SetCookie tok secure age)), s')"
  shows "verifyOAuthState (sessionKey (site_server site)) (clock s) (rq_query rq ''state'') = Inr ()
    \<and> (\<exists>access du roles u. exchangeCode site api (rq_query rq ''code'') = Inr access \<and> fetchIdentity api access = Inr du
      \<and> fetchGuildMemberRoles site api access = Inr roles \<and> DiscordID u = du_id du
      \<and> signed_in (site_server site) unmarshal (Some tok) s' u \<and> web_level (site_server site) s' u \<noteq> NoWeb)"
proof -
  from assms(2) obtain access du roles where 1: "verifyOAuthState (sessionKey (site_server site)) (clock s) (rq_query rq ''state'') = Inr ()"
      "exchangeCode site api (rq_query rq ''code'') = Inr access" "fetchIdentity api access = Inr du" "fetchGuildMemberRoles site api access = Inr roles"
    and 2: "sign_in site marshal (du_id du) (if du_global_name du = [] then du_username du else du_global_name du) roles s
      = (Inr (Redirect target (SetCookie tok secure age)), s')"
    by (auto simp: handleOAuthCallback_def method_not_allowed_def Let_def andThen_def the_clock_def ret_def split: if_splits sum.splits)
  from sign_in_cookie [OF 2] obtain u where u: "u \<in> set (users s')" "DiscordID u = du_id du" "\<not> AccessRevoked u"
      "web_level (site_server site) s' u \<noteq> NoWeb" "clock s' = clock s"
      "signSession (sessionKey (site_server site)) marshal (clock s) (new_session u) = Inr tok" by blast
  let ?sess = "(new_session u)\<lparr>ExpiresAt := clock s + sessionTTL\<rparr>"
  have "?sess = (if ExpiresAt (new_session u) = 0 then (new_session u)\<lparr>ExpiresAt := clock s + sessionTTL\<rparr> else new_session u)"
    by (simp add: new_session_def)
  from signed_session_read(1) [OF assms(1) u(6) this, where later = "clock s"] signed_session_read(2) [OF assms(1) u(6) this] u
  have "sessionFromRequest (sessionKey (site_server site)) unmarshal (clock s') (Some tok) = Inr ?sess"
    by (simp add: sessionFromRequest_def sessionTTL_def)
  with u have "signed_in (site_server site) unmarshal (Some tok) s' u"
    by (auto simp: signed_in_def new_session_def)
  with 1 u show ?thesis by blast
qed

definition sample_site :: Site where
  "sample_site = \<lparr>site_server = sample_server, publicURL = ''https://id.example'', clientID = ''c'', clientSecret = ''s'', guildID = ''9''\<rparr>"

definition sample_discord :: DiscordAPI where
  "sample_discord = \<lparr>token_call = (\<lambda>form. Inr (if (''code'', ''abc'') \<in> set form then 200 else 401, ''tok'')),
     identity_call = (\<lambda>t. Inr (if t = ''tok'' then 200 else 401, ''me'')),
     member_call = (\<lambda>g t. Inr (if g = ''9'' \<and> t = ''tok'' then 200 else 404, ''member'')),
     token_json = (\<lambda>b. Inr b), user_json = (\<lambda>b. Inr \<lparr>du_id = ''77'', du_username = ''ann'', du_global_name = ''Ann''\<rparr>),
     member_json = (\<lambda>b. Inr [''web''])\<rparr>"

definition callback_request :: "string \<Rightarrow> string \<Rightarrow> request" where
  "callback_request state code = \<lparr>rq_method = GET, rq_path = [], rq_cookie = None, rq_body = None,
     rq_query = (\<lambda>k. if k = ''state'' then state else if k = ''code'' then code else []), rq_form = None,
     rq_csv = Inr [], rq_backup = Inl NoRows\<rparr>"

lemma sign_in_run:
  assumes "UpsertUser d n roles s = (Inr u, s1)" and "EnsureUserInDefaultGroupIfNone u s1 = (Inr (), s2)" and "\<not> AccessRevoked u"
    and "canAccessWeb (site_server site) u s2 = (Inr True, s3)" and "setSessionCookie site marshal (new_session u) s3 = (Inr c, s4)"
  shows "sign_in site marshal d n roles s = (Inr (Redirect ''/admin/'' c), s4)"
  using assms by (simp add: sign_in_def or_page_run BasePath_def ret_def)

theorem login_needs_membership_witness:
  "let s = seeded_world\<lparr>clock := 1000\<rparr>; state = ''n.1000'' @ ''.'' @ sign [1, 2, 3] ''n.1000'';
       x0 = \<lparr>SessUserID = 1, SessDiscordID = ''77'', SessDisplayName = ''Ann'', SessRoleIDs = [''web''], ExpiresAt = 44200\<rparr>;
       marshal = (\<lambda>x. if x = x0 then Inr [0] else Inl NoRows); unmarshal = (\<lambda>raw. if raw = [0] then Inr x0 else Inl NoRows)
   in \<exists>tok s' u. handleOAuthCallback sample_site marshal sample_discord (callback_request state ''abc'') s
        = (Inr (Redirect ''/admin/'' (SetCookie tok True 43200)), s')
      \<and> signed_in sample_server unmarshal (Some tok) s' u \<and> DiscordID u = ''77''"
proof -
  let ?s = "seeded_world\<lparr>clock := 1000\<rparr>" and ?state = "''n.1000'' @ ''.'' @ sign [1, 2, 3] ''n.1000''"
  let ?u = "sample_user\<lparr>RoleIDs := [''web'']\<rparr>"
  define x0 where "x0 = \<lparr>SessUserID = 1, SessDiscordID = ''77'', SessDisplayName = ''Ann'', SessRoleIDs = [''web''], ExpiresAt = 44200\<rparr>"
  let ?marshal = "\<lambda>x. if x = x0 then Inr [0] else Inl NoRows" and ?unmarshal = "\<lambda>raw. if raw = [0] then Inr x0 else Inl NoRows"
  let ?s1 = "snd (UpsertUser ''77'' ''Ann'' [''web''] ?s)"
  let ?s2 = "snd (EnsureUserInDefaultGroupIfNone ?u ?s1)"
  let ?s3 = "snd (canAccessWeb sample_server ?u ?s2)"
  have "fst (UpsertUser ''77'' ''Ann'' [''web''] ?s) = Inr ?u" "fst (EnsureUserInDefaultGroupIfNone ?u ?s1) = Inr ()"
    "fst (canAccessWeb sample_server ?u ?s2) = Inr True"
    by code_simp+
  then have steps: "UpsertUser ''77'' ''Ann'' [''web''] ?s = (Inr ?u, ?s1)" "EnsureUserInDefaultGroupIfNone ?u ?s1 = (Inr (), ?s2)"
    "canAccessWeb sample_server ?u ?s2 = (Inr True, ?s3)"
    by (simp_all add: prod_eq_iff)
  have ck: "clock ?s3 = 1000" by code_simp
  obtain tok where tok: "signSession [1, 2, 3] ?marshal 1000 (new_session ?u) = Inr tok"
    by (simp add: signSession_def new_session_def sample_user_def x0_def sessionTTL_def Let_def)
  let ?page = "Redirect ''/admin/'' (SetCookie tok True 43200)"
  have key: "sessionKey sample_server = [1, 2, 3]" by (simp add: sample_server_def)
  have site: "site_server sample_site = sample_server" by (simp add: sample_site_def)
  have revoked: "\<not> AccessRevoked ?u" by (simp add: sample_user_def)
  have "setSessionCookie sample_site ?marshal (new_session ?u) ?s3 = (Inr (SetCookie tok True 43200), ?s3)"
    using tok ck by (simp add: setSessionCookie_def andThen_def the_clock_def sample_site_def key HasPrefix_def sessionTTL_def ret_def)
  from sign_in_run [where site = sample_site, unfolded site, OF steps(1,2) revoked steps(3) this]
  have sign: "sign_in sample_site ?marshal ''77'' ''Ann'' [''web''] ?s = (Inr ?page, ?s3)" .
  have "Sscanf_d ''1000'' = Some 1000" by code_simp
  moreover have "split_on CHR ''.'' ?state = [''n'', ''1000'', sign [1, 2, 3] ''n.1000'']"
    using split_on_field [of "CHR ''.''" "''n''" "''1000.'' @ sign [1, 2, 3] ''n.1000''"]
      split_on_field [of "CHR ''.''" "''1000''" "sign [1, 2, 3] ''n.1000''"]
    by (simp add: split_on_free sign_def)
  ultimately have "verifyOAuthState [1, 2, 3] 1000 ?state = Inr ()"
    by (simp add: verifyOAuthState_def Let_def oauthStateTTL_def)
  moreover have discord: "exchangeCode sample_site sample_discord ''abc'' = Inr ''tok''" "fetchIdentity sample_discord ''tok'' = Inr \<lparr>du_id = ''77'', du_username = ''ann'', du_global_name = ''Ann''\<rparr>"
    "fetchGuildMemberRoles sample_site sample_discord ''tok'' = Inr [''web'']"
    by (simp_all add: exchangeCode_def fetchIdentity_def fetchGuildMemberRoles_def fetched_def sample_discord_def sample_site_def)
  ultimately have run: "handleOAuthCallback sample_site ?marshal sample_discord (callback_request ?state ''abc'') ?s = (Inr ?page, ?s3)"
    using sign by (simp add: handleOAuthCallback_def callback_request_def andThen_def the_clock_def Let_def key site)
  have json: "?unmarshal raw = Inr x" if "?marshal x = Inr raw" for x raw
    using that by (simp split: if_splits)
  have q: "rq_query (callback_request ?state ''abc'') ''code'' = ''abc''" by (simp add: callback_request_def)
  from login_needs_membership [where unmarshal = ?unmarshal, OF json run, unfolded q site] discord
  obtain u where "signed_in sample_server ?unmarshal (Some tok) ?s3 u" "DiscordID u = ''77''" by auto
  with run show ?thesis unfolding Let_def x0_def [symmetric] by blast
qed

end
