(* ===== verification/WebLive.thy ===== *)
theory WebLive
  imports WebPages WebLogin
begin

text \<open>
  internal/web/live.go: the live updates of open browser tabs. A tab is a WebSocket with the user it was
  opened for; \<open>pushed\<close> is what the server has written to the tabs, in order, and \<open>broken\<close> the sockets
  that take no more. A request is split at the points where the server waits: opening, a message of
  the browser, the end of the connection. Go runs through its maps in any order; here the users are
  served in the order of their tabs.
\<close>

section \<open>Tabs\<close>

datatype live_msg = StateMsg WebState | Pong

record live_server =
  lv_hub :: hub
  live :: "(int \<times> User) list"
  broken :: "int list"
  pushed :: "(int \<times> live_msg) list"

type_synonym 'a lm = "(live_server, 'a) action"

definition on_hub :: "'a hm \<Rightarrow> 'a lm" where
  "on_hub m l = (case m (lv_hub l) of (r, h) \<Rightarrow> (r, l\<lparr>lv_hub := h\<rparr>))"

definition write_tab :: "int \<Rightarrow> live_msg \<Rightarrow> unit lm" where
  "write_tab c m l = (if c \<in> set (broken l) then (Inl (Err ''write failed''), l) else (Inr (), l\<lparr>pushed := pushed l @ [(c, m)]\<rparr>))"

definition close_tab :: "int \<Rightarrow> unit lm" where
  "close_tab c l = (Inr (), l\<lparr>live := filter (\<lambda>t. fst t \<noteq> c) (live l)\<rparr>)"

definition pushStateTo :: "Server \<Rightarrow> int \<Rightarrow> User \<Rightarrow> unit lm" where
  "pushStateTo srv c u =
     attempt (on_hub (buildState srv u)) (\<lambda>r. case r of Inl _ \<Rightarrow> ret () | Inr st \<Rightarrow> ignore (write_tab c (StateMsg st)))"

definition add_tab :: "Server \<Rightarrow> User \<Rightarrow> int option \<Rightarrow> (page + unit) lm" where
  "add_tab srv u conn =
     (case conn of None \<Rightarrow> ret (Inr ())
      | Some c \<Rightarrow> andThen (\<lambda>l. (Inr (), l\<lparr>live := live l @ [(c, u)]\<rparr>)) (\<lambda>_. andThen (pushStateTo srv c u) (\<lambda>_. ret (Inr ()))))"

text \<open>\<open>handleLiveWS\<close> up to its loop: \<open>Inl\<close> is the refusal; \<open>c\<close> is the new socket, \<open>None\<close> when the upgrade fails.\<close>

definition live_open :: "Server \<Rightarrow> (bytes \<Rightarrow> error + Session) \<Rightarrow> string option \<Rightarrow> int option \<Rightarrow> (page + unit) lm" where
  "live_open srv unmarshal cookie conn =
     andThen (on_hub (gets (\<lambda>h. clock (db h)))) (\<lambda>now.
     case sessionFromRequest (sessionKey srv) unmarshal now cookie of Inl _ \<Rightarrow> ret (Inl (HttpError 401 ''unauthorized''))
     | Inr sess \<Rightarrow>
       attempt (on_hub (lift (UserByID (SessUserID sess)))) (\<lambda>r. case r of Inl _ \<Rightarrow> ret (Inl (HttpError 403 ''forbidden''))
       | Inr u \<Rightarrow> if AccessRevoked u then ret (Inl (HttpError 403 ''forbidden'')) else
         andThen (on_hub (lift (canAccessWeb srv u))) (\<lambda>ok. if \<not> ok then ret (Inl (HttpError 403 ''forbidden'')) else
         add_tab srv u conn)))"

text \<open>A message of the browser: its type, or \<open>None\<close> when it is no JSON.\<close>

definition live_read :: "int \<Rightarrow> string option \<Rightarrow> unit lm" where
  "live_read c tip = (if tip = Some ''ping'' then ignore (write_tab c Pong) else ret ())"

section \<open>Broadcast\<close>

definition last_user :: "(int \<times> User) list \<Rightarrow> int \<Rightarrow> User option" where
  "last_user tabs i = find (\<lambda>u. ID u = i) (rev (map snd tabs))"

definition push_all :: "live_msg \<Rightarrow> int list \<Rightarrow> unit lm" where
  "push_all m = for_each (\<lambda>c. attempt (write_tab c m) (\<lambda>r. case r of Inl _ \<Rightarrow> close_tab c | Inr _ \<Rightarrow> ret ()))"

definition push_user :: "Server \<Rightarrow> (int \<times> User) list \<Rightarrow> int \<Rightarrow> unit lm" where
  "push_user srv tabs i =
     (case last_user tabs i of None \<Rightarrow> ret () | Some u \<Rightarrow>
      attempt (on_hub (buildState srv u)) (\<lambda>r. case r of Inl _ \<Rightarrow> ret ()
      | Inr st \<Rightarrow> push_all (StateMsg st) (map fst (filter (\<lambda>t. ID (snd t) = i) tabs))))"

definition broadcastLiveState :: "Server \<Rightarrow> unit lm" where
  "broadcastLiveState srv l = for_each (push_user srv (live l)) (remdups (map (\<lambda>t. ID (snd t)) (live l))) l"

section \<open>What the tabs get\<close>

definition fair :: "Server \<Rightarrow> world \<Rightarrow> (int \<times> User) list \<Rightarrow> int \<Rightarrow> live_msg \<Rightarrow> bool" where
  "fair srv w tabs c m \<longleftrightarrow> (\<exists>ws u u0. m = StateMsg ws \<and> (c, u0) \<in> set tabs \<and> u \<in> snd ` set tabs \<and> ID u0 = ID u \<and> page_allowed srv w u ws)"

definition pushing :: "Server \<Rightarrow> live_server \<Rightarrow> live_server \<Rightarrow> bool" where
  "pushing srv l0 l \<longleftrightarrow> (\<exists>fs. db (lv_hub l) = (db (lv_hub l0))\<lparr>faults := fs\<rparr>)
     \<and> (\<exists>new. pushed l = pushed l0 @ new \<and> (\<forall>(c, m) \<in> set new. fair srv (db (lv_hub l0)) (live l0) c m))"

lemma buildState_db: "buildState srv u h = (r, h') \<Longrightarrow> \<exists>fs. db h' = (db h)\<lparr>faults := fs\<rparr>"
proof -
  assume run: "buildState srv u h = (r, h')"
  have "barely h h" by (rule barely_refl)
  from keepsD [OF barely_buildState this, of srv u] run
  have "h' = h\<lparr>db := (db h)\<lparr>faults := faults (db h')\<rparr>, pres := pres h'\<rparr>" by (simp add: barely_def)
  from arg_cong [OF this, of db] show ?thesis by auto
qed

lemma keeps_on_hub: "(\<And>h r h'. m h = (r, h') \<Longrightarrow> I (l\<lparr>lv_hub := h\<rparr>) \<Longrightarrow> I (l\<lparr>lv_hub := h'\<rparr>)) \<Longrightarrow> I l \<Longrightarrow> I (snd (on_hub m l))"
  by (cases "m (lv_hub l)") (auto simp: on_hub_def)

lemma keeps_push_all:
  "(\<And>c. c \<in> set cs \<Longrightarrow> fair srv (db (lv_hub l0)) (live l0) c m) \<Longrightarrow> keeps (pushing srv l0) (push_all m cs)"
proof (induction cs)
  case Nil
  then show ?case by (simp add: push_all_def keeps_def ret_def)
next
  case (Cons c cs)
  have "keeps (pushing srv l0) (attempt (write_tab c m) (\<lambda>r. case r of Inl _ \<Rightarrow> close_tab c | Inr _ \<Rightarrow> ret ()))"
  proof (rule keepsI)
    fix l assume "pushing srv l0 l"
    then obtain fs new where "db (lv_hub l) = (db (lv_hub l0))\<lparr>faults := fs\<rparr>" "pushed l = pushed l0 @ new"
        "\<forall>(c, m) \<in> set new. fair srv (db (lv_hub l0)) (live l0) c m" by (auto simp: pushing_def)
    with Cons.prems [of c] show "pushing srv l0 (snd (attempt (write_tab c m) (\<lambda>r. case r of Inl _ \<Rightarrow> close_tab c | Inr _ \<Rightarrow> ret ()) l))"
      by (auto simp: attempt_def write_tab_def close_tab_def ret_def pushing_def)
  qed
  moreover have "keeps (pushing srv l0) (push_all m cs)" by (rule Cons.IH) (simp add: Cons.prems)
  ultimately show ?case unfolding push_all_def for_each.simps by (rule keeps_andThen)
qed

lemma last_user_tab: "last_user tabs i = Some u \<Longrightarrow> u \<in> snd ` set tabs \<and> ID u = i"
  by (auto simp: last_user_def find_Some_iff) (metis length_map length_rev nth_mem set_map set_rev)

lemma keeps_push_user:
  assumes "wf_world (db (lv_hub l0))"
  shows "keeps (pushing srv l0) (push_user srv (live l0) i)"
proof (cases "last_user (live l0) i")
  case None
  then show ?thesis by (simp add: push_user_def keeps_def ret_def)
next
  case (Some u)
  note u = last_user_tab [OF Some]
  show ?thesis
  proof (rule keepsI)
    fix l assume l: "pushing srv l0 l"
    then obtain fs where d: "db (lv_hub l) = (db (lv_hub l0))\<lparr>faults := fs\<rparr>" by (auto simp: pushing_def)
    obtain r h' where b: "buildState srv u (lv_hub l) = (r, h')" by (cases "buildState srv u (lv_hub l)")
    from buildState_db [OF b] d obtain fs' where d': "db h' = (db (lv_hub l0))\<lparr>faults := fs'\<rparr>" by auto
    with l have l': "pushing srv l0 (l\<lparr>lv_hub := h'\<rparr>)" by (auto simp: pushing_def)
    show "pushing srv l0 (snd (push_user srv (live l0) i l))"
    proof (cases r)
      case (Inl e)
      with l' b Some show ?thesis by (simp add: push_user_def attempt_def on_hub_def ret_def)
    next
      case (Inr ws)
      have "page_allowed srv (db (lv_hub l0)) u ws"
        using buildState_allowed [OF _ b [unfolded Inr]] assms d by simp
      then have "keeps (pushing srv l0) (push_all (StateMsg ws) (map fst (filter (\<lambda>t. ID (snd t) = i) (live l0))))"
        using u by (intro keeps_push_all) (fastforce simp: fair_def)
      from keepsD [OF this l'] show ?thesis
        using b Some Inr by (simp add: push_user_def attempt_def on_hub_def)
    qed
  qed
qed

text \<open>
  C34: what a broadcast shows. Every message a broadcast writes goes to an open tab, and is the state of the user
  of that tab as one of his tabs remembers him, even when his access was revoked since. The state holds no more
  than a page of his may: the accounts he may use and his own private shares (for a web admin also the
  other unrestricted accounts and everybody's shares); unless he is a web admin, no connections, users,
  roles or groups, and only the presence of accounts on his page, with their players. The tables
  are not touched, and what was written before stays.
\<close>

theorem live_updates_show_only_allowed:
  assumes "wf_world (db (lv_hub l))" and "broadcastLiveState srv l = (r, l')"
  shows "(\<exists>new. pushed l' = pushed l @ new \<and> (\<forall>(c, m) \<in> set new. fair srv (db (lv_hub l)) (live l) c m))
    \<and> (\<exists>fs. db (lv_hub l') = (db (lv_hub l))\<lparr>faults := fs\<rparr>)"
proof -
  have start: "pushing srv l l" by (auto simp: pushing_def intro: exI [of _ "faults (db (lv_hub l))"])
  have "keeps (pushing srv l) (for_each (push_user srv (live l)) is)" for "is"
    by (intro keeps_rules keeps_push_user assms(1))
  from keepsD [OF this start] assms(2) show ?thesis
    unfolding broadcastLiveState_def pushing_def by (metis snd_conv)
qed

text \<open>Ann's tab, on the server where she is a web admin.\<close>

definition ann_live :: "world \<Rightarrow> live_server" where
  "ann_live w = \<lparr>lv_hub = start_hub w 60 (\<lambda>n. replicate n CHR ''u''), live = [(5, sample_user)], broken = [], pushed = []\<rparr>"

definition accounts_pushed :: "live_msg \<Rightarrow> int list" where
  "accounts_pushed m = (case m of StateMsg ws \<Rightarrow> map MetaID (WsAccounts ws) | Pong \<Rightarrow> [])"

theorem live_updates_show_only_allowed_witness:
  "map (\<lambda>(c, m). (c, accounts_pushed m)) (pushed (snd (broadcastLiveState admin_server (ann_live shared_world)))) = [(5, [1, 2])]
   \<and> list_all (\<lambda>(c, m). fair admin_server shared_world [(5, sample_user)] c m)
        (pushed (snd (broadcastLiveState admin_server (ann_live shared_world))))"
proof -
  have "map (\<lambda>(c, m). (c, accounts_pushed m)) (pushed (snd (broadcastLiveState admin_server (ann_live shared_world)))) = [(5, [1, 2])]"
    by code_simp
  moreover obtain r l' where run: "broadcastLiveState admin_server (ann_live shared_world) = (r, l')" by (rule prod.exhaust)
  ultimately show ?thesis
    using live_updates_show_only_allowed [OF _ run] by (auto simp: ann_live_def start_hub_def list_all_iff)
qed

text \<open>
  A tab outlives the right to it: the user is remembered as he was when it opened. A user whose access is revoked
  is refused a new tab, while the open one goes on receiving everything.
\<close>

lemma revoked_tab_still_served:
  "let w = snd (SetUserAccessRevoked 1 True shared_world) in
     map AccessRevoked (users w) = [True]
     \<and> map (\<lambda>(c, m). (c, accounts_pushed m)) (pushed (snd (broadcastLiveState admin_server (ann_live w)))) = [(5, [1, 2])]"
  by code_simp

section \<open>Who gets a page or a tab\<close>

lemma canAccessWeb_true:
  "canAccessWeb srv u s = (Inr True, s') \<Longrightarrow> web_level srv s u \<noteq> NoWeb"
  by (erule canAccessWeb_facts) auto

lemma signed_inI:
  assumes "sessionFromRequest (sessionKey srv) unmarshal (clock s) cookie = Inr sess" and "UserByID (SessUserID sess) s = (Inr u, s')"
    and "\<not> AccessRevoked u"
  shows "signed_in srv unmarshal cookie s u" and "\<exists>fs. s' = s\<lparr>faults := fs\<rparr>"
proof -
  from assms(2) have "u \<in> set (users s)" "ID u = SessUserID sess" by (auto elim: UserByID_InrD)
  with assms show "signed_in srv unmarshal cookie s u" by (auto simp: signed_in_def)
  show "\<exists>fs. s' = s\<lparr>faults := fs\<rparr>" using readsD [OF reads_activity(2) assms(2)] by auto
qed

lemma pushStateTo_tabs: "live (snd (pushStateTo srv c u l)) = live l"
  by (simp add: pushStateTo_def attempt_def on_hub_def ignore_def write_tab_def ret_def split: prod.splits sum.splits)

lemma served_file_user:
  assumes "spaHandler site unmarshal rq s = (Inr (ServeFile f), s')"
  shows "\<exists>u. signed_in (site_server site) unmarshal (rq_cookie rq) s u \<and> web_level (site_server site) s u \<noteq> NoWeb"
proof -
  from assms obtain sess u s1 s2 where 1: "sessionFromRequest (sessionKey (site_server site)) unmarshal (clock s) (rq_cookie rq) = Inr sess"
    and 2: "UserByID (SessUserID sess) s = (Inr u, s1)" "\<not> AccessRevoked u" and 3: "canAccessWeb (site_server site) u s1 = (Inr True, s2)"
    by (auto simp: spaHandler_def Let_def the_clock_def andThen_def attempt_def deny_to_def ret_def clearSessionCookie_def
        split: if_splits sum.splits prod.splits)
  from signed_inI [OF 1 2] canAccessWeb_true [OF 3] show ?thesis by auto
qed

lemma add_tab_live: "add_tab srv u conn l = (r, l') \<Longrightarrow> live l' = live l @ (case conn of None \<Rightarrow> [] | Some c \<Rightarrow> [(c, u)])"
proof (cases conn)
  case (Some c)
  let ?l = "l\<lparr>live := live l @ [(c, u)]\<rparr>"
  assume "add_tab srv u conn l = (r, l')"
  then have "l' = snd (pushStateTo srv c u ?l)"
    by (simp add: add_tab_def Some andThen_def ret_def split: prod.splits sum.splits)
  with Some show ?thesis by (simp add: pushStateTo_tabs)
qed (simp add: add_tab_def ret_def)

lemma opened_tab_user:
  assumes "live_open srv unmarshal cookie conn l = (Inr (Inr ()), l')"
  shows "\<exists>u. signed_in srv unmarshal cookie (db (lv_hub l)) u \<and> web_level srv (db (lv_hub l)) u \<noteq> NoWeb
    \<and> live l' = live l @ (case conn of None \<Rightarrow> [] | Some c \<Rightarrow> [(c, u)])"
proof -
  let ?s = "db (lv_hub l)" and ?refuse = "ret (Inl (HttpError 403 ''forbidden'')) :: (page + unit) lm"
  obtain sess where 1: "sessionFromRequest (sessionKey srv) unmarshal (clock ?s) cookie = Inr sess"
    and a: "attempt (on_hub (lift (UserByID (SessUserID sess)))) (\<lambda>r. case r of Inl _ \<Rightarrow> ?refuse
       | Inr u \<Rightarrow> if AccessRevoked u then ?refuse else
         andThen (on_hub (lift (canAccessWeb srv u))) (\<lambda>ok. if \<not> ok then ?refuse else add_tab srv u conn)) l = (Inr (Inr ()), l')"
    using assms unfolding live_open_def
    by (cases "sessionFromRequest (sessionKey srv) unmarshal (clock ?s) cookie") (simp_all add: on_hub_def gets_def andThen_def ret_def)
  obtain q s1 where q: "UserByID (SessUserID sess) ?s = (q, s1)" by (cases "UserByID (SessUserID sess) ?s")
  with a obtain u where u: "q = Inr u" "\<not> AccessRevoked u"
    by (cases q) (auto simp: attempt_def on_hub_def lift_def ret_def split: if_splits)
  obtain b s2 where b: "canAccessWeb srv u s1 = (b, s2)" by (cases "canAccessWeb srv u s1")
  have b2: "b = Inr True" and add: "add_tab srv u conn (l\<lparr>lv_hub := (lv_hub l)\<lparr>db := s2\<rparr>\<rparr>) = (Inr (Inr ()), l')"
    using a q u b by (auto simp: attempt_def on_hub_def lift_def andThen_def ret_def split: if_splits sum.splits)
  from signed_inI [OF 1 q [unfolded u(1)] u(2)] canAccessWeb_true [OF b [unfolded b2]] add_tab_live [OF add] show ?thesis by auto
qed

text \<open>
  C35: the user interface and its live updates are for those with access. A file of the interface is
  served, and a tab is opened, only for a signed session of a user in the database whose access is not
  revoked and whom the policy gives web access; a tab is remembered with that user.
\<close>

theorem pages_and_tabs_need_access:
  "(spaHandler site unmarshal rq s = (Inr (ServeFile f), s') \<longrightarrow>
      (\<exists>u. signed_in (site_server site) unmarshal (rq_cookie rq) s u \<and> web_level (site_server site) s u \<noteq> NoWeb))
   \<and> (live_open srv unmarshal cookie conn l = (Inr (Inr ()), l') \<longrightarrow>
      (\<exists>u. signed_in srv unmarshal cookie (db (lv_hub l)) u \<and> web_level srv (db (lv_hub l)) u \<noteq> NoWeb
        \<and> live l' = live l @ (case conn of None \<Rightarrow> [] | Some c \<Rightarrow> [(c, u)])))"
  using served_file_user opened_tab_user by blast

lemma ann_admitted:
  assumes "s = shared_world"
  shows "UserByID 1 s = (Inr sample_user, s)" "canAccessWeb admin_server sample_user s = (Inr True, s)" "clock s = 0"
    "\<not> AccessRevoked sample_user"
proof -
  have "faults shared_world = []" "sample_user \<in> set (users shared_world)" by (simp_all add: shared_world_def sample_world_def empty_world_def)
  then show "UserByID 1 s = (Inr sample_user, s)"
    using UserByID_found [of shared_world sample_user] assms by (simp add: sample_user_def)
  show "canAccessWeb admin_server sample_user s = (Inr True, s)"
    by (simp add: canAccessWeb_def webAccessLevel_def admin_server_def sample_user_def ret_def andThen_def)
  show "clock s = 0" "\<not> AccessRevoked sample_user"
    using assms by (simp_all add: shared_world_def sample_world_def empty_world_def sample_user_def)
qed

theorem pages_and_tabs_need_access_witness:
  "\<exists>s' l' u. spaHandler (sample_site\<lparr>site_server := admin_server\<rparr>) (\<lambda>_. Inr sample_session) (state_request\<lparr>rq_path := ''/users''\<rparr>) shared_world
       = (Inr (ServeFile ''/''), s')
     \<and> live_open admin_server (\<lambda>_. Inr sample_session) (Some sample_token) (Some 6) (ann_live shared_world) = (Inr (Inr ()), l')
     \<and> live l' = [(5, sample_user), (6, u)] \<and> signed_in admin_server (\<lambda>_. Inr sample_session) (Some sample_token) shared_world u"
proof -
  have key: "sessionKey admin_server = [1, 2, 3]" "SessUserID sample_session = 1"
    by (simp_all add: admin_server_def sample_server_def sample_session_def)
  have hub: "db (lv_hub (ann_live shared_world)) = shared_world" "live (ann_live shared_world) = [(5, sample_user)]"
    by (simp_all add: ann_live_def start_hub_def)
  note facts = key hub ann_admitted [OF refl] sample_token_read
  have spa: "spaHandler (sample_site\<lparr>site_server := admin_server\<rparr>) (\<lambda>_. Inr sample_session) (state_request\<lparr>rq_path := ''/users''\<rparr>) shared_world
       = (Inr (ServeFile ''/''), shared_world)"
    by (simp add: spaHandler_def facts sample_site_def state_request_def elsewhere_def HasPrefix_def the_clock_def andThen_def attempt_def ret_def Let_def)
  have "fst (live_open admin_server (\<lambda>_. Inr sample_session) (Some sample_token) (Some 6) (ann_live shared_world)) = Inr (Inr ())"
    by (simp add: live_open_def add_tab_def facts on_hub_def gets_def lift_def andThen_def attempt_def ret_def pushStateTo_def ignore_def split: prod.splits sum.splits)
  then obtain l' where tab: "live_open admin_server (\<lambda>_. Inr sample_session) (Some sample_token) (Some 6) (ann_live shared_world) = (Inr (Inr ()), l')"
    by (metis prod.collapse)
  from pages_and_tabs_need_access [of "sample_site\<lparr>site_server := admin_server\<rparr>" "\<lambda>_. Inr sample_session" "state_request\<lparr>rq_path := ''/users''\<rparr>"
      shared_world "''/''" shared_world admin_server "Some sample_token" "Some 6" "ann_live shared_world" l'] spa tab
  show ?thesis by (auto simp: hub)
qed

end
