(* ===== verification/WebLinks.thy ===== *)
theory WebLinks
  imports WebLogin Config
begin

text \<open>
  internal/web/source_import.go and open_alfred.go: the link that hands a member's token to the desktop
  client. A link carries the source (name, host, token) as JSON in unpadded URL base64; the landing page
  reads it and sends the browser on to the address the desktop client registers.

  \<open>urlHost\<close> is the \<open>Host\<close> that \<open>url.Parse\<close> finds, \<open>Inl\<close> its error; \<open>marshal\<close> and \<open>unmarshal\<close> are
  encoding/json on the three fields, \<open>indented\<close> is \<open>json.MarshalIndent\<close>. The page is the data of its
  HTML template.
\<close>

section \<open>What a link says\<close>

definition DesktopAppName :: string where "DesktopAppName = ''Alfred Identity''"
definition AppURLScheme :: string where "AppURLScheme = ''alfred-identity''"
definition discordLinkButtonMaxURL :: nat where "discordLinkButtonMaxURL = 512"
definition openAlfredPath :: string where "openAlfredPath = ''/open-alfred''"

record SourceImportJSON =
  SourceName :: string
  SourceHost :: string
  SourceToken :: string
  SourceNotes :: string

definition HostFromPublicURL :: "(string \<Rightarrow> error + string) \<Rightarrow> string \<Rightarrow> string" where
  "HostFromPublicURL urlHost webOrigin =
     (let u = TrimSpace webOrigin in
      if u = [] then []
      else case urlHost (if \<not> Contains u ''://'' then ''https://'' @ u else u) of Inl _ \<Rightarrow> [] | Inr host \<Rightarrow> host)"

definition trim_brackets :: "string \<Rightarrow> string" where
  "trim_brackets s = (let out = dropWhile (\<lambda>c. c \<in> set ''[]'') in rev (out (rev (out s))))"

definition defaultSourceName :: "string \<Rightarrow> string" where
  "defaultSourceName host =
     (let h = trim_brackets (takeWhile (\<lambda>c. c \<noteq> CHR '':'') host) in
      if h = [] \<or> h = ''127.0.0.1'' \<or> h = ''localhost'' then ''Local daemon'' else h)"

definition SourceHostFromConfig :: "(string \<Rightarrow> error + string) \<Rightarrow> Config \<Rightarrow> string" where
  "SourceHostFromConfig urlHost cfg =
     (let h = HostFromPublicURL urlHost (WebPublicURL cfg) in
      if h \<noteq> [] then h
      else let addr = TrimSpace (HTTPAddr cfg) in
      if HasPrefix addr ''0.0.0.0:'' then ''127.0.0.1'' @ drop 7 addr else addr)"

definition SourceNameFromConfig :: "(string \<Rightarrow> error + string) \<Rightarrow> Config \<Rightarrow> string" where
  "SourceNameFromConfig urlHost cfg =
     (let n = TrimSpace (WebSSOSourceName cfg) in
      if n \<noteq> [] then n else defaultSourceName (SourceHostFromConfig urlHost cfg))"

text \<open>The arrow of the notes is three bytes of UTF-8.\<close>

definition source_notes :: string where
  "source_notes = ''Click Open in '' @ DesktopAppName @ '', or paste into Connections '' @ [CHR 0xE2, CHR 0x86, CHR 0x92] @ '' Add from JSON.''"

definition BuildSourceImportJSON :: "(SourceImportJSON \<Rightarrow> error + string) \<Rightarrow> string \<Rightarrow> string \<Rightarrow> string \<Rightarrow> string \<Rightarrow> string" where
  "BuildSourceImportJSON indented name host token notes =
     (case indented \<lparr>SourceName = name, SourceHost = host, SourceToken = token,
         SourceNotes = (if notes = [] then source_notes else notes)\<rparr> of Inl _ \<Rightarrow> ''{}'' | Inr b \<Rightarrow> b)"

definition EncodeSourceDeepLinkPayload ::
    "(string \<Rightarrow> string \<Rightarrow> string \<Rightarrow> error + bytes) \<Rightarrow> string \<Rightarrow> string \<Rightarrow> string \<Rightarrow> error + string" where
  "EncodeSourceDeepLinkPayload marshal name host token =
     (let name = TrimSpace name; host = TrimSpace host; token = TrimSpace token in
      if name = [] \<or> host = [] \<or> token = [] then Inl (Err ''name, host, and token required'')
      else case marshal name host token of Inl e \<Rightarrow> Inl e | Inr b \<Rightarrow> Inr (EncodeToString b))"

definition EncodeAppSchemeURL ::
    "(string \<Rightarrow> string \<Rightarrow> string \<Rightarrow> error + bytes) \<Rightarrow> string \<Rightarrow> string \<Rightarrow> string \<Rightarrow> error + string" where
  "EncodeAppSchemeURL marshal name host token =
     (case EncodeSourceDeepLinkPayload marshal name host token of Inl e \<Rightarrow> Inl e
      | Inr d \<Rightarrow> Inr (AppURLScheme @ ''://import?d='' @ d))"

definition OpenAlfredURL ::
    "(string \<Rightarrow> string \<Rightarrow> string \<Rightarrow> error + bytes) \<Rightarrow> string \<Rightarrow> string \<Rightarrow> string \<Rightarrow> string \<Rightarrow> string" where
  "OpenAlfredURL marshal webOrigin name host token =
     (let origin = TrimRightSlash (TrimSpace webOrigin) in
      if origin = [] then []
      else case EncodeSourceDeepLinkPayload marshal name host token of Inl _ \<Rightarrow> []
      | Inr d \<Rightarrow> origin @ openAlfredPath @ ''?d='' @ QueryEscape d)"

definition DiscordOpenAlfredButtonURL ::
    "(string \<Rightarrow> string \<Rightarrow> string \<Rightarrow> error + bytes) \<Rightarrow> string \<Rightarrow> string \<Rightarrow> string \<Rightarrow> string \<Rightarrow> string" where
  "DiscordOpenAlfredButtonURL marshal webOrigin name host token =
     (let u = OpenAlfredURL marshal webOrigin name host token in
      if u = [] \<or> length u > discordLinkButtonMaxURL then [] else u)"

definition ParseSourceDeepLinkPayload ::
    "(bytes \<Rightarrow> error + SourceImportJSON) \<Rightarrow> string \<Rightarrow> error + SourceImportJSON" where
  "ParseSourceDeepLinkPayload unmarshal d =
     (let d = TrimSpace d in
      if d = [] then Inl (Err ''empty payload'')
      else case (case DecodeString d of Some b \<Rightarrow> Some b | None \<Rightarrow> DecodePadded b64_alphabet d) of
        None \<Rightarrow> Inl (Err ''invalid source payload'')
      | Some b \<Rightarrow>
      (case unmarshal b of Inl _ \<Rightarrow> Inl (Err ''invalid source JSON'')
      | Inr obj \<Rightarrow>
        let obj = obj\<lparr>SourceName := TrimSpace (SourceName obj), SourceHost := TrimSpace (SourceHost obj),
              SourceToken := TrimSpace (SourceToken obj)\<rparr> in
        if SourceName obj = [] \<or> SourceHost obj = [] \<or> SourceToken obj = []
        then Inl (Err ''name, host, and token required'') else Inr obj))"

section \<open>The landing page\<close>

datatype landing =
    LandingRefused nat string
  | Landing nat string string

text \<open>\<open>Landing status AppURL Error\<close> is the data of the template; an empty \<open>AppURL\<close> leaves the work to the script.\<close>

definition unreadable :: landing where
  "unreadable = Landing 400 [] ''The source data in this link could not be read.''"

definition HandleOpenAlfred ::
    "(string \<Rightarrow> string \<Rightarrow> string \<Rightarrow> error + bytes) \<Rightarrow> (bytes \<Rightarrow> error + SourceImportJSON) \<Rightarrow> string \<Rightarrow> string \<Rightarrow> landing" where
  "HandleOpenAlfred marshal unmarshal http_verb query_d =
     (if http_verb \<noteq> ''GET'' \<and> http_verb \<noteq> ''HEAD'' then LandingRefused 405 ''method not allowed''
      else let d = TrimSpace query_d in
      if d = [] then Landing 200 [] []
      else case ParseSourceDeepLinkPayload unmarshal d of Inl _ \<Rightarrow> unreadable
      | Inr src \<Rightarrow>
      (case EncodeAppSchemeURL marshal (SourceName src) (SourceHost src) (SourceToken src) of Inl _ \<Rightarrow> unreadable
      | Inr appURL \<Rightarrow> Landing 200 appURL []))"

section \<open>A link leads to the source it was made for\<close>

lemma unreserved_b64: "c \<in> set b64_alphabet \<Longrightarrow> unreserved c"
proof -
  have "list_all unreserved b64_alphabet" by code_simp
  then show "c \<in> set b64_alphabet \<Longrightarrow> unreserved c" by (simp add: list_all_iff)
qed

lemma space_b64: "c \<in> set b64_alphabet \<Longrightarrow> \<not> is_space c"
proof -
  have "list_all (\<lambda>c. \<not> is_space c) b64_alphabet" by code_simp
  then show "c \<in> set b64_alphabet \<Longrightarrow> \<not> is_space c" by (simp add: list_all_iff)
qed

lemma QueryEscape_unreserved: "\<forall>c \<in> set s. unreserved c \<Longrightarrow> QueryEscape s = s"
  by (induction s) (auto simp: QueryEscape_def escape_char_def)

lemma QueryEscape_payload [simp]: "QueryEscape (EncodeToString b) = EncodeToString b"
  using b64_clean unreserved_b64 by (blast intro: QueryEscape_unreserved)

lemma TrimSpace_payload [simp]: "TrimSpace (EncodeToString b) = EncodeToString b"
proof (cases "EncodeToString b")
  case Nil
  then show ?thesis by simp
next
  case (Cons c cs)
  then have "\<forall>c \<in> set (c # cs). \<not> is_space c" using b64_clean [of b] space_b64 by auto
  moreover have "hd (c # cs) \<in> set (c # cs)" "last (c # cs) \<in> set (c # cs)" by (rule hd_in_set last_in_set, simp)+
  ultimately have "\<not> is_space (hd (c # cs))" "\<not> is_space (last (c # cs))" by blast+
  then show ?thesis unfolding Cons by (intro TrimSpace_stable) simp_all
qed

lemma EncodeToString_Nil_iff [simp]: "EncodeToString b = [] \<longleftrightarrow> b = []"
proof
  assume "EncodeToString b = []"
  then have "DecodeString (EncodeToString b) = DecodeString (EncodeToString [])" by (simp add: EncodeToString_def)
  then show "b = []" by simp
qed (simp add: EncodeToString_def)

text \<open>Relied on is that JSON written for the fields is not empty and read back as they were.\<close>

definition json_reads :: "(string \<Rightarrow> string \<Rightarrow> string \<Rightarrow> error + bytes) \<Rightarrow> (bytes \<Rightarrow> error + SourceImportJSON) \<Rightarrow> bool" where
  "json_reads marshal unmarshal \<longleftrightarrow> (\<forall>n h t b. marshal n h t = Inr b \<longrightarrow> b \<noteq> []
     \<and> unmarshal b = Inr \<lparr>SourceName = n, SourceHost = h, SourceToken = t, SourceNotes = []\<rparr>)"

lemma payload_roundtrip:
  assumes "json_reads marshal unmarshal" and "EncodeSourceDeepLinkPayload marshal name host token = Inr d"
  shows "ParseSourceDeepLinkPayload unmarshal d
    = Inr \<lparr>SourceName = TrimSpace name, SourceHost = TrimSpace host, SourceToken = TrimSpace token, SourceNotes = []\<rparr>"
proof -
  from assms(2) obtain b where b: "marshal (TrimSpace name) (TrimSpace host) (TrimSpace token) = Inr b" "d = EncodeToString b"
    and ne: "TrimSpace name \<noteq> []" "TrimSpace host \<noteq> []" "TrimSpace token \<noteq> []"
    by (auto simp: EncodeSourceDeepLinkPayload_def Let_def split: if_splits sum.splits)
  from assms(1) b(1) have "b \<noteq> []"
      "unmarshal b = Inr \<lparr>SourceName = TrimSpace name, SourceHost = TrimSpace host, SourceToken = TrimSpace token, SourceNotes = []\<rparr>"
    by (auto simp: json_reads_def)
  with b(2) ne show ?thesis by (simp add: ParseSourceDeepLinkPayload_def Let_def)
qed

lemma payload_trimmed:
  "EncodeSourceDeepLinkPayload marshal (TrimSpace name) (TrimSpace host) (TrimSpace token) = EncodeSourceDeepLinkPayload marshal name host token"
  by (simp add: EncodeSourceDeepLinkPayload_def)

text \<open>The landing page opens the address that the desktop client would have been given directly.\<close>

lemma landing_opens_source:
  assumes "json_reads marshal unmarshal" and "EncodeSourceDeepLinkPayload marshal name host token = Inr d"
  shows "HandleOpenAlfred marshal unmarshal ''GET'' d = Landing 200 (AppURLScheme @ ''://import?d='' @ d) []"
proof -
  from payload_roundtrip [OF assms] have "d \<noteq> []" "TrimSpace d \<noteq> []"
    by (auto simp: ParseSourceDeepLinkPayload_def Let_def split: if_splits)
  moreover have "TrimSpace d = d"
    using assms(2) by (auto simp: EncodeSourceDeepLinkPayload_def Let_def split: if_splits sum.splits)
  ultimately show ?thesis
    using payload_roundtrip [OF assms] assms(2) by (simp add: HandleOpenAlfred_def Let_def EncodeAppSchemeURL_def payload_trimmed)
qed

lemma button_fits:
  "DiscordOpenAlfredButtonURL marshal webOrigin name host token = u \<Longrightarrow> u \<noteq> [] \<Longrightarrow>
   length u \<le> 512 \<and> (\<exists>origin d. u = origin @ ''/open-alfred?d='' @ d \<and> EncodeSourceDeepLinkPayload marshal name host token = Inr d)"
  by (auto simp: DiscordOpenAlfredButtonURL_def OpenAlfredURL_def EncodeSourceDeepLinkPayload_def discordLinkButtonMaxURL_def
      openAlfredPath_def Let_def split: if_splits sum.splits)

end
