(* ===== verification/Bot.thy ===== *)
theory Bot
  imports Config StoreSteps
begin

text \<open>
  internal/discord/bot.go and share_notify.go: the Discord bot. The gateway and the REST interface of Discord (discordgo) are
  outside the repository: \<open>guild_roles\<close> and \<open>guild_members\<close> are what \<open>Session.GuildRoles\<close> and
  \<open>Session.GuildMembers\<close> return, the latter a function of the id after which a page starts; events and
  interactions are records of the fields the handlers read. Deadlines of the store calls are faults
  of the connection. Go runs through a map in any order: \<open>clear_roles\<close> runs in the order of the listing.
\<close>

section \<open>The bot\<close>

definition cmd :: "Config \<Rightarrow> string \<Rightarrow> string" where
  "cmd cfg key = DiscordCommandPrefix cfg @ key"

definition mention :: "Config \<Rightarrow> string \<Rightarrow> string" where
  "mention cfg key = ''/'' @ cmd cfg key"

definition userIsDiscordAdmin :: "Config \<Rightarrow> User \<Rightarrow> bool" where
  "userIsDiscordAdmin cfg u \<longleftrightarrow> DiscordID u \<in> set (DiscordBootstrapAdmins cfg)
     \<or> DiscordAdminRoleID cfg \<noteq> [] \<and> DiscordAdminRoleID cfg \<in> set (RoleIDs u)"

section \<open>Roles of the guild\<close>

definition syncGuildRoles :: "Config \<Rightarrow> error + (string \<times> string) option list \<Rightarrow> unit db" where
  "syncGuildRoles cfg guild_roles =
     (if DiscordGuildID cfg = [] then ret ()
      else case guild_roles of Inl _ \<Rightarrow> ret ()
      | Inr roles \<Rightarrow> ignore (UpsertDiscordRoles (List.map_filter (\<lambda>r. r) roles)))"

text \<open>The three role events of the guild, a nil event being \<open>None\<close>.\<close>

definition onGuildRole :: "Config \<Rightarrow> error + (string \<times> string) option list \<Rightarrow> string option \<Rightarrow> unit db" where
  "onGuildRole cfg guild_roles event =
     (case event of None \<Rightarrow> ret ()
      | Some guild \<Rightarrow> if guild \<noteq> DiscordGuildID cfg then ret () else syncGuildRoles cfg guild_roles)"

section \<open>Roles of the members\<close>

text \<open>A member of a page; \<open>member_user\<close> is \<open>None\<close> when the entry or its user is nil.\<close>

record Member =
  member_user :: "string option"
  member_roles :: "string list"

text \<open>The users still expected, one for each Discord id (\<open>byDiscord\<close>).\<close>

fun by_discord :: "User list \<Rightarrow> User list" where
  "by_discord [] = []"
| "by_discord (u # us) = (if DiscordID u \<in> DiscordID ` set us then by_discord us else u # by_discord us)"

definition sync_member :: "Member \<Rightarrow> User list \<times> int \<Rightarrow> (User list \<times> int) db" where
  "sync_member m = (\<lambda>(expected, updated).
     case member_user m of None \<Rightarrow> ret (expected, updated) | Some d \<Rightarrow>
     (case find (\<lambda>u. DiscordID u = d) expected of None \<Rightarrow> ret (expected, updated)
      | Some u \<Rightarrow> attempt (SetUserRoles (ID u) (member_roles m)) (\<lambda>r. case r of
          Inl _ \<Rightarrow> ret (expected, updated)
        | Inr _ \<Rightarrow> ret (filter (\<lambda>v. DiscordID v \<noteq> d) expected, updated + 1))))"

definition sync_page :: "Member list \<Rightarrow> User list \<times> int \<Rightarrow> (User list \<times> int) db" where
  "sync_page = fold_each sync_member"

definition page_size :: nat where "page_size = 1000"

text \<open>
  How the loop over the pages ends: with what is still expected, early because a page could not be
  loaded, or with a panic, when the last entry of a page is nil. The loop itself need not end:
  \<open>None\<close> is a run that never returns.
\<close>

datatype pages_end = PagesDone "User list" int | PagesFailed | PagesPanic

partial_function (option) member_pages ::
  "(string \<Rightarrow> error + Member list) \<Rightarrow> string \<Rightarrow> User list \<times> int \<Rightarrow> world \<Rightarrow> (pages_end \<times> world) option"
where
  "member_pages guild_members after acc s =
     (case guild_members after of
        Inl _ \<Rightarrow> Some (PagesFailed, s)
      | Inr [] \<Rightarrow> Some (PagesDone (fst acc) (snd acc), s)
      | Inr (m # ms) \<Rightarrow>
          (case sync_page (m # ms) acc s of
             (Inl _, s') \<Rightarrow> Some (PagesFailed, s')
           | (Inr acc', s') \<Rightarrow>
               (case member_user (last (m # ms)) of
                  None \<Rightarrow> Some (PagesPanic, s')
                | Some d \<Rightarrow>
                    if length (m # ms) < page_size then Some (PagesDone (fst acc') (snd acc'), s')
                    else member_pages guild_members d acc' s')))"

definition clear_roles :: "User list \<Rightarrow> unit db" where
  "clear_roles = for_each (\<lambda>u. ignore (SetUserRoles (ID u) []))"

definition syncMemberRoles :: "(string \<Rightarrow> error + Member list) \<Rightarrow> world \<Rightarrow> (pages_end \<times> world) option" where
  "syncMemberRoles guild_members s =
     (case ListUsersForRoleSync s of
        (Inl _, s1) \<Rightarrow> Some (PagesFailed, s1)
      | (Inr known, s1) \<Rightarrow>
          if known = [] then Some (PagesDone [] 0, s1)
          else (case member_pages guild_members [] (by_discord known, 0) s1 of
             None \<Rightarrow> None
           | Some (PagesDone left n, s2) \<Rightarrow> Some (PagesDone left n, snd (clear_roles left s2))
           | Some (e, s2) \<Rightarrow> Some (e, s2)))"

definition syncAllRoles ::
  "Config \<Rightarrow> error + (string \<times> string) option list \<Rightarrow> (string \<Rightarrow> error + Member list) \<Rightarrow> world \<Rightarrow> (pages_end \<times> world) option"
where
  "syncAllRoles cfg guild_roles guild_members s =
     (if DiscordGuildID cfg = [] then Some (PagesDone [] 0, s)
      else syncMemberRoles guild_members (snd (syncGuildRoles cfg guild_roles s)))"

record MemberEvent =
  ev_guild :: string
  ev_user :: "string option"
  ev_roles :: "string list"

definition onGuildMemberUpdate :: "Config \<Rightarrow> MemberEvent option \<Rightarrow> unit db" where
  "onGuildMemberUpdate cfg event =
     (case event of None \<Rightarrow> ret () | Some e \<Rightarrow>
      if ev_guild e \<noteq> DiscordGuildID cfg then ret () else
      (case ev_user e of None \<Rightarrow> ret () | Some d \<Rightarrow>
       attempt (UserByDiscordID d) (\<lambda>r. case r of Inl _ \<Rightarrow> ret ()
         | Inr u \<Rightarrow> ignore (SetUserRoles (ID u) (ev_roles e)))))"

definition onGuildMemberRemove :: "Config \<Rightarrow> MemberEvent option \<Rightarrow> unit db" where
  "onGuildMemberRemove cfg event =
     (case event of None \<Rightarrow> ret () | Some e \<Rightarrow>
      if ev_guild e \<noteq> DiscordGuildID cfg then ret () else
      (case ev_user e of None \<Rightarrow> ret () | Some d \<Rightarrow>
       attempt (UserByDiscordID d) (\<lambda>r. case r of Inl _ \<Rightarrow> ret ()
         | Inr u \<Rightarrow> ignore (SetUserRoles (ID u) []))))"

section \<open>Slash commands\<close>

record Option =
  opt_name :: string
  opt_int :: int

record SubCommand =
  sub_name :: string
  sub_options :: "Option list"

record Interaction =
  is_command :: bool
  it_member :: "(string \<times> string \<times> string list) option"
  it_user :: "(string \<times> string) option"
  it_name :: string
  it_options :: "SubCommand list"

text \<open>The commands the bot registers, with their subcommands.\<close>

definition commandDefs :: "string \<Rightarrow> (string \<times> string list) list" where
  "commandDefs p = [(p @ ''sso'', [''get'', ''revoke'', ''list'']), (p @ ''whoami'', [])]"

datatype bot_reply =
    NoReply
  | ErrReply string
  | TokenRevoked int
  | NoToken
  | TokenInfo int "int option"
  | TokenSecret string bool
  | Identity User "int list"
  | Panic

definition interactionIdentity :: "Interaction \<Rightarrow> string \<times> string \<times> string list" where
  "interactionIdentity i =
     (case it_member i of Some (d, n, rs) \<Rightarrow> (d, n, rs)
      | None \<Rightarrow> (case it_user i of Some (d, n) \<Rightarrow> (d, n, []) | None \<Rightarrow> ([], [], [])))"

definition optInt :: "SubCommand \<Rightarrow> string \<Rightarrow> int" where
  "optInt sub name = (case find (\<lambda>x. opt_name x = name) (sub_options sub) of None \<Rightarrow> 0 | Some x \<Rightarrow> opt_int x)"

definition replying :: "'a db \<Rightarrow> (error \<Rightarrow> bot_reply db) \<Rightarrow> ('a \<Rightarrow> bot_reply db) \<Rightarrow> bot_reply db" where
  "replying m handle k = attempt m (\<lambda>r. case r of Inl e \<Rightarrow> handle e | Inr x \<Rightarrow> k x)"

definition complain :: "error \<Rightarrow> bot_reply db" where
  "complain e = ret (ErrReply (err_text e))"

text \<open>The active token's secret, or a new token.\<close>

definition resolveSSOTokenSecret :: "Store \<Rightarrow> int \<Rightarrow> (string \<times> bool) db" where
  "resolveSSOTokenSecret st userID =
     andThen (ActiveToken st userID) (\<lambda>t.
     case (case t of Some t \<Rightarrow> if HasSecret t then Some (Raw t) else None | None \<Rightarrow> None) of
       Some raw \<Rightarrow> ret (raw, False)
     | None \<Rightarrow> andThen (CreateToken st userID) (\<lambda>(raw, _). ret (raw, True)))"

definition handleSSO :: "Store \<Rightarrow> User \<Rightarrow> SubCommand list \<Rightarrow> bot_reply db" where
  "handleSSO st u options =
     (case options of [] \<Rightarrow> ret Panic | sub # _ \<Rightarrow>
      if sub_name sub = ''revoke'' then
        replying (RevokeToken (ID u) (optInt sub ''id'')) complain (\<lambda>_. ret (TokenRevoked (optInt sub ''id'')))
      else if sub_name sub = ''list'' then
        replying (ActiveToken st (ID u)) complain (\<lambda>t. ret (case t of None \<Rightarrow> NoToken | Some t \<Rightarrow> TokenInfo (CreatedAt t) (LastUsed t)))
      else if sub_name sub = ''get'' then
        replying (resolveSSOTokenSecret st (ID u)) complain (\<lambda>(secret, created).
          andThen (if created then Audit st (ID u) ''token_create'' ''via sso get'' else ret ()) (\<lambda>_.
          ret (TokenSecret secret created)))
      else ret NoReply)"

definition handleWhoami :: "User \<Rightarrow> string list \<Rightarrow> bot_reply db" where
  "handleWhoami u roles =
     andThen (if roles = [] then attempt (UserByID (ID u)) (\<lambda>r. ret (case r of Inl _ \<Rightarrow> u | Inr fresh \<Rightarrow> fresh)) else ret u) (\<lambda>u.
     attempt (AllowedAccountIDs u) (\<lambda>r. ret (Identity u (case r of Inl _ \<Rightarrow> [] | Inr ids \<Rightarrow> ids))))"

text \<open>What follows the permission check of \<open>onInteraction\<close>.\<close>

definition run_command :: "Config \<Rightarrow> Store \<Rightarrow> User \<Rightarrow> string list \<Rightarrow> Interaction \<Rightarrow> bot_reply db" where
  "run_command cfg st u roles i =
     (if it_name i = cmd cfg ''sso'' then handleSSO st u (it_options i)
      else if it_name i = cmd cfg ''whoami'' then handleWhoami u roles
      else ret NoReply)"

definition TrimPrefix :: "string \<Rightarrow> string \<Rightarrow> string" where
  "TrimPrefix s p = (if HasPrefix s p then drop (length p) s else s)"

definition onInteraction :: "Config \<Rightarrow> Store \<Rightarrow> Interaction \<Rightarrow> bot_reply db" where
  "onInteraction cfg st i =
     (if \<not> is_command i then ret NoReply else
      case interactionIdentity i of (uid, uname, roles) \<Rightarrow>
      if uid = [] then ret (ErrReply ''Could not resolve your Discord user.'') else
      replying (UpsertUser uid uname roles) (\<lambda>_. ret (ErrReply ''Database error while loading your user.'')) (\<lambda>u.
      replying (EnsureUserInDefaultGroupIfNone u) (\<lambda>_. ret (ErrReply ''Database error while assigning your group.'')) (\<lambda>_.
      let cmdKey = TrimPrefix (it_name i) (DiscordCommandPrefix cfg) in
      if userIsDiscordAdmin cfg u then run_command cfg st u roles i
      else replying (UserCanUseDiscordCommand u cmdKey) (\<lambda>_. ret (ErrReply ''Could not verify command access.'')) (\<lambda>allowed.
        if \<not> allowed then ret (ErrReply (''You don't have permission to use '' @ mention cfg cmdKey @ ''.''
            @ [CHR 0x0A, CHR 0x0A] @ ''Ask a guild admin to add you to a group with Discord slash command access.''))
        else run_command cfg st u roles i))))"


section \<open>Messages to those an account is shared with\<close>

text \<open>
  share_notify.go. \<open>sends d text\<close> is what the two REST calls of \<open>sendDirectMessage\<close> answer for a Discord id; the
  result is the messages that were sent. The text has an em dash and, like all text here, is bytes.
\<close>

definition em_dash :: string where "em_dash = [CHR 0xE2, CHR 0x80, CHR 0x94]"
definition newline :: string where "newline = [CHR 0x0A]"

definition cleanShareAliases :: "string \<Rightarrow> string list \<Rightarrow> string list" where
  "cleanShareAliases accountUsername als =
     keep_first {} (filter (\<lambda>al. \<not> EqualFold (TrimSpace al) accountUsername) als)"

fun join_text :: "string \<Rightarrow> string list \<Rightarrow> string" where
  "join_text sep [] = []"
| "join_text sep [x] = x"
| "join_text sep (x # xs) = x @ sep @ join_text sep xs"

definition formatShareNotifyMessage :: "User \<Rightarrow> string \<Rightarrow> string list \<Rightarrow> string" where
  "formatShareNotifyMessage owner accountUsername als =
     (let name = TrimSpace (DisplayName owner); label = (if name = [] then ''Someone'' else name); i = TrimSpace (DiscordID owner);
          label = (if i \<noteq> [] then ''<@'' @ i @ ''> ('' @ label @ '')'' else label); cleaned = cleanShareAliases accountUsername als in
      ''**Alfred Identity** '' @ em_dash @ '' account shared with you'' @ newline @ newline
      @ ''**Owner:** '' @ label @ newline
      @ ''**Account:** '' @ accountUsername @ newline
      @ (if cleaned \<noteq> [] then ''**Aliases:** '' @ join_text '', '' cleaned @ newline else [])
      @ newline @ ''You can log in through **Alfred Identity** using SSO. The shared account appears when you are connected.'' @ newline @ newline
      @ ''This is a private share '' @ em_dash @ '' only users the owner selects can use it.'')"

definition NotifyAccountShared ::
  "(string \<Rightarrow> string \<Rightarrow> error + unit) \<Rightarrow> User \<Rightarrow> string \<Rightarrow> string list \<Rightarrow> int list \<Rightarrow> (string \<times> string) list db"
where
  "NotifyAccountShared sends owner accountUsername als recipientUserIDs =
     (let text = formatShareNotifyMessage owner accountUsername als in
      collect_each (\<lambda>uid. attempt (UserByID uid) (\<lambda>r. ret (case r of Inl _ \<Rightarrow> None
        | Inr recipient \<Rightarrow> let d = TrimSpace (DiscordID recipient) in
            if d = [] then None else case sends d text of Inl _ \<Rightarrow> None | Inr _ \<Rightarrow> Some (d, text)))) recipientUserIDs)"

section \<open>The loop over the pages ends\<close>

text \<open>
  What Discord documents of the listing: from the start or after the id of a member, the next members
  in a fixed order, at most a page of them; every entry has a user.
\<close>

definition pages_follow :: "(string \<Rightarrow> error + Member list) \<Rightarrow> Member list \<Rightarrow> bool" where
  "pages_follow guild_members L \<longleftrightarrow>
     (\<forall>m \<in> set L. member_user m \<noteq> None) \<and> distinct (map member_user L) \<and> guild_members [] = Inr (take page_size L)
     \<and> (\<forall>xs m ys. L = xs @ m # ys \<longrightarrow> guild_members (the (member_user m)) = Inr (take page_size ys))"

lemma sync_member_ok: "\<exists>acc' s'. sync_member m acc s = (Inr acc', s')"
  by (cases acc) (auto simp: sync_member_def attempt_def split: option.splits prod.splits sum.splits)

lemma sync_page_ok: "\<exists>acc' s'. sync_page ms acc s = (Inr acc', s')"
proof (induction ms arbitrary: acc s)
  case (Cons m ms)
  from sync_member_ok [of m acc s] Cons.IH show ?case by (auto simp: sync_page_def andThen_def)
qed (simp add: sync_page_def)

lemma page_step:
  assumes "guild_members after = Inr (take page_size ys)" and "pages_follow guild_members (xs @ ys)" and "ys \<noteq> []"
    and "sync_page (take page_size ys) acc s = (Inr acc', s')"
  obtains (last) "drop page_size ys = []" "member_pages guild_members after acc s = Some (PagesDone (fst acc') (snd acc'), s')"
  | (more) after' where "member_pages guild_members after acc s = member_pages guild_members after' acc' s'"
      "guild_members after' = Inr (take page_size (drop page_size ys))" "length (drop page_size ys) < length ys"
proof -
  have pos: "0 < page_size" by (simp add: page_size_def)
  obtain m ms where page: "take page_size ys = m # ms"
    using assms(3) pos by (cases "take page_size ys") auto
  define z where "z = last (m # ms)"
  have z: "z \<in> set ys" using last_in_set [of "m # ms"] page set_take_subset [of page_size ys] by (auto simp: z_def)
  then obtain d where d: "member_user z = Some d" using assms(2) by (fastforce simp: pages_follow_def)
  have run: "member_pages guild_members after acc s =
      (if length (m # ms) < page_size then Some (PagesDone (fst acc') (snd acc'), s') else member_pages guild_members d acc' s')"
    by (subst member_pages.simps) (simp only: assms(1) assms(4) [unfolded page] page d z_def [symmetric] sum.case list.case prod.case option.case)
  show ?thesis
  proof (cases "length (m # ms) < page_size")
    case True
    then have "drop page_size ys = []" unfolding page [symmetric] by simp
    with run True show ?thesis by (intro last) simp_all
  next
    case False
    have b: "butlast (m # ms) @ [z] = m # ms"
      unfolding z_def by (rule append_butlast_last_id) simp
    have "ys = (m # ms) @ drop page_size ys"
      using append_take_drop_id [of page_size ys] unfolding page by (rule sym)
    then have "ys = butlast (m # ms) @ z # drop page_size ys"
      using b by (metis append.assoc append_Cons append_Nil)
    then have "xs @ ys = (xs @ butlast (m # ms)) @ z # drop page_size ys" by simp
    with assms(2) have "guild_members (the (member_user z)) = Inr (take page_size (drop page_size ys))"
      unfolding pages_follow_def by blast
    with run False d assms(3) pos show ?thesis by (intro more [of d]) simp_all
  qed
qed

lemma sync_page_append:
  "sync_page (ms @ ns) acc s = (case sync_page ms acc s of (Inr acc', s') \<Rightarrow> sync_page ns acc' s' | (Inl e, s') \<Rightarrow> (Inl e, s'))"
proof (induction ms arbitrary: acc s)
  case (Cons m ms)
  from sync_member_ok [of m acc s] Cons.IH show ?case by (auto simp: sync_page_def andThen_def)
qed (simp add: sync_page_def)

text \<open>The loop over the pages does what one pass over the whole listing does.\<close>

lemma member_pages_flat:
  "guild_members after = Inr (take page_size ys) \<Longrightarrow> pages_follow guild_members (xs @ ys) \<Longrightarrow>
   sync_page ys acc s = (Inr acc', s') \<Longrightarrow>
   member_pages guild_members after acc s = Some (PagesDone (fst acc') (snd acc'), s')"
proof (induction ys arbitrary: xs after acc s rule: length_induct)
  case (1 ys)
  show ?case
  proof (cases "ys = []")
    case True
    with 1 show ?thesis by (subst member_pages.simps) (simp add: sync_page_def)
  next
    case False
    obtain acc2 s2 where page: "sync_page (take page_size ys) acc s = (Inr acc2, s2)" using sync_page_ok by blast
    with 1(4) sync_page_append [of "take page_size ys" "drop page_size ys" acc s]
    have rest: "sync_page (drop page_size ys) acc2 s2 = (Inr acc', s')" by simp
    show ?thesis
    proof (rule page_step [OF 1(2,3) False page])
      assume "drop page_size ys = []" "member_pages guild_members after acc s = Some (PagesDone (fst acc2) (snd acc2), s2)"
      with rest show ?thesis by (simp add: sync_page_def)
    next
      fix after' assume run: "member_pages guild_members after acc s = member_pages guild_members after' acc2 s2"
        and a: "guild_members after' = Inr (take page_size (drop page_size ys))" "length (drop page_size ys) < length ys"
      from 1(3) have "pages_follow guild_members ((xs @ take page_size ys) @ drop page_size ys)" by simp
      with 1(1) a rest run show ?thesis by metis
    qed
  qed
qed

lemma syncMemberRoles_flat:
  assumes "pages_follow guild_members L" and "ListUsersForRoleSync s = (Inr known, s1)" and "known \<noteq> []"
    and "sync_page L (by_discord known, 0) s1 = (Inr (left, n), s2)"
  shows "syncMemberRoles guild_members s = Some (PagesDone left n, snd (clear_roles left s2))"
proof -
  have "guild_members [] = Inr (take page_size L)" "pages_follow guild_members ([] @ L)"
    using assms(1) by (simp_all add: pages_follow_def)
  from member_pages_flat [OF this assms(4)] assms(2,3) show ?thesis by (simp add: syncMemberRoles_def)
qed

text \<open>
  C38: the role synchronisation always ends. Whatever the users in the database and wherever their
  updates fail, the loop over the pages of the guild comes to the last page and the run returns,
  provided the pages follow one another as Discord documents; it never panics then.
\<close>

theorem role_sync_returns:
  assumes "pages_follow guild_members L"
  shows "\<exists>e s'. syncMemberRoles guild_members s = Some (e, s') \<and> e \<noteq> PagesPanic \<and> (e = PagesFailed \<longrightarrow> (\<exists>x. fst (ListUsersForRoleSync s) = Inl x))"
proof -
  obtain r s1 where l: "ListUsersForRoleSync s = (r, s1)" by (cases "ListUsersForRoleSync s")
  show ?thesis
  proof (cases r)
    case (Inl x)
    with l show ?thesis by (simp add: syncMemberRoles_def)
  next
    case (Inr known)
    obtain left n s2 where "sync_page L (by_discord known, 0) s1 = (Inr (left, n), s2)"
      using sync_page_ok [of L "(by_discord known, 0)" s1] by auto
    with syncMemberRoles_flat [OF assms] l Inr show ?thesis
      by (cases "known = []") (auto simp: syncMemberRoles_def)
  qed
qed

text \<open>A listing that repeats a full page would keep the loop running for ever.\<close>

lemma endless_pages:
  assumes "ms \<noteq> []" and "member_user (last ms) = Some d" and "length ms = page_size"
    and "member_pages guild_members after acc s = Some r"
  shows "guild_members \<noteq> (\<lambda>_. Inr ms)"
proof (rule member_pages.raw_induct [where P = "\<lambda>g after acc s r. g \<noteq> (\<lambda>_. Inr ms)", OF _ assms(4)], rule notI)
  fix f g after' acc' s' r'
  assume IH: "\<And>g after acc s r. f g after acc s = Some r \<Longrightarrow> g \<noteq> (\<lambda>_. Inr ms)" and g: "g = (\<lambda>_. Inr ms)"
    and eq: "(case g after' of Inl x \<Rightarrow> Some (PagesFailed, s') | Inr [] \<Rightarrow> Some (PagesDone (fst acc') (snd acc'), s')
      | Inr (m # ms) \<Rightarrow>
        (case sync_page (m # ms) acc' s' of (Inl x, s') \<Rightarrow> Some (PagesFailed, s')
         | (Inr acc', s') \<Rightarrow>
             (case member_user (last (m # ms)) of None \<Rightarrow> Some (PagesPanic, s')
              | Some d \<Rightarrow>
                  if length (m # ms) < page_size then Some (PagesDone (fst acc') (snd acc'), s')
                  else f g d acc' s'))) = Some r'"
  obtain m ms' where ms: "ms = m # ms'" using assms(1) by (cases ms) auto
  obtain acc2 s2 where page: "sync_page (m # ms') acc' s' = (Inr acc2, s2)" using sync_page_ok by blast
  have "f g d acc2 s2 = Some r'"
    using eq assms(2,3) page unfolding g ms by (simp only: sum.case list.case prod.case option.case if_False less_irrefl)
  with IH g show False by blast
qed

section \<open>What a role synchronisation does\<close>

definition tidy_roles :: "string list \<Rightarrow> string list" where
  "tidy_roles rs = dedup (\<lambda>r. r = []) (map TrimSpace rs)"

definition entry_of :: "Member list \<Rightarrow> User \<Rightarrow> Member option" where
  "entry_of L u = find (\<lambda>m. member_user m = Some (DiscordID u)) L"

definition tagged :: "Member list \<Rightarrow> User \<Rightarrow> User" where
  "tagged L u = (if DiscordID u = [] then u
     else case entry_of L u of None \<Rightarrow> u | Some m \<Rightarrow> u\<lparr>RoleIDs := tidy_roles (member_roles m)\<rparr>)"

definition mirrored :: "Member list \<Rightarrow> User \<Rightarrow> User" where
  "mirrored L u = (if DiscordID u = [] then u
     else u\<lparr>RoleIDs := (case entry_of L u of None \<Rightarrow> [] | Some m \<Rightarrow> tidy_roles (member_roles m))\<rparr>)"

lemma tagged_keys [simp]: "ID (tagged L u) = ID u" "DiscordID (tagged L u) = DiscordID u"
  by (simp_all add: tagged_def split: option.splits)

lemma SetUserRoles_run:
  "faults s = [] \<Longrightarrow> SetUserRoles i rs s =
     (Inr (), s\<lparr>users := map (\<lambda>u. if ID u = i then u\<lparr>RoleIDs := tidy_roles rs\<rparr> else u) (users s)\<rparr>)"
  by (simp add: SetUserRoles_def exec_update_def stmt_no_faults andThen_def ret_def tidy_roles_def)

lemma by_discord_id: "distinct (map DiscordID us) \<Longrightarrow> by_discord us = us"
  by (induction us) auto

lemma find_append: "find P (xs @ ys) = (case find P xs of None \<Rightarrow> find P ys | Some x \<Rightarrow> Some x)"
  by (induction xs) auto

text \<open>One entry of the listing, after the entries \<open>P\<close>: the roles of that member, and nothing else, are set.\<close>

lemma sync_member_tags:
  assumes wf: "wf_world s" and nf: "faults s = []" and m: "member_user m = Some d" and new: "Some d \<notin> member_user ` set P"
    and K: "K = filter (\<lambda>u. DiscordID u \<noteq> []) (sort_key ID (users s))"
  shows "\<exists>n'. sync_member m (filter (\<lambda>u. entry_of P u = None) K, n) (s\<lparr>users := map (tagged P) (users s)\<rparr>) =
    (Inr (filter (\<lambda>u. entry_of (P @ [m]) u = None) K, n'), s\<lparr>users := map (tagged (P @ [m])) (users s)\<rparr>)"
proof -
  have dist: "distinct (map ID (users s))" "distinct (map DiscordID (users s))"
    using wf by (simp_all add: wf_world_def wf_users_def)
  have fresh: "entry_of P u = None" if "DiscordID u = d" for u
    unfolding entry_of_def find_None_iff using new that by (metis image_eqI)
  have entry: "entry_of (P @ [m]) u = (if DiscordID u = d then Some m else entry_of P u)" for u
    using m fresh [of u] by (auto simp: entry_of_def find_append split: option.splits)
  show ?thesis
  proof (cases "find (\<lambda>u. DiscordID u = d) (filter (\<lambda>u. entry_of P u = None) K)")
    case None
    then have none: "DiscordID u \<noteq> d" if "u \<in> set K" for u
      using fresh that by (auto simp: find_None_iff)
    then have "filter (\<lambda>u. entry_of (P @ [m]) u = None) K = filter (\<lambda>u. entry_of P u = None) K"
      by (intro filter_cong refl) (simp add: entry)
    moreover have "tagged (P @ [m]) u = tagged P u" if "u \<in> set (users s)" for u
      using none [of u] that by (cases "DiscordID u = []") (simp_all add: tagged_def entry K)
    then have "map (tagged (P @ [m])) (users s) = map (tagged P) (users s)" by simp
    ultimately show ?thesis using None m by (simp add: sync_member_def ret_def)
  next
    case (Some u)
    then have "u \<in> set (filter (\<lambda>u. entry_of P u = None) K) \<and> DiscordID u = d"
      unfolding find_Some_iff by (metis nth_mem)
    then have u: "u \<in> set K" "DiscordID u = d" by simp_all
    then have uS: "u \<in> set (users s)" and ne: "d \<noteq> []" by (auto simp: K)
    have same: "ID v = ID u \<longleftrightarrow> DiscordID v = d" if "v \<in> set (users s)" for v
      using that uS u(2) dist by (auto simp: distinct_map dest: inj_onD)
    have "(if ID (tagged P v) = ID u then tagged P v\<lparr>RoleIDs := tidy_roles (member_roles m)\<rparr> else tagged P v) = tagged (P @ [m]) v"
      if "v \<in> set (users s)" for v
    proof -
      have "tagged (P @ [m]) v = (if DiscordID v = d then v\<lparr>RoleIDs := tidy_roles (member_roles m)\<rparr> else tagged P v)"
        using ne by (simp add: tagged_def entry)
      moreover have "tagged P v = v" if "DiscordID v = d" using fresh [OF that] by (simp add: tagged_def)
      ultimately show ?thesis using same [OF that] by simp
    qed
    then have "map (\<lambda>v. if ID v = ID u then v\<lparr>RoleIDs := tidy_roles (member_roles m)\<rparr> else v) (map (tagged P) (users s))
        = map (tagged (P @ [m])) (users s)" by simp
    moreover have "filter (\<lambda>v. DiscordID v \<noteq> d) (filter (\<lambda>u. entry_of P u = None) K) = filter (\<lambda>u. entry_of (P @ [m]) u = None) K"
      unfolding filter_filter by (intro filter_cong refl) (simp add: entry conj_commute)
    ultimately show ?thesis using Some m nf
      by (simp add: sync_member_def attempt_def SetUserRoles_run ret_def)
  qed
qed

lemma sync_page_tags:
  assumes wf: "wf_world s" and nf: "faults s = []" and K: "K = filter (\<lambda>u. DiscordID u \<noteq> []) (sort_key ID (users s))"
  shows "distinct (map member_user (P @ ms)) \<Longrightarrow> \<forall>m \<in> set ms. member_user m \<noteq> None \<Longrightarrow>
    \<exists>n'. sync_page ms (filter (\<lambda>u. entry_of P u = None) K, n) (s\<lparr>users := map (tagged P) (users s)\<rparr>) =
      (Inr (filter (\<lambda>u. entry_of (P @ ms) u = None) K, n'), s\<lparr>users := map (tagged (P @ ms)) (users s)\<rparr>)"
proof (induction ms arbitrary: P n)
  case Nil
  then show ?case by (simp add: sync_page_def ret_def)
next
  case (Cons m ms)
  from Cons.prems(2) obtain d where d: "member_user m = Some d" by auto
  with Cons.prems(1) have "Some d \<notin> member_user ` set P" by auto
  from sync_member_tags [OF wf nf d this K, of n] obtain n1 where
    one: "sync_member m (filter (\<lambda>u. entry_of P u = None) K, n) (s\<lparr>users := map (tagged P) (users s)\<rparr>) =
      (Inr (filter (\<lambda>u. entry_of (P @ [m]) u = None) K, n1), s\<lparr>users := map (tagged (P @ [m])) (users s)\<rparr>)" ..
  from Cons.IH [of "P @ [m]" n1] Cons.prems one show ?case
    by (simp add: sync_page_def andThen_def)
qed

lemma clear_roles_run:
  "faults s = [] \<Longrightarrow> snd (clear_roles us s) =
     s\<lparr>users := map (\<lambda>u. if ID u \<in> ID ` set us then u\<lparr>RoleIDs := []\<rparr> else u) (users s)\<rparr>"
proof (induction us arbitrary: s)
  case Nil
  then show ?case by (simp add: clear_roles_def ret_def)
next
  case (Cons u us)
  have [simp]: "tidy_roles [] = []" by (simp add: tidy_roles_def dedup_def)
  show ?case using Cons.prems Cons.IH [of "snd (SetUserRoles (ID u) [] s)"]
    by (simp add: clear_roles_def andThen_def ignore_def attempt_def SetUserRoles_run ret_def comp_def)
qed

text \<open>
  C37: after a role synchronisation the roles in the database are those of the guild. With the
  database reachable and the pages following one another, every known user holds exactly the (trimmed,
  deduplicated) roles of his entry, a user who is not a member holds none, and nothing else in
  the world has changed.
\<close>

theorem role_sync_mirrors_guild:
  assumes "wf_world s" and "faults s = []" and "pages_follow guild_members L"
  shows "\<exists>left n. syncMemberRoles guild_members s = Some (PagesDone left n, s\<lparr>users := map (mirrored L) (users s)\<rparr>)"
proof -
  define K where "K = filter (\<lambda>u. DiscordID u \<noteq> []) (sort_key ID (users s))"
  have L: "distinct (map member_user L)" "\<forall>m \<in> set L. member_user m \<noteq> None"
    using assms(3) by (simp_all add: pages_follow_def)
  have list: "ListUsersForRoleSync s = (Inr K, s)"
    using assms(2) by (simp add: ListUsersForRoleSync_def query_no_faults K_def filter_sort)
  have dist: "distinct (map ID (users s))" "distinct (map DiscordID (users s))"
    using assms(1) by (simp_all add: wf_world_def wf_users_def)
  have K: "by_discord K = K"
    using dist(2) by (intro by_discord_id) (simp add: K_def distinct_map inj_on_def distinct_filter)
  have start: "filter (\<lambda>u. entry_of [] u = None) K = K" "map (tagged []) (users s) = users s"
    by (simp_all add: entry_of_def tagged_def map_idI)
  show ?thesis
  proof (cases "K = []")
    case True
    then have "mirrored L u = u" if "u \<in> set (users s)" for u
      using that by (auto simp: K_def filter_empty_conv mirrored_def)
    then have "map (mirrored L) (users s) = users s" by (simp add: map_idI)
    with True list show ?thesis by (simp add: syncMemberRoles_def)
  next
    case False
    from sync_page_tags [OF assms(1,2) K_def, of "[]" L 0] L start obtain n where
      page: "sync_page L (by_discord K, 0) s = (Inr (filter (\<lambda>u. entry_of L u = None) K, n), s\<lparr>users := map (tagged L) (users s)\<rparr>)"
      by (auto simp: K)
    let ?left = "filter (\<lambda>u. entry_of L u = None) K"
    have "(if ID (tagged L u) \<in> ID ` set ?left then tagged L u\<lparr>RoleIDs := []\<rparr> else tagged L u) = mirrored L u"
      if "u \<in> set (users s)" for u
    proof -
      have "ID u \<in> ID ` set ?left \<longleftrightarrow> DiscordID u \<noteq> [] \<and> entry_of L u = None"
        using that dist(1) by (auto simp: K_def distinct_map dest: inj_onD)
      then show ?thesis by (auto simp: tagged_def mirrored_def split: option.splits)
    qed
    then have "snd (clear_roles ?left (s\<lparr>users := map (tagged L) (users s)\<rparr>)) = s\<lparr>users := map (mirrored L) (users s)\<rparr>"
      using assms(2) by (simp add: clear_roles_run)
    with syncMemberRoles_flat [OF assms(3) list False page] show ?thesis by simp
  qed
qed

section \<open>Commands\<close>

definition people :: "world \<Rightarrow> User list \<times> group_row list \<times> member_row list" where
  "people s = (users s, groups s, members s)"

definition answers :: "bot_reply \<Rightarrow> bool" where
  "answers r = (case r of NoReply \<Rightarrow> False | ErrReply _ \<Rightarrow> False | _ \<Rightarrow> True)"

definition may_command :: "Config \<Rightarrow> string \<Rightarrow> string \<Rightarrow> world \<Rightarrow> bool" where
  "may_command cfg d key s \<longleftrightarrow> (\<exists>u \<in> set (users s). DiscordID u = d \<and>
     (userIsDiscordAdmin cfg u \<or> (\<exists>g \<in> set (groups s). ToLower (TrimSpace key) \<in> set (g_cmds g) \<and> in_group s (ID u) (g_id g))))"

lemma unseen_people [simp, intro]: "unseen people"
  by (simp add: unseen_def people_def)

lemma token_operations_spare_people:
  "frame people (CreateToken st u)" "frame people (RevokeToken u t)" "frame people (AuditAccount st u a n d)"
  unfolding CreateToken_def RevokeToken_def AuditAccount_def MustRandToken_def SealString_def Seal_def revoke_tokens_def
    insert_token_def UserByID_def Let_def
  by (intro frame_rules frame_stmt unseen_people; auto simp: frame_def people_def split: option.splits)+

lemma run_command_spares_people: "frame people (run_command cfg st u roles i)"
proof -
  have [intro]: "frame people (ActiveToken st j)" "frame people (UserByID j)" "frame people (AllowedAccountIDs v)" for j v
    by (intro reads_frame reads_rules unseen_people | simp add: ActiveToken_def ListTokens_def UserByID_def)+
  show ?thesis
    unfolding run_command_def handleSSO_def handleWhoami_def resolveSSOTokenSecret_def replying_def complain_def Audit_def
    by (intro frame_rules token_operations_spare_people; (split list.split)?; auto intro!: frame_rules token_operations_spare_people split: list.splits sum.splits option.splits)
qed

lemma reads_can_use: "reads (UserCanUseDiscordCommand u c)"
  unfolding UserCanUseDiscordCommand_def IsDiscordCommandRestricted_def Let_def by (intro reads_rules)

lemma people_quiet [simp]: "people (s\<lparr>faults := fs\<rparr>) = people s" "tokens (s\<lparr>faults := fs\<rparr>) = tokens s"
  by (simp_all add: people_def)

lemma may_command_people: "people s' = people s \<Longrightarrow> may_command cfg d key s' = may_command cfg d key s"
  by (simp add: may_command_def people_def in_group_def member_matches_def holds_role_def cong: option.case_cong)

text \<open>
  C36: what a slash command does is done only for those who may use it. If the bot answers with anything but
  an error, or a token has changed, then the Discord user of the interaction is an administrator by
  the configuration, or belongs to a group that grants the command.
\<close>

theorem bot_commands_need_permission:
  assumes "group_inv s" and "onInteraction cfg st i s = (Inr reply, s')" and "answers reply \<or> tokens s' \<noteq> tokens s"
  shows "may_command cfg (fst (interactionIdentity i)) (TrimPrefix (it_name i) (DiscordCommandPrefix cfg)) s'"
proof -
  obtain d n roles where it: "interactionIdentity i = (d, n, roles)" by (cases "interactionIdentity i")
  let ?key = "TrimPrefix (it_name i) (DiscordCommandPrefix cfg)"
  obtain r1 s1 where up: "UpsertUser d n roles s = (r1, s1)" by (cases "UpsertUser d n roles s")
  have t1: "tokens s1 = tokens s" using up assigning_spares_tokens(1) [of d n roles] by (auto simp: frame_def dest: spec [of _ s])
  show ?thesis
  proof (cases r1)
    case (Inl e)
    then show ?thesis using assms(2,3) it up t1
      by (auto simp: onInteraction_def replying_def attempt_def answers_def split: if_splits)
  next
    case (Inr u)
    note u = UpsertUser_result [OF up [unfolded Inr]]
    obtain r2 s2 where en: "EnsureUserInDefaultGroupIfNone u s1 = (r2, s2)" by (cases "EnsureUserInDefaultGroupIfNone u s1")
    have t2: "tokens s2 = tokens s1" "users s2 = users s1"
      using en assigning_spares_tokens(2,3) [of u] by (auto simp: frame_def dest: spec [of _ s1])
    have inv: "group_inv s2"
      using keeps_result [OF EnsureUserInDefault_inv keeps_result [OF keeps_group_inv [OF keeps_UpsertUser groups_framed(1)] assms(1) up] en] .
    have inside: "u \<in> set (users s2)" "DiscordID u = d" using u t2 by simp_all
    show ?thesis
    proof (cases r2)
      case (Inl e)
      then show ?thesis using assms(2,3) it up \<open>r1 = Inr u\<close> en t1 t2
        by (auto simp: onInteraction_def replying_def attempt_def answers_def split: if_splits)
    next
      case (Inr x)
      have "userIsDiscordAdmin cfg u \<and> run_command cfg st u roles i s2 = (Inr reply, s') \<or>
          (\<not> userIsDiscordAdmin cfg u \<and> (\<exists>b s3. UserCanUseDiscordCommand u ?key s2 = (b, s3) \<and> (b = Inr True \<and>
            run_command cfg st u roles i s3 = (Inr reply, s') \<or> b \<noteq> Inr True \<and> \<not> answers reply \<and> s' = s3)))"
      proof (cases "is_command i \<and> d \<noteq> []")
        case True
        then show ?thesis
          using assms(2) it up \<open>r1 = Inr u\<close> en Inr
          by (cases "UserCanUseDiscordCommand u ?key s2")
            (auto simp: onInteraction_def replying_def attempt_def answers_def Let_def ret_def split: if_splits sum.splits)
      next
        case False
        with assms(2,3) it show ?thesis by (auto simp: onInteraction_def answers_def ret_def split: if_splits)
      qed
      then consider (admin) "userIsDiscordAdmin cfg u" "run_command cfg st u roles i s2 = (Inr reply, s')"
        | (granted) s3 where "UserCanUseDiscordCommand u ?key s2 = (Inr True, s3)" "run_command cfg st u roles i s3 = (Inr reply, s')"
        | (refused) b where "\<not> answers reply" "UserCanUseDiscordCommand u ?key s2 = (b, s')"
        by (cases "userIsDiscordAdmin cfg u") blast+
      then show ?thesis
      proof cases
        case admin
        with inside have "may_command cfg d ?key s2" by (auto simp: may_command_def)
        then show ?thesis using may_command_people [OF frame_result [OF run_command_spares_people admin(2)]] it by simp
      next
        case granted
        have "may_command cfg d ?key s2"
          using inside commands_need_a_granting_group [OF inv granted(1)] by (auto simp: may_command_def)
        then have "may_command cfg d ?key s3"
          using may_command_people [OF frame_result [OF reads_frame [OF reads_can_use unseen_people] granted(1)]] by simp
        then show ?thesis using may_command_people [OF frame_result [OF run_command_spares_people granted(2)]] it by simp
      next
        case refused
        have "tokens s' = tokens s2"
          using frame_result [OF reads_frame [OF reads_can_use unseen_tables(2)] refused(2)] .
        with refused(1) assms(3) t1 t2 show ?thesis by simp
      qed
    qed
  qed
qed

text \<open>A group grants the command, so the bot answers.\<close>

definition sample_bot :: Config where
  "sample_bot = (read_settings (\<lambda>_. []) [])\<lparr>DiscordGuildID := ''9'', DiscordCommandPrefix := ''alfred-''\<rparr>"

definition whoami_of :: "string \<Rightarrow> Interaction" where
  "whoami_of d = \<lparr>is_command = True, it_member = Some (d, ''Ann'', [''r1'']), it_user = None, it_name = ''alfred-whoami'', it_options = []\<rparr>"

theorem bot_commands_need_permission_witness:
  "(\<exists>u ids. fst (onInteraction sample_bot sample_store (whoami_of ''77'') seeded_world) = Inr (Identity u ids))
   \<and> may_command sample_bot ''77'' ''whoami'' (snd (onInteraction sample_bot sample_store (whoami_of ''77'') seeded_world))"
proof -
  obtain u ids where run: "fst (onInteraction sample_bot sample_store (whoami_of ''77'') seeded_world) = Inr (Identity u ids)"
  proof -
    have "(case fst (onInteraction sample_bot sample_store (whoami_of ''77'') seeded_world) of Inr (Identity u ids) \<Rightarrow> True | _ \<Rightarrow> False)"
      by code_simp
    then show ?thesis using that by (auto split: sum.splits bot_reply.splits)
  qed
  then have "onInteraction sample_bot sample_store (whoami_of ''77'') seeded_world =
      (Inr (Identity u ids), snd (onInteraction sample_bot sample_store (whoami_of ''77'') seeded_world))"
    by (metis prod.collapse)
  from bot_commands_need_permission [OF group_inv_seeded this] run show ?thesis
    by (simp add: answers_def whoami_of_def sample_bot_def interactionIdentity_def TrimPrefix_def HasPrefix_def)
qed

text \<open>Two entries on one page: the user of \<open>sample_world\<close> among them.\<close>

definition sample_listing :: "Member list" where
  "sample_listing = [\<lparr>member_user = Some ''70'', member_roles = [''r9'']\<rparr>, \<lparr>member_user = Some ''77'', member_roles = ['' r2 '', ''r2'']\<rparr>]"

definition listing_from :: "Member list \<Rightarrow> string \<Rightarrow> error + Member list" where
  "listing_from L after =
     Inr (take page_size (if after = [] then L else tl (dropWhile (\<lambda>m. member_user m \<noteq> Some after) L)))"

lemma listing_follows:
  assumes "distinct (map member_user L)" and "\<forall>m \<in> set L. member_user m \<noteq> None \<and> member_user m \<noteq> Some []"
  shows "pages_follow (listing_from L) L"
proof -
  have "listing_from L (the (member_user m)) = Inr (take page_size ys)" if L: "L = xs @ m # ys" for xs m ys
  proof -
    from L assms(2) obtain d where d: "member_user m = Some d" "d \<noteq> []" by fastforce
    from L assms(1) d have "dropWhile (\<lambda>m. member_user m \<noteq> Some d) (xs @ m # ys) = m # ys"
      by (subst dropWhile_append2) (auto simp: image_iff)
    with d L show ?thesis by (simp add: listing_from_def)
  qed
  with assms(2) show ?thesis unfolding pages_follow_def using assms(1) by (auto simp: listing_from_def)
qed

lemma sample_listing_follows: "pages_follow (listing_from sample_listing) sample_listing"
  by (rule listing_follows) (simp_all add: sample_listing_def)

theorem role_sync_returns_witness:
  "\<exists>e s'. syncMemberRoles (listing_from sample_listing) (sample_world\<lparr>faults := [None, Some ''lost'']\<rparr>) = Some (e, s') \<and> e \<noteq> PagesPanic"
  using role_sync_returns [OF sample_listing_follows] by blast

theorem role_sync_mirrors_guild_witness:
  "\<exists>left n. syncMemberRoles (listing_from sample_listing) sample_world =
     Some (PagesDone left n, sample_world\<lparr>users := [sample_user\<lparr>RoleIDs := [''r2'']\<rparr>]\<rparr>)"
proof -
  have "map (mirrored sample_listing) (users sample_world) = [sample_user\<lparr>RoleIDs := [''r2'']\<rparr>]" by code_simp
  moreover have "faults sample_world = []" by (simp add: sample_world_def empty_world_def)
  ultimately show ?thesis
    using role_sync_mirrors_guild [OF wf_sample_world _ sample_listing_follows] by simp
qed

text \<open>
  A member whose update fails stays among the users still expected, and his roles are cleared at the
  end of the run, though he is in the guild.
\<close>

lemma failed_update_clears_roles:
  "case syncMemberRoles (listing_from sample_listing) (sample_world\<lparr>faults := [None, Some ''deadlock'']\<rparr>) of
     Some (PagesDone left n, s') \<Rightarrow> map RoleIDs (users s') = [[]] \<and> n = 0 | _ \<Rightarrow> False"
proof -
  let ?s = "sample_world\<lparr>faults := [None, Some ''deadlock'']\<rparr>" and ?s2 = "sample_world\<lparr>faults := []\<rparr>"
  have list: "ListUsersForRoleSync ?s = (Inr [sample_user], sample_world\<lparr>faults := [Some ''deadlock'']\<rparr>)"
    by (simp add: ListUsersForRoleSync_def query_def stmt_def sample_world_def empty_world_def sample_user_def)
  have page: "sync_page sample_listing (by_discord [sample_user], 0) (sample_world\<lparr>faults := [Some ''deadlock'']\<rparr>) = (Inr ([sample_user], 0), ?s2)"
    by (simp add: sync_page_def sample_listing_def sync_member_def sample_user_def sample_world_def andThen_def attempt_def
        SetUserRoles_def exec_update_def stmt_def ret_def Let_def)
  have "map RoleIDs (users (snd (clear_roles [sample_user] ?s2))) = [[]]"
    by (subst clear_roles_run) (simp_all add: sample_world_def sample_user_def)
  with syncMemberRoles_flat [OF sample_listing_follows list _ page] show ?thesis by simp
qed

end
