(* ===== verification/Startup.thy ===== *)
theory Startup
  imports Bot WebLive
begin

text \<open>
  cmd/daemon/main.go and cmd/seedtoken/main.go: how the parts are put together from the settings, with
  \<open>web.New\<close> (server.go). The database is connected and migrated, so the world is what it holds, and a
  lost connection a fault; the HTTP server itself, logging and the calls that open the Discord session
  are left out. What a start-up yields is the objects of the process, the settings its parts run with and
  which of the objects they share. That \<open>web.New\<close> subscribes to the hub's changes is part of \<open>WebLive\<close>.
\<close>

section \<open>The daemon\<close>

definition hub_settings :: "Config \<Rightarrow> HubConfig" where
  "hub_settings cfg = \<lparr>AdminRoleID = DiscordAdminRoleID cfg, BootstrapAdminIDs = DiscordBootstrapAdmins cfg,
     ProtocolVersion = CfgProtocolVersion cfg, ratePerMin = LoginAuthRatePerMin cfg\<rparr>"

text \<open>The bot, as \<open>discord.New\<close> makes it; the last field says whether it listens to the gateway.\<close>

record BotSide =
  bot_Store :: Store
  bot_Cfg :: Config
  bot_gateway :: bool

text \<open>
  Hub and pages share objects, so the trackers of a process are a list, and a tracker is known by its
  place in it: \<open>presence.New\<close> takes the next one.
\<close>

definition presence_New :: "int \<Rightarrow> Tracker list \<Rightarrow> nat \<times> Tracker list" where
  "presence_New d ts = (length ts, ts @ [New d])"

record SsoHub =
  hub_Store :: Store
  hub_Presence :: nat
  hub_LoginUpstream :: string
  hub_ShareNotifier :: "BotSide option"
  hub_Settings :: HubConfig

text \<open>\<open>web.Options\<close>; the tracker may be missing.\<close>

record Options =
  OptStore :: Store
  OptHub :: SsoHub
  OptPresence :: "nat option"
  OptSessionKey :: bytes
  OptPublicURL :: string
  OptClientID :: string
  OptClientSecret :: string
  OptGuildID :: string
  OptAccessRoleID :: string
  OptBootstrapAdminIDs :: "string list"
  OptAdminRoleID :: string
  OptSSOSourceName :: string
  OptRequireAccountACL :: bool

record WebServer =
  web_Site :: Site
  web_Hub :: SsoHub
  web_Presence :: nat
  web_sourceName :: string

text \<open>\<open>web.New\<close>; the key of the cookies is the digest of the session key.\<close>

definition web_New :: "Options \<Rightarrow> Tracker list \<Rightarrow> WebServer \<times> Tracker list" where
  "web_New opts ts =
     (let (pres, ts) = (case OptPresence opts of Some p \<Rightarrow> (p, ts) | None \<Rightarrow> presence_New (seconds 300) ts) in
      (\<lparr>web_Site = \<lparr>
         site_server = \<lparr>srv_store = OptStore opts, srv_hub = hub_Settings (OptHub opts), sessionKey = sha256 (OptSessionKey opts),
           accessRoleID = OptAccessRoleID opts, bootstrapIDs = OptBootstrapAdminIDs opts, adminRoleID = OptAdminRoleID opts,
           requireACL = OptRequireAccountACL opts\<rparr>,
         publicURL = TrimRightSlash (OptPublicURL opts), clientID = OptClientID opts, clientSecret = OptClientSecret opts,
         guildID = OptGuildID opts\<rparr>,
        web_Hub = OptHub opts, web_Presence = pres, web_sourceName = TrimSpace (OptSSOSourceName opts)\<rparr>, ts))"

record HttpSide =
  hs_trackers :: "Tracker list"
  hs_hub :: SsoHub
  hs_web :: "WebServer option"
  hs_routes :: "string list"
  hs_addr :: string

type_synonym hkdf_reader = "bytes \<Rightarrow> bytes \<Rightarrow> bytes \<Rightarrow> nat \<Rightarrow> error + bytes"

definition session_key :: "hkdf_reader \<Rightarrow> Config \<Rightarrow> error + bytes" where
  "session_key hkdf cfg = (if WebSessionKey cfg = [] then DeriveKey hkdf (DataEncryptionKey cfg) ''web-session'' else Inr (WebSessionKey cfg))"

definition runHTTP :: "hkdf_reader \<Rightarrow> Config \<Rightarrow> Store \<Rightarrow> BotSide option \<Rightarrow> error + HttpSide" where
  "runHTTP hkdf cfg st dbot =
     (let (pres, ts) = presence_New (PresenceTTL cfg) [];
          hub = \<lparr>hub_Store = st, hub_Presence = pres, hub_LoginUpstream = EQLoginUpstream cfg, hub_ShareNotifier = dbot,
            hub_Settings = hub_settings cfg\<rparr>;
          routes = [''/health'', ''/open-alfred'', WSPath cfg] in
      if \<not> WebEnabled cfg then Inr \<lparr>hs_trackers = ts, hs_hub = hub, hs_web = None, hs_routes = routes, hs_addr = HTTPAddr cfg\<rparr>
      else case session_key hkdf cfg of Inl e \<Rightarrow> Inl e
      | Inr key \<Rightarrow>
          let (srv, ts) = web_New \<lparr>OptStore = st, OptHub = hub, OptPresence = Some pres, OptSessionKey = key,
                OptPublicURL = WebPublicURL cfg, OptClientID = DiscordClientID cfg, OptClientSecret = DiscordClientSecret cfg,
                OptGuildID = DiscordGuildID cfg, OptAccessRoleID = WebAccessRoleID cfg,
                OptBootstrapAdminIDs = DiscordBootstrapAdmins cfg, OptAdminRoleID = DiscordAdminRoleID cfg,
                OptSSOSourceName = WebSSOSourceName cfg, OptRequireAccountACL = RequireAccountACL cfg\<rparr> ts in
          Inr \<lparr>hs_trackers = ts, hs_hub = hub, hs_web = Some srv, hs_routes = routes @ [BasePath], hs_addr = HTTPAddr cfg\<rparr>)"

record Daemon =
  dm_config :: Config
  dm_store :: Store
  dm_bot :: "BotSide option"
  dm_http :: "HttpSide option"

definition the_bot :: "Config \<Rightarrow> Store \<Rightarrow> Role \<Rightarrow> BotSide option" where
  "the_bot cfg st role =
     (if DiscordEnabled cfg \<and> (WantsDiscordGateway role \<or> WantsShareREST role)
      then Some \<lparr>bot_Store = st, bot_Cfg = cfg, bot_gateway = WantsDiscordGateway role\<rparr> else None)"

definition start_daemon :: "hkdf_reader \<Rightarrow> environment \<Rightarrow> string \<Rightarrow> Daemon db" where
  "start_daemon hkdf env process =
     (case ParseRole process of Inl e \<Rightarrow> fail e | Inr role \<Rightarrow>
      case Load env of Inl e \<Rightarrow> fail e | Inr loaded \<Rightarrow>
      let cfg = (if WantsHTTP role then ApplyPlatformPort env loaded else loaded) in
      if WantsDiscordGateway role \<and> \<not> DiscordEnabled cfg then fail (Err ''discord process requires DISCORD_ENABLED=true'') else
      case NewAEAD (DataEncryptionKey cfg) of Inl e \<Rightarrow> fail e | Inr aead \<Rightarrow>
      let st = \<lparr>StoreAEAD = aead, StoreKey = DataEncryptionKey cfg\<rparr> in
      andThen EnsureDefaultGroup (\<lambda>_.
        let dbot = the_bot cfg st role in
        if \<not> WantsHTTP role then ret \<lparr>dm_config = cfg, dm_store = st, dm_bot = dbot, dm_http = None\<rparr>
        else case runHTTP hkdf cfg st dbot of Inl e \<Rightarrow> fail e
        | Inr side \<Rightarrow> ret \<lparr>dm_config = cfg, dm_store = st, dm_bot = dbot, dm_http = Some side\<rparr>))"

section \<open>A first token\<close>

text \<open>cmd/seedtoken: the user, the token and its id, which it prints.\<close>

definition seedtoken :: "environment \<Rightarrow> string list \<Rightarrow> (int \<times> int \<times> string) db" where
  "seedtoken env args =
     (case args of _ # discordID # name # _ \<Rightarrow>
        (case Load env of Inl e \<Rightarrow> fail e | Inr cfg \<Rightarrow>
         case NewAEAD (DataEncryptionKey cfg) of Inl e \<Rightarrow> fail e | Inr aead \<Rightarrow>
         let st = \<lparr>StoreAEAD = aead, StoreKey = DataEncryptionKey cfg\<rparr> in
         andThen (UpsertUser discordID name []) (\<lambda>u.
         andThen (EnsureUserInDefaultGroupIfNone u) (\<lambda>_.
         andThen (CreateToken st (ID u)) (\<lambda>(raw, i).
         ret (ID u, i, raw)))))
      | _ \<Rightarrow> fail (Err ''usage: seedtoken <discord_id> <display_name>''))"

section \<open>One policy\<close>

lemma start_daemonD:
  assumes "start_daemon hkdf env process s = (Inr d, s')"
  obtains g role where "EnsureDefaultGroup s = (Inr g, s')" "dm_bot d = the_bot (dm_config d) (dm_store d) role"
    "\<And>side. dm_http d = Some side \<Longrightarrow> runHTTP hkdf (dm_config d) (dm_store d) (dm_bot d) = Inr side"
proof -
  from assms obtain role loaded where 1: "ParseRole process = Inr role" "Load env = Inr loaded"
    by (auto simp: start_daemon_def fail_def split: sum.splits)
  define cfg where "cfg = (if WantsHTTP role then ApplyPlatformPort env loaded else loaded)"
  from assms 1 obtain aead where 2: "NewAEAD (DataEncryptionKey cfg) = Inr aead" and 3: "\<not> (WantsDiscordGateway role \<and> \<not> DiscordEnabled cfg)"
    by (auto simp: start_daemon_def fail_def Let_def cfg_def [symmetric] split: sum.splits if_split_asm)
  define st where "st = \<lparr>StoreAEAD = aead, StoreKey = DataEncryptionKey cfg\<rparr>"
  let ?bot = "the_bot cfg st role"
  let ?k = "if \<not> WantsHTTP role then ret \<lparr>dm_config = cfg, dm_store = st, dm_bot = ?bot, dm_http = None\<rparr>
        else case runHTTP hkdf cfg st ?bot of Inl e \<Rightarrow> fail e
        | Inr side \<Rightarrow> ret \<lparr>dm_config = cfg, dm_store = st, dm_bot = ?bot, dm_http = Some side\<rparr>"
  have "andThen EnsureDefaultGroup (\<lambda>_. ?k) s = (Inr d, s')"
    using assms 1 2 3 by (simp add: start_daemon_def Let_def cfg_def [symmetric] st_def [symmetric])
  then obtain g s1 where g: "EnsureDefaultGroup s = (Inr g, s1)" and k: "?k s1 = (Inr d, s')" by (rule andThen_InrE)
  show ?thesis
  proof (cases "WantsHTTP role")
    case False
    with g k show ?thesis by (intro that [of g role]) (auto simp: ret_def)
  next
    case True
    with k obtain side where "runHTTP hkdf cfg st ?bot = Inr side" "d = \<lparr>dm_config = cfg, dm_store = st, dm_bot = ?bot, dm_http = Some side\<rparr>" "s' = s1"
      by (auto simp: ret_def fail_def split: sum.splits)
    with g show ?thesis by (intro that [of g role]) simp_all
  qed
qed

lemma runHTTPD:
  assumes "runHTTP hkdf cfg st dbot = Inr side"
  shows "hs_trackers side = [New (PresenceTTL cfg)]"
    and "hub_Store (hs_hub side) = st" "hub_Presence (hs_hub side) = 0" "hub_ShareNotifier (hs_hub side) = dbot"
      "hub_Settings (hs_hub side) = hub_settings cfg"
    and "hs_web side = Some srv \<Longrightarrow> web_Hub srv = hs_hub side \<and> web_Presence srv = 0
      \<and> (\<exists>key. session_key hkdf cfg = Inr key \<and> site_server (web_Site srv) = \<lparr>srv_store = st, srv_hub = hub_settings cfg, sessionKey = sha256 key,
           accessRoleID = WebAccessRoleID cfg, bootstrapIDs = DiscordBootstrapAdmins cfg, adminRoleID = DiscordAdminRoleID cfg,
           requireACL = RequireAccountACL cfg\<rparr>)"
  using assms by (auto simp: runHTTP_def web_New_def presence_New_def Let_def split: if_splits sum.splits)

lemma loaded_web_needs_discord:
  assumes "Load env = Inr cfg" and "WebEnabled cfg"
  shows "DiscordEnabled cfg"
proof -
  from assms(1) obtain key sk where web: "check_web ((read_settings env key)\<lparr>WebSessionKey := sk\<rparr>) = Inr cfg" by (rule LoadD)
  from check_webD(1) [OF this] obtain r where "cfg = (read_settings env key)\<lparr>WebSessionKey := sk, WebAccessRoleID := r\<rparr>" by blast
  then have "WebEnabled cfg = WebEnabled (read_settings env key)" "DiscordEnabled cfg = DiscordEnabled (read_settings env key)" by simp_all
  with check_webD(2) [OF web] assms(2) show ?thesis by simp
qed

lemma userIsAdmin_bot: "userIsAdmin (hub_settings cfg) u = userIsDiscordAdmin cfg u"
  by (simp add: userIsAdmin_def hub_settings_def userIsDiscordAdmin_def)

text \<open>
  C39: the parts of one process agree. Hub, web pages and bot work on the daemon's one store; hub and pages share
  the one tracker the process has, which starts empty with the configured time to live, and the pages
  answer for this hub. Whom the hub takes for an administrator, the bot takes for one and the web pages
  give the level admin without asking the database. The key of the cookies has 32 bytes. A start-up
  on an empty database, or on one that satisfies the invariant of the store, leaves a database that
  satisfies it, with the locked Default group in it.
\<close>

theorem one_policy_for_admins:
  assumes "start_daemon hkdf env process s = (Inr d, s')" and "dm_http d = Some side"
  shows "hub_Store (hs_hub side) = dm_store d
    \<and> hs_trackers side = [New (PresenceTTL (dm_config d))] \<and> hub_Presence (hs_hub side) = 0
    \<and> hub_ShareNotifier (hs_hub side) = dm_bot d
    \<and> (\<forall>dbot. dm_bot d = Some dbot \<longrightarrow> bot_Store dbot = dm_store d \<and> userIsDiscordAdmin (bot_Cfg dbot) u = userIsAdmin (hub_Settings (hs_hub side)) u)
    \<and> (\<forall>web. hs_web side = Some web \<longrightarrow> web_Hub web = hs_hub side \<and> web_Presence web = hub_Presence (hs_hub side)
        \<and> srv_store (site_server (web_Site web)) = dm_store d
        \<and> srv_hub (site_server (web_Site web)) = hub_Settings (hs_hub side)
        \<and> length (sessionKey (site_server (web_Site web))) = 32
        \<and> (userIsAdmin (hub_Settings (hs_hub side)) u \<longrightarrow>
             (\<forall>w. webAccessLevel (site_server (web_Site web)) u w = (Inr ''admin'', w))))
    \<and> (s = empty_world\<lparr>clock := t, entropy := en\<rparr> \<or> wf_world s \<and> default_locked s \<longrightarrow> wf_world s' \<and> default_locked s')"
proof -
  from start_daemonD [OF assms(1)] assms(2) obtain g role where g: "EnsureDefaultGroup s = (Inr g, s')"
    and dbot: "dm_bot d = the_bot (dm_config d) (dm_store d) role"
    and run: "runHTTP hkdf (dm_config d) (dm_store d) (dm_bot d) = Inr side" by blast
  note side = runHTTPD [OF run]
  have level: "webAccessLevel \<lparr>srv_store = st, srv_hub = hub_settings cfg, sessionKey = key, accessRoleID = r, bootstrapIDs = DiscordBootstrapAdmins cfg,
      adminRoleID = DiscordAdminRoleID cfg, requireACL = acl\<rparr> u w = (Inr ''admin'', w)" if "userIsDiscordAdmin cfg u" for st key cfg r acl w
    using that by (auto simp: webAccessLevel_def userIsDiscordAdmin_def ret_def)
  have web: "web_Hub web = hs_hub side \<and> web_Presence web = hub_Presence (hs_hub side)
        \<and> srv_store (site_server (web_Site web)) = dm_store d \<and> srv_hub (site_server (web_Site web)) = hub_Settings (hs_hub side)
        \<and> length (sessionKey (site_server (web_Site web))) = 32
        \<and> (userIsAdmin (hub_Settings (hs_hub side)) u \<longrightarrow> (\<forall>w. webAccessLevel (site_server (web_Site web)) u w = (Inr ''admin'', w)))"
    if "hs_web side = Some web" for web
    using side(6) [OF that] by (auto simp: side userIsAdmin_bot length_sha256 level)
  have bots: "bot_Store b = dm_store d \<and> userIsDiscordAdmin (bot_Cfg b) u = userIsAdmin (hub_Settings (hs_hub side)) u" if "dm_bot d = Some b" for b
    using that dbot by (auto simp: the_bot_def side userIsAdmin_bot split: if_splits)
  have "group_inv s'" if "s = empty_world\<lparr>clock := t, entropy := en\<rparr> \<or> wf_world s \<and> default_locked s"
    using that g start_inv keeps_result [OF EnsureDefaultGroup_inv _ g] by (auto simp: group_inv_def)
  then have "s = empty_world\<lparr>clock := t, entropy := en\<rparr> \<or> wf_world s \<and> default_locked s \<longrightarrow> wf_world s' \<and> default_locked s'"
    by (simp add: group_inv_def)
  with web bots side(1-4) show ?thesis by blast
qed

theorem one_policy_for_admins_witness:
  "\<exists>d s' side web dbot. start_daemon (\<lambda>_ _ _ n. Inr (replicate n 7)) sample_environment '' Web '' (empty_world\<lparr>clock := 5, entropy := \<lambda>_. 0\<rparr>) = (Inr d, s')
     \<and> dm_http d = Some side \<and> hs_web side = Some web \<and> dm_bot d = Some dbot \<and> userIsAdmin (hub_Settings (hs_hub side)) sample_user
     \<and> hub_Store (hs_hub side) = srv_store (site_server (web_Site web)) \<and> bot_Store dbot = hub_Store (hs_hub side)
     \<and> webAccessLevel (site_server (web_Site web)) sample_user s' = (Inr ''admin'', s') \<and> default_locked s'"
proof -
  let ?hkdf = "\<lambda>_ _ _ n. Inr (replicate n 7)" and ?s = "empty_world\<lparr>clock := 5, entropy := \<lambda>_. 0\<rparr>"
  obtain cfg where cfg: "Load sample_environment = Inr cfg" "DiscordBootstrapAdmins cfg = [''77'', ''78'']"
      "WebEnabled cfg" "length (DataEncryptionKey cfg) = 32" "WebSessionKey cfg = []"
    by (rule sample_loaded)
  have enabled: "DiscordEnabled cfg" using loaded_web_needs_discord [OF cfg(1,3)] .
  let ?st = "\<lparr>StoreAEAD = DataEncryptionKey cfg, StoreKey = DataEncryptionKey cfg\<rparr>"
  have role: "ParseRole '' Web '' = Inr RoleWeb" by code_simp
  have "TrimSpace (sample_environment ''PORT'') = []" by code_simp
  then have port: "ApplyPlatformPort sample_environment cfg = cfg" by (simp add: ApplyPlatformPort_def)
  have "fst (EnsureDefaultGroup ?s) = Inr 1" by code_simp
  then obtain s' where g: "EnsureDefaultGroup ?s = (Inr 1, s')" by (metis prod.collapse)
  obtain dbot where dbot: "the_bot cfg ?st RoleWeb = Some dbot" using enabled by (simp add: the_bot_def WantsShareREST_def)
  obtain side web where side: "runHTTP ?hkdf cfg ?st (Some dbot) = Inr side" "hs_web side = Some web"
    using cfg(3,5) by (simp add: runHTTP_def session_key_def DeriveKey_def Let_def web_New_def presence_New_def)
  have run: "start_daemon ?hkdf sample_environment '' Web '' ?s = (Inr \<lparr>dm_config = cfg, dm_store = ?st, dm_bot = Some dbot, dm_http = Some side\<rparr>, s')"
    using g side cfg(1,4) by (simp add: start_daemon_def role port Let_def WantsHTTP_def WantsDiscordGateway_def NewAEAD_def ret_def dbot)
  moreover have "userIsAdmin (hub_Settings (hs_hub side)) sample_user"
    using cfg(2) by (simp add: runHTTPD(5) [OF side(1)] userIsAdmin_bot userIsDiscordAdmin_def sample_user_def)
  ultimately show ?thesis
    using one_policy_for_admins [OF run, where u = sample_user and t = 5 and en = "\<lambda>_. 0" and side = side] side(2) by auto
qed

end
