(* ===== verification/Findings.thy ===== *)
theory Findings
  imports Startup HubSteps
begin

text \<open>
  Behaviour the proofs brought to light that spans components: what the restoration of a backup does to
  sessions, two ways around the guard of private shares, a role that can never match and a listing
  that stops the bot. Each lemma shows the behaviour of the model of the code; the properties of the
  other theories say for which requests it is excluded.
\<close>

section \<open>A restored revocation\<close>

definition registered :: "(string \<times> int) list \<Rightarrow> hub \<Rightarrow> bool" where
  "registered cs h \<longleftrightarrow> map (\<lambda>c. (cl_id c, ID (cl_user c))) (clients h) = cs \<and> distinct (map fst cs)"

interpretation still: hub_law "registered cs" st "\<lambda>sid u. (sid, u) \<in> set cs" "\<lambda>_ _. True" for cs st
proof
  fix h sid and u :: User assume "registered cs h" "(sid, ID u) \<in> set cs"
  moreover have "(cl_id c, ID (cl_user c)) = (sid, ID u)" if "c \<in> set (clients h)" "cl_id c = sid" for c
    using calculation that unfolding registered_def by (metis (mono_tags, lifting) eq_key_imp_eq_value image_eqI list.set_map)
  ultimately show "registered cs (h\<lparr>clients := map (\<lambda>c. if cl_id c = sid then c\<lparr>cl_user := u\<rparr> else c) (clients h)\<rparr>)"
    by (auto simp: registered_def intro!: map_cong)
qed (auto simp: registered_def comp_def intro!: map_cong)

text \<open>
  The restoration of a backup may set \<open>access_revoked\<close> of any user, but every session stays registered, with
  its user: nobody is disconnected, as the access switch of the web pages and the hub would do.
\<close>

lemma restore_keeps_sessions:
  assumes "distinct (map cl_id (clients h))"
  shows "map (\<lambda>c. (cl_id c, ID (cl_user c))) (clients (snd (backup_restore srv u rq h))) = map (\<lambda>c. (cl_id c, ID (cl_user c))) (clients h)"
proof -
  let ?I = "registered (map (\<lambda>c. (cl_id c, ID (cl_user c))) (clients h))"
  have start: "?I h" using assms by (simp add: registered_def comp_def)
  have imported: "keeps ?I (lift m)" for m :: "'a db"
    by (rule keeps_lift) (simp add: registered_def)
  have "keeps ?I (backup_restore srv u rq)"
    unfolding backup_restore_def with_form_def storing_def changed_by_def writeErr_def respond_def
    by (intro keeps_rules imported still.broadcast_kept)
  from keepsD [OF this start] show ?thesis by (simp add: registered_def)
qed

section \<open>Around the guard of private shares\<close>

text \<open>
  A row of a CSV file that names a private share sets its password, whoever owns it; the same change through
  the account page is refused to everybody (\<open>share_password_managed_in_gui\<close>).
\<close>

lemma import_sets_private_password:
  assumes "resolveRoleID (CsvRole row) roles = Inr role" and "FindEQAccountIDByUsername st (CsvUsername row) s = (Inr (Some i), s1)"
    and "CsvPassword row \<noteq> []" and "SetEQPassword st i (CsvPassword row) s1 = (Inr (), s2)"
  shows "import_row st roles row res s = import_details row i role (res\<lparr>Updated := Updated res + 1\<rparr>) s2"
  using assms by (simp add: import_row_def attempt_def Let_def)

text \<open>Linking a private share to a group gives the group's members its use, though only the owner may grant it.\<close>

lemma linked_group_opens_share:
  "let bob = \<lparr>ID = 2, DiscordID = ''43'', DisplayName = ''Bob'', RoleIDs = [], AccessRevoked = False\<rparr>;
       w = shared_world\<lparr>users := [sample_user, bob], groups := [\<lparr>g_id = 5, g_name = ''Raid'', g_desc = [], g_web_role = [], g_cmds = []\<rparr>],
             members := [\<lparr>m_group = 5, m_user = Some 2, m_role = None\<rparr>]\<rparr>
   in 1 \<notin> set (case fst (AllowedAccountIDs bob w) of Inr ids \<Rightarrow> ids | Inl _ \<Rightarrow> [])
    \<and> fst (AllowedAccountIDs bob (snd (LinkAccountGroup 1 5 w))) = Inr [1]"
  by code_simp

section \<open>Roles and listings\<close>

text \<open>
  The roles of users are trimmed, the configured admin role is not: with a blank around it nobody holds it
  after a synchronisation.
\<close>

lemma untrimmed_admin_role:
  "TrimSpace r \<noteq> r \<Longrightarrow> r \<notin> set (tidy_roles rs)"
  by (auto simp: tidy_roles_def)

text \<open>An entry without a user is skipped, unless it ends its page: then the bot panics.\<close>

lemma nil_member_panics:
  "member_user (last (m # ms)) = None \<Longrightarrow> guild_members after = Inr (m # ms) \<Longrightarrow>
   \<exists>s'. member_pages guild_members after acc s = Some (PagesPanic, s')"
proof -
  assume nil: "member_user (last (m # ms)) = None" and page: "guild_members after = Inr (m # ms)"
  obtain acc' s' where "sync_page (m # ms) acc s = (Inr acc', s')" using sync_page_ok by blast
  then have "member_pages guild_members after acc s = Some (PagesPanic, s')"
    by (subst member_pages.simps) (simp only: nil page sum.case list.case prod.case option.case)
  then show ?thesis by blast
qed

end
