(* ===== verification/Spec2Isabelle.thy ===== *)
theory Spec2Isabelle
  imports Prelude SoeProtocol Des LoginPacket Presence StdCrypto StoreDb Vault StoreUsers StoreGroups StoreAccounts StoreAccess
    StoreViews StoreActivity StoreShares StoreSteps HubCore Hub HubRelay HubMessages HubLaws WebSession WebAccess WebCsv WebBackup
    WebApi WebLaws HubSteps HubSessions HubSafety WebSafety WebPages WebLogin WebLive
    Config WebLinks Bot Startup Findings
begin

text \<open>
  \<^bold>\<open>Verification library of the Alfred identity backend.\<close>

  The backend lends the EverQuest accounts of a guild to its members. The vault keeps the credentials of
  the accounts encrypted in PostgreSQL. A member's desktop client signs in over a WebSocket (the hub)
  with a token and sends the datagrams of the game's login through it: the hub takes the name the
  player typed, looks up an account the member may use, writes its credentials into the login packet and
  sends the packet to the login server, so that a member plays on an account without ever learning its password. Who
  may use an account follows from grants to users, Discord roles and groups; members can also share accounts of
  their own. A tracker knows who plays on what. Admins manage all this over the same WebSocket or over web pages
  with a Discord login; a Discord bot hands out tokens and mirrors the roles of the guild.

  The parts call each other in one direction. The daemon (\<open>cmd/daemon\<close>) builds, from its settings, one
  store, one tracker, one hub, the web server and the bot. Hub and web server call the store and the tracker;
  the web server tells the hub whom to disconnect, and the hub tells the web server when open pages
  need a new state. The bot calls the store, and the hub calls the bot to announce shares.

  \<^bold>\<open>Theories and sources.\<close> Definitions have the names of the Go functions, types and fields, unless
  HOL has a constant of that name.

  \<^item> \<open>Prelude\<close>: bytes and strings of Go, partial indexing (\<open>None\<close> is a panic), actions over a state that
    end in an error or a value, \<open>keeps I m\<close> with the collection \<open>keeps_rules\<close>, lists and sorting.
  \<^item> \<open>SoeProtocol\<close>: internal/eqlogin/soe.go and crc.go, the transport of the login datagrams and its checksum.
  \<^item> \<open>Des\<close>, \<open>LoginPacket\<close>: DES of the Go library (parts of crypto/des and crypto/cipher), internal/crypto/deswire.go
    and internal/eqlogin/login_packet.go, the packet with the credentials and its splicing.
  \<^item> \<open>Presence\<close>: internal/presence/presence.go, the tracker.
  \<^item> \<open>StdCrypto\<close>, \<open>Vault\<close>: SHA-256, HMAC, AES-256 and GCM of the Go library; internal/crypto/aead.go and token.go.
  \<^item> \<open>StoreDb\<close>: the tables of internal/db/migrations as the record \<open>world\<close>, SQL statements, transactions.
    \<open>StoreUsers\<close>, \<open>StoreGroups\<close> (with discord_commands.go), \<open>StoreAccounts\<close>, \<open>StoreAccess\<close>, \<open>StoreViews\<close> (with
    restricted_manage.go), \<open>StoreActivity\<close> and \<open>StoreShares\<close>: internal/store/store.go, an action per method.
    \<open>StoreSteps\<close>: the store as a state machine (\<open>store_step\<close>, \<open>served\<close>).
  \<^item> \<open>HubCore\<close>: the connectionless parts of internal/sso (validators, choice of an account, relay with its retry).
    \<open>Hub\<close>, \<open>HubRelay\<close>, \<open>HubMessages\<close>: hub.go and hub_relay.go as actions over the record \<open>hub\<close>; \<open>serve\<close> is one turn of the loop of \<open>ServeHTTP\<close>.
    \<open>HubLaws\<close>: the contracts of invariants. \<open>HubSteps\<close>: the hub as a state machine (\<open>hub_step\<close>, \<open>hub_reach\<close>).
    \<open>HubSessions\<close> and \<open>HubSafety\<close>: who is registered, what is sent to whom.
  \<^item> \<open>WebSession\<close>, \<open>WebAccess\<close>, \<open>WebCsv\<close>, \<open>WebBackup\<close>, \<open>WebApi\<close>: internal/web, session.go, access.go with
    accounts_access.go and the gates of server.go, csv.go, backup.go, api.go; one request is one action (\<open>web_api\<close>).
    \<open>WebLaws\<close>, \<open>WebSafety\<close>, \<open>WebPages\<close>: who may change what, what a page shows.
    \<open>WebLogin\<close>: oauth.go, denied.go, cookies and the gate of the user interface. \<open>WebLive\<close>: live.go.
    \<open>WebLinks\<close>: source_import.go and open_alfred.go, the link that hands a token to the desktop client.
  \<^item> \<open>Config\<close>: internal/config, internal/appprocess and internal/crypto/derive.go. \<open>Bot\<close>: internal/discord.
    \<open>Startup\<close>: cmd/daemon, cmd/seedtoken and \<open>web.New\<close>: the store, the tracker (known by its place in a list, so
    that sharing can be stated), the hub, the web server and the bot of one process.
  \<^item> \<open>Findings\<close>: behaviour across components that the proofs brought to light.

  \<^bold>\<open>State and effects.\<close> The state of the store is the \<open>world\<close>: a list of rows per table, the clock, the random
  source and the coming \<open>faults\<close>. Every SQL statement first takes a fault, so a theorem over all worlds holds wherever the
  connection fails. The state of the hub holds a world, a tracker, clients, connections and what was
  written; the web pages act on the same state. Errors are values (\<open>Inl\<close>), panics are \<open>None\<close>
  and are proved not to happen on data of a peer. Goroutines interleave between the steps of \<open>hub_step\<close>, not
  inside one: where the code holds no lock in between, a text says what that leaves out and, for token login,
  \<open>late_session\<close> shows what can slip in.

  \<^bold>\<open>Interfaces.\<close> Locales state what one part relies on in another, and each is interpreted on the model.

  \<^item> \<open>block_cipher\<close> (\<open>des\<close>): what packing credentials needs of DES.
  \<^item> \<open>presence_contract\<close> (\<open>pres\<close>): the tracker as a map from accounts to users.
  \<^item> \<open>unique_names\<close> (\<open>by_alias\<close>, \<open>by_character\<close>) and \<open>grant_list\<close> (\<open>roles\<close>, \<open>users\<close>, \<open>grouped\<close>): login names, and
    the three tables of grants.
  \<^item> \<open>reading_law\<close>, its extensions \<open>hub_law\<close>, \<open>open_hub_law\<close> and \<open>account_law\<close>: what an invariant of the hub
    must bear so that every handler of a kind keeps it; \<open>hub_law\<close> gives \<open>account_law\<close>. Interpreted by the
    invariants \<open>calm\<close>, \<open>same_users\<close>, \<open>sess\<close>, \<open>sound\<close>, \<open>spare\<close> and \<open>still\<close>.

  \<^bold>\<open>What is shown.\<close>

  \<^item> Invariants of reachable states: the schema and the one Default group (\<open>store_invariant\<close>), the books of
    the hub (\<open>hub_invariant\<close>), no session of a user revoked by other means than a restored backup
    (\<open>revoked_users_have_no_session\<close>; \<open>hub_reach\<close> carries the users a restoration revoked).
  \<^item> Credentials go where they should: \<open>uplink_sends_typed_or_authorized\<close> for the hub, the round trips of the packet,
    of sealing, of the vault, of cookies and of links, the exact bound of the splice, checksum and retry of the relay.
  \<^item> Access follows the policy (\<open>may_use\<close>, \<open>web_level\<close>): the queries implement it, and clients, pages, live tabs and slash
    commands show or change something only for those it names, private shares only for their owner.
  \<^item> Effects of operations on every branch, failures included: replacing members is all or nothing, an
    import touches the accounts it names, a synchronisation leaves the roles of the guild and always ends.
  \<^item> Settings that load are usable, and the parts of a process share its store and tracker and agree on its
    administrators.

  \<^bold>\<open>Bounds.\<close> No fuel is used. Loops are structural recursion over lists; \<open>SHA-256\<close>, \<open>AES\<close> and \<open>DES\<close>
  run their fixed rounds. The one loop that need not end is the paging of the guild's members, a
  \<open>partial_function\<close>: \<open>role_sync_returns\<close> proves that it ends when each page continues the last, in pages of 1000
  as the code asks for, and \<open>endless_pages\<close> that it would not otherwise. Integers with a width in Go are words
  where they can wrap (packet fields, checksums, durations); database ids are integers, since serial numbers
  only grow.

  \<^bold>\<open>Outside the repository.\<close> Parameters or inputs of the model: JSON, CSV and base64 of messages (decoded values,
  or functions whose round trip is a hypothesis), uuids, rate limiters, sockets, HKDF, Discord's HTTP interface
  and discordgo. Names are compared on ASCII, as \<open>Prelude\<close> says.

  \<^bold>\<open>Not modelled.\<close> internal/metrics, internal/store/metrics.go and api_metrics.go (counters for a dashboard, in floating
  point); internal/httpapi and internal/db (ping, request log, connection pool, goose); embeds, templates and static files; the HTTP server itself,
  timers, deadlines (a fault where they cut a query short) and log lines. The hub's keepalive pings are left out.

  \<^bold>\<open>Findings.\<close> Lemmas that show behaviour the code or its documentation does not mean: \<open>late_session\<close>,
  \<open>failed_share_is_public\<close>, \<open>blank_password_passes_guard\<close>, \<open>validated_but_too_long\<close>, \<open>strip_restore_width_1\<close>,
  \<open>share_logins_empty_without_login_auth\<close>, \<open>revoked_tab_still_served\<close>, \<open>failed_update_clears_roles\<close>, and
  \<open>restore_keeps_sessions\<close>, \<open>import_sets_private_password\<close>, \<open>linked_group_opens_share\<close>, \<open>untrimmed_admin_role\<close>
  and \<open>nil_member_panics\<close> in \<open>Findings\<close>.
\<close>

end
